(* ===== verification/Prelude.thy ===== *)
theory Prelude
  imports Complex_Main "HOL-Library.Monad_Syntax" "HOL-Library.Log_Nat" "HOL-Library.Signed_Division"
begin

text \<open>
  Shared ground of the development: the C integer conversions, checked array
  accesses, counted loops, and the lemma collections of the components.

  Values of C integer types are \<open>int\<close>: an operand is promoted to \<open>int\<close> and
  computed on exactly, and each store into a narrower object goes through the
  conversion of that object's type (\<open>u8\<close>, \<open>u16\<close>, \<open>u32\<close>, \<open>s8\<close>, \<open>s16\<close>, \<open>s32\<close>).

  \<open>None\<close> in a result of type \<open>'a option\<close> is C's undefined behaviour: an array
  access out of range, a conversion of a float that does not fit, a missing
  \<open>return\<close> value that is used.  A theorem that a function returns \<open>Some\<close>
  is therefore a memory safety theorem.
\<close>

named_theorems conv_defs \<open>definitions of the C integer conversions\<close>
named_theorems run_simps \<open>equations that run a model on concrete input\<close>

section \<open>C integer conversions\<close>

definition u8 :: "int \<Rightarrow> int" where [conv_defs]: "u8 x = x mod 256"
definition u16 :: "int \<Rightarrow> int" where [conv_defs]: "u16 x = x mod 65536"
definition u32 :: "int \<Rightarrow> int" where [conv_defs]: "u32 x = x mod 4294967296"
definition s8 :: "int \<Rightarrow> int" where [conv_defs]: "s8 x = (x + 128) mod 256 - 128"
definition s16 :: "int \<Rightarrow> int" where [conv_defs]: "s16 x = (x + 32768) mod 65536 - 32768"
definition s32 :: "int \<Rightarrow> int" where
  [conv_defs]: "s32 x = (x + 2147483648) mod 4294967296 - 2147483648"

lemma u8_range [simp]: "0 \<le> u8 x" "u8 x < 256"
  by (simp_all add: u8_def)

lemma u16_range [simp]: "0 \<le> u16 x" "u16 x < 65536"
  by (simp_all add: u16_def)

lemma u32_range [simp]: "0 \<le> u32 x" "u32 x < 4294967296"
  by (simp_all add: u32_def)

lemma s16_range [simp]: "- 32768 \<le> s16 x" "s16 x < 32768"
  by (simp_all add: s16_def)

lemma u8_id: "0 \<le> x \<Longrightarrow> x < 256 \<Longrightarrow> u8 x = x"
  by (simp add: u8_def)

lemma u16_id: "0 \<le> x \<Longrightarrow> x < 65536 \<Longrightarrow> u16 x = x"
  by (simp add: u16_def)

lemma u32_id: "0 \<le> x \<Longrightarrow> x < 4294967296 \<Longrightarrow> u32 x = x"
  by (simp add: u32_def)

lemma s16_id: "- 32768 \<le> x \<Longrightarrow> x < 32768 \<Longrightarrow> s16 x = x"
  by (simp add: s16_def)

lemma s32_id: "- 2147483648 \<le> x \<Longrightarrow> x < 2147483648 \<Longrightarrow> s32 x = x"
  by (simp add: s32_def)

text \<open>Signed 32 bit arithmetic is undefined when the exact result does not fit.\<close>

definition chk32 :: "int \<Rightarrow> int option" where
  "chk32 n = (if - 2147483648 \<le> n \<and> n \<le> 2147483647 then Some n else None)"

lemma chk32_ok [simp]: "- 2147483648 \<le> n \<Longrightarrow> n \<le> 2147483647 \<Longrightarrow> chk32 n = Some n"
  by (simp add: chk32_def)

text \<open>The truth value of a C comparison.\<close>

definition c_bool :: "bool \<Rightarrow> int" where
  [run_simps]: "c_bool b = (if b then 1 else 0)"

section \<open>Arrays\<close>

text \<open>A read or write of \<open>a[i]\<close>: defined only inside the array.\<close>

definition rd :: "'a list \<Rightarrow> int \<Rightarrow> 'a option" where
  "rd xs i = (if 0 \<le> i \<and> i < int (length xs) then Some (xs ! nat i) else None)"

definition wr :: "'a list \<Rightarrow> int \<Rightarrow> 'a \<Rightarrow> 'a list option" where
  "wr xs i v = (if 0 \<le> i \<and> i < int (length xs) then Some (xs[nat i := v]) else None)"

lemma rd_Some_iff: "rd xs i = Some v \<longleftrightarrow> 0 \<le> i \<and> i < int (length xs) \<and> v = xs ! nat i"
  by (auto simp: rd_def)

lemma wr_Some_iff: "wr xs i v = Some ys \<longleftrightarrow> 0 \<le> i \<and> i < int (length xs) \<and> ys = xs[nat i := v]"
  by (auto simp: wr_def)

lemma rd_ok [simp]: "0 \<le> i \<Longrightarrow> i < int (length xs) \<Longrightarrow> rd xs i = Some (xs ! nat i)"
  by (simp add: rd_def)

lemma wr_ok [simp]: "0 \<le> i \<Longrightarrow> i < int (length xs) \<Longrightarrow> wr xs i v = Some (xs[nat i := v])"
  by (simp add: wr_def)

lemma rd_oob: "\<not> (0 \<le> i \<and> i < int (length xs)) \<Longrightarrow> rd xs i = None"
  unfolding rd_def by (rule if_not_P)

lemma wr_length: "wr xs i v = Some ys \<Longrightarrow> length ys = length xs"
  by (auto simp: wr_Some_iff)

lemma rd_wr: "wr xs i v = Some ys \<Longrightarrow> rd ys j = (if j = i then Some v else rd xs j)"
  by (auto simp: wr_Some_iff rd_def nth_list_update)

section \<open>Counted loops\<close>

text \<open>
  \<open>for_each f is s\<close> runs the body \<open>f i\<close> for each index of the list in order;
  \<open>for_break\<close> is a loop whose body may leave it (\<open>Inl r\<close>: a \<open>break\<close> or a
  \<open>return\<close>).  Indices of \<open>for(i = lo; i < hi; i++)\<close> are \<open>[lo..hi - 1]\<close>, those
  of \<open>for(i = hi; i >= lo; i--)\<close> are \<open>rev [lo..hi]\<close>.
\<close>

fun for_each :: "(int \<Rightarrow> 's \<Rightarrow> 's option) \<Rightarrow> int list \<Rightarrow> 's \<Rightarrow> 's option" where
  "for_each f [] s = Some s"
| "for_each f (i # js) s = Option.bind (f i s) (\<lambda>s'. for_each f js s')"

fun for_break :: "(int \<Rightarrow> 's \<Rightarrow> ('r + 's) option) \<Rightarrow> int list \<Rightarrow> 's \<Rightarrow> ('r + 's) option" where
  "for_break f [] s = Some (Inr s)"
| "for_break f (i # js) s =
     Option.bind (f i s) (\<lambda>r. case r of Inl x \<Rightarrow> Some (Inl x) | Inr s' \<Rightarrow> for_break f js s')"

abbreviation downto :: "int \<Rightarrow> int \<Rightarrow> int list" where
  "downto hi lo \<equiv> rev [lo..hi]"

lemma for_each_append:
  "for_each f (xs @ ys) s = Option.bind (for_each f xs s) (for_each f ys)"
  by (induction xs arbitrary: s) (auto split: Option.bind_splits)

text \<open>Invariant rules: the body is defined and keeps the invariant, so the loop does.\<close>

lemma for_each_inv:
  assumes "\<And>i s. i \<in> set js \<Longrightarrow> P s \<Longrightarrow> \<exists>s'. f i s = Some s' \<and> P s'" and "P s"
  shows "\<exists>s'. for_each f js s = Some s' \<and> P s'"
  using assms
proof (induction js arbitrary: s)
  case Nil
  then show ?case by simp
next
  case (Cons i js)
  from Cons.prems obtain t where "f i s = Some t" "P t" by force
  with Cons.IH [of t] Cons.prems(1) show ?case by force
qed

lemma for_break_inv:
  assumes "\<And>i s. i \<in> set js \<Longrightarrow> P s \<Longrightarrow>
      \<exists>r. f i s = Some r \<and> (case r of Inl x \<Rightarrow> Q x | Inr s' \<Rightarrow> P s')"
    and "P s"
  shows "\<exists>r. for_break f js s = Some r \<and> (case r of Inl x \<Rightarrow> Q x | Inr s' \<Rightarrow> P s')"
  using assms
proof (induction js arbitrary: s)
  case Nil
  then show ?case by simp
next
  case (Cons i js)
  from Cons.prems obtain r where r: "f i s = Some r" "case r of Inl x \<Rightarrow> Q x | Inr s' \<Rightarrow> P s'"
    by force
  show ?case
  proof (cases r)
    case (Inl x)
    with r show ?thesis by simp
  next
    case (Inr t)
    with r have "P t" by simp
    with Cons.IH [of t] Cons.prems(1) r Inr show ?thesis by force
  qed
qed

text \<open>The same with an invariant that counts: \<open>P k s\<close> holds before the pass with index \<open>k\<close>.\<close>

lemma for_up_inv:
  assumes step: "\<And>i s. lo \<le> i \<Longrightarrow> i < hi \<Longrightarrow> P i s \<Longrightarrow> \<exists>s'. f i s = Some s' \<and> P (i + 1) s'"
    and "P lo s" and "lo \<le> hi"
  shows "\<exists>s'. for_each f [lo..hi - 1] s = Some s' \<and> P hi s'"
proof -
  have "\<exists>s'. for_each f [lo..hi - 1] s = Some s' \<and> P hi s'"
    if "P lo s" "nat (hi - lo) = n" "lo \<le> hi" "\<And>i s. lo \<le> i \<Longrightarrow> i < hi \<Longrightarrow> P i s \<Longrightarrow> \<exists>s'. f i s = Some s' \<and> P (i + 1) s'"
    for lo s n
    using that
  proof (induction n arbitrary: lo s)
    case 0
    then show ?case by simp
  next
    case (Suc n)
    then have lt: "lo < hi" by linarith
    with Suc.prems obtain t where t: "f lo s = Some t" "P (lo + 1) t" by blast
    have "\<exists>s'. for_each f [lo + 1..hi - 1] t = Some s' \<and> P hi s'"
      using t(2) Suc.prems lt by (intro Suc.IH) auto
    with t lt show ?case by (simp add: upto_rec1)
  qed
  with assms show ?thesis by blast
qed

lemma bind_Some_ex:
  assumes "\<exists>x. m = Some x \<and> P x" and "\<And>x. P x \<Longrightarrow> \<exists>y. f x = Some y \<and> Q y"
  shows "\<exists>y. Option.bind m f = Some y \<and> Q y"
  using assms by fastforce

lemma those_map_Some: "(\<And>x. x \<in> set xs \<Longrightarrow> f x = Some (g x)) \<Longrightarrow> those (map f xs) = Some (map g xs)"
  by (induction xs) auto

lemma those_map_all2: "those (map f xs) = Some ys \<Longrightarrow> list_all2 (\<lambda>x y. f x = Some y) xs ys"
  by (induction xs arbitrary: ys) (auto split: option.splits)

lemma for_break_Inr: "(\<And>i s. i \<in> set js \<Longrightarrow> f i s = Some (Inr s)) \<Longrightarrow> for_break f js s = Some (Inr s)"
  by (induction js) auto

lemma for_each_cong: "(\<And>i s. i \<in> set js \<Longrightarrow> f i s = g i s) \<Longrightarrow> for_each f js s = for_each g js s"
  by (induction js arbitrary: s) (auto intro!: Option.bind_cong)

lemma for_each_count:
  assumes "\<And>i n. i \<in> set js \<Longrightarrow> lo \<le> n \<Longrightarrow> n + d \<le> lo + d * int (length js) \<Longrightarrow> f i (h n) = Some (h (n + d))" and "0 \<le> d"
  shows "for_each f js (h lo) = Some (h (lo + d * int (length js)))"
  using assms
proof (induction js arbitrary: lo)
  case (Cons i js)
  have "for_each f js (h (lo + d)) = Some (h (lo + d + d * int (length js)))"
    by (rule Cons.IH) (use Cons.prems in \<open>auto simp: algebra_simps\<close>)
  moreover have "f i (h lo) = Some (h (lo + d))"
    by (rule Cons.prems(1)) (use Cons.prems(2) in \<open>auto simp: algebra_simps\<close>)
  ultimately show ?case by (simp add: algebra_simps)
qed simp

lemma for_break_append:
  "for_break f (xs @ ys) s = (case for_break f xs s of None \<Rightarrow> None | Some (Inl x) \<Rightarrow> Some (Inl x) | Some (Inr t) \<Rightarrow> for_break f ys t)"
  by (induction xs arbitrary: s) (auto split: Option.bind_splits sum.splits)

lemma for_down_inv:
  assumes "Q hi s" and "\<And>i s. lo \<le> i \<Longrightarrow> i \<le> hi \<Longrightarrow> Q i s \<Longrightarrow> \<exists>s'. f i s = Some s' \<and> Q (i - 1) s'" and "lo \<le> hi + 1"
  shows "\<exists>s'. for_each f (downto hi lo) s = Some s' \<and> Q (lo - 1) s'"
  using assms
proof (induction "nat (hi + 1 - lo)" arbitrary: hi s)
  case 0
  then have "hi = lo - 1" by simp
  with 0 show ?case by simp
next
  case (Suc n)
  then have hi: "lo \<le> hi" by linarith
  with Suc.prems obtain t where t: "f hi s = Some t" "Q (hi - 1) t" by blast
  have "\<exists>s'. for_each f (downto (hi - 1) lo) t = Some s' \<and> Q (lo - 1) s'"
    using Suc.hyps(2) Suc.prems t(2) hi by (intro Suc.hyps(1)) auto
  with t(1) hi show ?case by (simp add: upto_rec2)
qed

lemma fill_down:
  assumes "length m = n"
  shows "for_each (\<lambda>i m. wr m i (g i)) (downto (int n - 1) 0) m = Some (map g [0..int n - 1])"
proof -
  have "\<exists>m'. for_each (\<lambda>i m. wr m i (g i)) (downto (int n - 1) 0) m = Some m' \<and>
      (length m' = n \<and> (\<forall>j. 0 - 1 < j \<longrightarrow> j < int n \<longrightarrow> m' ! nat j = g j))"
    by (rule for_down_inv [where Q = "\<lambda>k m. length m = n \<and> (\<forall>j. k < j \<longrightarrow> j < int n \<longrightarrow> m ! nat j = g j)"])
      (use assms in \<open>auto simp: nth_list_update eq_nat_nat_iff\<close>)
  then obtain m' where m': "for_each (\<lambda>i m. wr m i (g i)) (downto (int n - 1) 0) m = Some m'" "length m' = n"
    "\<forall>j. 0 - 1 < j \<longrightarrow> j < int n \<longrightarrow> m' ! nat j = g j" by blast
  moreover have "m' = map g [0..int n - 1]"
    using m'(2,3) by (intro nth_equalityI) (auto dest: spec [of _ "int _"])
  ultimately show ?thesis by simp
qed

lemma sdiv_nonneg: "0 \<le> a \<Longrightarrow> 0 < b \<Longrightarrow> a sdiv b = a div (b :: int)"
  by (simp add: signed_divide_int_def sgn_if)

end
