(* ===== verification/Floats.thy ===== *)
theory Floats
  imports Prelude
begin

text \<open>
  IEEE 754 arithmetic as the C code uses it: \<open>float\<close> is binary32, \<open>double\<close> is
  binary64, every operation rounds the exact result to nearest, ties to even.
  A value is a rational number, an infinity or NaN; subnormal numbers are
  kept, and so is overflow.  The sign of a zero is not kept: the program divides only by
  converted integers and by values it has compared with a positive bound,
  so no result depends on it.
\<close>

section \<open>Powers of two and the binary exponent of a rational\<close>

definition pow2 :: "int \<Rightarrow> rat" where
  "pow2 e = (if 0 \<le> e then 2 ^ nat e else 1 / 2 ^ nat (- e))"

lemma pow2_powi: "pow2 e = 2 powi e"
  by (simp add: pow2_def power_int_def power_one_over inverse_eq_divide)

lemma pow2_pos [simp]: "0 < pow2 e"
  by (simp add: pow2_powi)

lemma pow2_nz [simp]: "pow2 e \<noteq> 0"
  using pow2_pos [of e] by linarith

lemma pow2_nonneg [simp]: "0 \<le> pow2 e"
  using pow2_pos [of e] by linarith

lemma pow2_add: "pow2 (a + b) = pow2 a * pow2 b"
  by (simp add: pow2_powi power_int_add)

lemma pow2_diff: "pow2 (a - b) = pow2 a / pow2 b"
  by (simp add: pow2_powi power_int_diff)

lemma pow2_less_iff [simp]: "pow2 a < pow2 b \<longleftrightarrow> a < b"
proof -
  have "pow2 m < pow2 n" if "m < n" for m n
    using that by (simp add: pow2_powi power_int_strict_increasing)
  from this [of a b] this [of b a] show ?thesis
    by (cases a b rule: linorder_cases) auto
qed

lemma pow2_le_iff [simp]: "pow2 a \<le> pow2 b \<longleftrightarrow> a \<le> b"
  using pow2_less_iff [of b a] by (simp only: linorder_not_less [symmetric])

lemma divide_pow2_mono: "x \<le> y \<Longrightarrow> x / pow2 e \<le> y / pow2 e"
  by (rule divide_right_mono) (simp_all add: less_imp_le)

lemma pow2_nat: "pow2 (int n) = of_int (2 ^ n)"
  by (simp add: pow2_def)

text \<open>\<open>ilog2 x\<close> is the exponent \<open>e\<close> with \<open>2 ^ e \<le> x < 2 ^ (e + 1)\<close>.\<close>

definition ilog2 :: "rat \<Rightarrow> int" where
  "ilog2 x = (if 1 \<le> x then bitlen \<lfloor>x\<rfloor> - 1 else - bitlen (\<lceil>1 / x\<rceil> - 1))"

lemma bitlen_rat_bounds:
  assumes "0 < n"
  shows "pow2 (bitlen n - 1) \<le> of_int n" and "of_int n + 1 \<le> pow2 (bitlen n)"
proof -
  have pos: "0 < bitlen n"
    using assms bitlen_eq_zero_iff bitlen_nonneg by (metis linorder_not_less order_le_less)
  have b: "2 ^ nat (bitlen n - 1) \<le> n" "n + 1 \<le> 2 ^ nat (bitlen n)"
    using bitlen_bounds [OF assms] by linarith+
  from b(1) have "of_int (2 ^ nat (bitlen n - 1)) \<le> (of_int n :: rat)"
    by (simp only: of_int_le_iff)
  with pos show "pow2 (bitlen n - 1) \<le> of_int n" by (simp add: pow2_def)
  from b(2) have "of_int (n + 1) \<le> (of_int (2 ^ nat (bitlen n)) :: rat)"
    by (simp only: of_int_le_iff)
  with pos show "of_int n + 1 \<le> pow2 (bitlen n)" by (simp add: pow2_def)
qed

lemma ilog2_bounds:
  assumes "0 < x"
  shows "pow2 (ilog2 x) \<le> x" and "x < pow2 (ilog2 x + 1)"
proof -
  have "pow2 (ilog2 x) \<le> x \<and> x < pow2 (ilog2 x + 1)"
  proof (cases "1 \<le> x")
    case True
    then have n: "0 < \<lfloor>x\<rfloor>" by simp
    have "of_int \<lfloor>x\<rfloor> \<le> x" "x < of_int \<lfloor>x\<rfloor> + 1" by linarith+
    then have "pow2 (bitlen \<lfloor>x\<rfloor> - 1) \<le> x \<and> x < pow2 (bitlen \<lfloor>x\<rfloor>)"
      using bitlen_rat_bounds [OF n] by linarith
    with True show ?thesis by (simp add: ilog2_def)
  next
    case False
    define k where "k = \<lceil>1 / x\<rceil> - 1"
    have x1: "1 < 1 / x" using False assms by simp
    then have k: "0 < k" unfolding k_def by linarith
    have kx: "of_int k < 1 / x" "1 / x \<le> of_int k + 1" unfolding k_def by linarith+
    have "pow2 (bitlen k - 1) < 1 / x" "1 / x \<le> pow2 (bitlen k)"
      using bitlen_rat_bounds [OF k] kx by linarith+
    then have "x < 1 / pow2 (bitlen k - 1)" "1 / pow2 (bitlen k) \<le> x"
      using assms by (simp_all add: field_simps)
    moreover have "pow2 (ilog2 x) = 1 / pow2 (bitlen k)"
      using False pow2_diff [of 0 "bitlen k"] by (simp add: ilog2_def k_def pow2_def [of 0])
    moreover have "pow2 (ilog2 x + 1) = 1 / pow2 (bitlen k - 1)"
      using False pow2_diff [of 0 "bitlen k - 1"]
      by (simp add: ilog2_def k_def pow2_def [of 0] algebra_simps)
    ultimately show ?thesis by simp
  qed
  then show "pow2 (ilog2 x) \<le> x" and "x < pow2 (ilog2 x + 1)" by auto
qed

lemma ilog2_less: "0 < x \<Longrightarrow> x < pow2 k \<Longrightarrow> ilog2 x < k"
  using ilog2_bounds(1) [of x] pow2_less_iff [of "ilog2 x" k] by linarith

lemma ilog2_mono: "0 < x \<Longrightarrow> x \<le> y \<Longrightarrow> ilog2 x \<le> ilog2 y"
  using ilog2_less [of x "ilog2 y + 1"] ilog2_bounds(2) [of y] by linarith

section \<open>Rounding to nearest, ties to even\<close>

definition rhe :: "rat \<Rightarrow> int" where
  "rhe x = (let f = \<lfloor>x\<rfloor>; r = x - of_int f in
     if r < 1 / 2 then f else if r > 1 / 2 then f + 1 else if even f then f else f + 1)"

lemma rhe_error: "\<bar>of_int (rhe x) - x\<bar> \<le> 1 / 2"
proof -
  define f where "f = (of_int \<lfloor>x\<rfloor> :: rat)"
  have "f \<le> x" "x < f + 1" unfolding f_def by linarith+
  then show ?thesis by (auto simp: rhe_def Let_def abs_le_iff f_def [symmetric])
qed

lemma rhe_of_int [simp]: "rhe (of_int n) = n"
  by (simp add: rhe_def)

lemma rhe_mono:
  assumes "x \<le> y"
  shows "rhe x \<le> rhe y"
proof (cases "\<lfloor>x\<rfloor> = \<lfloor>y\<rfloor>")
  case True
  with assms show ?thesis by (auto simp: rhe_def Let_def)
next
  case False
  with assms have "\<lfloor>x\<rfloor> + 1 \<le> \<lfloor>y\<rfloor>" using floor_mono [OF assms] by linarith
  moreover have "rhe x \<le> \<lfloor>x\<rfloor> + 1" "\<lfloor>y\<rfloor> \<le> rhe y" by (simp_all add: rhe_def Let_def)
  ultimately show ?thesis by linarith
qed

lemma rhe_neg: "rhe (- x) = - rhe x"
proof (cases "x = of_int \<lfloor>x\<rfloor>")
  case True
  then show ?thesis by (metis of_int_minus rhe_of_int)
next
  case False
  then have "of_int \<lfloor>x\<rfloor> < x" "x < of_int \<lfloor>x\<rfloor> + 1" by linarith+
  then have fl: "\<lfloor>- x\<rfloor> = - \<lfloor>x\<rfloor> - 1"
    by (intro floor_unique) simp_all
  show ?thesis by (auto simp: rhe_def Let_def fl)
qed

text \<open>
  \<open>rnd p emin\<close> rounds to precision \<open>p\<close> with least normal exponent \<open>emin\<close>; the
  result is a multiple of the quantum \<open>pow2 (qexp p emin x)\<close>.
\<close>

definition qexp :: "nat \<Rightarrow> int \<Rightarrow> rat \<Rightarrow> int" where
  "qexp p emin x = max (ilog2 \<bar>x\<bar>) emin - (int p - 1)"

definition rnd :: "nat \<Rightarrow> int \<Rightarrow> rat \<Rightarrow> rat" where
  "rnd p emin x = (if x = 0 then 0
     else let q = pow2 (qexp p emin x) in of_int (rhe (x / q)) * q)"

lemma rnd_zero [simp]: "rnd p emin 0 = 0"
  by (simp add: rnd_def)

lemma rnd_neg: "rnd p emin (- x) = - rnd p emin x"
  by (simp add: rnd_def qexp_def Let_def rhe_neg)

lemma rnd_nonneg: "0 \<le> x \<Longrightarrow> 0 \<le> rnd p emin x"
proof -
  assume "0 \<le> x"
  then have "rhe (of_int 0) \<le> rhe (x / pow2 (qexp p emin x))"
    using divide_pow2_mono [of 0 x "qexp p emin x"] by (intro rhe_mono) simp
  then have "0 \<le> rhe (x / pow2 (qexp p emin x))" unfolding rhe_of_int .
  then show ?thesis by (simp add: rnd_def Let_def mult_nonneg_nonneg)
qed

lemma scaled_less:
  assumes "0 < x"
  shows "x / pow2 (qexp p emin x) < of_int (2 ^ p)"
proof -
  let ?E = "max (ilog2 \<bar>x\<bar>) emin"
  have "x < pow2 (ilog2 x + 1)" using ilog2_bounds(2) [OF assms] .
  also have "\<dots> \<le> pow2 (?E + 1)" using assms by simp
  also have "\<dots> = of_int (2 ^ p) * pow2 (qexp p emin x)"
    by (simp only: qexp_def pow2_nat [symmetric] pow2_add [symmetric]) simp
  finally show ?thesis by (simp add: field_simps)
qed

lemma rhe_scaled_le: "0 < x \<Longrightarrow> rhe (x / pow2 (qexp p emin x)) \<le> 2 ^ p"
  using rhe_mono [OF less_imp_le [OF scaled_less]] by (metis rhe_of_int)

lemma rnd_le_pow2:
  assumes "0 < x"
  shows "rnd p emin x \<le> pow2 (max (ilog2 x) emin + 1)"
proof -
  have "rnd p emin x \<le> of_int (2 ^ p) * pow2 (qexp p emin x)"
    using rhe_scaled_le [OF assms, of p emin] assms
    by (simp only: rnd_def Let_def of_int_le_iff if_False mult_right_mono pow2_pos less_imp_le)
      (simp add: mult_right_mono)
  also have "\<dots> = pow2 (max (ilog2 x) emin + 1)"
    using assms by (simp only: qexp_def pow2_nat [symmetric] pow2_add [symmetric]) simp
  finally show ?thesis .
qed

lemma rnd_ge_pow2:
  assumes "0 < x" and "emin \<le> ilog2 x" and "0 < p"
  shows "pow2 (ilog2 x) \<le> rnd p emin x"
proof -
  have q: "qexp p emin x = ilog2 x - int (p - 1)" using assms by (simp add: qexp_def of_nat_diff)
  have "of_int (2 ^ (p - 1)) \<le> x / pow2 (qexp p emin x)"
    using ilog2_bounds(1) [OF assms(1)]
    by (simp only: q pow2_diff pow2_nat [symmetric]) (simp add: field_simps)
  then have "2 ^ (p - 1) \<le> rhe (x / pow2 (qexp p emin x))"
    using rhe_mono by (metis rhe_of_int)
  then have "of_int (2 ^ (p - 1)) * pow2 (qexp p emin x) \<le> rnd p emin x"
    using assms(1) by (simp only: rnd_def Let_def of_int_le_iff) (simp add: mult_right_mono)
  then show ?thesis
    by (simp only: q pow2_nat [symmetric] pow2_add [symmetric]) simp
qed

lemma rnd_mono_pos:
  assumes "0 < x" and "x \<le> y" and "0 < p"
  shows "rnd p emin x \<le> rnd p emin y"
proof (cases "max (ilog2 x) emin = max (ilog2 y) emin")
  case True
  then have q: "qexp p emin x = qexp p emin y" using assms by (simp add: qexp_def)
  have "rhe (x / pow2 (qexp p emin x)) \<le> rhe (y / pow2 (qexp p emin x))"
    using assms by (intro rhe_mono divide_pow2_mono)
  with assms show ?thesis by (simp add: rnd_def Let_def q mult_right_mono)
next
  case False
  with ilog2_mono [OF assms(1,2)] have lt: "max (ilog2 x) emin < ilog2 y" by auto
  have "rnd p emin x \<le> pow2 (max (ilog2 x) emin + 1)" using assms by (intro rnd_le_pow2)
  also have "\<dots> \<le> pow2 (ilog2 y)" using lt by (simp only: pow2_le_iff)
  also have "\<dots> \<le> rnd p emin y" using assms lt by (intro rnd_ge_pow2) auto
  finally show ?thesis .
qed

lemma rnd_mono:
  assumes "x \<le> y" and "0 < p"
  shows "rnd p emin x \<le> rnd p emin y"
proof -
  consider "0 < x" | "x \<le> 0" "0 \<le> y" | "y < 0" by linarith
  then show ?thesis
  proof cases
    case 1
    with assms show ?thesis by (intro rnd_mono_pos)
  next
    case 2
    then have "0 \<le> rnd p emin (- x)" "0 \<le> rnd p emin y" by (simp_all add: rnd_nonneg)
    then show ?thesis by (simp add: rnd_neg)
  next
    case 3
    with assms have "rnd p emin (- y) \<le> rnd p emin (- x)" by (intro rnd_mono_pos) auto
    then show ?thesis by (simp add: rnd_neg)
  qed
qed

text \<open>A value that is an integer multiple of its quantum is not changed.\<close>

lemma rnd_exact:
  assumes "x = of_int n * pow2 (qexp p emin x)"
  shows "rnd p emin x = x"
proof (cases "x = 0")
  case False
  define q where "q = pow2 (qexp p emin x)"
  have xq: "x = of_int n * q" unfolding q_def by (rule assms)
  have "q \<noteq> 0" by (simp add: q_def)
  with xq have "x / q = of_int n" by (metis nonzero_mult_div_cancel_right)
  then have "rhe (x / q) = n" by (simp only: rhe_of_int)
  moreover have "rnd p emin x = of_int (rhe (x / q)) * q"
    using False by (simp add: rnd_def Let_def q_def)
  ultimately show ?thesis using xq by simp
qed simp

lemma qexp_le:
  assumes "x \<noteq> 0" and "\<bar>x\<bar> < pow2 (e + int p)" and "emin - (int p - 1) \<le> e"
  shows "qexp p emin x \<le> e"
proof -
  have "ilog2 \<bar>x\<bar> < e + int p" using assms by (intro ilog2_less) auto
  with assms(3) show ?thesis by (simp add: qexp_def)
qed

lemma rnd_multiple_less:
  assumes "x = of_int m * pow2 e" and "\<bar>m\<bar> < 2 ^ p" and "emin - (int p - 1) \<le> e"
  shows "rnd p emin x = x"
proof (cases "x = 0")
  case False
  have ax: "\<bar>x\<bar> = of_int \<bar>m\<bar> * pow2 e" by (simp add: assms(1) abs_mult abs_of_pos)
  have "(of_int \<bar>m\<bar> :: rat) < of_int (2 ^ p)" using assms(2) by (simp only: of_int_less_iff)
  then have "\<bar>x\<bar> < of_int (2 ^ p) * pow2 e" unfolding ax by (rule mult_strict_right_mono) simp
  then have "\<bar>x\<bar> < pow2 (e + int p)" by (simp only: pow2_add pow2_nat mult.commute)
  with False assms(3) have q: "qexp p emin x \<le> e" by (intro qexp_le)
  define d where "d = nat (e - qexp p emin x)"
  have e: "e = int d + qexp p emin x" using q by (simp add: d_def)
  have "x = of_int (m * 2 ^ d) * pow2 (qexp p emin x)"
    using assms(1) unfolding e pow2_add pow2_nat by simp
  then show ?thesis by (rule rnd_exact)
qed simp

lemma rnd_multiple:
  assumes "x = of_int m * pow2 e" and "\<bar>m\<bar> \<le> 2 ^ p" and "emin - (int p - 1) \<le> e" and "0 < p"
  shows "rnd p emin x = x"
proof (cases "\<bar>m\<bar> < 2 ^ p")
  case True
  with assms show ?thesis by (intro rnd_multiple_less)
next
  case False
  with assms(2) have "m = 2 ^ p \<or> m = - (2 ^ p)" by (auto simp: abs_if split: if_splits)
  moreover have "(2::int) ^ p = 2 ^ (p - 1) * 2" using assms(4) by (cases p) auto
  ultimately obtain m' where m': "m = m' * 2" "\<bar>m'\<bar> < 2 ^ p"
    using assms(4) by (metis abs_minus_cancel abs_of_pos mult_minus_left
        power_strict_increasing_iff diff_less one_less_numeral_iff semiring_norm(76) zero_less_numeral zero_less_power zero_less_one)
  have "x = of_int m' * pow2 (1 + e)"
    using assms(1) m'(1) by (simp add: pow2_add pow2_def [of 1])
  with m'(2) assms(3) show ?thesis by (intro rnd_multiple_less [of x m' "1 + e"]) auto
qed

lemma rnd_idem:
  assumes "0 < p"
  shows "rnd p emin (rnd p emin x) = rnd p emin x"
proof -
  have pos: "rnd p emin (rnd p emin y) = rnd p emin y" if "0 < y" for y
  proof (rule rnd_multiple)
    show "rnd p emin y = of_int (rhe (y / pow2 (qexp p emin y))) * pow2 (qexp p emin y)"
      using that by (simp add: rnd_def Let_def)
    have "rhe (of_int 0) \<le> rhe (y / pow2 (qexp p emin y))" 
      using that divide_pow2_mono [of 0 y] by (intro rhe_mono) (simp add: less_imp_le)
    with rhe_scaled_le [OF that, of p emin] show "\<bar>rhe (y / pow2 (qexp p emin y))\<bar> \<le> 2 ^ p"
      unfolding rhe_of_int by simp
  qed (use assms in \<open>auto simp: qexp_def\<close>)
  consider "0 < x" | "x = 0" | "0 < - x" by linarith
  then show ?thesis
    using pos [of x] pos [of "- x"] by cases (simp_all add: rnd_neg)
qed

lemma rnd_of_int:
  assumes "\<bar>n\<bar> \<le> 2 ^ p" and "emin \<le> int p - 1" and "0 < p"
  shows "rnd p emin (of_int n) = of_int n"
  using assms by (intro rnd_multiple [where m = n and e = 0]) (auto simp: pow2_def)

lemma rnd_error:
  assumes "\<bar>x\<bar> < pow2 k" and "emin < k"
  shows "\<bar>rnd p emin x - x\<bar> \<le> pow2 (k - int p - 1)"
proof (cases "x = 0")
  case False
  let ?q = "pow2 (qexp p emin x)"
  have "ilog2 \<bar>x\<bar> < k" using assms False by (intro ilog2_less) auto
  then have "qexp p emin x \<le> k - int p" using assms(2) by (simp add: qexp_def)
  then have q: "?q \<le> pow2 (k - int p)" by simp
  have "rnd p emin x - x = (of_int (rhe (x / ?q)) - x / ?q) * ?q"
    using False by (simp add: rnd_def Let_def algebra_simps)
  then have "\<bar>rnd p emin x - x\<bar> = \<bar>of_int (rhe (x / ?q)) - x / ?q\<bar> * ?q"
    by (simp add: abs_mult abs_of_pos)
  also have "\<dots> \<le> 1 / 2 * ?q" by (intro mult_right_mono rhe_error) (simp add: less_imp_le)
  also have "\<dots> \<le> 1 / 2 * pow2 (k - int p)" using q by simp
  also have "\<dots> = pow2 (k - int p - 1)" by (simp add: pow2_diff pow2_def [of 1])
  finally show ?thesis .
qed simp

section \<open>The contract of a rounding function\<close>

text \<open>
  What the arithmetic of the components relies on: rounding is monotone,
  symmetric and idempotent, and \<open>mx\<close>, the greatest finite value, is a fixed point.
  The lemmas that follow are proved once from these laws and hold for both
  formats.
\<close>

locale float_format =
  fixes R :: "rat \<Rightarrow> rat" and mx :: rat
  assumes R_mono: "x \<le> y \<Longrightarrow> R x \<le> R y"
    and R_neg: "R (- x) = - R x"
    and R_idem: "R (R x) = R x"
    and R_mx: "R mx = mx"
    and mx_ge_1: "1 \<le> mx"

context float_format
begin

lemma R_zero: "R 0 = 0"
  using R_neg [of 0] by simp

lemma R_nonneg: "0 \<le> x \<Longrightarrow> 0 \<le> R x"
  using R_mono [of 0 x] by (simp add: R_zero)

lemma R_nonpos: "x \<le> 0 \<Longrightarrow> R x \<le> 0"
  using R_mono [of x 0] by (simp add: R_zero)

lemma R_le_fix: "R b = b \<Longrightarrow> x \<le> b \<Longrightarrow> R x \<le> b"
  using R_mono [of x b] by simp

lemma R_ge_fix: "R b = b \<Longrightarrow> b \<le> x \<Longrightarrow> b \<le> R x"
  using R_mono [of b x] by simp

lemma R_abs_le_fix: "R b = b \<Longrightarrow> \<bar>x\<bar> \<le> b \<Longrightarrow> \<bar>R x\<bar> \<le> b"
  using R_le_fix [of b x] R_ge_fix [of "- b" x] by (auto simp: abs_le_iff R_neg)

lemma R_no_overflow: "\<bar>x\<bar> \<le> mx \<Longrightarrow> \<bar>R x\<bar> \<le> mx"
  by (rule R_abs_le_fix [OF R_mx])

lemma R_abs: "\<bar>R x\<bar> = R \<bar>x\<bar>"
  using R_nonneg [of x] R_nonpos [of x] R_neg [of x] by (cases "0 \<le> x") (auto simp: abs_if)

end

text \<open>binary32 and binary64 as instances: precision, least exponent, greatest value.\<close>

definition rnd32 :: "rat \<Rightarrow> rat" where "rnd32 = rnd 24 (-126)"
definition rnd64 :: "rat \<Rightarrow> rat" where "rnd64 = rnd 53 (-1022)"
definition mx32 :: rat where "mx32 = of_int ((2 ^ 24 - 1) * 2 ^ 104)"
definition mx64 :: rat where "mx64 = of_int ((2 ^ 53 - 1) * 2 ^ 971)"

lemma rnd32_mx: "rnd32 mx32 = mx32"
  unfolding rnd32_def
  by (rule rnd_multiple_less [where m = "2 ^ 24 - 1" and e = 104])
    (simp_all add: mx32_def pow2_def)

lemma rnd64_mx: "rnd64 mx64 = mx64"
  unfolding rnd64_def
  by (rule rnd_multiple_less [where m = "2 ^ 53 - 1" and e = 971])
    (simp_all add: mx64_def pow2_def del: of_int_power)

interpretation b32: float_format rnd32 mx32
  by unfold_locales (simp_all add: rnd32_mx, simp_all add: rnd32_def rnd_mono rnd_neg rnd_idem mx32_def)

interpretation b64: float_format rnd64 mx64
  by unfold_locales (simp_all add: rnd64_mx, simp_all add: rnd64_def rnd_mono rnd_neg rnd_idem mx64_def)

lemma rnd32_of_int: "\<bar>n\<bar> \<le> 16777216 \<Longrightarrow> rnd32 (of_int n) = of_int n"
  unfolding rnd32_def by (rule rnd_of_int) simp_all

lemma rnd64_of_int: "\<bar>n\<bar> \<le> 9007199254740992 \<Longrightarrow> rnd64 (of_int n) = of_int n"
  unfolding rnd64_def by (rule rnd_of_int) simp_all

lemma rnd32_numeral [simp]: "numeral n \<le> (16777216 :: int) \<Longrightarrow> rnd32 (numeral n) = numeral n"
  using rnd32_of_int [of "numeral n"] by simp

lemma rnd32_one [simp]: "rnd32 1 = 1"
  using rnd32_of_int [of 1] by simp

lemma rnd32_zero [simp]: "rnd32 0 = 0"
  by (rule b32.R_zero)

section \<open>Values and operations\<close>

datatype flt = Fin rat | PInf | NInf | NaN

definition round_to :: "(rat \<Rightarrow> rat) \<Rightarrow> rat \<Rightarrow> rat \<Rightarrow> flt" where
  "round_to R mx x = (let y = R x in if mx < y then PInf else if y < - mx then NInf else Fin y)"

definition f32 :: "rat \<Rightarrow> flt" where "f32 = round_to rnd32 mx32"
definition f64 :: "rat \<Rightarrow> flt" where "f64 = round_to rnd64 mx64"

fun fl_neg :: "flt \<Rightarrow> flt" where
  "fl_neg (Fin x) = Fin (- x)"
| "fl_neg PInf = NInf"
| "fl_neg NInf = PInf"
| "fl_neg NaN = NaN"

fun fl_abs :: "flt \<Rightarrow> flt" where
  "fl_abs (Fin x) = Fin \<bar>x\<bar>"
| "fl_abs NaN = NaN"
| "fl_abs _ = PInf"

fun fl_add :: "(rat \<Rightarrow> flt) \<Rightarrow> flt \<Rightarrow> flt \<Rightarrow> flt" where
  "fl_add f (Fin x) (Fin y) = f (x + y)"
| "fl_add f NaN _ = NaN"
| "fl_add f _ NaN = NaN"
| "fl_add f PInf NInf = NaN"
| "fl_add f NInf PInf = NaN"
| "fl_add f (Fin x) i = i"
| "fl_add f i _ = i"

definition fl_sub :: "(rat \<Rightarrow> flt) \<Rightarrow> flt \<Rightarrow> flt \<Rightarrow> flt" where
  "fl_sub f a b = fl_add f a (fl_neg b)"

text \<open>An infinity with the sign of a rational; zero times infinity has no value.\<close>

definition inf_sgn :: "rat \<Rightarrow> flt" where
  "inf_sgn x = (if x = 0 then NaN else if 0 < x then PInf else NInf)"

fun fl_mul :: "(rat \<Rightarrow> flt) \<Rightarrow> flt \<Rightarrow> flt \<Rightarrow> flt" where
  "fl_mul f (Fin x) (Fin y) = f (x * y)"
| "fl_mul f NaN _ = NaN"
| "fl_mul f _ NaN = NaN"
| "fl_mul f PInf (Fin y) = inf_sgn y"
| "fl_mul f NInf (Fin y) = inf_sgn (- y)"
| "fl_mul f (Fin x) PInf = inf_sgn x"
| "fl_mul f (Fin x) NInf = inf_sgn (- x)"
| "fl_mul f PInf PInf = PInf"
| "fl_mul f NInf NInf = PInf"
| "fl_mul f _ _ = NInf"

text \<open>Division by a (positive) zero gives an infinity, or NaN for zero by zero.\<close>

fun fl_div :: "(rat \<Rightarrow> flt) \<Rightarrow> flt \<Rightarrow> flt \<Rightarrow> flt" where
  "fl_div f (Fin x) (Fin y) = (if y = 0 then inf_sgn x else f (x / y))"
| "fl_div f NaN _ = NaN"
| "fl_div f _ NaN = NaN"
| "fl_div f (Fin x) _ = Fin 0"
| "fl_div f PInf (Fin y) = (if y < 0 then NInf else PInf)"
| "fl_div f NInf (Fin y) = (if y < 0 then PInf else NInf)"
| "fl_div f _ _ = NaN"

definition fadd :: "flt \<Rightarrow> flt \<Rightarrow> flt" where "fadd = fl_add f32"
definition fsub :: "flt \<Rightarrow> flt \<Rightarrow> flt" where "fsub = fl_sub f32"
definition fmul :: "flt \<Rightarrow> flt \<Rightarrow> flt" where "fmul = fl_mul f32"
definition fdiv :: "flt \<Rightarrow> flt \<Rightarrow> flt" where "fdiv = fl_div f32"
definition dadd :: "flt \<Rightarrow> flt \<Rightarrow> flt" where "dadd = fl_add f64"
definition dsub :: "flt \<Rightarrow> flt \<Rightarrow> flt" where "dsub = fl_sub f64"
definition dmul :: "flt \<Rightarrow> flt \<Rightarrow> flt" where "dmul = fl_mul f64"
definition ddiv :: "flt \<Rightarrow> flt \<Rightarrow> flt" where "ddiv = fl_div f64"

text \<open>Comparisons: false whenever an operand is NaN.\<close>

fun flt_less :: "flt \<Rightarrow> flt \<Rightarrow> bool" where
  "flt_less (Fin x) (Fin y) = (x < y)"
| "flt_less (Fin x) PInf = True"
| "flt_less NInf (Fin y) = True"
| "flt_less NInf PInf = True"
| "flt_less _ _ = False"

fun flt_le :: "flt \<Rightarrow> flt \<Rightarrow> bool" where
  "flt_le (Fin x) (Fin y) = (x \<le> y)"
| "flt_le NaN _ = False"
| "flt_le _ NaN = False"
| "flt_le NInf _ = True"
| "flt_le _ PInf = True"
| "flt_le _ _ = False"

abbreviation flt_gt :: "flt \<Rightarrow> flt \<Rightarrow> bool" where "flt_gt a b \<equiv> flt_less b a"
abbreviation flt_ge :: "flt \<Rightarrow> flt \<Rightarrow> bool" where "flt_ge a b \<equiv> flt_le b a"

definition flt_eq :: "flt \<Rightarrow> flt \<Rightarrow> bool" where
  "flt_eq a b \<longleftrightarrow> a = b \<and> a \<noteq> NaN"

text \<open>
  Conversions: \<open>double\<close> to \<open>float\<close> rounds, \<open>float\<close> to \<open>double\<close> is exact (the
  identity), an integer rounds, a float converts to an integer type by
  truncation and is undefined when the truncated value does not fit.
\<close>

fun d2f :: "flt \<Rightarrow> flt" where
  "d2f (Fin x) = f32 x"
| "d2f i = i"

definition i2f :: "int \<Rightarrow> flt" where "i2f n = f32 (of_int n)"
definition i2d :: "int \<Rightarrow> flt" where "i2d n = f64 (of_int n)"

definition rtrunc :: "rat \<Rightarrow> int" where
  "rtrunc x = (if 0 \<le> x then \<lfloor>x\<rfloor> else \<lceil>x\<rceil>)"

fun f2int :: "int \<Rightarrow> int \<Rightarrow> flt \<Rightarrow> int option" where
  "f2int lo hi (Fin x) = (let n = rtrunc x in if lo \<le> n \<and> n \<le> hi then Some n else None)"
| "f2int lo hi _ = None"

abbreviation f2s32 :: "flt \<Rightarrow> int option" where "f2s32 \<equiv> f2int (- 2147483648) 2147483647"
abbreviation f2s16 :: "flt \<Rightarrow> int option" where "f2s16 \<equiv> f2int (- 32768) 32767"
abbreviation f2u16 :: "flt \<Rightarrow> int option" where "f2u16 \<equiv> f2int 0 65535"
abbreviation f2u32 :: "flt \<Rightarrow> int option" where "f2u32 \<equiv> f2int 0 4294967295"

text \<open>A decimal literal: \<open>dlit\<close> is a \<open>double\<close> literal, \<open>flit\<close> one with suffix \<open>f\<close>.\<close>

abbreviation dlit :: "rat \<Rightarrow> flt" where "dlit \<equiv> f64"
abbreviation flit :: "rat \<Rightarrow> flt" where "flit \<equiv> f32"

lemmas float_defs = fadd_def fsub_def fmul_def fdiv_def dadd_def dsub_def dmul_def ddiv_def
  fl_sub_def i2f_def i2d_def

section \<open>Lemmas about values\<close>

definition is_fin :: "flt \<Rightarrow> bool" where
  "is_fin v \<longleftrightarrow> (case v of Fin x \<Rightarrow> True | _ \<Rightarrow> False)"

lemma is_fin_simps [simp]: "is_fin (Fin x)" "\<not> is_fin PInf" "\<not> is_fin NInf" "\<not> is_fin NaN"
  by (simp_all add: is_fin_def)

lemma is_fin_iff: "is_fin v \<longleftrightarrow> (\<exists>x. v = Fin x)"
  by (cases v) auto

text \<open>A value is in a finite range.\<close>

definition in_range :: "rat \<Rightarrow> rat \<Rightarrow> flt \<Rightarrow> bool" where
  "in_range lo hi v \<longleftrightarrow> flt_le (Fin lo) v \<and> flt_le v (Fin hi)"

lemma in_range_Fin [simp]: "in_range lo hi (Fin x) \<longleftrightarrow> lo \<le> x \<and> x \<le> hi"
  by (simp add: in_range_def)

lemma in_range_iff: "in_range lo hi v \<longleftrightarrow> (\<exists>x. v = Fin x \<and> lo \<le> x \<and> x \<le> hi)"
  by (cases v) (auto simp: in_range_def)

lemma f32_Fin: "\<bar>x\<bar> \<le> mx32 \<Longrightarrow> f32 x = Fin (rnd32 x)"
  using b32.R_no_overflow [of x] by (auto simp: f32_def round_to_def Let_def)

lemma f64_Fin: "\<bar>x\<bar> \<le> mx64 \<Longrightarrow> f64 x = Fin (rnd64 x)"
  using b64.R_no_overflow [of x] by (auto simp: f64_def round_to_def Let_def)

lemma mx32_large: "100000000000000000000000000000000000000 \<le> mx32"
  by (simp add: mx32_def)

lemma f32_small: "\<bar>x\<bar> \<le> 100000000000000000000000000000000000000 \<Longrightarrow> f32 x = Fin (rnd32 x)"
  using mx32_large by (intro f32_Fin) linarith

lemma f32_of_int: "\<bar>n\<bar> \<le> 16777216 \<Longrightarrow> f32 (of_int n) = Fin (of_int n)"
proof -
  assume n: "\<bar>n\<bar> \<le> 16777216"
  then have "(of_int \<bar>n\<bar> :: rat) \<le> of_int 16777216" by (simp only: of_int_le_iff)
  then show ?thesis using rnd32_of_int [OF n] by (simp add: f32_small)
qed

lemma i2f_exact: "\<bar>n\<bar> \<le> 16777216 \<Longrightarrow> i2f n = Fin (of_int n)"
  by (simp add: i2f_def f32_of_int)

lemma f32_not_NaN [simp]: "f32 x \<noteq> NaN" "f64 x \<noteq> NaN"
  by (simp_all add: f32_def f64_def round_to_def Let_def)

lemma flt_less_le_cases: "a \<noteq> NaN \<Longrightarrow> b \<noteq> NaN \<Longrightarrow> \<not> flt_less a b \<longleftrightarrow> flt_le b a"
  by (cases a; cases b) auto

lemma flt_le_trans: "flt_le a b \<Longrightarrow> flt_le b c \<Longrightarrow> flt_le a c"
  by (cases a; cases b; cases c) auto

lemma rtrunc_of_int [simp]: "rtrunc (of_int n) = n"
  by (simp add: rtrunc_def)

lemma rtrunc_bounds: "of_int lo \<le> x \<Longrightarrow> x \<le> of_int hi \<Longrightarrow> lo \<le> rtrunc x \<and> rtrunc x \<le> hi"
  by (auto simp: rtrunc_def le_floor_iff ceiling_le_iff) linarith+

lemma f2int_range:
  assumes "in_range (of_int l) (of_int h) v" and "lo \<le> l" and "h \<le> hi"
  shows "\<exists>n. f2int lo hi v = Some n \<and> l \<le> n \<and> n \<le> h"
proof -
  from assms(1) obtain x where x: "v = Fin x" "of_int l \<le> x" "x \<le> of_int h"
    by (auto simp: in_range_iff)
  from rtrunc_bounds [OF x(2,3)] assms(2,3) x(1) show ?thesis by (auto simp: Let_def)
qed

section \<open>Bounded values\<close>

text \<open>
  \<open>bnd k v\<close>: a finite value of magnitude at most \<open>2 ^ k\<close>.  The rules of the
  collection \<open>bnd_rules\<close> compute a bound of an expression from bounds of its parts, so
  a component shows in one step that no operation of it overflows or gives NaN.
\<close>

named_theorems bnd_rules \<open>bounds of float expressions\<close>

definition bnd :: "int \<Rightarrow> flt \<Rightarrow> bool" where
  "bnd k v \<longleftrightarrow> (case v of Fin x \<Rightarrow> \<bar>x\<bar> \<le> pow2 k | _ \<Rightarrow> False)"

lemma bnd_iff: "bnd k v \<longleftrightarrow> (\<exists>x. v = Fin x \<and> \<bar>x\<bar> \<le> pow2 k)"
  by (cases v) (auto simp: bnd_def)

lemma bnd_Fin [simp]: "bnd k (Fin x) \<longleftrightarrow> \<bar>x\<bar> \<le> pow2 k"
  by (simp add: bnd_def)

lemma bnd_not_fin [simp]: "\<not> bnd k PInf" "\<not> bnd k NInf" "\<not> bnd k NaN"
  by (simp_all add: bnd_def)

lemma bnd_fin: "bnd k v \<Longrightarrow> is_fin v"
  by (auto simp: bnd_iff)

lemma bnd_not_NaN: "bnd k v \<Longrightarrow> v \<noteq> NaN"
  by (auto simp: bnd_iff)

lemma bnd_mono: "bnd j v \<Longrightarrow> j \<le> k \<Longrightarrow> bnd k v"
  using pow2_le_iff [of j k] by (force simp: bnd_iff simp del: pow2_le_iff)

lemma rnd32_pow2: "- 126 \<le> k \<Longrightarrow> rnd32 (pow2 k) = pow2 k"
  unfolding rnd32_def by (rule rnd_multiple_less [where m = 1 and e = k]) simp_all

lemma rnd64_pow2: "- 1022 \<le> k \<Longrightarrow> rnd64 (pow2 k) = pow2 k"
  unfolding rnd64_def by (rule rnd_multiple_less [where m = 1 and e = k]) simp_all

lemma pow2_le_mx32: "k \<le> 127 \<Longrightarrow> pow2 k \<le> mx32"
proof -
  assume "k \<le> 127"
  then have "pow2 k \<le> pow2 127" by simp
  also have "\<dots> \<le> mx32" by (simp add: mx32_def pow2_def)
  finally show ?thesis .
qed

lemma pow2_le_mx64: "k \<le> 1023 \<Longrightarrow> pow2 k \<le> mx64"
proof -
  assume "k \<le> 1023"
  then have "pow2 k \<le> pow2 1023" by simp
  also have "\<dots> \<le> mx64" by (simp add: mx64_def pow2_def del: of_int_power)
  finally show ?thesis .
qed

lemma f32_bnd:
  assumes "\<bar>x\<bar> \<le> pow2 k" and "- 126 \<le> k" and "k \<le> 127"
  shows "f32 x = Fin (rnd32 x)" and "bnd k (f32 x)"
proof -
  show f: "f32 x = Fin (rnd32 x)" using assms pow2_le_mx32 [of k] by (intro f32_Fin) linarith
  show "bnd k (f32 x)"
    using assms by (simp add: f b32.R_abs_le_fix rnd32_pow2)
qed

lemma f64_bnd:
  assumes "\<bar>x\<bar> \<le> pow2 k" and "- 1022 \<le> k" and "k \<le> 1023"
  shows "f64 x = Fin (rnd64 x)" and "bnd k (f64 x)"
proof -
  show f: "f64 x = Fin (rnd64 x)" using assms pow2_le_mx64 [of k] by (intro f64_Fin) linarith
  show "bnd k (f64 x)"
    using assms by (simp add: f b64.R_abs_le_fix rnd64_pow2)
qed

lemma abs_mult_pow2: "\<bar>x\<bar> \<le> pow2 j \<Longrightarrow> \<bar>y\<bar> \<le> pow2 k \<Longrightarrow> \<bar>x * y\<bar> \<le> pow2 (j + k)"
  by (simp add: abs_mult pow2_add mult_mono)

lemma abs_add_pow2: "\<bar>x\<bar> \<le> pow2 k \<Longrightarrow> \<bar>y\<bar> \<le> pow2 k \<Longrightarrow> \<bar>x + y\<bar> \<le> pow2 (k + 1)"
proof -
  assume "\<bar>x\<bar> \<le> pow2 k" and "\<bar>y\<bar> \<le> pow2 k"
  moreover have "pow2 (k + 1) = 2 * pow2 k" by (simp add: pow2_add pow2_def [of 1])
  ultimately show ?thesis by linarith
qed

lemma bnd_neg [bnd_rules]: "bnd k v \<Longrightarrow> bnd k (fl_neg v)"
  by (auto simp: bnd_iff)

lemma bnd_abs [bnd_rules]: "bnd k v \<Longrightarrow> bnd k (fl_abs v)"
  by (auto simp: bnd_iff)

lemma bnd_fadd [bnd_rules]:
  assumes "bnd j a" and "bnd k b" and "max j k + 1 = m" and "- 126 \<le> m" and "m \<le> 127"
  shows "bnd m (fadd a b)"
proof -
  have "bnd (max j k) a" "bnd (max j k) b" using assms(1,2) bnd_mono by fastforce+
  then obtain x y where "a = Fin x" "\<bar>x\<bar> \<le> pow2 (max j k)" "b = Fin y" "\<bar>y\<bar> \<le> pow2 (max j k)"
    by (auto simp: bnd_iff)
  with abs_add_pow2 [of x "max j k" y] f32_bnd(2) [of "x + y" m] assms(3-5) show ?thesis
    by (simp add: fadd_def)
qed

lemma bnd_fsub [bnd_rules]:
  "bnd j a \<Longrightarrow> bnd k b \<Longrightarrow> max j k + 1 = m \<Longrightarrow> - 126 \<le> m \<Longrightarrow> m \<le> 127 \<Longrightarrow> bnd m (fsub a b)"
  using bnd_fadd [OF _ bnd_neg, of j a k b m] by (simp add: fsub_def fl_sub_def fadd_def)

lemma bnd_fmul [bnd_rules]:
  "bnd j a \<Longrightarrow> bnd k b \<Longrightarrow> j + k = m \<Longrightarrow> - 126 \<le> m \<Longrightarrow> m \<le> 127 \<Longrightarrow> bnd m (fmul a b)"
  using abs_mult_pow2 [of _ j _ k] f32_bnd(2) [of _ m]
  by (auto simp: bnd_iff [of j] bnd_iff [of k] fmul_def)

lemma bnd_dadd [bnd_rules]:
  assumes "bnd j a" and "bnd k b" and "max j k + 1 = m" and "- 1022 \<le> m" and "m \<le> 1023"
  shows "bnd m (dadd a b)"
proof -
  have "bnd (max j k) a" "bnd (max j k) b" using assms(1,2) bnd_mono by fastforce+
  then obtain x y where "a = Fin x" "\<bar>x\<bar> \<le> pow2 (max j k)" "b = Fin y" "\<bar>y\<bar> \<le> pow2 (max j k)"
    by (auto simp: bnd_iff)
  with abs_add_pow2 [of x "max j k" y] f64_bnd(2) [of "x + y" m] assms(3-5) show ?thesis
    by (simp add: dadd_def)
qed

lemma bnd_dsub [bnd_rules]:
  "bnd j a \<Longrightarrow> bnd k b \<Longrightarrow> max j k + 1 = m \<Longrightarrow> - 1022 \<le> m \<Longrightarrow> m \<le> 1023 \<Longrightarrow> bnd m (dsub a b)"
  using bnd_dadd [OF _ bnd_neg, of j a k b m] by (simp add: dsub_def fl_sub_def dadd_def)

lemma bnd_dmul [bnd_rules]:
  "bnd j a \<Longrightarrow> bnd k b \<Longrightarrow> j + k = m \<Longrightarrow> - 1022 \<le> m \<Longrightarrow> m \<le> 1023 \<Longrightarrow> bnd m (dmul a b)"
  using abs_mult_pow2 [of _ j _ k] f64_bnd(2) [of _ m]
  by (auto simp: bnd_iff [of j] bnd_iff [of k] dmul_def)

lemma bnd_d2f [bnd_rules]: "bnd k v \<Longrightarrow> - 126 \<le> k \<Longrightarrow> k \<le> 127 \<Longrightarrow> bnd k (d2f v)"
  using f32_bnd(2) by (auto simp: bnd_iff [of k v])

lemma abs_div_pow2:
  assumes "\<bar>x\<bar> \<le> pow2 j" and "pow2 k \<le> \<bar>y\<bar>"
  shows "\<bar>x / y\<bar> \<le> pow2 (j - k)"
proof -
  have "0 < \<bar>y\<bar>" using assms(2) pow2_pos [of k] by linarith
  moreover have "\<bar>x\<bar> * pow2 k \<le> pow2 j * \<bar>y\<bar>" using assms by (intro mult_mono) auto
  ultimately show ?thesis by (simp add: abs_divide pow2_diff field_simps)
qed

lemma bnd_fdiv:
  assumes "bnd j a" and "b = Fin y" and "pow2 k \<le> \<bar>y\<bar>" and "j - k = m" and "- 126 \<le> m" and "m \<le> 127"
  shows "bnd m (fdiv a b)"
proof -
  from assms(1) obtain x where x: "a = Fin x" "\<bar>x\<bar> \<le> pow2 j" by (auto simp: bnd_iff)
  have "y \<noteq> 0" using assms(3) pow2_pos [of k] by (metis abs_zero linorder_not_less)
  with x assms f32_bnd(2) [OF abs_div_pow2, of x j k y] show ?thesis by (simp add: fdiv_def)
qed

lemma bnd_ddiv:
  assumes "bnd j a" and "b = Fin y" and "pow2 k \<le> \<bar>y\<bar>" and "j - k = m" and "- 1022 \<le> m" and "m \<le> 1023"
  shows "bnd m (ddiv a b)"
proof -
  from assms(1) obtain x where x: "a = Fin x" "\<bar>x\<bar> \<le> pow2 j" by (auto simp: bnd_iff)
  have "y \<noteq> 0" using assms(3) pow2_pos [of k] by (metis abs_zero linorder_not_less)
  with x assms f64_bnd(2) [OF abs_div_pow2, of x j k y] show ?thesis by (simp add: ddiv_def)
qed

text \<open>Sums and differences of integers below 2 ^ 24 are exact in binary32.\<close>

lemma fadd_int:
  "\<bar>a + b\<bar> \<le> 16777216 \<Longrightarrow> fadd (Fin (of_int a)) (Fin (of_int b)) = Fin (of_int (a + b))"
  using f32_of_int [of "a + b"] by (simp add: fadd_def)

lemma fsub_int:
  "\<bar>a - b\<bar> \<le> 16777216 \<Longrightarrow> fsub (Fin (of_int a)) (Fin (of_int b)) = Fin (of_int (a - b))"
  using f32_of_int [of "a - b"] by (simp add: fsub_def fl_sub_def)

lemma fadd_comm: "fadd a b = fadd b a"
  by (cases a; cases b) (simp_all add: fadd_def add.commute)

lemma fmul_comm: "fmul a b = fmul b a"
  by (cases a; cases b) (simp_all add: fmul_def mult.commute)

lemma slope_back:
  assumes "\<bar>y\<bar> \<le> 16777216" and "\<bar>x\<bar> \<le> 16777216" and "x \<noteq> 0"
  shows "fdiv (i2f (- y)) (i2f (- x)) = fdiv (i2f y) (i2f x)"
  using assms by (simp add: i2f_exact fdiv_def)

end
