(* ===== verification/PID.thy ===== *)
theory PID
  imports Floats
begin

text \<open>
  The PID controllers of \<open>code/src/PID.c\<close> (structures of \<open>code/inc/PID.h\<close>):
  the position form used by the motors, the yaw loop, the line tracer and the box
  locator, and the incremental form.  Every operation rounds as binary32.
\<close>

section \<open>Structures and operations\<close>

record Pos_PID_t =
  Kp :: flt
  Ki :: flt
  Kd :: flt
  Value_D :: flt
  Value_I :: flt
  Error :: flt
  Past_Error :: flt
  Output :: flt
  Ref :: flt
  Output_Max :: flt
  Output_Min :: flt
  Value_I_Max :: flt
  Value_I_Iso :: flt

text \<open>The fields of \<open>Step_PID_t\<close> carry the suffix \<open>_s\<close> where the names clash.\<close>

record Step_PID_t =
  Kp_s :: flt
  Ki_s :: flt
  Kd_s :: flt
  Output_s :: flt
  Ref_s :: flt
  Output_Max_s :: flt
  Output_Min_s :: flt
  error_current :: flt
  error_past1 :: flt
  error_past2 :: flt

text \<open>A control block with static storage starts as all zeros.\<close>

definition Pos_PID_zero :: Pos_PID_t where
  "Pos_PID_zero = \<lparr>Kp = Fin 0, Ki = Fin 0, Kd = Fin 0, Value_D = Fin 0, Value_I = Fin 0,
     Error = Fin 0, Past_Error = Fin 0, Output = Fin 0, Ref = Fin 0, Output_Max = Fin 0,
     Output_Min = Fin 0, Value_I_Max = Fin 0, Value_I_Iso = Fin 0\<rparr>"

definition Pos_PID_Init :: "Pos_PID_t \<Rightarrow> flt \<Rightarrow> flt \<Rightarrow> flt \<Rightarrow> Pos_PID_t" where
  "Pos_PID_Init plant kp ki kd = plant\<lparr>Error := Fin 0, Value_I := Fin 0, Value_D := Fin 0,
     Past_Error := Fin 0, Kp := kp, Ki := ki, Kd := kd\<rparr>"

definition Step_PID_Init :: "Step_PID_t \<Rightarrow> flt \<Rightarrow> flt \<Rightarrow> flt \<Rightarrow> Step_PID_t" where
  "Step_PID_Init plant kp ki kd = plant\<lparr>Kd_s := kd, Ki_s := ki, Kp_s := kp\<rparr>"

text \<open>
  One call of the position controller, statement by statement: error, integral,
  derivative, output; then the integral is limited (after the output was
  computed from it) and the output returned within its limits.
\<close>

definition pid_terms :: "Pos_PID_t \<Rightarrow> flt \<Rightarrow> Pos_PID_t" where
  "pid_terms plant cur =
    (let e = fsub (Ref plant) cur;
         i = fadd (Value_I plant) e;
         d = fl_abs (fsub e (Past_Error plant));
         out = fsub (fadd (fmul (Kp plant) e) (fmul (Ki plant) i)) (fmul d (Kd plant))
     in plant\<lparr>Error := e, Value_I := i, Value_D := d, Output := out, Past_Error := e\<rparr>)"

definition pid_limit_I :: "Pos_PID_t \<Rightarrow> Pos_PID_t" where
  "pid_limit_I plant =
    (let p1 = (if flt_gt (Value_I plant) (Value_I_Max plant)
               then plant\<lparr>Value_I := Value_I_Max plant\<rparr> else plant)
     in if flt_less (Value_I p1) (fl_neg (Value_I_Max p1))
        then p1\<lparr>Value_I := fl_neg (Value_I_Max p1)\<rparr> else p1)"

definition pid_return :: "Pos_PID_t \<Rightarrow> flt" where
  "pid_return plant =
    (if flt_gt (Output plant) (Output_Max plant) then Output_Max plant
     else if flt_less (Output plant) (Output_Min plant) then Output_Min plant
     else Output plant)"

definition Pos_PID_Controller :: "Pos_PID_t \<Rightarrow> flt \<Rightarrow> flt \<times> Pos_PID_t" where
  "Pos_PID_Controller plant cur =
    (let p = pid_limit_I (pid_terms plant cur) in (pid_return p, p))"

definition Step_PID_Controller :: "Step_PID_t \<Rightarrow> flt \<Rightarrow> flt \<times> Step_PID_t" where
  "Step_PID_Controller plant cur =
    (let e = fsub (Ref_s plant) cur;
         p0 = plant\<lparr>error_current := e\<rparr>;
         out = fadd (fsub (fmul (Kp_s p0) (error_current p0)) (fmul (Ki_s p0) (error_past1 p0)))
                 (fmul (Kp_s p0) (error_past2 p0));
         p1 = p0\<lparr>Output_s := out\<rparr>;
         p2 = p1\<lparr>error_past1 := error_current p1\<rparr>;
         p3 = p2\<lparr>error_past2 := error_past1 p2\<rparr>
     in (if flt_ge (Output_s p3) (Output_Max_s p3) then Output_Max_s p3
         else if flt_ge (Output_s p3) (Output_Min_s p3) then Output_Min_s p3
         else Output_s p3, p3))"

lemmas pid_defs = Pos_PID_Controller_def pid_terms_def pid_limit_I_def pid_return_def

section \<open>Frame: what a call does not touch\<close>

lemma pid_frame [simp]:
  "Kp (snd (Pos_PID_Controller p c)) = Kp p" "Ki (snd (Pos_PID_Controller p c)) = Ki p"
  "Kd (snd (Pos_PID_Controller p c)) = Kd p" "Ref (snd (Pos_PID_Controller p c)) = Ref p"
  "Output_Max (snd (Pos_PID_Controller p c)) = Output_Max p"
  "Output_Min (snd (Pos_PID_Controller p c)) = Output_Min p"
  "Value_I_Max (snd (Pos_PID_Controller p c)) = Value_I_Max p"
  by (simp_all add: pid_defs Let_def)

lemma pid_Past_Error [simp]:
  "Past_Error (snd (Pos_PID_Controller p c)) = fsub (Ref p) c"
  "Error (snd (Pos_PID_Controller p c)) = fsub (Ref p) c"
  by (simp_all add: pid_defs Let_def)

section \<open>The contract of a controller\<close>

text \<open>
  \<open>pid_wf\<close>: gains up to 1024 in magnitude, reference and past error within
  \<open>2 ^ 20\<close>, the integral within its limit (at most \<open>2 ^ 20\<close>), output limits finite and in order.
  \<open>pid_out\<close> is the range the caller may rely on.
\<close>

definition pid_wf :: "Pos_PID_t \<Rightarrow> bool" where
  "pid_wf p \<longleftrightarrow> bnd 10 (Kp p) \<and> bnd 10 (Ki p) \<and> bnd 10 (Kd p) \<and> bnd 20 (Ref p) \<and>
     bnd 21 (Past_Error p) \<and> bnd 20 (Value_I_Max p) \<and> flt_le (Fin 0) (Value_I_Max p) \<and>
     flt_le (Value_I p) (Value_I_Max p) \<and> flt_le (fl_neg (Value_I_Max p)) (Value_I p) \<and>
     flt_le (Output_Min p) (Output_Max p) \<and> is_fin (Output_Min p) \<and> is_fin (Output_Max p)"

lemma pid_wf_bnd_I: "pid_wf p \<Longrightarrow> bnd 20 (Value_I p)"
  by (cases "Value_I p"; cases "Value_I_Max p") (auto simp: pid_wf_def)

lemma pid_terms_bnd:
  assumes "pid_wf p" and "bnd 20 c"
  shows "bnd 21 (Error (pid_terms p c))" and "bnd 22 (Value_I (pid_terms p c))"
    and "bnd 34 (Output (pid_terms p c))"
proof -
  have w: "bnd 10 (Kp p)" "bnd 10 (Ki p)" "bnd 10 (Kd p)" "bnd 20 (Ref p)" "bnd 21 (Past_Error p)"
    using assms(1) by (simp_all add: pid_wf_def)
  have e: "bnd 21 (fsub (Ref p) c)" by (rule bnd_fsub [OF w(4) assms(2)]) simp_all
  then show "bnd 21 (Error (pid_terms p c))" by (simp add: pid_terms_def Let_def)
  have i: "bnd 22 (fadd (Value_I p) (fsub (Ref p) c))"
    by (rule bnd_fadd [OF pid_wf_bnd_I [OF assms(1)] e]) simp_all
  then show "bnd 22 (Value_I (pid_terms p c))" by (simp add: pid_terms_def Let_def)
  have d: "bnd 22 (fl_abs (fsub (fsub (Ref p) c) (Past_Error p)))"
    by (rule bnd_abs, rule bnd_fsub [OF e w(5)]) simp_all
  have pr: "bnd 31 (fmul (Kp p) (fsub (Ref p) c))"
      "bnd 32 (fmul (Ki p) (fadd (Value_I p) (fsub (Ref p) c)))"
      "bnd 32 (fmul (fl_abs (fsub (fsub (Ref p) c) (Past_Error p))) (Kd p))"
    by (rule bnd_fmul [OF w(1) e] bnd_fmul [OF w(2) i] bnd_fmul [OF d w(3)]; simp)+
  have "bnd 33 (fadd (fmul (Kp p) (fsub (Ref p) c)) (fmul (Ki p) (fadd (Value_I p) (fsub (Ref p) c))))"
    by (rule bnd_fadd [OF pr(1,2)]) simp_all
  then have "bnd 34 (fsub (fadd (fmul (Kp p) (fsub (Ref p) c)) (fmul (Ki p) (fadd (Value_I p) (fsub (Ref p) c))))
      (fmul (fl_abs (fsub (fsub (Ref p) c) (Past_Error p))) (Kd p)))"
    by (rule bnd_fsub [OF _ pr(3)]) simp_all
  then show "bnd 34 (Output (pid_terms p c))" by (simp add: pid_terms_def Let_def)
qed

lemma pid_limit_I_range:
  assumes "is_fin (Value_I p)" and "is_fin (Value_I_Max p)" and "flt_le (Fin 0) (Value_I_Max p)"
  shows "flt_le (Value_I (pid_limit_I p)) (Value_I_Max p)"
    and "flt_le (fl_neg (Value_I_Max p)) (Value_I (pid_limit_I p))"
  using assms by (auto simp: pid_limit_I_def Let_def is_fin_iff)

lemma pid_return_range:
  assumes "Output p \<noteq> NaN" and "is_fin (Output_Min p)" and "is_fin (Output_Max p)"
    and "flt_le (Output_Min p) (Output_Max p)"
  shows "flt_le (Output_Min p) (pid_return p) \<and> flt_le (pid_return p) (Output_Max p)"
  using assms by (cases "Output p") (auto simp: pid_return_def is_fin_iff)

lemma pid_wf_step:
  assumes "pid_wf p" and "bnd 20 c"
  shows "pid_wf (snd (Pos_PID_Controller p c))"
proof -
  let ?t = "pid_terms p c"
  have "is_fin (Value_I ?t)" using pid_terms_bnd(2) [OF assms] by (rule bnd_fin)
  moreover have "is_fin (Value_I_Max ?t)" "flt_le (Fin 0) (Value_I_Max ?t)"
    using assms(1) by (auto simp: pid_wf_def pid_terms_def Let_def intro: bnd_fin)
  ultimately have "flt_le (Value_I (pid_limit_I ?t)) (Value_I_Max p)"
    "flt_le (fl_neg (Value_I_Max p)) (Value_I (pid_limit_I ?t))"
    using pid_limit_I_range [of ?t] by (simp_all add: pid_terms_def Let_def)
  moreover have "bnd 21 (fsub (Ref p) c)"
    using pid_terms_bnd(1) [OF assms] by (simp add: pid_terms_def Let_def)
  ultimately show ?thesis
    using assms(1) by (auto simp: pid_wf_def) (simp_all add: Pos_PID_Controller_def Let_def)
qed

lemma pid_step_range:
  assumes "pid_wf p" and "bnd 20 c"
  shows "flt_le (Output_Min p) (fst (Pos_PID_Controller p c)) \<and>
         flt_le (fst (Pos_PID_Controller p c)) (Output_Max p)"
proof -
  let ?q = "pid_limit_I (pid_terms p c)"
  have f: "Output ?q = Output (pid_terms p c)" "Output_Min ?q = Output_Min p" "Output_Max ?q = Output_Max p"
    by (simp_all add: pid_limit_I_def pid_terms_def Let_def)
  have "Output ?q \<noteq> NaN" using pid_terms_bnd(3) [OF assms] by (simp add: f bnd_not_NaN)
  then show ?thesis
    using assms(1) pid_return_range [of ?q] by (simp add: Pos_PID_Controller_def Let_def f pid_wf_def)
qed

section \<open>The interface of a limited controller\<close>

text \<open>
  What the motor loop, the line tracer and the box locator rely on: a call keeps
  the block well formed, leaves its limits alone and answers within them.  From these
  laws alone, every answer of a whole run of samples is within the limits.
\<close>

fun ctl_run :: "('s \<Rightarrow> flt \<Rightarrow> flt \<times> 's) \<Rightarrow> 's \<Rightarrow> flt list \<Rightarrow> flt list \<times> 's" where
  "ctl_run ctl s [] = ([], s)"
| "ctl_run ctl s (c # cs) =
     (let (y, s') = ctl s c; (ys, s'') = ctl_run ctl s' cs in (y # ys, s''))"

locale limited_controller =
  fixes ctl :: "'s \<Rightarrow> flt \<Rightarrow> flt \<times> 's"
    and wf :: "'s \<Rightarrow> bool" and ok :: "flt \<Rightarrow> bool"
    and lo :: "'s \<Rightarrow> flt" and hi :: "'s \<Rightarrow> flt"
  assumes ctl_wf: "wf s \<Longrightarrow> ok c \<Longrightarrow> wf (snd (ctl s c))"
    and ctl_lo: "lo (snd (ctl s c)) = lo s"
    and ctl_hi: "hi (snd (ctl s c)) = hi s"
    and ctl_range: "wf s \<Longrightarrow> ok c \<Longrightarrow> flt_le (lo s) (fst (ctl s c)) \<and> flt_le (fst (ctl s c)) (hi s)"

context limited_controller
begin

lemma run_range:
  "wf s \<Longrightarrow> list_all ok cs \<Longrightarrow>
     list_all (\<lambda>y. flt_le (lo s) y \<and> flt_le y (hi s)) (fst (ctl_run ctl s cs)) \<and>
     wf (snd (ctl_run ctl s cs))"
proof (induction cs arbitrary: s)
  case Nil
  then show ?case by simp
next
  case (Cons c cs)
  from Cons.prems have "wf (snd (ctl s c))" by (simp add: ctl_wf)
  with Cons.IH [of "snd (ctl s c)"] Cons.prems ctl_range [of s c] show ?case
    by (auto simp: ctl_lo ctl_hi split_beta)
qed

end

interpretation pid: limited_controller Pos_PID_Controller pid_wf "bnd 20" Output_Min Output_Max
  by unfold_locales (simp_all add: pid_wf_step pid_step_range)

section \<open>Initialisation gives a well-formed block\<close>

lemma Pos_PID_Init_wf:
  assumes "bnd 10 kp" "bnd 10 ki" "bnd 10 kd" "bnd 20 (Ref p)" "bnd 20 (Value_I_Max p)"
    and "flt_le (Fin 0) (Value_I_Max p)" "flt_le (Output_Min p) (Output_Max p)"
    and "is_fin (Output_Min p)" "is_fin (Output_Max p)"
  shows "pid_wf (Pos_PID_Init p kp ki kd)"
  using assms by (cases "Value_I_Max p") (auto simp: pid_wf_def Pos_PID_Init_def)

section \<open>Properties\<close>

text \<open>
  The position controller is limited over a whole run: from any block set up by
  \<open>Pos_PID_Init\<close> with gains up to 1024, an integral limit and a reference up to \<open>2 ^ 20\<close> and
  ordered output limits, every answer to every sequence of measurements up to \<open>2 ^ 20\<close> is a number
  between \<open>Output_Min\<close> and \<open>Output_Max\<close>, and the integral stays within its limit.
\<close>

theorem pid_outputs_limited:
  assumes "bnd 10 kp" and "bnd 10 ki" and "bnd 10 kd" and "bnd 20 (Ref p)" and "bnd 20 (Value_I_Max p)"
    and "flt_le (Fin 0) (Value_I_Max p)" and "flt_le (Output_Min p) (Output_Max p)"
    and "is_fin (Output_Min p)" and "is_fin (Output_Max p)" and "list_all (bnd 20) cs"
  shows "list_all (\<lambda>y. flt_le (Output_Min p) y \<and> flt_le y (Output_Max p))
      (fst (ctl_run Pos_PID_Controller (Pos_PID_Init p kp ki kd) cs)) \<and>
    flt_le (Value_I (snd (ctl_run Pos_PID_Controller (Pos_PID_Init p kp ki kd) cs)))
      (Value_I_Max (snd (ctl_run Pos_PID_Controller (Pos_PID_Init p kp ki kd) cs)))"
proof -
  have l: "Output_Min (Pos_PID_Init p kp ki kd) = Output_Min p" "Output_Max (Pos_PID_Init p kp ki kd) = Output_Max p"
    by (simp_all add: Pos_PID_Init_def)
  from pid.run_range [OF Pos_PID_Init_wf [OF assms(1-9)] assms(10)]
  show ?thesis unfolding l by (simp add: pid_wf_def)
qed

definition pid_example :: Pos_PID_t where
  "pid_example = Pos_PID_zero\<lparr>Ref := Fin 100, Value_I_Max := Fin 500, Output_Max := Fin 9900, Output_Min := Fin (- 9900)\<rparr>"

lemma pid_outputs_limited_witness:
  "list_all (\<lambda>y. flt_le (Fin (- 9900)) y \<and> flt_le y (Fin 9900))
      (fst (ctl_run Pos_PID_Controller (Pos_PID_Init pid_example (Fin 90) (Fin 12) (Fin 0)) [Fin 0, Fin 50, Fin 120]))"
  using pid_outputs_limited [of "Fin 90" "Fin 12" "Fin 0" pid_example "[Fin 0, Fin 50, Fin 120]"]
  by (simp add: pid_example_def Pos_PID_zero_def pow2_def)

text \<open>
  The incremental controller cannot answer a value inside its limits: whatever its state and
  its input, an output that is a number is answered as \<open>Output_Max\<close> or as \<open>Output_Min\<close>, or it is
  below \<open>Output_Min\<close> and answered unlimited (the second comparison of the code has the wrong direction).
\<close>

theorem Step_PID_never_inside:
  assumes "fst (Step_PID_Controller p c) \<noteq> NaN" and "Output_Max_s p \<noteq> NaN" and "Output_Min_s p \<noteq> NaN"
  shows "fst (Step_PID_Controller p c) = Output_Max_s p \<or> fst (Step_PID_Controller p c) = Output_Min_s p \<or>
    flt_less (fst (Step_PID_Controller p c)) (Output_Min_s p)"
  using assms by (auto simp: Step_PID_Controller_def Let_def flt_less_le_cases split: if_splits)

definition step_pid_example :: Step_PID_t where
  "step_pid_example = \<lparr>Kp_s = Fin 1, Ki_s = Fin 0, Kd_s = Fin 0, Output_s = Fin 0, Ref_s = Fin 5,
     Output_Max_s = Fin 10, Output_Min_s = Fin (- 10), error_current = Fin 0, error_past1 = Fin 0, error_past2 = Fin 0\<rparr>"

lemma Step_PID_example_output: "fst (Step_PID_Controller step_pid_example (Fin 0)) = Fin (- 10)"
  by code_simp

lemma Step_PID_never_inside_witness:
  "fst (Step_PID_Controller step_pid_example (Fin 0)) = Fin 10 \<or>
    fst (Step_PID_Controller step_pid_example (Fin 0)) = Fin (- 10) \<or>
    flt_less (fst (Step_PID_Controller step_pid_example (Fin 0))) (Fin (- 10))"
  using Step_PID_never_inside [of step_pid_example "Fin 0"]
  by (simp add: Step_PID_example_output)

end
