(* ===== verification/Board.thy ===== *)
theory Board
  imports Floats
begin

text \<open>
  The board as the control code drives it: the pins it names (\<open>code/inc/motor.h\<close>,
  \<open>code/inc/step_motor.h\<close>, \<open>code/inc/buzzer.h\<close>, \<open>code/inc/button.h\<close>), and the
  sequence of outputs it produces.  A handler returns its outputs as a list of \<open>io\<close>
  events in program order.  \<open>pwm_set_duty\<close> keeps the assertion of
  \<open>zf_driver_pwm.c\<close>: a duty above \<open>PWM_DUTY_MAX\<close> stops the program (\<open>None\<close>).  What the driver makes
  of a duty is in \<open>Pwm\<close>.
\<close>

datatype pwm_pin = MOTORA_PWM | MOTORB_PWM | MOTORC_PWM
  | DOWN_MOTOR_CON_PIN | UP_MOTOR_CON_PIN | TURN_MOTOR_CON_PIN

datatype gpio_pin = MOTORA_DIR | MOTORB_DIR | MOTORC_DIR | B9 | B10 | BUZZER_PIN | C3 | C6 | D16 | D17

datatype io =
    Duty pwm_pin int
  | Level gpio_pin int
  | Toggle gpio_pin
  | Delay int
  | Uart int
  | Mail int

definition PWM_DUTY_MAX :: int where "PWM_DUTY_MAX = 10000"

definition pwm_set_duty :: "pwm_pin \<Rightarrow> int \<Rightarrow> io list option" where
  "pwm_set_duty pin duty = (if duty \<le> PWM_DUTY_MAX then Some [Duty pin duty] else None)"

text \<open>The macro of \<open>buzzer.h\<close>: a mail with the value 1 to the buzzer thread.\<close>

definition BUZZER_SPEAK :: io where "BUZZER_SPEAK = Mail 1"

text \<open>The duties an output sequence sets on a pin, and the time it waits.\<close>

fun duties :: "pwm_pin \<Rightarrow> io list \<Rightarrow> int list" where
  "duties p [] = []"
| "duties p (Duty q d # es) = (if q = p then d # duties p es else duties p es)"
| "duties p (_ # es) = duties p es"

fun waited :: "io list \<Rightarrow> int" where
  "waited [] = 0"
| "waited (Delay d # es) = d + waited es"
| "waited (_ # es) = waited es"

lemma duties_append [simp]: "duties p (xs @ ys) = duties p xs @ duties p ys"
  by (induction xs rule: duties.induct) auto

lemma waited_append [simp]: "waited (xs @ ys) = waited xs + waited ys"
  by (induction xs rule: waited.induct) auto

text \<open>
  Every duty of the sequence is one the driver accepts and, on a servo's pin, one of a pulse of 5 ms at most.
\<close>

definition duty_top :: "pwm_pin \<Rightarrow> int" where
  "duty_top p = (case p of MOTORA_PWM \<Rightarrow> PWM_DUTY_MAX | MOTORB_PWM \<Rightarrow> PWM_DUTY_MAX | MOTORC_PWM \<Rightarrow> PWM_DUTY_MAX | _ \<Rightarrow> 2500)"

lemma duty_top_simps [simp]:
  "duty_top MOTORA_PWM = 10000" "duty_top MOTORB_PWM = 10000" "duty_top MOTORC_PWM = 10000"
  "duty_top DOWN_MOTOR_CON_PIN = 2500" "duty_top UP_MOTOR_CON_PIN = 2500" "duty_top TURN_MOTOR_CON_PIN = 2500"
  by (simp_all add: duty_top_def PWM_DUTY_MAX_def)

definition io_ok :: "io \<Rightarrow> bool" where
  "io_ok e \<longleftrightarrow> (case e of Duty p d \<Rightarrow> 0 \<le> d \<and> d \<le> duty_top p | _ \<Rightarrow> True)"

lemma io_ok_simps [simp]:
  "io_ok (Duty p d) \<longleftrightarrow> 0 \<le> d \<and> d \<le> duty_top p" "io_ok (Level g l)" "io_ok (Toggle g)" "io_ok (Delay t)"
  "io_ok (Mail n)"
  by (simp_all add: io_ok_def)

lemma speak_simps [simp]:
  "duties p (BUZZER_SPEAK # es) = duties p es" "waited (BUZZER_SPEAK # es) = waited es" "io_ok BUZZER_SPEAK"
  by (simp_all add: BUZZER_SPEAK_def)

end
