(* ===== verification/Motor.thy ===== *)
theory Motor
  imports PID Board
begin

text \<open>
  The wheel motors: the encoders with their low-pass filters (\<open>code/src/encoder.c\<close>)
  and the speed loop of the three motors (\<open>code/src/motor.c\<close>), run once a
  millisecond.  The quadrature counters are hardware: a reading is an \<open>int16\<close> argument,
  and \<open>encoder_getvalue\<close> leaves them cleared.
\<close>

section \<open>Encoders\<close>

record RC_Para =
  temp :: flt
  rc_value :: flt
  RC :: flt

definition RCFilter :: "flt \<Rightarrow> RC_Para \<Rightarrow> flt \<times> RC_Para" where
  "RCFilter v Filter =
    (let f = Filter\<lparr>temp := v\<rparr>;
         f = f\<lparr>rc_value := fadd (fmul (fsub (i2f 1) (RC f)) (rc_value f)) (fmul (RC f) (temp f))\<rparr>
     in (rc_value f, f))"

definition Encoder_Para_init :: RC_Para where
  "Encoder_Para_init = \<lparr>temp = Fin 0, rc_value = Fin 0, RC = d2f (dlit (7 / 100))\<rparr>"

record encoders =
  encoder1 :: int
  encoder2 :: int
  encoder3 :: int
  RC_encoder1 :: flt
  RC_encoder2 :: flt
  RC_encoder3 :: flt
  Encoder1_Para :: RC_Para
  Encoder2_Para :: RC_Para
  Encoder3_Para :: RC_Para

definition encoders_init :: encoders where
  "encoders_init = \<lparr>encoder1 = 0, encoder2 = 0, encoder3 = 0,
     RC_encoder1 = Fin 0, RC_encoder2 = Fin 0, RC_encoder3 = Fin 0,
     Encoder1_Para = Encoder_Para_init, Encoder2_Para = Encoder_Para_init,
     Encoder3_Para = Encoder_Para_init\<rparr>"

text \<open>The three counters; the readings are taken, filtered, and the counters cleared.\<close>

type_synonym counters = "int \<times> int \<times> int"

definition encoder_getvalue :: "counters \<Rightarrow> encoders \<Rightarrow> counters \<times> encoders" where
  "encoder_getvalue q e =
    (let (q1, q2, q3) = q;
         e = e\<lparr>encoder1 := q1\<rparr>;
         e = e\<lparr>encoder2 := - q2\<rparr>;
         e = e\<lparr>encoder3 := q3\<rparr>;
         (r1, p1) = RCFilter (i2f (encoder1 e)) (Encoder1_Para e);
         (r2, p2) = RCFilter (i2f (encoder2 e)) (Encoder2_Para e);
         (r3, p3) = RCFilter (i2f (encoder3 e)) (Encoder3_Para e)
     in ((0, 0, 0), e\<lparr>RC_encoder1 := r1, Encoder1_Para := p1, RC_encoder2 := r2,
          Encoder2_Para := p2, RC_encoder3 := r3, Encoder3_Para := p3\<rparr>))"

section \<open>Motors\<close>

definition MOTOR_SOFTBOOT_RATE :: flt where "MOTOR_SOFTBOOT_RATE = flit 100"

record motor =
  Motor_PID_A :: Pos_PID_t
  Motor_PID_B :: Pos_PID_t
  Motor_PID_C :: Pos_PID_t
  MA_target_speed :: flt
  MB_target_speed :: flt
  MC_target_speed :: flt
  Motor_A_Act_Speed :: flt
  Motor_B_Act_Speed :: flt
  Motor_C_Act_Speed :: flt
  enc :: encoders

text \<open>
  \<open>Slew_Func\<close> moves the value behind \<open>slewVal\<close> towards \<open>refVal\<close> by at most
  \<open>slewRate\<close>; the result is the return value and the new value.
\<close>

definition Slew_Func :: "flt \<Rightarrow> flt \<Rightarrow> flt \<Rightarrow> flt \<times> flt" where
  "Slew_Func slewVal refVal slewRate =
    (let diff = fsub refVal slewVal
     in if flt_ge diff slewRate then (Fin 1, fadd slewVal slewRate)
        else if flt_ge (fl_neg diff) slewRate then (Fin (- 1), fsub slewVal slewRate)
        else (Fin 0, refVal))"

definition motor_drive ::
  "gpio_pin \<Rightarrow> pwm_pin \<Rightarrow> Pos_PID_t \<Rightarrow> flt \<Rightarrow> int \<Rightarrow> (io list \<times> Pos_PID_t) option" where
  "motor_drive dir pin pid target pwm =
    do {
      let pid = pid\<lparr>Ref := snd (Slew_Func (Ref pid) target MOTOR_SOFTBOOT_RATE)\<rparr>;
      es \<leftarrow> pwm_set_duty pin \<bar>pwm\<bar>;
      Some (Level dir (if pwm > 0 then 1 else 0) # es, pid)
    }"

definition MotorA_Set_Pwm :: "int \<Rightarrow> motor \<Rightarrow> (io list \<times> motor) option" where
  "MotorA_Set_Pwm pwm m =
    do {
      (es, p) \<leftarrow> motor_drive MOTORA_DIR MOTORA_PWM (Motor_PID_A m) (MA_target_speed m) pwm;
      Some (es, m\<lparr>Motor_PID_A := p\<rparr>)
    }"

definition MotorB_Set_Pwm :: "int \<Rightarrow> motor \<Rightarrow> (io list \<times> motor) option" where
  "MotorB_Set_Pwm pwm m =
    do {
      (es, p) \<leftarrow> motor_drive MOTORB_DIR MOTORB_PWM (Motor_PID_B m) (MB_target_speed m) pwm;
      Some (es, m\<lparr>Motor_PID_B := p\<rparr>)
    }"

definition MotorC_Set_Pwm :: "int \<Rightarrow> motor \<Rightarrow> (io list \<times> motor) option" where
  "MotorC_Set_Pwm pwm m =
    do {
      (es, p) \<leftarrow> motor_drive MOTORC_DIR MOTORC_PWM (Motor_PID_C m) (MC_target_speed m) pwm;
      Some (es, m\<lparr>Motor_PID_C := p\<rparr>)
    }"

text \<open>\<open>RC_encoder * 1000 / 1024 * 3.14 * 6.1\<close>: float up to the first \<open>double\<close> literal.\<close>

definition act_speed :: "flt \<Rightarrow> flt" where
  "act_speed r = d2f (dmul (dmul (fdiv (fmul r (i2f 1000)) (i2f 1024)) (dlit (314 / 100))) (dlit (61 / 10)))"

definition Motor_Pwm_cb :: "motor \<Rightarrow> (io list \<times> motor) option" where
  "Motor_Pwm_cb m =
    do {
      let m = m\<lparr>Motor_A_Act_Speed := act_speed (RC_encoder1 (enc m)),
                Motor_B_Act_Speed := act_speed (RC_encoder2 (enc m)),
                Motor_C_Act_Speed := act_speed (RC_encoder3 (enc m))\<rparr>;
      let (ya, pa) = Pos_PID_Controller (Motor_PID_A m) (Motor_A_Act_Speed m);
      na \<leftarrow> f2s32 ya;
      (ea, m) \<leftarrow> MotorA_Set_Pwm na (m\<lparr>Motor_PID_A := pa\<rparr>);
      let (yb, pb) = Pos_PID_Controller (Motor_PID_B m) (Motor_B_Act_Speed m);
      nb \<leftarrow> f2s32 yb;
      (eb, m) \<leftarrow> MotorB_Set_Pwm nb (m\<lparr>Motor_PID_B := pb\<rparr>);
      let (yc, pc) = Pos_PID_Controller (Motor_PID_C m) (Motor_C_Act_Speed m);
      nc \<leftarrow> f2s32 yc;
      (ec, m) \<leftarrow> MotorC_Set_Pwm nc (m\<lparr>Motor_PID_C := pc\<rparr>);
      Some (ea @ eb @ ec, m)
    }"

definition motor_run :: "counters \<Rightarrow> motor \<Rightarrow> (io list \<times> motor) option" where
  "motor_run q m =
    do {
      let m = m\<lparr>enc := snd (encoder_getvalue q (enc m))\<rparr>;
      (es, m) \<leftarrow> Motor_Pwm_cb m;
      Some (Toggle B9 # es @ [Toggle B9], m)
    }"

definition motor_pid_init :: "Pos_PID_t \<Rightarrow> flt \<Rightarrow> flt \<Rightarrow> Pos_PID_t" where
  "motor_pid_init p kp ki =
    (Pos_PID_Init p kp ki (i2f 0))\<lparr>Ref := i2f 0, Output_Max := i2f 9500,
       Output_Min := i2f (- 9500), Value_I_Max := i2f 50000\<rparr>"

definition Motor_init :: "motor \<Rightarrow> io list \<times> motor" where
  "Motor_init m =
    (let m = m\<lparr>Motor_PID_A := motor_pid_init (Motor_PID_A m) (i2f 20) (d2f (dlit (115 / 1000))),
               MA_target_speed := i2f 0\<rparr>;
         m = m\<lparr>Motor_PID_B := motor_pid_init (Motor_PID_B m) (i2f (- 20)) (d2f (fl_neg (dlit (115 / 1000)))),
               MB_target_speed := i2f 0\<rparr>;
         m = m\<lparr>Motor_PID_C := motor_pid_init (Motor_PID_C m) (i2f 20) (d2f (dlit (115 / 1000))),
               MC_target_speed := i2f 0\<rparr>
     in ([Duty MOTORA_PWM 0, Level MOTORA_DIR 0, Duty MOTORB_PWM 0, Level MOTORB_DIR 0,
          Duty MOTORC_PWM 0, Level MOTORC_DIR 0,
          Duty MOTORA_PWM 0, Duty MOTORB_PWM 0, Duty MOTORC_PWM 0], m))"

definition Motor_Set_Speed :: "int \<Rightarrow> flt \<Rightarrow> motor \<Rightarrow> motor" where
  "Motor_Set_Speed Motor_CH target_speed m =
    (if Motor_CH = 1 then m\<lparr>MA_target_speed := target_speed\<rparr>
     else if Motor_CH = 2 then m\<lparr>MB_target_speed := target_speed\<rparr>
     else if Motor_CH = 3 then m\<lparr>MC_target_speed := target_speed\<rparr>
     else m)"

text \<open>Storage before initialisation: all zeros.\<close>

definition motor_zero :: motor where
  "motor_zero = \<lparr>Motor_PID_A = Pos_PID_zero, Motor_PID_B = Pos_PID_zero, Motor_PID_C = Pos_PID_zero,
     MA_target_speed = Fin 0, MB_target_speed = Fin 0, MC_target_speed = Fin 0,
     Motor_A_Act_Speed = Fin 0, Motor_B_Act_Speed = Fin 0, Motor_C_Act_Speed = Fin 0,
     enc = encoders_init\<rparr>"

section \<open>The filter and the slew limiter keep their ranges\<close>

definition para_ok :: "RC_Para \<Rightarrow> bool" where
  "para_ok f \<longleftrightarrow> RC f = d2f (dlit (7 / 100)) \<and> bnd 15 (rc_value f)"

lemma rc_coefficient: "d2f (dlit (7 / 100)) = Fin (9395241 / 134217728)"
  by code_simp

lemma rc_complement: "fsub (i2f 1) (Fin (9395241 / 134217728)) = Fin (15602811 / 16777216)"
  by code_simp

lemma rc_sum_rounds: "rnd32 ((15602811 / 16777216) * 32768 + (9395241 / 134217728) * 32768) = 32768"
  by code_simp

lemma rc_products_exact:
  "rnd32 ((15602811 / 16777216) * 32768) = (15602811 / 16777216) * 32768"
  "rnd32 ((9395241 / 134217728) * 32768) = (9395241 / 134217728) * 32768"
  by code_simp+

lemma pow2_15: "pow2 15 = 32768"
  by (simp add: pow2_def)

lemma fmul_coeff_bound:
  assumes "bnd 15 v" and "0 \<le> c" and "c \<le> 1" and "rnd32 (c * 32768) = c * 32768"
  shows "\<exists>y. fmul (Fin c) v = Fin y \<and> fmul v (Fin c) = Fin y \<and> \<bar>y\<bar> \<le> c * 32768"
proof -
  from assms(1) obtain x where x: "v = Fin x" "\<bar>x\<bar> \<le> 32768" by (auto simp: bnd_iff pow2_15)
  have le: "\<bar>c * x\<bar> \<le> c * 32768" using assms(2) x(2) by (simp add: abs_mult mult_left_mono)
  then have "\<bar>c * x\<bar> \<le> 100000000000000000000000000000000000000" using assms(3) by linarith
  with le x assms(4) show ?thesis
    by (auto simp: fmul_def f32_small mult.commute intro: b32.R_abs_le_fix)
qed

lemma RCFilter_bnd:
  assumes "para_ok f" and "bnd 15 v"
  shows "bnd 15 (fst (RCFilter v f))" and "para_ok (snd (RCFilter v f))"
proof -
  let ?c1 = "15602811 / 16777216 :: rat" and ?c2 = "9395241 / 134217728 :: rat"
  from assms(1) have f: "RC f = Fin ?c2" "bnd 15 (rc_value f)" by (auto simp: para_ok_def rc_coefficient)
  obtain y where y: "fmul (Fin ?c1) (rc_value f) = Fin y" "\<bar>y\<bar> \<le> ?c1 * 32768"
    using fmul_coeff_bound [OF f(2), of ?c1] rc_products_exact(1) by auto
  obtain z where z: "fmul (Fin ?c2) v = Fin z" "\<bar>z\<bar> \<le> ?c2 * 32768"
    using fmul_coeff_bound [OF assms(2), of ?c2] rc_products_exact(2) by auto
  have "\<bar>y + z\<bar> \<le> ?c1 * 32768 + ?c2 * 32768" using y(2) z(2) by linarith
  then have "rnd32 \<bar>y + z\<bar> \<le> 32768" using b32.R_mono rc_sum_rounds by metis
  moreover have "\<bar>y + z\<bar> \<le> 100000000000000000000000000000000000000" using y(2) z(2) by linarith
  ultimately have "bnd 15 (fadd (Fin y) (Fin z))"
    by (simp add: fadd_def f32_small pow2_15 b32.R_abs)
  then show "bnd 15 (fst (RCFilter v f))" "para_ok (snd (RCFilter v f))"
    using f(1) y(1) z(1) by (simp_all add: RCFilter_def Let_def rc_complement para_ok_def rc_coefficient)
qed

lemma pow2_19: "pow2 19 = 524288"
  by (simp add: pow2_def)

lemma rate_value: "MOTOR_SOFTBOOT_RATE = Fin 100"
  by (simp add: MOTOR_SOFTBOOT_RATE_def f32_small)

lemma slew_consts:
  "rnd32 (13107199 / 131072) = 13107199 / 131072" "rnd32 (524288 + 1 / 131072) = 524288"
  by code_simp+

text \<open>One step up stays below the bound: the subtraction is exact enough.\<close>

lemma slew_up_bound:
  assumes "\<bar>t\<bar> \<le> 524288" and "\<bar>r\<bar> \<le> 524288" and "100 \<le> rnd32 (t - r)"
  shows "\<bar>rnd32 (r + 100)\<bar> \<le> 524288"
proof -
  have "\<not> t - r \<le> 13107199 / 131072"
    using b32.R_mono [of "t - r" "13107199 / 131072"] assms(3) unfolding slew_consts by linarith
  then have "r + 100 \<le> 524288 + 1 / 131072" using assms(1) by linarith
  then have "rnd32 (r + 100) \<le> 524288" using b32.R_mono slew_consts(2) by metis
  moreover have "- 524288 \<le> r + 100" using assms(2) by linarith
  then have "rnd32 (- 524288) \<le> rnd32 (r + 100)" by (rule b32.R_mono)
  moreover have "rnd32 (- 524288) = - 524288" using rnd32_of_int [of "- 524288"] by simp
  ultimately show ?thesis by (simp add: abs_le_iff)
qed

lemma Slew_bnd:
  assumes "bnd 19 r" and "bnd 19 t"
  shows "bnd 19 (snd (Slew_Func r t MOTOR_SOFTBOOT_RATE))"
proof -
  from assms obtain x y where x: "r = Fin x" "\<bar>x\<bar> \<le> 524288" and y: "t = Fin y" "\<bar>y\<bar> \<le> 524288"
    by (auto simp: bnd_iff pow2_19)
  have d: "fsub t r = Fin (rnd32 (y - x))" using x y by (auto simp: fsub_def fl_sub_def intro!: f32_small)
  have "fadd r (Fin 100) = Fin (rnd32 (x + 100))" "fsub r (Fin 100) = Fin (- rnd32 (- x + 100))"
    using x b32.R_neg [of "- x + 100"]
    by (auto simp: fadd_def fsub_def fl_sub_def f32_small)
  moreover have "100 \<le> - rnd32 (y - x) \<Longrightarrow> 100 \<le> rnd32 (- y - - x)"
    using b32.R_neg [of "y - x"] by (simp add: algebra_simps)
  ultimately show ?thesis
    using slew_up_bound [of y x] slew_up_bound [of "- y" "- x"] x y d
    by (auto simp: Slew_Func_def Let_def rate_value pow2_19)
qed

section \<open>The motor loop keeps its invariant\<close>

definition motor_pid_ok :: "Pos_PID_t \<Rightarrow> bool" where
  "motor_pid_ok p \<longleftrightarrow> pid_wf p \<and> bnd 19 (Ref p) \<and> Output_Max p = Fin 9500 \<and> Output_Min p = Fin (- 9500)"

definition encoders_ok :: "encoders \<Rightarrow> bool" where
  "encoders_ok e \<longleftrightarrow> para_ok (Encoder1_Para e) \<and> para_ok (Encoder2_Para e) \<and> para_ok (Encoder3_Para e) \<and>
     bnd 15 (RC_encoder1 e) \<and> bnd 15 (RC_encoder2 e) \<and> bnd 15 (RC_encoder3 e)"

definition motor_wf :: "motor \<Rightarrow> bool" where
  "motor_wf m \<longleftrightarrow> motor_pid_ok (Motor_PID_A m) \<and> motor_pid_ok (Motor_PID_B m) \<and> motor_pid_ok (Motor_PID_C m) \<and>
     bnd 19 (MA_target_speed m) \<and> bnd 19 (MB_target_speed m) \<and> bnd 19 (MC_target_speed m) \<and>
     encoders_ok (enc m)"

definition counters_ok :: "counters \<Rightarrow> bool" where
  "counters_ok q \<longleftrightarrow> (case q of (q1, q2, q3) \<Rightarrow>
     - 32768 \<le> q1 \<and> q1 < 32768 \<and> - 32768 \<le> q2 \<and> q2 < 32768 \<and> - 32768 \<le> q3 \<and> q3 < 32768)"

lemma bnd15_i2f: "\<bar>n\<bar> \<le> 32768 \<Longrightarrow> bnd 15 (i2f n)"
proof -
  assume n: "\<bar>n\<bar> \<le> 32768"
  then have "(of_int \<bar>n\<bar> :: rat) \<le> of_int 32768" by (simp only: of_int_le_iff)
  with n show ?thesis by (simp add: i2f_exact pow2_15)
qed

lemma encoder_getvalue_ok:
  assumes "counters_ok q" and "encoders_ok e"
  shows "encoders_ok (snd (encoder_getvalue q e))"
proof -
  obtain q1 q2 q3 where q: "q = (q1, q2, q3)" by (cases q) auto
  with assms(1) have "bnd 15 (i2f q1)" "bnd 15 (i2f (- q2))" "bnd 15 (i2f q3)"
    by (auto simp: counters_ok_def intro!: bnd15_i2f)
  with assms(2) RCFilter_bnd show ?thesis
    by (simp add: q encoder_getvalue_def Let_def split_beta encoders_ok_def)
qed

lemma act_speed_bnd: "bnd 15 r \<Longrightarrow> bnd 20 (act_speed r)"
proof -
  assume r: "bnd 15 r"
  have c: "dlit (157 / 50) = Fin (7070651414971679 / 2251799813685248)"
      "dlit (61 / 10) = Fin (3433994715870003 / 562949953421312)"
    by code_simp+
  have k: "i2f 1000 = Fin 1000" "i2f 1024 = Fin 1024" by (simp_all add: i2f_exact)
  have b: "bnd 10 (Fin 1000)" "pow2 10 \<le> \<bar>1024\<bar>" by (simp_all add: pow2_def)
  have "bnd 15 (fdiv (fmul r (Fin 1000)) (Fin 1024))"
    by (rule bnd_fdiv [OF bnd_fmul [OF r b(1)] refl b(2)]) simp_all
  then obtain x where x: "fdiv (fmul r (Fin 1000)) (Fin 1024) = Fin x" "\<bar>x\<bar> \<le> 32768"
    by (auto simp: bnd_iff pow2_15)
  let ?c1 = "7070651414971679 / 2251799813685248 :: rat" and ?c2 = "3433994715870003 / 562949953421312 :: rat"
  have s: "\<bar>x * ?c1\<bar> \<le> 102892" using x(2) by (simp add: abs_mult)
  then have m1: "dmul (Fin x) (Fin ?c1) = Fin (rnd64 (x * ?c1))"
    using pow2_le_mx64 [of 17] by (auto simp: dmul_def pow2_def intro!: f64_Fin)
  have s1: "\<bar>rnd64 (x * ?c1)\<bar> \<le> 102892"
    using rnd64_of_int [of 102892] s by (intro b64.R_abs_le_fix) auto
  then have s2: "\<bar>rnd64 (x * ?c1) * ?c2\<bar> \<le> pow2 20" by (simp add: abs_mult pow2_def)
  have "bnd 20 (dmul (Fin (rnd64 (x * ?c1))) (Fin ?c2))"
    using f64_bnd(2) [OF s2] by (simp add: dmul_def)
  then show ?thesis by (simp add: act_speed_def k c x m1 bnd_d2f)
qed

lemma pid_wf_Ref: "pid_wf p \<Longrightarrow> bnd 19 r \<Longrightarrow> pid_wf (p\<lparr>Ref := r\<rparr>)"
  using bnd_mono [of 19 r 20] by (simp add: pid_wf_def)

text \<open>One motor: the controller's answer converts, and its duty is one the driver takes.\<close>

lemma motor_drive_ok:
  assumes "motor_pid_ok p" and "bnd 19 t" and "\<bar>n\<bar> \<le> 9500" and "duty_top pin = 10000"
  shows "\<exists>es p'. motor_drive d pin p t n = Some (es, p') \<and> list_all io_ok es \<and> motor_pid_ok p'"
  using assms Slew_bnd [of "Ref p" t] pid_wf_Ref
  by (auto simp: motor_drive_def Let_def pwm_set_duty_def PWM_DUTY_MAX_def motor_pid_ok_def)

lemma motor_ctl_ok:
  assumes "motor_pid_ok p" and "bnd 20 v"
  shows "\<exists>n. f2s32 (fst (Pos_PID_Controller p v)) = Some n \<and> \<bar>n\<bar> \<le> 9500"
    and "motor_pid_ok (snd (Pos_PID_Controller p v))"
proof -
  have wf: "pid_wf p" using assms(1) by (simp add: motor_pid_ok_def)
  have "in_range (of_int (- 9500)) (of_int 9500) (fst (Pos_PID_Controller p v))"
    using pid.ctl_range [OF wf assms(2)] assms(1) by (simp add: in_range_def motor_pid_ok_def)
  from f2int_range [OF this, of "- 2147483648" 2147483647] show "\<exists>n. f2s32 (fst (Pos_PID_Controller p v)) = Some n \<and> \<bar>n\<bar> \<le> 9500"
    by force
  show "motor_pid_ok (snd (Pos_PID_Controller p v))"
    using pid.ctl_wf [OF wf assms(2)] assms(1) by (simp add: motor_pid_ok_def)
qed

lemma motor_fields_ok:
  "motor_wf m \<Longrightarrow> motor_pid_ok p \<Longrightarrow> motor_wf (m\<lparr>Motor_PID_A := p\<rparr>)"
  "motor_wf m \<Longrightarrow> motor_pid_ok p \<Longrightarrow> motor_wf (m\<lparr>Motor_PID_B := p\<rparr>)"
  "motor_wf m \<Longrightarrow> motor_pid_ok p \<Longrightarrow> motor_wf (m\<lparr>Motor_PID_C := p\<rparr>)"
  by (simp_all add: motor_wf_def)

lemma MotorA_ok:
  assumes "motor_wf m" and "\<bar>n\<bar> \<le> 9500"
  shows "\<exists>r. MotorA_Set_Pwm n m = Some r \<and> list_all io_ok (fst r) \<and> motor_wf (snd r)"
proof -
  have "motor_pid_ok (Motor_PID_A m)" "bnd 19 (MA_target_speed m)" using assms(1) by (simp_all add: motor_wf_def)
  from motor_drive_ok [OF this assms(2) duty_top_simps(1)] obtain es p' where
    "motor_drive MOTORA_DIR MOTORA_PWM (Motor_PID_A m) (MA_target_speed m) n = Some (es, p')"
    "list_all io_ok es" "motor_pid_ok p'" by blast
  then show ?thesis using motor_fields_ok [OF assms(1)] by (simp add: MotorA_Set_Pwm_def)
qed

lemma MotorB_ok:
  assumes "motor_wf m" and "\<bar>n\<bar> \<le> 9500"
  shows "\<exists>r. MotorB_Set_Pwm n m = Some r \<and> list_all io_ok (fst r) \<and> motor_wf (snd r)"
proof -
  have "motor_pid_ok (Motor_PID_B m)" "bnd 19 (MB_target_speed m)" using assms(1) by (simp_all add: motor_wf_def)
  from motor_drive_ok [OF this assms(2) duty_top_simps(2)] obtain es p' where
    "motor_drive MOTORB_DIR MOTORB_PWM (Motor_PID_B m) (MB_target_speed m) n = Some (es, p')"
    "list_all io_ok es" "motor_pid_ok p'" by blast
  then show ?thesis using motor_fields_ok [OF assms(1)] by (simp add: MotorB_Set_Pwm_def)
qed

lemma MotorC_ok:
  assumes "motor_wf m" and "\<bar>n\<bar> \<le> 9500"
  shows "\<exists>r. MotorC_Set_Pwm n m = Some r \<and> list_all io_ok (fst r) \<and> motor_wf (snd r)"
proof -
  have "motor_pid_ok (Motor_PID_C m)" "bnd 19 (MC_target_speed m)" using assms(1) by (simp_all add: motor_wf_def)
  from motor_drive_ok [OF this assms(2) duty_top_simps(3)] obtain es p' where
    "motor_drive MOTORC_DIR MOTORC_PWM (Motor_PID_C m) (MC_target_speed m) n = Some (es, p')"
    "list_all io_ok es" "motor_pid_ok p'" by blast
  then show ?thesis using motor_fields_ok [OF assms(1)] by (simp add: MotorC_Set_Pwm_def)
qed

lemma Set_Pwm_frame:
  "MotorA_Set_Pwm n m = Some (es, m') \<Longrightarrow> Motor_B_Act_Speed m' = Motor_B_Act_Speed m \<and> Motor_C_Act_Speed m' = Motor_C_Act_Speed m"
  "MotorB_Set_Pwm n m = Some (es, m') \<Longrightarrow> Motor_C_Act_Speed m' = Motor_C_Act_Speed m"
  by (auto simp: MotorA_Set_Pwm_def MotorB_Set_Pwm_def split: Option.bind_splits)

lemma Motor_Pwm_cb_ok:
  assumes wf: "motor_wf m"
  shows "\<exists>r. Motor_Pwm_cb m = Some r \<and> list_all io_ok (fst r) \<and> motor_wf (snd r)"
proof -
  define m0 where "m0 = m\<lparr>Motor_A_Act_Speed := act_speed (RC_encoder1 (enc m)),
    Motor_B_Act_Speed := act_speed (RC_encoder2 (enc m)), Motor_C_Act_Speed := act_speed (RC_encoder3 (enc m))\<rparr>"
  have wf0: "motor_wf m0" using wf by (simp add: m0_def motor_wf_def)
  have sp: "bnd 20 (Motor_A_Act_Speed m0)" "bnd 20 (Motor_B_Act_Speed m0)" "bnd 20 (Motor_C_Act_Speed m0)"
    using wf act_speed_bnd by (simp_all add: m0_def motor_wf_def encoders_ok_def)
  from wf0 have "motor_pid_ok (Motor_PID_A m0)" by (simp add: motor_wf_def)
  from motor_ctl_ok [OF this sp(1)] obtain na where na:
    "f2s32 (fst (Pos_PID_Controller (Motor_PID_A m0) (Motor_A_Act_Speed m0))) = Some na" "\<bar>na\<bar> \<le> 9500"
    and pa: "motor_pid_ok (snd (Pos_PID_Controller (Motor_PID_A m0) (Motor_A_Act_Speed m0)))" by blast
  from MotorA_ok [OF motor_fields_ok(1) [OF wf0 pa] na(2)] obtain ea m1 where m1:
    "MotorA_Set_Pwm na (m0\<lparr>Motor_PID_A := snd (Pos_PID_Controller (Motor_PID_A m0) (Motor_A_Act_Speed m0))\<rparr>) = Some (ea, m1)"
    "list_all io_ok ea" "motor_wf m1" by auto
  have sp1: "bnd 20 (Motor_B_Act_Speed m1)" "bnd 20 (Motor_C_Act_Speed m1)"
    using Set_Pwm_frame(1) [OF m1(1)] sp by simp_all
  from m1(3) have "motor_pid_ok (Motor_PID_B m1)" by (simp add: motor_wf_def)
  from motor_ctl_ok [OF this sp1(1)] obtain nb where nb:
    "f2s32 (fst (Pos_PID_Controller (Motor_PID_B m1) (Motor_B_Act_Speed m1))) = Some nb" "\<bar>nb\<bar> \<le> 9500"
    and pb: "motor_pid_ok (snd (Pos_PID_Controller (Motor_PID_B m1) (Motor_B_Act_Speed m1)))" by blast
  from MotorB_ok [OF motor_fields_ok(2) [OF m1(3) pb] nb(2)] obtain eb m2 where m2:
    "MotorB_Set_Pwm nb (m1\<lparr>Motor_PID_B := snd (Pos_PID_Controller (Motor_PID_B m1) (Motor_B_Act_Speed m1))\<rparr>) = Some (eb, m2)"
    "list_all io_ok eb" "motor_wf m2" by auto
  have sp2: "bnd 20 (Motor_C_Act_Speed m2)" using Set_Pwm_frame(2) [OF m2(1)] sp1 by simp
  from m2(3) have "motor_pid_ok (Motor_PID_C m2)" by (simp add: motor_wf_def)
  from motor_ctl_ok [OF this sp2] obtain nc where nc:
    "f2s32 (fst (Pos_PID_Controller (Motor_PID_C m2) (Motor_C_Act_Speed m2))) = Some nc" "\<bar>nc\<bar> \<le> 9500"
    and pc: "motor_pid_ok (snd (Pos_PID_Controller (Motor_PID_C m2) (Motor_C_Act_Speed m2)))" by blast
  from MotorC_ok [OF motor_fields_ok(3) [OF m2(3) pc] nc(2)] obtain ec m3 where m3:
    "MotorC_Set_Pwm nc (m2\<lparr>Motor_PID_C := snd (Pos_PID_Controller (Motor_PID_C m2) (Motor_C_Act_Speed m2))\<rparr>) = Some (ec, m3)"
    "list_all io_ok ec" "motor_wf m3" by auto
  have "Motor_Pwm_cb m = Some (ea @ eb @ ec, m3)"
    using na(1) nb(1) nc(1) m1(1) m2(1) m3(1)
    by (simp add: Motor_Pwm_cb_def m0_def [symmetric] split_beta)
  then show ?thesis using m1(2) m2(2) m3(2,3) by simp
qed

lemma motor_run_ok:
  assumes "motor_wf m" and "counters_ok q"
  shows "\<exists>r. motor_run q m = Some r \<and> list_all io_ok (fst r) \<and> motor_wf (snd r)"
proof -
  have "motor_wf (m\<lparr>enc := snd (encoder_getvalue q (enc m))\<rparr>)"
    using assms encoder_getvalue_ok by (simp add: motor_wf_def)
  from Motor_Pwm_cb_ok [OF this] show ?thesis by (auto simp: motor_run_def)
qed

lemma motor_pid_init_ok:
  assumes "bnd 10 kp" and "bnd 10 ki"
  shows "motor_pid_ok (motor_pid_init p kp ki)"
  using assms
  by (simp add: motor_pid_init_def motor_pid_ok_def Pos_PID_Init_def pid_wf_def i2f_exact pow2_def)

lemma Motor_init_wf:
  assumes "encoders_ok (enc m)"
  shows "motor_wf (snd (Motor_init m))"
proof -
  have k: "d2f (dlit (115 / 1000)) = Fin (15435039 / 134217728)"
    "d2f (fl_neg (dlit (115 / 1000))) = Fin (- 15435039 / 134217728)" by code_simp+
  have "bnd 10 (i2f 20)" "bnd 10 (i2f (- 20))" "bnd 10 (d2f (dlit (115 / 1000)))"
    "bnd 10 (d2f (fl_neg (dlit (115 / 1000))))"
    unfolding k by (simp_all add: i2f_exact pow2_def)
  with assms show ?thesis
    unfolding Motor_init_def Let_def
    by (simp add: motor_wf_def motor_pid_init_ok i2f_exact del: of_int_minus)
qed

lemma Motor_Set_Speed_wf: "motor_wf m \<Longrightarrow> bnd 19 v \<Longrightarrow> motor_wf (Motor_Set_Speed ch v m)"
  by (simp add: Motor_Set_Speed_def motor_wf_def)

section \<open>Sessions\<close>

text \<open>What the rest of the car does to the motors: set a target, run one period.\<close>

datatype motor_event = SetSpeed int flt | MotorTick counters

fun motor_step :: "motor_event \<Rightarrow> motor \<Rightarrow> (io list \<times> motor) option" where
  "motor_step (SetSpeed ch v) m = Some ([], Motor_Set_Speed ch v m)"
| "motor_step (MotorTick q) m = motor_run q m"

fun motor_events :: "motor_event list \<Rightarrow> motor \<Rightarrow> (io list \<times> motor) option" where
  "motor_events [] m = Some ([], m)"
| "motor_events (e # evs) m =
     do { (o1, m1) \<leftarrow> motor_step e m; (o2, m2) \<leftarrow> motor_events evs m1; Some (o1 @ o2, m2) }"

fun motor_event_ok :: "motor_event \<Rightarrow> bool" where
  "motor_event_ok (SetSpeed ch v) = bnd 19 v"
| "motor_event_ok (MotorTick q) = counters_ok q"

lemma motor_step_ok:
  "motor_wf m \<Longrightarrow> motor_event_ok e \<Longrightarrow>
     \<exists>r. motor_step e m = Some r \<and> list_all io_ok (fst r) \<and> motor_wf (snd r)"
  using motor_run_ok by (cases e) (auto simp: Motor_Set_Speed_wf)

lemma motor_events_ok:
  "motor_wf m \<Longrightarrow> list_all motor_event_ok evs \<Longrightarrow>
     \<exists>r. motor_events evs m = Some r \<and> list_all io_ok (fst r) \<and> motor_wf (snd r)"
proof (induction evs arbitrary: m)
  case Nil
  then show ?case by simp
next
  case (Cons e evs)
  then have "motor_event_ok e" by simp
  from motor_step_ok [OF Cons.prems(1) this] obtain o1 m1 where
    m1: "motor_step e m = Some (o1, m1)" "list_all io_ok o1" "motor_wf m1" by auto
  from Cons.IH [OF m1(3)] Cons.prems(2) obtain o2 m2 where
    "motor_events evs m1 = Some (o2, m2)" "list_all io_ok o2" "motor_wf m2" by auto
  with m1 show ?case by simp
qed

lemma encoders_init_ok: "encoders_ok encoders_init"
  by (simp add: encoders_ok_def encoders_init_def para_ok_def Encoder_Para_init_def)

section \<open>The slew limiter on whole speeds\<close>

lemma Slew_int:
  assumes "\<bar>r\<bar> \<le> 8000000" and "\<bar>t\<bar> \<le> 8000000"
  shows "Slew_Func (Fin (of_int r)) (Fin (of_int t)) MOTOR_SOFTBOOT_RATE =
    (if 100 \<le> t - r then (Fin 1, Fin (of_int (r + 100)))
     else if 100 \<le> r - t then (Fin (- 1), Fin (of_int (r - 100)))
     else (Fin 0, Fin (of_int t)))"
proof -
  have d: "fsub (Fin (of_int t)) (Fin (of_int r)) = Fin (of_int (t - r))"
    using f32_of_int [of "t - r"] assms by (simp add: fsub_def fl_sub_def)
  have u: "fadd (Fin (of_int r)) (Fin 100) = Fin (of_int (r + 100))"
    using f32_of_int [of "r + 100"] assms by (simp add: fadd_def)
  have l: "fsub (Fin (of_int r)) (Fin 100) = Fin (of_int (r - 100))"
    using f32_of_int [of "r - 100"] assms by (simp add: fsub_def fl_sub_def)
  have le: "(100 :: rat) \<le> of_int (t - r) \<longleftrightarrow> 100 \<le> t - r" "(100 :: rat) \<le> - of_int (t - r) \<longleftrightarrow> 100 \<le> r - t"
    using of_int_le_iff [of 100 "t - r", where 'a = rat] of_int_le_iff [of 100 "r - t", where 'a = rat] by auto
  show ?thesis unfolding Slew_Func_def Let_def d rate_value using u l le by (simp del: of_int_diff of_int_add)
qed

fun slew_times :: "nat \<Rightarrow> flt \<Rightarrow> flt \<Rightarrow> flt" where
  "slew_times 0 r t = r"
| "slew_times (Suc n) r t = slew_times n (snd (Slew_Func r t MOTOR_SOFTBOOT_RATE)) t"

lemma slew_times_target:
  assumes "\<bar>t\<bar> \<le> 8000000"
  shows "slew_times n (Fin (of_int t)) (Fin (of_int t)) = Fin (of_int t)"
  using assms by (induction n) (simp_all add: Slew_int)

text \<open>
  C25: The soft start is exact and finite: from any whole speed to any whole target, both up to 8000000 in absolute value, the
  reference of a motor equals the target after one call of \<open>Slew_Func\<close> per 100 units of distance
  (and one more for the rest), in both directions, and stays there.
\<close>

theorem slew_reaches_target:
  assumes "\<bar>r\<bar> \<le> 8000000" and "\<bar>t\<bar> \<le> 8000000" and "\<bar>t - r\<bar> div 100 < int n"
  shows "slew_times n (Fin (of_int r)) (Fin (of_int t)) = Fin (of_int t)"
  using assms
proof (induction n arbitrary: r)
  case 0
  then show ?case by (simp add: pos_imp_zdiv_neg_iff)
next
  case (Suc n)
  consider "100 \<le> t - r" | "100 \<le> r - t" | "t - r < 100" "r - t < 100" by linarith
  then show ?case
  proof cases
    case 1
    then have "\<bar>t - (r + 100)\<bar> div 100 < int n" using Suc.prems(3) by auto
    with Suc.IH [of "r + 100"] Suc.prems 1 show ?thesis by (simp add: Slew_int)
  next
    case 2
    then have "\<bar>t - (r - 100)\<bar> div 100 < int n" using Suc.prems(3) by auto
    with Suc.IH [of "r - 100"] Suc.prems 2 show ?thesis by (simp add: Slew_int)
  next
    case 3
    with Suc.prems show ?thesis using slew_times_target by (simp add: Slew_int)
  qed
qed

theorem slew_reaches_target_witness: "slew_times 4 (Fin (of_int (- 50))) (Fin (of_int 300)) = Fin (of_int 300)"
  by (rule slew_reaches_target) simp_all

text \<open>C1: The motor loop is safe: from the state Motor_init leaves, after any sequence of
  speed commands up to 2 ^ 19 and of periods with any 16 bit counter readings, every
  operation was defined (no float overflows an integer conversion, no duty trips the
  assertion of the PWM driver), every duty lies between 0 and PWM_DUTY_MAX, and the
  invariant of the controllers and filters holds again.\<close>

theorem motor_session_safe:
  assumes "list_all motor_event_ok evs"
  shows "\<exists>es m. motor_events evs (snd (Motor_init motor_zero)) = Some (es, m) \<and>
           list_all io_ok es \<and> motor_wf m"
proof -
  have "motor_wf (snd (Motor_init motor_zero))"
    by (rule Motor_init_wf) (simp add: motor_zero_def encoders_init_ok)
  from motor_events_ok [OF this assms] show ?thesis by auto
qed

theorem motor_session_safe_witness:
  "\<exists>es m. motor_events [SetSpeed 1 (Fin 300), MotorTick (100, - 32768, 50)] (snd (Motor_init motor_zero)) = Some (es, m) \<and>
     list_all io_ok es \<and> motor_wf m"
  by (rule motor_session_safe) (simp add: counters_ok_def pow2_def)

end
