(* ===== verification/StepMotor.thy ===== *)
theory StepMotor
  imports Board
begin

text \<open>
  The arm (\<open>code/src/step_motor.c\<close>): two servos moved together in equal steps, the magnet, and
  the scripts that catch and put a box.  The loop of \<open>servo_slow_ctrl\<close> has no
  bound in the source, so it takes fuel: \<open>None\<close> is an undefined conversion, a
  rejected duty, or fuel used up; the theorems show that as many rounds as the step count
  are enough for the angles of an arm.
\<close>

section \<open>State and operations\<close>

record arm =
  servo1_duty :: int
  servo2_duty :: int
  step_duty :: int
  catch_flag :: int

definition arm_zero :: arm where
  "arm_zero = \<lparr>servo1_duty = 0, servo2_duty = 0, step_duty = 0, catch_flag = 0\<rparr>"

definition DOWN_MOTOR_INIT_ANGLE :: int where "DOWN_MOTOR_INIT_ANGLE = 15"
definition UP_MOTOR_INIT_ANGLE :: int where "UP_MOTOR_INIT_ANGLE = 177"

text \<open>\<open>(float)PWM_DUTY_MAX/(1000.0/(float)50)*(0.5+(float)(x)/90.0)\<close>, with 180.0 for the turntable.\<close>

definition SERVO_MOTOR_DUTY :: "flt \<Rightarrow> flt" where
  "SERVO_MOTOR_DUTY x =
    dmul (ddiv (i2f PWM_DUTY_MAX) (ddiv (dlit 1000) (i2f 50))) (dadd (dlit (1 / 2)) (ddiv x (dlit 90)))"

definition SERVO_360_MOTOR_DUTY :: "flt \<Rightarrow> flt" where
  "SERVO_360_MOTOR_DUTY x =
    dmul (ddiv (i2f PWM_DUTY_MAX) (ddiv (dlit 1000) (i2f 50))) (dadd (dlit (1 / 2)) (ddiv x (dlit 180)))"

text \<open>One move of a servo towards its target, and the duty it is given.\<close>

definition servo_next :: "flt \<Rightarrow> int \<Rightarrow> flt \<Rightarrow> flt" where
  "servo_next start angle st =
    (if flt_ge (fl_abs (fsub start (i2f angle))) st then fadd start st else i2f angle)"

definition servo_out :: "(flt \<Rightarrow> flt) \<Rightarrow> pwm_pin \<Rightarrow> flt \<Rightarrow> io list option" where
  "servo_out duty pin start =
    do { u \<leftarrow> f2u16 start; d \<leftarrow> f2u32 (duty (i2f u)); pwm_set_duty pin d }"

definition servo_done :: "flt \<Rightarrow> int \<Rightarrow> bool" where
  "servo_done start angle \<longleftrightarrow> flt_less (fl_abs (fsub start (i2f angle))) (i2f 1)"

fun servo_loop :: "nat \<Rightarrow> int \<Rightarrow> int \<Rightarrow> flt \<Rightarrow> flt \<Rightarrow> flt \<Rightarrow> flt \<Rightarrow> io list option" where
  "servo_loop 0 a1 a2 st1 st2 s1 s2 = None"
| "servo_loop (Suc fuel) a1 a2 st1 st2 s1 s2 =
    do {
      let s1 = servo_next s1 a1 st1;
      e1 \<leftarrow> servo_out SERVO_MOTOR_DUTY DOWN_MOTOR_CON_PIN s1;
      let s2 = servo_next s2 a2 st2;
      e2 \<leftarrow> servo_out SERVO_MOTOR_DUTY UP_MOTOR_CON_PIN s2;
      if servo_done s1 a1 \<and> servo_done s2 a2 then Some (Delay 5 # e1 @ e2)
      else do { es \<leftarrow> servo_loop fuel a1 a2 st1 st2 s1 s2; Some (Delay 5 # e1 @ e2 @ es) }
    }"

definition servo_step :: "int \<Rightarrow> int \<Rightarrow> flt \<Rightarrow> flt" where
  "servo_step angle duty cnt = fdiv (i2f (angle - duty)) cnt"

definition servo_slow_ctrl :: "nat \<Rightarrow> int \<Rightarrow> int \<Rightarrow> flt \<Rightarrow> arm \<Rightarrow> (io list \<times> arm) option" where
  "servo_slow_ctrl fuel a1 a2 cnt s =
    do {
      es \<leftarrow> servo_loop fuel a1 a2 (servo_step a1 (servo1_duty s) cnt) (servo_step a2 (servo2_duty s) cnt)
              (i2f (servo1_duty s)) (i2f (servo2_duty s));
      Some (es, s\<lparr>servo1_duty := u16 a1, servo2_duty := u16 a2\<rparr>)
    }"

fun turn_loop :: "nat \<Rightarrow> int \<Rightarrow> flt \<Rightarrow> flt \<Rightarrow> io list option" where
  "turn_loop 0 a st s = None"
| "turn_loop (Suc fuel) a st s =
    do {
      let s = servo_next s a st;
      e \<leftarrow> servo_out SERVO_360_MOTOR_DUTY TURN_MOTOR_CON_PIN s;
      if servo_done s a then Some (Delay 5 # e)
      else do { es \<leftarrow> turn_loop fuel a st s; Some (Delay 5 # e @ es) }
    }"

definition Step_angle_con :: "nat \<Rightarrow> int \<Rightarrow> int \<Rightarrow> arm \<Rightarrow> (io list \<times> arm) option" where
  "Step_angle_con fuel target_angle cnt s =
    do {
      es \<leftarrow> turn_loop fuel target_angle (servo_step target_angle (step_duty s) (i2f cnt)) (i2f (step_duty s));
      Some (es, s\<lparr>step_duty := u16 target_angle\<rparr>)
    }"

text \<open>
  The scripts are sequences of moves, waits and magnet levels, run in order; the
  fuel of each move is its step count.
\<close>

datatype act = Move int int int | Out io

fun run_acts :: "act list \<Rightarrow> arm \<Rightarrow> (io list \<times> arm) option" where
  "run_acts [] s = Some ([], s)"
| "run_acts (Move a1 a2 n # xs) s =
    do {
      (e1, s) \<leftarrow> servo_slow_ctrl (nat n) a1 a2 (i2f n) s;
      (e2, s) \<leftarrow> run_acts xs s;
      Some (e1 @ e2, s)
    }"
| "run_acts (Out e # xs) s = do { (es, s) \<leftarrow> run_acts xs s; Some (e # es, s) }"

definition Step_Motor_Reset :: "act list" where
  "Step_Motor_Reset = [Move UP_MOTOR_INIT_ANGLE DOWN_MOTOR_INIT_ANGLE 100]"

definition Step_Motor_Catch :: "act list" where
  "Step_Motor_Catch =
    [Move 96 6 80, Out (Delay 50), Out (Level B10 1), Out (Delay 350),
     Move 140 6 75, Out (Delay 100), Move 140 100 50, Out (Delay 50),
     Move 175 100 50, Out (Delay 50), Move 180 130 50, Out (Delay 50),
     Out (Level B10 0), Move 140 120 50, Out (Delay 50)] @ Step_Motor_Reset"

definition Step_Motor_Put :: "act list" where
  "Step_Motor_Put =
    [Out (Delay 100), Out (Level B10 1), Move 140 137 75, Out (Delay 100),
     Move 180 137 50, Out (Delay 250), Move 165 137 75, Out (Delay 100),
     Move 165 7 75, Out (Delay 100), Move 95 7 75, Out (Delay 100),
     Out (Level B10 0)] @ Step_Motor_Reset"

text \<open>One pass of the test thread.\<close>

definition Catch_Entry :: "arm \<Rightarrow> (io list \<times> arm) option" where
  "Catch_Entry s =
    (if catch_flag s = 0 then
       do {
         (es, s) \<leftarrow> run_acts (Step_Motor_Catch @ Step_Motor_Catch @ Step_Motor_Catch @ Step_Motor_Catch @
           [Out (Level B10 1)] @ Step_Motor_Put @ Step_Motor_Put @ Step_Motor_Put @ Step_Motor_Reset) s;
         Some (es @ [Delay 1], s\<lparr>catch_flag := 1\<rparr>)
       }
     else Some ([Delay 1], s))"

definition pwm_init_duty :: "pwm_pin \<Rightarrow> flt \<Rightarrow> io list option" where
  "pwm_init_duty pin v = do { d \<leftarrow> f2u32 (SERVO_MOTOR_DUTY v); pwm_set_duty pin d }"

definition Step_Motor_Init :: "arm \<Rightarrow> (io list \<times> arm) option" where
  "Step_Motor_Init s =
    do {
      e1 \<leftarrow> pwm_init_duty DOWN_MOTOR_CON_PIN (i2f DOWN_MOTOR_INIT_ANGLE);
      e2 \<leftarrow> pwm_init_duty UP_MOTOR_CON_PIN (i2f UP_MOTOR_INIT_ANGLE);
      (e3, s) \<leftarrow> run_acts [Move 140 DOWN_MOTOR_INIT_ANGLE 100, Out (Delay 300)] s;
      e4 \<leftarrow> pwm_init_duty TURN_MOTOR_CON_PIN (d2f (dlit (238 / 10)));
      let s = s\<lparr>servo1_duty := UP_MOTOR_INIT_ANGLE, servo2_duty := DOWN_MOTOR_INIT_ANGLE\<rparr>;
      (e5, s) \<leftarrow> run_acts (Out (Delay 1000) # Step_Motor_Reset) s;
      Some (e1 @ e2 @ e3 @ e4 @ Level B10 0 # e5, s)
    }"

section \<open>The path of one servo\<close>

text \<open>
  After \<open>k\<close> of \<open>n\<close> moves a servo is within \<open>k / 1000\<close> of its straight path, or,
  when it climbs, already at its target.
\<close>

definition near :: "int \<Rightarrow> int \<Rightarrow> nat \<Rightarrow> nat \<Rightarrow> flt \<Rightarrow> bool" where
  "near s0 t n k v \<longleftrightarrow> (\<exists>r. v = Fin r \<and> ((s0 < t \<and> r = of_int t) \<or>
     \<bar>r - (of_int s0 + of_nat k * (of_int (t - s0) / of_nat n))\<bar> \<le> of_nat k / 1000))"

definition angle_ok :: "int \<Rightarrow> bool" where
  "angle_ok a \<longleftrightarrow> 0 \<le> a \<and> a \<le> 300"

lemma near_path_range:
  assumes "angle_ok s0" and "angle_ok t" and "0 < n" and "k \<le> n"
  shows "0 \<le> (of_int s0 :: rat) + of_nat k * (of_int (t - s0) / of_nat n)"
    and "(of_int s0 :: rat) + of_nat k * (of_int (t - s0) / of_nat n) \<le> 300"
proof -
  define l where "l = (of_nat k / of_nat n :: rat)"
  have l: "0 \<le> l" "l \<le> 1" using assms(3,4) by (simp_all add: l_def)
  have a: "(0 :: rat) \<le> of_int s0" "(of_int s0 :: rat) \<le> 300" "(0 :: rat) \<le> of_int t" "(of_int t :: rat) \<le> 300"
    using assms(1,2) of_int_le_iff [of s0 300, where 'a = rat] of_int_le_iff [of t 300, where 'a = rat]
    by (simp_all add: angle_ok_def)
  have e: "(of_int s0 :: rat) + of_nat k * (of_int (t - s0) / of_nat n) = (1 - l) * of_int s0 + l * of_int t"
    by (simp add: l_def algebra_simps diff_divide_distrib)
  have "(1 - l) * of_int s0 + l * of_int t \<le> (1 - l) * 300 + l * 300"
    using l a by (intro add_mono mult_left_mono) auto
  then show "(of_int s0 :: rat) + of_nat k * (of_int (t - s0) / of_nat n) \<le> 300" unfolding e by (simp add: algebra_simps)
  show "0 \<le> (of_int s0 :: rat) + of_nat k * (of_int (t - s0) / of_nat n)" unfolding e using l a by simp
qed

lemma near_range:
  assumes "angle_ok s0" and "angle_ok t" and "0 < n" and "k \<le> n" and "n \<le> 200" and "near s0 t n k v"
  obtains r where "v = Fin r" and "- (1 / 5) \<le> r" and "r \<le> 300 + 1 / 5"
    and "(s0 < t \<and> r = of_int t) \<or> \<bar>r - (of_int s0 + of_nat k * (of_int (t - s0) / of_nat n))\<bar> \<le> of_nat k / 1000"
proof -
  from assms(6) obtain r where r: "v = Fin r"
    "(s0 < t \<and> r = of_int t) \<or> \<bar>r - (of_int s0 + of_nat k * (of_int (t - s0) / of_nat n))\<bar> \<le> of_nat k / 1000"
    by (auto simp: near_def)
  have k: "(of_nat k :: rat) / 1000 \<le> 1 / 5"
    using assms(4,5) of_nat_le_iff [of k 200, where 'a = rat] by simp
  have t: "(0 :: rat) \<le> of_int t" "(of_int t :: rat) \<le> 300"
    using assms(2) of_int_le_iff [of t 300, where 'a = rat] by (simp_all add: angle_ok_def)
  define p where "p = (of_int s0 :: rat) + of_nat k * (of_int (t - s0) / of_nat n)"
  define e where "e = (of_nat k :: rat) / 1000"
  have p: "0 \<le> p" "p \<le> 300" using near_path_range [OF assms(1-4)] unfolding p_def by blast+
  have "r = of_int t \<or> \<bar>r - p\<bar> \<le> e" using r(2) unfolding p_def e_def by blast
  then have "- (1 / 5) \<le> r \<and> r \<le> 300 + 1 / 5"
  proof
    assume "r = of_int t"
    with t show ?thesis by simp
  next
    assume "\<bar>r - p\<bar> \<le> e"
    with p k show ?thesis unfolding e_def [symmetric] by linarith
  qed
  with r that show thesis by blast
qed

lemma pow2_9_16: "pow2 9 = 512" "pow2 (9 - int 24 - 1) = 1 / 65536"
  by (simp_all add: pow2_def)

lemma rnd32_err: "\<bar>x\<bar> < 512 \<Longrightarrow> \<bar>rnd32 x - x\<bar> \<le> 1 / 65536"
  using rnd_error [of x 9 "- 126" 24] unfolding pow2_9_16 rnd32_def by simp

lemma step_value:
  assumes "angle_ok s0" and "angle_ok t" and "0 < n" and "n \<le> 200"
  obtains u where "servo_step t s0 (i2f (int n)) = Fin u"
    and "\<bar>u - of_int (t - s0) / of_nat n\<bar> \<le> 1 / 65536" and "s0 < t \<Longrightarrow> 0 < u" and "t \<le> s0 \<Longrightarrow> u \<le> 0"
    and "\<bar>u\<bar> \<le> 300"
proof -
  define q where "q = (of_int (t - s0) / of_nat n :: rat)"
  have n: "(1 :: rat) \<le> of_nat n" "(of_nat n :: rat) \<le> 200"
    using assms(3,4) of_nat_le_iff [of n 200, where 'a = rat] by simp_all
  have d: "\<bar>of_int (t - s0) :: rat\<bar> \<le> 300"
  proof -
    have "\<bar>t - s0\<bar> \<le> 300" using assms(1,2) by (auto simp: angle_ok_def)
    then have "(of_int \<bar>t - s0\<bar> :: rat) \<le> of_int 300" by (simp only: of_int_le_iff)
    then show ?thesis by simp
  qed
  have "\<bar>q\<bar> \<le> \<bar>of_int (t - s0) :: rat\<bar> / 1"
    unfolding q_def abs_divide using n by (intro divide_left_mono) auto
  then have q: "\<bar>q\<bar> \<le> 300" using d by simp
  have "\<bar>t - s0\<bar> \<le> 16777216" "\<bar>int n\<bar> \<le> 16777216" using assms by (auto simp: angle_ok_def)
  then have st: "servo_step t s0 (i2f (int n)) = f32 q"
    using n by (simp add: servo_step_def i2f_exact fdiv_def q_def)
  then have v: "servo_step t s0 (i2f (int n)) = Fin (rnd32 q)" using q by (simp add: f32_small)
  moreover have "\<bar>rnd32 q - q\<bar> \<le> 1 / 65536" using q by (intro rnd32_err) simp
  moreover have "0 < rnd32 q" if "s0 < t"
  proof -
    have "(1 :: rat) \<le> of_int (t - s0)" using that of_int_le_iff [of 1 "t - s0", where 'a = rat] by simp
    then have "1 / 200 \<le> q" unfolding q_def using n by (intro frac_le) auto
    then have "rnd32 (1 / 200) \<le> rnd32 q" by (rule b32.R_mono)
    moreover have "0 < rnd32 (1 / 200)" by code_simp
    ultimately show ?thesis by linarith
  qed
  moreover have "rnd32 q \<le> 0" if "t \<le> s0"
    using that n by (intro b32.R_nonpos) (simp add: q_def divide_nonpos_nonneg)
  moreover have "\<bar>rnd32 q\<bar> \<le> 300" using q by (intro b32.R_abs_le_fix) simp_all
  ultimately show thesis using that unfolding q_def by blast
qed

lemma near_0: "angle_ok s0 \<Longrightarrow> near s0 t n 0 (i2f s0)"
  by (simp add: near_def angle_ok_def i2f_exact)

lemma near_step:
  assumes "angle_ok s0" and "angle_ok t" and "0 < n" and "k < n" and "n \<le> 200" and "near s0 t n k v"
  shows "near s0 t n (Suc k) (servo_next v t (servo_step t s0 (i2f (int n))))"
proof -
  define q where "q = (of_int (t - s0) / of_nat n :: rat)"
  obtain u where u: "servo_step t s0 (i2f (int n)) = Fin u" "\<bar>u - q\<bar> \<le> 1 / 65536"
    "s0 < t \<Longrightarrow> 0 < u" "t \<le> s0 \<Longrightarrow> u \<le> 0" "\<bar>u\<bar> \<le> 300"
    using step_value [OF assms(1-3,5)] unfolding q_def by metis
  obtain r where r: "v = Fin r" "- (1 / 5) \<le> r" "r \<le> 300 + 1 / 5"
    "(s0 < t \<and> r = of_int t) \<or> \<bar>r - (of_int s0 + of_nat k * q)\<bar> \<le> of_nat k / 1000"
    using near_range [OF assms(1-3) _ assms(5,6)] assms(4) unfolding q_def by (metis less_imp_le)
  have ti: "i2f t = Fin (of_int t)" "(0 :: rat) \<le> of_int t" "(of_int t :: rat) \<le> 300"
    using assms(2) of_int_le_iff [of t 300, where 'a = rat] by (simp_all add: angle_ok_def i2f_exact)
  have sb: "fl_abs (fsub v (i2f t)) = Fin \<bar>rnd32 (r - of_int t)\<bar>"
    using r ti by (simp add: fsub_def fl_sub_def f32_small)
  show ?thesis
  proof (cases "u \<le> \<bar>rnd32 (r - of_int t)\<bar>")
    case True
    then have nt: "\<not> (s0 < t \<and> r = of_int t)" using u(3) by (auto simp: b32.R_zero)
    with r(4) have path: "\<bar>r - (of_int s0 + of_nat k * q)\<bar> \<le> of_nat k / 1000" by blast
    have "\<bar>r + u\<bar> \<le> 600 + 1 / 5" using r u(5) by linarith
    then have e: "\<bar>rnd32 (r + u) - (r + u)\<bar> \<le> 1 / 8192" and f: "f32 (r + u) = Fin (rnd32 (r + u))"
      using rnd_error [of "r + u" 10 "- 126" 24] by (simp_all add: rnd32_def pow2_def f32_small)
    have "r + u - (of_int s0 + of_nat (Suc k) * q) = (r - (of_int s0 + of_nat k * q)) + (u - q)"
      by (simp add: algebra_simps)
    then have "\<bar>rnd32 (r + u) - (of_int s0 + of_nat (Suc k) * q)\<bar> \<le> of_nat k / 1000 + 1 / 65536 + 1 / 8192"
      using path u(2) e by linarith
    then have "\<bar>rnd32 (r + u) - (of_int s0 + of_nat (Suc k) * q)\<bar> \<le> of_nat (Suc k) / 1000" by simp
    moreover have "servo_next v t (Fin u) = Fin (rnd32 (r + u))"
      using True sb r(1) f by (simp add: servo_next_def fadd_def)
    ultimately show ?thesis unfolding near_def u(1) q_def by blast
  next
    case False
    then have "0 < u" by linarith
    then have "s0 < t" using u(4) by force
    moreover have "servo_next v t (Fin u) = i2f t"
      using False unfolding servo_next_def sb by simp
    ultimately show ?thesis unfolding near_def u(1) ti(1) by simp
  qed
qed

lemma near_end:
  assumes "angle_ok s0" and "angle_ok t" and "0 < n" and "n \<le> 200" and "near s0 t n n v"
  shows "servo_done v t"
proof -
  obtain r where r: "v = Fin r" "(s0 < t \<and> r = of_int t) \<or> \<bar>r - of_int t\<bar> \<le> of_nat n / 1000"
    using assms(5,3) by (auto simp: near_def)
  have "(of_nat n :: rat) \<le> 200" using assms(4) of_nat_le_iff [of n 200, where 'a = rat] by simp
  with r(2) have d: "\<bar>r - of_int t\<bar> \<le> 1 / 5" by auto
  then have "\<bar>rnd32 (r - of_int t)\<bar> < 1"
    using rnd32_err [of "r - of_int t"] by linarith
  moreover have "i2f t = Fin (of_int t)" using assms(2) by (simp add: angle_ok_def i2f_exact)
  ultimately show ?thesis
    using r(1) d by (simp add: servo_done_def fsub_def fl_sub_def f32_small i2f_exact)
qed


section \<open>The duties of a servo on its path\<close>

lemma f64_range:
  assumes "lo \<le> x" and "x \<le> hi" and "rnd64 lo = lo" and "rnd64 hi = hi" and "\<bar>lo\<bar> \<le> mx64" and "\<bar>hi\<bar> \<le> mx64"
  shows "in_range lo hi (f64 x)"
proof -
  have "\<bar>x\<bar> \<le> mx64" using assms by (auto simp: abs_le_iff)
  then show ?thesis
    using assms b64.R_ge_fix [of lo x] b64.R_le_fix [of hi x] by (simp add: f64_Fin)
qed

lemma mx64_large: "10000000 \<le> mx64"
  by (simp add: mx64_def)

lemma f64_int_range:
  assumes "of_int lo \<le> x" and "x \<le> of_int hi" and "\<bar>lo\<bar> \<le> 10000000" and "\<bar>hi\<bar> \<le> 10000000"
  shows "in_range (of_int lo) (of_int hi) (f64 x)"
proof -
  have "\<bar>of_int n :: rat\<bar> \<le> mx64" if "\<bar>n\<bar> \<le> 10000000" for n
  proof -
    have "(of_int \<bar>n\<bar> :: rat) \<le> of_int 10000000" using that by (simp only: of_int_le_iff)
    with mx64_large show ?thesis by simp
  qed
  with assms show ?thesis by (intro f64_range rnd64_of_int) auto
qed

lemma duty_scale: "ddiv (i2f PWM_DUTY_MAX) (ddiv (dlit 1000) (i2f 50)) = Fin 500"
  by code_simp

lemma dlit_consts: "dlit (1 / 2) = Fin (1 / 2)" "dlit 90 = Fin 90" "dlit 180 = Fin 180"
  by code_simp+

lemma duty_in_range:
  assumes "0 \<le> u" and "u \<le> 300" and "c = 90 \<or> c = 180"
  shows "in_range 0 2500 (dmul (Fin 500) (dadd (Fin (1 / 2)) (ddiv (i2f u) (Fin c))))"
proof -
  have u: "i2f u = Fin (of_int u)" "(0 :: rat) \<le> of_int u" "(of_int u :: rat) \<le> 300"
    using assms(1,2) of_int_le_iff [of u 300, where 'a = rat] by (simp_all add: i2f_exact)
  have "in_range (of_int 0) (of_int 4) (f64 (of_int u / c))"
    using u assms(3) by (intro f64_int_range) auto
  then obtain r where r: "ddiv (i2f u) (Fin c) = Fin r" "0 \<le> r" "r \<le> 4"
    using u assms(3) by (auto simp: ddiv_def in_range_iff)
  have "in_range (of_int 0) (of_int 5) (f64 (1 / 2 + r))"
    using r by (intro f64_int_range) auto
  then obtain w where w: "dadd (Fin (1 / 2)) (Fin r) = Fin w" "0 \<le> w" "w \<le> 5"
    by (auto simp: dadd_def in_range_iff)
  have "in_range (of_int 0) (of_int 2500) (f64 (500 * w))"
    using w by (intro f64_int_range) auto
  then show ?thesis unfolding r(1) w(1) dmul_def fl_mul.simps by simp
qed

lemma servo_out_ok:
  assumes "duty = SERVO_MOTOR_DUTY \<or> duty = SERVO_360_MOTOR_DUTY"
    and "v = Fin r" and "- (1 / 5) \<le> r" and "r \<le> 300 + 1 / 5"
  shows "\<exists>d. servo_out duty pin v = Some [Duty pin d] \<and> 0 \<le> d \<and> d \<le> 2500"
proof -
  have "0 \<le> rtrunc r" "rtrunc r \<le> 300"
    using assms(3,4) by (simp_all add: rtrunc_def floor_le_iff le_ceiling_iff ceiling_le_iff)
  then obtain u where u: "f2u16 v = Some u" "0 \<le> u" "u \<le> 300" using assms(2) by (simp add: Let_def)
  have "in_range 0 2500 (duty (i2f u))"
    using assms(1) duty_in_range [OF u(2,3)]
    by (auto simp: SERVO_MOTOR_DUTY_def SERVO_360_MOTOR_DUTY_def duty_scale dlit_consts)
  then have "\<exists>n. f2u32 (duty (i2f u)) = Some n \<and> 0 \<le> n \<and> n \<le> 2500"
    by (intro f2int_range) auto
  with u(1) show ?thesis by (auto simp: servo_out_def pwm_set_duty_def PWM_DUTY_MAX_def)
qed

lemma near_out_ok:
  assumes "duty = SERVO_MOTOR_DUTY \<or> duty = SERVO_360_MOTOR_DUTY"
    and "angle_ok s0" and "angle_ok t" and "0 < n" and "k \<le> n" and "n \<le> 200" and "near s0 t n k v"
  shows "\<exists>d. servo_out duty pin v = Some [Duty pin d] \<and> 0 \<le> d \<and> d \<le> 2500"
  using near_range [OF assms(2-7)] servo_out_ok [OF assms(1)] by metis

text \<open>
  Outputs of a move: the waits and duties of at most \<open>k\<close> rounds, and no magnet level.
\<close>

fun levels :: "io list \<Rightarrow> io list" where
  "levels [] = []"
| "levels (Level g l # es) = Level g l # levels es"
| "levels (_ # es) = levels es"

lemma levels_append [simp]: "levels (xs @ ys) = levels xs @ levels ys"
  by (induction xs rule: levels.induct) auto

text \<open>
  A move of \<open>k\<close> rounds at most: every duty is accepted, it waits 5 ms a round, it does not
  touch the magnet, and the last duty of each servo is the one of its target angle or of the
  angle one degree below.
\<close>

definition ends_at :: "pwm_pin \<Rightarrow> int \<Rightarrow> io list \<Rightarrow> bool" where
  "ends_at pin t es \<longleftrightarrow> duties pin es \<noteq> [] \<and>
     (f2u32 (SERVO_MOTOR_DUTY (i2f t)) = Some (last (duties pin es)) \<or>
      f2u32 (SERVO_MOTOR_DUTY (i2f (t - 1))) = Some (last (duties pin es)))"

definition move_out :: "nat \<Rightarrow> int \<Rightarrow> int \<Rightarrow> io list \<Rightarrow> bool" where
  "move_out k a1 a2 es \<longleftrightarrow> list_all io_ok es \<and> waited es \<le> 5 * int k \<and> levels es = [] \<and>
     ends_at DOWN_MOTOR_CON_PIN a1 es \<and> ends_at UP_MOTOR_CON_PIN a2 es"

lemma servo_done_out:
  assumes "angle_ok t" and "v = Fin r" and "- (1 / 5) \<le> r" and "r \<le> 300 + 1 / 5"
    and "servo_done v t" and "servo_out duty pin v = Some [Duty pin d]"
  shows "f2u32 (duty (i2f t)) = Some d \<or> f2u32 (duty (i2f (t - 1))) = Some d"
proof -
  have ti: "i2f t = Fin (of_int t)" "(0 :: rat) \<le> of_int t" "(of_int t :: rat) \<le> 300"
    using assms(1) of_int_le_iff [of t 300, where 'a = rat] by (simp_all add: angle_ok_def i2f_exact)
  have lt: "\<bar>rnd32 (r - of_int t)\<bar> < 1"
    using assms(2-5) ti by (simp add: servo_done_def fsub_def fl_sub_def f32_small i2f_exact)
  have "\<bar>r - of_int t\<bar> < 1"
  proof (rule ccontr)
    assume "\<not> \<bar>r - of_int t\<bar> < 1"
    then have "1 \<le> rnd32 \<bar>r - of_int t\<bar>" by (intro b32.R_ge_fix) simp_all
    with lt show False by (simp add: b32.R_abs)
  qed
  with ti assms(3) have "rtrunc r = t \<or> rtrunc r = t - 1"
    by (auto simp: rtrunc_def) linarith+
  moreover have "f2u16 v = Some (rtrunc r)" if "servo_out duty pin v \<noteq> None"
    using that assms(2) by (auto simp: servo_out_def Let_def split: if_splits)
  ultimately show ?thesis
    using assms(6) by (auto simp: servo_out_def pwm_set_duty_def split: Option.bind_splits if_splits)
qed

lemma near_done_out:
  assumes "angle_ok s0" and "angle_ok t" and "0 < n" and "k \<le> n" and "n \<le> 200" and "near s0 t n k v"
    and "servo_done v t" and "servo_out SERVO_MOTOR_DUTY pin v = Some [Duty pin d]"
  shows "f2u32 (SERVO_MOTOR_DUTY (i2f t)) = Some d \<or> f2u32 (SERVO_MOTOR_DUTY (i2f (t - 1))) = Some d"
  using near_range [OF assms(1-6)] servo_done_out [OF assms(2) _ _ _ assms(7,8)] by metis

lemma ends_at_Cons [simp]:
  "ends_at p t (Delay n # es) = ends_at p t es"
  "ends_at p t es \<Longrightarrow> ends_at p t (Duty q d # es)"
  by (auto simp: ends_at_def)

lemma servo_loop_ends:
  assumes "angle_ok s1" and "angle_ok s2" and "angle_ok a1" and "angle_ok a2" and "n \<le> 200"
    and "j + k = n" and "0 < j" and "near s1 a1 n k v1" and "near s2 a2 n k v2"
  shows "\<exists>es. servo_loop j a1 a2 (servo_step a1 s1 (i2f (int n))) (servo_step a2 s2 (i2f (int n))) v1 v2 = Some es
    \<and> move_out j a1 a2 es"
  using assms(6-)
proof (induction j arbitrary: k v1 v2)
  case 0
  then show ?case by simp
next
  case (Suc j)
  define w1 where "w1 = servo_next v1 a1 (servo_step a1 s1 (i2f (int n)))"
  define w2 where "w2 = servo_next v2 a2 (servo_step a2 s2 (i2f (int n)))"
  from Suc.prems have kn: "0 < n" "k < n" "Suc k \<le> n" by auto
  have n1: "near s1 a1 n (Suc k) w1" unfolding w1_def using near_step [OF assms(1,3) kn(1,2) assms(5) Suc.prems(3)] .
  have n2: "near s2 a2 n (Suc k) w2" unfolding w2_def using near_step [OF assms(2,4) kn(1,2) assms(5) Suc.prems(4)] .
  obtain d1 d2 where d:
    "servo_out SERVO_MOTOR_DUTY DOWN_MOTOR_CON_PIN w1 = Some [Duty DOWN_MOTOR_CON_PIN d1]" "0 \<le> d1" "d1 \<le> 2500"
    "servo_out SERVO_MOTOR_DUTY UP_MOTOR_CON_PIN w2 = Some [Duty UP_MOTOR_CON_PIN d2]" "0 \<le> d2" "d2 \<le> 2500"
    using near_out_ok [OF disjI1 assms(1,3) kn(1,3) assms(5) n1] near_out_ok [OF disjI1 assms(2,4) kn(1,3) assms(5) n2]
    by metis
  show ?case
  proof (cases "servo_done w1 a1 \<and> servo_done w2 a2")
    case True
    then have "move_out (Suc j) a1 a2 (Delay 5 # [Duty DOWN_MOTOR_CON_PIN d1] @ [Duty UP_MOTOR_CON_PIN d2])"
      using near_done_out [OF assms(1,3) kn(1,3) assms(5) n1 _ d(1)]
        near_done_out [OF assms(2,4) kn(1,3) assms(5) n2 _ d(4)] d
      by (auto simp: move_out_def ends_at_def)
    with True d show ?thesis by (simp add: Let_def w1_def [symmetric] w2_def [symmetric])
  next
    case False
    have "0 < j"
    proof (rule ccontr)
      assume "\<not> 0 < j"
      then have "Suc k = n" using Suc.prems(1) by simp
      with False near_end [OF assms(1,3) kn(1) assms(5)] near_end [OF assms(2,4) kn(1) assms(5)] n1 n2
      show False by metis
    qed
    moreover have "j + Suc k = n" using Suc.prems(1) by simp
    ultimately obtain es where es: "servo_loop j a1 a2 (servo_step a1 s1 (i2f (int n))) (servo_step a2 s2 (i2f (int n))) w1 w2 = Some es"
      "move_out j a1 a2 es" using Suc.IH [OF _ _ n1 n2] by blast
    from es(2) d have "move_out (Suc j) a1 a2 (Delay 5 # [Duty DOWN_MOTOR_CON_PIN d1] @ [Duty UP_MOTOR_CON_PIN d2] @ es)"
      by (simp add: move_out_def)
    with False d es(1) show ?thesis
      by (auto simp add: Let_def w1_def [symmetric] w2_def [symmetric])
  qed
qed

section \<open>Moves and scripts\<close>

definition arm_ok :: "arm \<Rightarrow> bool" where
  "arm_ok s \<longleftrightarrow> angle_ok (servo1_duty s) \<and> angle_ok (servo2_duty s)"

lemma servo_slow_ctrl_ends:
  assumes "arm_ok s" and "angle_ok a1" and "angle_ok a2" and "0 < n" and "n \<le> 200"
  shows "\<exists>es. servo_slow_ctrl n a1 a2 (i2f (int n)) s = Some (es, s\<lparr>servo1_duty := a1, servo2_duty := a2\<rparr>) \<and>
    move_out n a1 a2 es"
proof -
  have s: "angle_ok (servo1_duty s)" "angle_ok (servo2_duty s)" using assms(1) by (simp_all add: arm_ok_def)
  obtain es where es: "servo_loop n a1 a2 (servo_step a1 (servo1_duty s) (i2f (int n)))
      (servo_step a2 (servo2_duty s) (i2f (int n))) (i2f (servo1_duty s)) (i2f (servo2_duty s)) = Some es"
    "move_out n a1 a2 es"
    using servo_loop_ends [OF s assms(2,3,5) _ assms(4) near_0 [OF s(1)] near_0 [OF s(2)]] by auto
  with assms(2,3) show ?thesis by (simp add: servo_slow_ctrl_def angle_ok_def u16_id)
qed

text \<open>A script that stays within the angles of the arm and whose moves have 1 to 200 steps.\<close>

definition act_ok :: "act \<Rightarrow> bool" where
  "act_ok a \<longleftrightarrow> (case a of Move a1 a2 n \<Rightarrow> angle_ok a1 \<and> angle_ok a2 \<and> 0 < n \<and> n \<le> 200 | Out e \<Rightarrow> io_ok e)"

fun script_time :: "act list \<Rightarrow> int" where
  "script_time [] = 0"
| "script_time (Move a1 a2 n # xs) = 5 * n + script_time xs"
| "script_time (Out e # xs) = waited [e] + script_time xs"

fun script_levels :: "act list \<Rightarrow> io list" where
  "script_levels [] = []"
| "script_levels (Move a1 a2 n # xs) = script_levels xs"
| "script_levels (Out e # xs) = levels [e] @ script_levels xs"

fun script_end :: "act list \<Rightarrow> arm \<Rightarrow> arm" where
  "script_end [] s = s"
| "script_end (Move a1 a2 n # xs) s = script_end xs (s\<lparr>servo1_duty := a1, servo2_duty := a2\<rparr>)"
| "script_end (Out e # xs) s = script_end xs s"

lemma run_acts_ok:
  assumes "list_all act_ok xs" and "arm_ok s"
  shows "\<exists>es. run_acts xs s = Some (es, script_end xs s) \<and> list_all io_ok es \<and>
    waited es \<le> script_time xs \<and> levels es = script_levels xs"
  using assms
proof (induction xs arbitrary: s)
  case Nil
  then show ?case by simp
next
  case (Cons a xs)
  show ?case
  proof (cases a)
    case (Move a1 a2 n)
    with Cons.prems have n: "angle_ok a1" "angle_ok a2" "0 < nat n" "nat n \<le> 200" "int (nat n) = n"
      by (auto simp: act_ok_def)
    let ?t = "s\<lparr>servo1_duty := a1, servo2_duty := a2\<rparr>"
    obtain e1 where e1: "servo_slow_ctrl (nat n) a1 a2 (i2f n) s = Some (e1, ?t)" "move_out (nat n) a1 a2 e1"
      using servo_slow_ctrl_ends [OF Cons.prems(2) n(1-4)] n(5) by auto
    have "arm_ok ?t" using n by (simp add: arm_ok_def)
    with Cons obtain e2 where "run_acts xs ?t = Some (e2, script_end xs ?t)" "list_all io_ok e2"
      "waited e2 \<le> script_time xs" "levels e2 = script_levels xs" by force
    with e1 Move n(5) show ?thesis by (simp add: move_out_def)
  next
    case (Out e)
    with Cons obtain e2 where "run_acts xs s = Some (e2, script_end xs s)" "list_all io_ok e2"
      "waited e2 \<le> script_time xs" "levels e2 = script_levels xs" by force
    with Out Cons.prems waited_append [of "[e]" e2] levels_append [of "[e]" e2]
    show ?thesis by (simp add: act_ok_def)
  qed
qed

text \<open>
  C19: A move of the arm ends: with as many rounds as its step count (1 to 200) the loop of
  \<open>servo_slow_ctrl\<close> reaches both target angles from any position of the arm, all angles within 0 to 300 degrees, every duty on the way is
  accepted by the PWM driver, the magnet is not touched, the last duty of each servo is the one
  of its target or of one degree below it, and the target becomes the arm's recorded position.
\<close>

theorem servo_move_completes:
  assumes "arm_ok s" and "angle_ok a1" and "angle_ok a2" and "0 < n" and "n \<le> 200"
  shows "\<exists>es. servo_slow_ctrl n a1 a2 (i2f (int n)) s = Some (es, s\<lparr>servo1_duty := a1, servo2_duty := a2\<rparr>) \<and>
    list_all io_ok es \<and> waited es \<le> 5 * int n \<and> levels es = [] \<and>
    ends_at DOWN_MOTOR_CON_PIN a1 es \<and> ends_at UP_MOTOR_CON_PIN a2 es"
  using servo_slow_ctrl_ends [OF assms] unfolding move_out_def .

lemma servo_move_completes_witness:
  "\<exists>es. servo_slow_ctrl 80 96 6 (i2f (int 80)) \<lparr>servo1_duty = 177, servo2_duty = 15, step_duty = 0, catch_flag = 0\<rparr>
      = Some (es, \<lparr>servo1_duty = 96, servo2_duty = 6, step_duty = 0, catch_flag = 0\<rparr>) \<and>
    list_all io_ok es \<and> waited es \<le> 5 * int 80 \<and> levels es = [] \<and>
    ends_at DOWN_MOTOR_CON_PIN 96 es \<and> ends_at UP_MOTOR_CON_PIN 6 es"
  using servo_move_completes [of "\<lparr>servo1_duty = 177, servo2_duty = 15, step_duty = 0, catch_flag = 0\<rparr>" 96 6 80]
  by (simp add: arm_ok_def angle_ok_def)

lemma scripts_ok:
  "list_all act_ok Step_Motor_Catch" "list_all act_ok Step_Motor_Put" "list_all act_ok Step_Motor_Reset"
  by (simp_all add: Step_Motor_Catch_def Step_Motor_Put_def Step_Motor_Reset_def act_ok_def angle_ok_def
    UP_MOTOR_INIT_ANGLE_def DOWN_MOTOR_INIT_ANGLE_def)

lemma scripts_eval:
  "script_time Step_Motor_Catch = 2975" "script_time Step_Motor_Put = 3000"
  "script_levels Step_Motor_Catch = [Level B10 1, Level B10 0]" "script_levels Step_Motor_Put = [Level B10 1, Level B10 0]"
  "script_end Step_Motor_Catch s = s\<lparr>servo1_duty := UP_MOTOR_INIT_ANGLE, servo2_duty := DOWN_MOTOR_INIT_ANGLE\<rparr>"
  "script_end Step_Motor_Put s = s\<lparr>servo1_duty := UP_MOTOR_INIT_ANGLE, servo2_duty := DOWN_MOTOR_INIT_ANGLE\<rparr>"
  by (simp_all add: Step_Motor_Catch_def Step_Motor_Put_def Step_Motor_Reset_def)

text \<open>
  C18: Catching and putting a box from any position of the arm with angles of 0 to 300 degrees: both scripts run to their end,
  drive only accepted duties, switch the magnet on once and then off once (no other magnet
  levels), wait at most 2975 ms and 3000 ms in all, and park the arm at its initial angles.
\<close>

theorem catch_and_put_complete:
  assumes "arm_ok s"
  shows "(\<exists>es. run_acts Step_Motor_Catch s =
      Some (es, s\<lparr>servo1_duty := UP_MOTOR_INIT_ANGLE, servo2_duty := DOWN_MOTOR_INIT_ANGLE\<rparr>) \<and>
    list_all io_ok es \<and> levels es = [Level B10 1, Level B10 0] \<and> waited es \<le> 2975) \<and>
    (\<exists>es. run_acts Step_Motor_Put s =
      Some (es, s\<lparr>servo1_duty := UP_MOTOR_INIT_ANGLE, servo2_duty := DOWN_MOTOR_INIT_ANGLE\<rparr>) \<and>
    list_all io_ok es \<and> levels es = [Level B10 1, Level B10 0] \<and> waited es \<le> 3000)"
  using run_acts_ok [OF scripts_ok(1) assms] run_acts_ok [OF scripts_ok(2) assms]
  unfolding scripts_eval by blast

lemma catch_and_put_complete_witness:
  "(\<exists>es. run_acts Step_Motor_Catch arm_zero =
      Some (es, arm_zero\<lparr>servo1_duty := UP_MOTOR_INIT_ANGLE, servo2_duty := DOWN_MOTOR_INIT_ANGLE\<rparr>) \<and>
    list_all io_ok es \<and> levels es = [Level B10 1, Level B10 0] \<and> waited es \<le> 2975) \<and>
   (\<exists>es. run_acts Step_Motor_Put arm_zero =
      Some (es, arm_zero\<lparr>servo1_duty := UP_MOTOR_INIT_ANGLE, servo2_duty := DOWN_MOTOR_INIT_ANGLE\<rparr>) \<and>
    list_all io_ok es \<and> levels es = [Level B10 1, Level B10 0] \<and> waited es \<le> 3000)"
  by (rule catch_and_put_complete) (simp add: arm_ok_def arm_zero_def angle_ok_def)

end
