(* ===== verification/Pwm.thy ===== *)
theory Pwm
  imports StepMotor Motor
begin

text \<open>
  The PWM driver under the board's duties: \<open>pwm_init\<close> and \<open>pwm_set_duty\<close> of \<open>zf_driver_pwm.c\<close> with the functions of
  \<open>fsl_pwm.c\<close> they call, on the registers of the FlexPWM submodules.  The frequency of the bus clock is a parameter \<open>clk\<close>
  (\<open>CLOCK_GetFreq\<close> reads it from the chip; the board runs it at 150 MHz).  The fault map, the dead times, the polarity, the interrupt flags and
  the multiplexer of the pin keep no state here; \<open>pwm_iomuxc\<close> keeps its assertion.  \<open>None\<close>: an assertion fails, a division by zero, or a
  product that leaves the 32-bit \<open>int\<close>.
\<close>

section \<open>Channels and registers\<close>

definition pwm_channel :: "pwm_pin \<Rightarrow> int" where
  "pwm_channel p = (case p of MOTORA_PWM \<Rightarrow> 72 | MOTORB_PWM \<Rightarrow> 112 | MOTORC_PWM \<Rightarrow> 50
    | DOWN_MOTOR_CON_PIN \<Rightarrow> 45 | UP_MOTOR_CON_PIN \<Rightarrow> 90 | TURN_MOTOR_CON_PIN \<Rightarrow> 85)"

text \<open>The registers of a submodule: prescaler, counter limits, compare values, and its bits of \<open>MCTRL\<close> and \<open>OUTEN\<close>.\<close>

record submodule =
  PRSC :: int
  INIT :: int
  VAL0 :: int
  VAL1 :: int
  VAL2 :: int
  VAL3 :: int
  VAL4 :: int
  VAL5 :: int
  LDOK :: bool
  RUN :: bool
  OUT_A :: bool
  OUT_B :: bool

type_synonym pwm_bank = "int \<times> int \<Rightarrow> submodule"

text \<open>\<open>pwm_num\<close> and \<open>pwm_module\<close>, and \<open>pwm_module_ch\<close> (1: channel A, 0: channel B).\<close>

definition pwm_unit :: "int \<Rightarrow> int \<times> int" where
  "pwm_unit pin = (u8 (pin div 40), u8 (pin mod 40 div 10))"

definition pwm_module_ch :: "int \<Rightarrow> int" where
  "pwm_module_ch pin = u8 (pin mod 40 mod 10 div 5)"

definition pwm_iomuxc :: "int \<Rightarrow> unit option" where
  "pwm_iomuxc pin = (if pin \<in> {45, 40, 55, 50, 65, 60, 75, 76, 77, 70, 71, 72, 85, 80, 95, 90, 105, 100, 115, 116, 117, 118, 110, 111, 112,
    165, 175, 185, 195} then Some () else None)"

section \<open>The functions of the chip library\<close>

definition PWM_SetPwmLdok :: "bool \<Rightarrow> submodule \<Rightarrow> submodule" where
  "PWM_SetPwmLdok value s = s\<lparr>LDOK := value\<rparr>"

datatype pwm_mode = kPWM_SignedCenterAligned | kPWM_CenterAligned | kPWM_SignedEdgeAligned | kPWM_EdgeAligned

definition PWM_GetComplementU16 :: "int \<Rightarrow> int" where
  "PWM_GetComplementU16 value = u16 (- value)"

text \<open>The compare values at the two edges of a pulse, and the pair of registers of a channel.\<close>

definition pulse_values :: "pwm_mode \<Rightarrow> int \<Rightarrow> int \<Rightarrow> int \<Rightarrow> int \<times> int" where
  "pulse_values mode modulus pulseCnt pwmHighPulse =
    (case mode of
       kPWM_SignedCenterAligned \<Rightarrow> (PWM_GetComplementU16 (pwmHighPulse div 2), pwmHighPulse div 2)
     | kPWM_CenterAligned \<Rightarrow> (u16 (u32 (pulseCnt - pwmHighPulse) div 2), u16 (u32 (pulseCnt + pwmHighPulse) div 2))
     | kPWM_SignedEdgeAligned \<Rightarrow> (PWM_GetComplementU16 modulus, u16 (PWM_GetComplementU16 modulus + pwmHighPulse))
     | kPWM_EdgeAligned \<Rightarrow> (0, pwmHighPulse))"

definition set_pulse :: "int \<Rightarrow> int \<times> int \<Rightarrow> submodule \<Rightarrow> submodule" where
  "set_pulse ch v s = (if ch = 1 then s\<lparr>VAL2 := fst v, VAL3 := snd v\<rparr> else s\<lparr>VAL4 := fst v, VAL5 := snd v\<rparr>)"

definition PWM_UpdatePwmDutycycleHighAccuracy :: "int \<Rightarrow> pwm_mode \<Rightarrow> int \<Rightarrow> submodule \<Rightarrow> submodule option" where
  "PWM_UpdatePwmDutycycleHighAccuracy ch mode dutyCycle s =
    (if u16 ch < 2 then
       do {
         let modulus = u16 (u32 (VAL1 s + 1));
         let pulseCnt = (if mode = kPWM_SignedCenterAligned \<or> mode = kPWM_SignedEdgeAligned then u16 (u32 (modulus * 2)) else modulus);
         x \<leftarrow> chk32 (pulseCnt * dutyCycle);
         Some (set_pulse ch (pulse_values mode modulus pulseCnt (u16 (u32 x div 65535))) s)
       }
     else None)"

text \<open>\<open>PWM_Init\<close> with the configuration of \<open>pwm_init\<close> (it cannot fail there), and \<open>PWM_Deinit\<close>.\<close>

definition PWM_Init :: "int \<Rightarrow> submodule \<Rightarrow> submodule" where
  "PWM_Init prescale s = s\<lparr>PRSC := prescale\<rparr>"

definition PWM_Deinit :: "submodule \<Rightarrow> submodule" where
  "PWM_Deinit s = s\<lparr>RUN := False\<rparr>"

definition PWM_SetupPwm :: "int \<Rightarrow> int \<Rightarrow> pwm_mode \<Rightarrow> int \<Rightarrow> int \<Rightarrow> submodule \<Rightarrow> submodule option" where
  "PWM_SetupPwm ch dutyCyclePercent mode pwmFreq_Hz srcClock_Hz s =
    (if pwmFreq_Hz = 0 \<or> srcClock_Hz = 0 then None
     else
       let pwmClock = srcClock_Hz div 2 ^ nat (PRSC s);
           pulseCnt = u16 (pwmClock div pwmFreq_Hz);
           pwmHighPulse = u16 (pulseCnt * dutyCyclePercent div 100);
           modulus = pulseCnt div 2;
           s = (if mode = kPWM_SignedCenterAligned \<or> mode = kPWM_SignedEdgeAligned
                then s\<lparr>INIT := PWM_GetComplementU16 modulus, VAL0 := 0, VAL1 := u16 (modulus - 1)\<rparr>
                else s\<lparr>INIT := 0, VAL0 := pulseCnt div 2, VAL1 := u16 (pulseCnt - 1)\<rparr>);
           s = set_pulse ch (pulse_values mode modulus pulseCnt pwmHighPulse) s
       in Some (if ch = 1 then s\<lparr>OUT_A := True\<rparr> else s\<lparr>OUT_B := True\<rparr>))"

definition PWM_StartTimer :: "submodule \<Rightarrow> submodule" where
  "PWM_StartTimer s = s\<lparr>RUN := True\<rparr>"

section \<open>The driver\<close>

definition drive_duty :: "int \<Rightarrow> int \<Rightarrow> pwm_bank \<Rightarrow> pwm_bank option" where
  "drive_duty pin duty b =
    (if duty \<le> PWM_DUTY_MAX then
       do {
         let temp_duty = u16 (u32 (duty * 65535) div u32 PWM_DUTY_MAX);
         s \<leftarrow> PWM_UpdatePwmDutycycleHighAccuracy (pwm_module_ch pin) kPWM_EdgeAligned temp_duty (PWM_SetPwmLdok False (b (pwm_unit pin)));
         Some (b(pwm_unit pin := PWM_SetPwmLdok True s))
       }
     else None)"

definition pwm_prescale :: "int \<Rightarrow> int option" where
  "pwm_prescale temp_prsc =
    (if temp_prsc \<le> 1 then Some 0 else if temp_prsc \<le> 2 then Some 1 else if temp_prsc \<le> 4 then Some 2 else if temp_prsc \<le> 8 then Some 3
     else if temp_prsc \<le> 16 then Some 4 else if temp_prsc \<le> 32 then Some 5 else if temp_prsc \<le> 64 then Some 6
     else if temp_prsc \<le> 128 then Some 7 else None)"

definition pwm_divisor :: "int \<Rightarrow> int \<Rightarrow> int option" where
  "pwm_divisor clk freq =
    (if freq = 0 \<or> u32 (freq * 65536) = 0 then None
     else pwm_prescale (u32 (clk div freq div 65536 + (if clk mod u32 (freq * 65536) \<noteq> 0 then 1 else 0))))"

definition pwm_init :: "int \<Rightarrow> int \<Rightarrow> int \<Rightarrow> int \<Rightarrow> pwm_bank \<Rightarrow> pwm_bank option" where
  "pwm_init clk pin freq duty b =
    (if duty \<le> PWM_DUTY_MAX then
       do {
         _ \<leftarrow> pwm_iomuxc pin;
         k \<leftarrow> pwm_divisor clk freq;
         let s = PWM_Init k (PWM_Deinit (PWM_Init k (b (pwm_unit pin))));
         s \<leftarrow> PWM_SetupPwm (pwm_module_ch pin) 0 kPWM_EdgeAligned freq clk (PWM_SetPwmLdok False s);
         drive_duty pin duty (b(pwm_unit pin := PWM_StartTimer (PWM_SetPwmLdok True s)))
       }
     else None)"

text \<open>The duties of an output sequence, carried out by the driver.\<close>

fun drive :: "io list \<Rightarrow> pwm_bank \<Rightarrow> pwm_bank option" where
  "drive [] b = Some b"
| "drive (Duty p d # es) b = do { b \<leftarrow> drive_duty (pwm_channel p) d b; drive es b }"
| "drive (_ # es) b = drive es b"

section \<open>The pulse of a pin\<close>

text \<open>What a pin shows: the counts it is high in a period, and the counts of the period.\<close>

definition pulse :: "int \<Rightarrow> pwm_bank \<Rightarrow> int \<times> int" where
  "pulse pin b =
    (let s = b (pwm_unit pin)
     in (if pwm_module_ch pin = 1 then VAL3 s - VAL2 s else VAL5 s - VAL4 s, VAL1 s + 1 - INIT s))"

definition high_counts :: "int \<Rightarrow> int \<Rightarrow> int" where
  "high_counts period d = period * (d * 65535 div 10000) div 65535"

lemma high_bounds:
  assumes "0 \<le> d" and "d \<le> 10000" and "0 \<le> period" and "period \<le> 65535"
  shows "high_counts period d * 10000 \<le> period * d" "period * d < high_counts period d * 10000 + 20000" "0 \<le> high_counts period d"
    "high_counts period d \<le> period"
proof -
  define t where "t = d * 65535 div 10000"
  have t: "t * 10000 \<le> d * 65535" "d * 65535 < t * 10000 + 10000" "0 \<le> t" "t \<le> 65535"
    using assms by (auto simp: t_def)
  define h where "h = period * t div 65535"
  have h: "h * 65535 \<le> period * t" "period * t < h * 65535 + 65535" by (auto simp: h_def)
  have "period * (t * 10000) \<le> period * (d * 65535)" using t(1) assms(3) by (rule mult_left_mono)
  then show "high_counts period d * 10000 \<le> period * d"
    using h(1) unfolding high_counts_def t_def [symmetric] h_def [symmetric] by (simp add: algebra_simps)
  have "period * (d * 65535) \<le> period * (t * 10000 + 10000)" using t(2) assms(3) by (intro mult_left_mono) auto
  then have "period * d * 65535 \<le> (period * t) * 10000 + period * 10000" by (simp add: algebra_simps)
  then show "period * d < high_counts period d * 10000 + 20000"
    using h(2) assms(4) by (simp add: high_counts_def flip: t_def h_def)
  have "0 \<le> period * t" using t(3) assms(3) by simp
  then show "0 \<le> high_counts period d" by (simp add: high_counts_def t_def pos_imp_zdiv_nonneg_iff)
  have "period * t \<le> period * 65535" using t(4) assms(3) by (rule mult_left_mono)
  then show "high_counts period d \<le> period" using h by (simp add: high_counts_def flip: t_def h_def)
qed

lemma high_ends [simp]: "high_counts period 0 = 0" "high_counts period 10000 = period"
  by (simp_all add: high_counts_def)

text \<open>A submodule that counts a period of \<open>n\<close>, from zero.\<close>

definition counts :: "int \<Rightarrow> submodule \<Rightarrow> bool" where
  "counts n s \<longleftrightarrow> VAL1 s = n - 1 \<and> INIT s = 0"

definition safe_duty :: "int \<Rightarrow> int \<Rightarrow> bool" where
  "safe_duty period d \<longleftrightarrow> 0 \<le> d \<and> d \<le> 10000 \<and> period * (d * 65535 div 10000) \<le> 2147483647"

lemma channel_ch: "0 \<le> pin \<Longrightarrow> pwm_module_ch pin = 0 \<or> pwm_module_ch pin = 1"
  by (auto simp: pwm_module_ch_def u8_def)

lemma drive_duty_ok:
  assumes "0 \<le> pin" and "counts n (b (pwm_unit pin))" and "1 \<le> n" and "n \<le> 65535" and "safe_duty n d"
  shows "\<exists>s. drive_duty pin d b = Some (b(pwm_unit pin := s)) \<and> counts n s \<and> pulse pin (b(pwm_unit pin := s)) = (high_counts n d, n) \<and>
    PRSC s = PRSC (b (pwm_unit pin)) \<and> RUN s = RUN (b (pwm_unit pin)) \<and> LDOK s \<and> OUT_A s = OUT_A (b (pwm_unit pin)) \<and>
    OUT_B s = OUT_B (b (pwm_unit pin)) \<and> (if pwm_module_ch pin = 1 then VAL4 s = VAL4 (b (pwm_unit pin)) \<and> VAL5 s = VAL5 (b (pwm_unit pin))
      else VAL2 s = VAL2 (b (pwm_unit pin)) \<and> VAL3 s = VAL3 (b (pwm_unit pin)))"
proof -
  define t where "t = d * 65535 div 10000"
  have d: "0 \<le> d" "d \<le> 10000" "n * t \<le> 2147483647" using assms(5) by (auto simp: safe_duty_def t_def)
  then have t: "0 \<le> t" "t \<le> 65535" by (auto simp: t_def)
  then have n0: "0 \<le> n * t" using assms(3) by simp
  have td: "u16 (u32 (d * 65535) div u32 PWM_DUTY_MAX) = t"
    using d(1,2) t by (simp add: u32_id u16_id PWM_DUTY_MAX_def flip: t_def)
  have hb: "0 \<le> high_counts n d" "high_counts n d \<le> n" using high_bounds [of d n] assms(3,4) d(1,2) by auto
  have h: "u16 (u32 (n * t) div 65535) = high_counts n d"
    using hb n0 d(3) assms(4) by (simp add: u32_id u16_id high_counts_def flip: t_def)
  define s where "s = PWM_SetPwmLdok True (set_pulse (pwm_module_ch pin) (0, high_counts n d) (PWM_SetPwmLdok False (b (pwm_unit pin))))"
  have r: "PWM_UpdatePwmDutycycleHighAccuracy (pwm_module_ch pin) kPWM_EdgeAligned t u = Some (set_pulse (pwm_module_ch pin) (0, high_counts n d) u)"
    if "VAL1 u = n - 1" for u
    using that assms(3,4) channel_ch [OF assms(1)] d(3) n0 h
    by (auto simp: PWM_UpdatePwmDutycycleHighAccuracy_def pulse_values_def u16_id u32_id Let_def)
  have "drive_duty pin d b = Some (b(pwm_unit pin := s))"
    using d(2) assms(2) by (simp only: drive_duty_def td Let_def) (simp add: PWM_DUTY_MAX_def r PWM_SetPwmLdok_def counts_def s_def)
  then show ?thesis
    using assms(2) channel_ch [OF assms(1)] by (auto simp: s_def set_pulse_def pulse_values_def PWM_SetPwmLdok_def counts_def pulse_def)
qed

section \<open>Initialisation\<close>

text \<open>
  The prescaler that is chosen divides the clock until the period fits the 16-bit counter, and no further:
  a period is either counted at the full clock, or has at least 32768 counts.
\<close>

lemma prescale_least: "pwm_prescale t = Some k \<Longrightarrow> t \<le> 2 ^ nat k \<and> (k \<noteq> 0 \<longrightarrow> 2 ^ nat k < 2 * t) \<and> 0 \<le> k \<and> k \<le> 7"
  by (auto simp: pwm_prescale_def split: if_splits)

lemma divisor_fits:
  assumes "pwm_divisor clk freq = Some k" and "0 < freq" and "freq < 65536" and "0 \<le> clk" and "clk < 4294967296"
  shows "clk div 2 ^ nat k div freq \<le> 65536" "k \<noteq> 0 \<Longrightarrow> 32768 \<le> clk div 2 ^ nat k div freq" "0 \<le> k" "k \<le> 7"
proof -
  define F where "F = freq * 65536"
  define q where "q = clk div F"
  define t where "t = q + (if clk mod F \<noteq> 0 then 1 else 0)"
  define N where "N = (2 :: int) ^ nat k * freq"
  have F: "0 < F" "65536 \<le> F" "F < 4294967296" using assms(2,3) by (simp_all add: F_def)
  have c: "clk = q * F + clk mod F" "0 \<le> clk mod F" "clk mod F < F" using F by (simp_all add: q_def)
  have "0 \<le> q" using assms(4) F by (simp add: q_def pos_imp_zdiv_nonneg_iff)
  moreover have "q * 65536 \<le> q * F" using \<open>0 \<le> q\<close> F(2) by (rule mult_left_mono [rotated])
  ultimately have q: "0 \<le> q" "q < 65536" using c assms(5) by linarith+
  have d: "clk div freq div 65536 = q" using assms(2) by (simp add: q_def F_def zdiv_zmult2_eq)
  have u: "u32 t = t" using q by (intro u32_id) (auto simp: t_def)
  have "pwm_prescale t = Some k"
    using assms(1) F u by (simp add: pwm_divisor_def d u32_id t_def F_def split: if_splits)
  from prescale_least [OF this] have k: "t \<le> 2 ^ nat k" "k \<noteq> 0 \<longrightarrow> 2 ^ nat k < 2 * t" "0 \<le> k" "k \<le> 7" by auto
  show "0 \<le> k" "k \<le> 7" by (fact k)+
  have N: "0 < N" "clk div 2 ^ nat k div freq = clk div N" using assms(2) by (simp_all add: N_def zdiv_zmult2_eq)
  have "t * F = q * F + F \<or> t * F = q * F \<and> clk mod F = 0" by (auto simp: t_def distrib_right)
  then have tF: "clk \<le> t * F" "t * F - F \<le> clk" using c F by linarith+
  have "clk \<le> t * F" by (fact tF)
  also have "t * F \<le> 2 ^ nat k * F" using k(1) F(1) by (intro mult_right_mono) auto
  finally have "clk < (65536 + 1) * N" using N(1) by (simp add: N_def F_def algebra_simps)
  moreover have "clk div N * N \<le> clk" using N(1) div_mult_mod_eq [of clk N] pos_mod_sign [of N clk] by linarith
  ultimately have "clk div N * N < (65536 + 1) * N" by linarith
  then have "clk div N < 65536 + 1" using N(1) mult_less_cancel_right_pos by blast
  then show "clk div 2 ^ nat k div freq \<le> 65536" by (simp add: N)
  assume "k \<noteq> 0"
  then obtain m where m: "nat k = Suc m" using k(3) by (cases "nat k") auto
  then have "2 ^ m \<le> t - 1" using k(2) \<open>k \<noteq> 0\<close> by simp
  then have "2 ^ m * F \<le> (t - 1) * F" using F(1) by (intro mult_right_mono) auto
  also have "(t - 1) * F \<le> clk" using tF(2) by (simp add: algebra_simps)
  finally have "32768 * N \<le> clk" by (simp add: N_def F_def m algebra_simps)
  then have "32768 \<le> clk div N" using zdiv_mono1 [of "32768 * N" clk N] N(1) by simp
  then show "32768 \<le> clk div 2 ^ nat k div freq" by (simp add: N)
qed

text \<open>A pin that runs with the period \<open>n\<close>.\<close>

definition running :: "int \<Rightarrow> int \<Rightarrow> pwm_bank \<Rightarrow> bool" where
  "running n pin b \<longleftrightarrow> counts n (b (pwm_unit pin)) \<and> RUN (b (pwm_unit pin)) \<and> LDOK (b (pwm_unit pin)) \<and>
     (if pwm_module_ch pin = 1 then OUT_A (b (pwm_unit pin)) else OUT_B (b (pwm_unit pin)))"

lemma pwm_init_ok:
  assumes "0 \<le> pin" and "pwm_iomuxc pin \<noteq> None" and "pwm_divisor clk freq = Some k" and "0 < freq" and "freq < 65536" and "0 < clk" and "clk < 4294967296"
    and "n = clk div 2 ^ nat k div freq" and "1 \<le> n" and "n \<le> 65535" and "safe_duty n d"
  shows "\<exists>s. pwm_init clk pin freq d b = Some (b(pwm_unit pin := s)) \<and> running n pin (b(pwm_unit pin := s)) \<and>
    pulse pin (b(pwm_unit pin := s)) = (high_counts n d, n) \<and> PRSC s = k"
proof -
  let ?u = "b (pwm_unit pin)"
  obtain s0 where s0: "PWM_SetupPwm (pwm_module_ch pin) 0 kPWM_EdgeAligned freq clk (PWM_SetPwmLdok False (PWM_Init k (PWM_Deinit (PWM_Init k ?u)))) = Some s0"
    "counts n s0" "PRSC s0 = k" "if pwm_module_ch pin = 1 then OUT_A s0 else OUT_B s0"
    using assms(4,6,8-10)
    by (auto simp: PWM_SetupPwm_def PWM_SetPwmLdok_def PWM_Init_def PWM_Deinit_def set_pulse_def pulse_values_def counts_def u16_id Let_def)
  let ?b = "b(pwm_unit pin := PWM_StartTimer (PWM_SetPwmLdok True s0))"
  have "counts n (?b (pwm_unit pin))" using s0(2) by (simp add: counts_def PWM_StartTimer_def PWM_SetPwmLdok_def)
  from drive_duty_ok [of pin n ?b d, OF assms(1) this assms(9-11)] s0(3,4) obtain s where
    "drive_duty pin d ?b = Some (b(pwm_unit pin := s))" "running n pin (b(pwm_unit pin := s))"
    "pulse pin (b(pwm_unit pin := s)) = (high_counts n d, n)" "PRSC s = k"
    by (auto simp: running_def PWM_StartTimer_def PWM_SetPwmLdok_def cong: if_cong)
  then show ?thesis
    using assms(2,3,11) s0(1) by (auto simp: pwm_init_def PWM_DUTY_MAX_def safe_duty_def)
qed

section \<open>The board on the driver\<close>

text \<open>The frequencies the board's parts ask for: motors 20 kHz, servos \<open>STEP_MOTOR_FRE\<close>, with a bus clock of 150 MHz.\<close>

definition pin_freq :: "pwm_pin \<Rightarrow> int" where
  "pin_freq p = (if p \<in> {MOTORA_PWM, MOTORB_PWM, MOTORC_PWM} then 20000 else 50)"

definition pin_period :: "pwm_pin \<Rightarrow> int" where
  "pin_period p = (if p \<in> {MOTORA_PWM, MOTORB_PWM, MOTORC_PWM} then 7500 else 46875)"

definition BUS_CLOCK :: int where "BUS_CLOCK = 150000000"

abbreviation channel_unit :: "pwm_pin \<Rightarrow> int \<times> int" where
  "channel_unit p \<equiv> pwm_unit (pwm_channel p)"

lemma pin_divisor: "pwm_divisor BUS_CLOCK (pin_freq p) = Some (if p \<in> {MOTORA_PWM, MOTORB_PWM, MOTORC_PWM} then 0 else 6)"
  by (simp add: pwm_divisor_def BUS_CLOCK_def pin_freq_def pwm_prescale_def u32_def)

lemma pin_facts:
  "0 \<le> pwm_channel p" "pwm_iomuxc (pwm_channel p) \<noteq> None" "1 \<le> pin_period p" "pin_period p \<le> 65535"
  "BUS_CLOCK div 2 ^ nat (if p \<in> {MOTORA_PWM, MOTORB_PWM, MOTORC_PWM} then 0 else 6) div pin_freq p = pin_period p"
  by (cases p; simp add: pwm_channel_def pwm_iomuxc_def pin_period_def pin_freq_def BUS_CLOCK_def)+

lemma units_apart: "channel_unit p = channel_unit q \<longleftrightarrow> p = q"
  by (cases p; cases q) (simp_all add: pwm_channel_def pwm_unit_def u8_def)

lemma pin_safe: "io_ok (Duty p d) \<Longrightarrow> safe_duty (pin_period p) d"
  by (cases p) (auto simp: safe_duty_def pin_period_def)

definition board_up :: "pwm_bank \<Rightarrow> bool" where
  "board_up b \<longleftrightarrow> (\<forall>p. running (pin_period p) (pwm_channel p) b)"

text \<open>What the board specifies: a pin shows the pulse of its last duty.\<close>

fun shown_pulse :: "io list \<Rightarrow> (pwm_pin \<Rightarrow> int \<times> int) \<Rightarrow> pwm_pin \<Rightarrow> int \<times> int" where
  "shown_pulse [] f = f"
| "shown_pulse (Duty p d # es) f = shown_pulse es (f(p := (high_counts (pin_period p) d, pin_period p)))"
| "shown_pulse (_ # es) f = shown_pulse es f"

abbreviation pulses :: "pwm_bank \<Rightarrow> pwm_pin \<Rightarrow> int \<times> int" where
  "pulses b \<equiv> \<lambda>p. pulse (pwm_channel p) b"

lemma pulse_other: "p \<noteq> q \<Longrightarrow> pulse (pwm_channel p) (b(channel_unit q := s)) = pulse (pwm_channel p) b"
  by (simp add: pulse_def units_apart)

lemma running_other: "p \<noteq> q \<Longrightarrow> running n (pwm_channel p) (b(channel_unit q := s)) = running n (pwm_channel p) b"
  by (simp add: running_def units_apart)

lemma duty_step:
  assumes "board_up b" and "io_ok (Duty p d)"
  shows "\<exists>b'. drive_duty (pwm_channel p) d b = Some b' \<and> board_up b' \<and>
    pulses b' = (pulses b)(p := (high_counts (pin_period p) d, pin_period p))"
proof -
  have r: "running (pin_period q) (pwm_channel q) b" for q using assms(1) by (simp add: board_up_def)
  then have "counts (pin_period p) (b (channel_unit p))" by (simp add: running_def)
  from drive_duty_ok [of "pwm_channel p" "pin_period p" b d, OF pin_facts(1) this pin_facts(3,4) pin_safe [OF assms(2)]] obtain s where
    s: "drive_duty (pwm_channel p) d b = Some (b(channel_unit p := s))" "running (pin_period p) (pwm_channel p) (b(channel_unit p := s))"
    "pulse (pwm_channel p) (b(channel_unit p := s)) = (high_counts (pin_period p) d, pin_period p)"
    using r [of p] by (auto simp: running_def cong: if_cong)
  have "board_up (b(channel_unit p := s))"
    unfolding board_up_def using s(2) r running_other by metis
  moreover have "pulses (b(channel_unit p := s)) = (pulses b)(p := (high_counts (pin_period p) d, pin_period p))"
    using s(3) pulse_other by (auto simp: fun_eq_iff)
  ultimately show ?thesis using s(1) by blast
qed

lemma drive_refines:
  "board_up b \<Longrightarrow> list_all io_ok es \<Longrightarrow> \<exists>b'. drive es b = Some b' \<and> board_up b' \<and> pulses b' = shown_pulse es (pulses b)"
proof (induction es b rule: drive.induct)
  case (2 p d es b)
  then obtain c where c: "drive_duty (pwm_channel p) d b = Some c" "board_up c"
    "pulses c = (pulses b)(p := (high_counts (pin_period p) d, pin_period p))"
    using duty_step [of b p d] by auto
  from 2(1) [OF c(1,2)] 2(3) show ?case by (auto simp: c(1,3))
qed auto

lemma duties_ok: "list_all io_ok es \<Longrightarrow> d \<in> set (duties p es) \<Longrightarrow> io_ok (Duty p d)"
  by (induction p es rule: duties.induct) (auto split: if_splits)

lemma shown_last: "shown_pulse es f p = (if duties p es = [] then f p else (high_counts (pin_period p) (last (duties p es)), pin_period p))"
  by (induction es f rule: shown_pulse.induct) (auto simp: fun_upd_def)

text \<open>The parts are initialised one after the other, in any order; in the end all pins run.\<close>

fun board_init :: "(pwm_pin \<times> int) list \<Rightarrow> pwm_bank \<Rightarrow> pwm_bank option" where
  "board_init [] b = Some b"
| "board_init ((p, d) # ps) b = do { b \<leftarrow> pwm_init BUS_CLOCK (pwm_channel p) (pin_freq p) d b; board_init ps b }"

lemma board_init_ok:
  "list_all (\<lambda>(p, d). io_ok (Duty p d)) ps \<Longrightarrow>
   \<exists>b'. board_init ps b = Some b' \<and> (\<forall>p. p \<in> fst ` set ps \<or> running (pin_period p) (pwm_channel p) b \<longrightarrow> running (pin_period p) (pwm_channel p) b')"
proof (induction ps arbitrary: b)
  case (Cons x ps)
  obtain p d where x: "x = (p, d)" by force
  have safe: "safe_duty (pin_period p) d" using pin_safe Cons.prems by (simp add: x)
  have fr: "0 < pin_freq p" "pin_freq p < 65536" "0 < BUS_CLOCK" "BUS_CLOCK < 4294967296" by (simp_all add: pin_freq_def BUS_CLOCK_def)
  from pwm_init_ok [OF pin_facts(1,2) [of p] pin_divisor [of p] fr pin_facts(5) [of p, symmetric] pin_facts(3,4) [of p] safe, where b = b]
  obtain s where s: "pwm_init BUS_CLOCK (pwm_channel p) (pin_freq p) d b = Some (b(channel_unit p := s))"
    "running (pin_period p) (pwm_channel p) (b(channel_unit p := s))"
    by blast
  have "list_all (\<lambda>(p, d). io_ok (Duty p d)) ps" using Cons.prems by simp
  from Cons.IH [OF this, of "b(channel_unit p := s)"] obtain b' where b': "board_init ps (b(channel_unit p := s)) = Some b'"
    "\<forall>q. q \<in> fst ` set ps \<or> running (pin_period q) (pwm_channel q) (b(channel_unit p := s)) \<longrightarrow> running (pin_period q) (pwm_channel q) b'"
    by blast
  then show ?case using s running_other by (auto simp: x) metis+
qed simp

lemma board_up_init:
  assumes "fst ` set ps = UNIV" and "list_all (\<lambda>(p, d). io_ok (Duty p d)) ps"
  shows "\<exists>b'. board_init ps b = Some b' \<and> board_up b'"
  using board_init_ok [OF assms(2), of b] assms(1) by (auto simp: board_up_def)

text \<open>The parts that set duties, on the driver: the scripts of the arm and the control loop of the motors.\<close>

lemma arm_driven:
  assumes "board_up b" and "arm_ok s" and "xs = Step_Motor_Catch \<or> xs = Step_Motor_Put"
  shows "\<exists>es s' b'. run_acts xs s = Some (es, s') \<and> drive es b = Some b' \<and> board_up b' \<and> pulses b' = shown_pulse es (pulses b)"
  using run_acts_ok [OF scripts_ok(1) assms(2)] run_acts_ok [OF scripts_ok(2) assms(2)] drive_refines [OF assms(1)] assms(3) by metis

lemma motors_driven:
  assumes "board_up b" and "motor_wf m"
  shows "\<exists>es m' b'. Motor_Pwm_cb m = Some (es, m') \<and> drive es b = Some b' \<and> board_up b' \<and> pulses b' = shown_pulse es (pulses b)"
  using Motor_Pwm_cb_ok [OF assms(2)] drive_refines [OF assms(1)] by (metis surj_pair fst_conv)

text \<open>
  C15: The PWM driver shows what the board asks for: after the six pins have been initialised with \<open>pwm_init\<close>, in any order, at 20 kHz (motors) and 50 Hz (servos) from a bus clock of 150 MHz,
  every sequence of duties the parts can produce is accepted by \<open>pwm_set_duty\<close>, and in the compare registers each pin
  then has the pulse of its own last duty (or the one of the initialisation), whatever the other pins got in between: a period of 7500 or 46875 counts,
  high for a share of it that falls short of the duty by less than two counts.
\<close>

theorem pins_show_last_duty:
  assumes "fst ` set ps = UNIV" and "list_all (\<lambda>(p, d). io_ok (Duty p d)) ps" and "list_all io_ok es"
  shows "\<exists>b0 b1. board_init ps b = Some b0 \<and> drive es b0 = Some b1 \<and> pulses b1 = shown_pulse es (pulses b0) \<and>
    (\<forall>p. duties p es \<noteq> [] \<longrightarrow> (\<exists>h. pulse (pwm_channel p) b1 = (h, pin_period p) \<and>
      h * 10000 \<le> pin_period p * last (duties p es) \<and> pin_period p * last (duties p es) < h * 10000 + 20000))"
proof -
  obtain b0 where b0: "board_init ps b = Some b0" "board_up b0" using board_up_init [OF assms(1,2)] by blast
  obtain b1 where b1: "drive es b0 = Some b1" "pulses b1 = shown_pulse es (pulses b0)"
    using drive_refines [OF b0(2) assms(3)] by blast
  have "\<exists>h. pulse (pwm_channel p) b1 = (h, pin_period p) \<and> h * 10000 \<le> pin_period p * last (duties p es) \<and>
      pin_period p * last (duties p es) < h * 10000 + 20000" if d: "duties p es \<noteq> []" for p
  proof -
    have "pulse (pwm_channel p) b1 = (high_counts (pin_period p) (last (duties p es)), pin_period p)"
      using fun_cong [OF b1(2), of p] d by (simp add: shown_last)
    moreover have "io_ok (Duty p (last (duties p es)))" using duties_ok [OF assms(3)] d last_in_set by blast
    then have "0 \<le> last (duties p es)" "last (duties p es) \<le> 10000" by (cases p; simp)+
    ultimately show ?thesis using high_bounds [of "last (duties p es)" "pin_period p"] pin_facts(3,4) [of p] by auto
  qed
  with b0(1) b1 show ?thesis by blast
qed

definition bank_zero :: pwm_bank where
  "bank_zero = (\<lambda>_. \<lparr>PRSC = 0, INIT = 0, VAL0 = 0, VAL1 = 0, VAL2 = 0, VAL3 = 0, VAL4 = 0, VAL5 = 0, LDOK = False, RUN = False,
     OUT_A = False, OUT_B = False\<rparr>)"

definition init_duties :: "(pwm_pin \<times> int) list" where
  "init_duties = [(MOTORA_PWM, 0), (MOTORB_PWM, 0), (MOTORC_PWM, 0), (DOWN_MOTOR_CON_PIN, 333), (UP_MOTOR_CON_PIN, 1233), (TURN_MOTOR_CON_PIN, 382)]"

definition some_duties :: "io list" where
  "some_duties = [Duty MOTORA_PWM 9500, Duty UP_MOTOR_CON_PIN 1000, Level B10 1, Duty MOTORA_PWM 2500]"

lemma pins_show_last_duty_witness:
  "\<exists>b0 b1. board_init init_duties bank_zero = Some b0 \<and> drive some_duties b0 = Some b1 \<and>
     (\<exists>h. pulse (pwm_channel MOTORA_PWM) b1 = (h, 7500) \<and> h * 10000 \<le> 7500 * 2500 \<and> 7500 * 2500 < h * 10000 + 20000)"
proof -
  have "fst ` set init_duties = UNIV" using pwm_pin.exhaust by (auto simp: init_duties_def)
  then obtain b0 b1 where b: "board_init init_duties bank_zero = Some b0" "drive some_duties b0 = Some b1"
    "\<forall>p. duties p some_duties \<noteq> [] \<longrightarrow> (\<exists>h. pulse (pwm_channel p) b1 = (h, pin_period p) \<and>
       h * 10000 \<le> pin_period p * last (duties p some_duties) \<and> pin_period p * last (duties p some_duties) < h * 10000 + 20000)"
    using pins_show_last_duty [of init_duties some_duties bank_zero] by (auto simp: init_duties_def some_duties_def)
  have "duties MOTORA_PWM some_duties = [9500, 2500]" by (simp add: some_duties_def)
  then have "\<exists>h. pulse (pwm_channel MOTORA_PWM) b1 = (h, 7500) \<and> h * 10000 \<le> 7500 * 2500 \<and> 7500 * 2500 < h * 10000 + 20000"
    using b(3) [rule_format, of MOTORA_PWM] by (simp add: pin_period_def)
  with b(1,2) show ?thesis by blast
qed

section \<open>Any frequency\<close>

lemma setup_counts:
  assumes "1 \<le> n" and "n \<le> 65536" and "n = clk div 2 ^ nat k div freq" and "0 < freq" and "0 < clk" and "PRSC s = k"
  shows "\<exists>s'. PWM_SetupPwm ch 0 kPWM_EdgeAligned freq clk s = Some s' \<and> counts n s' \<and> PRSC s' = k"
proof (cases "n = 65536")
  case True
  then show ?thesis using assms(3-6) by (simp add: PWM_SetupPwm_def set_pulse_def pulse_values_def counts_def u16_def Let_def)
next
  case False
  then show ?thesis using assms by (simp add: PWM_SetupPwm_def set_pulse_def pulse_values_def counts_def u16_id Let_def)
qed

lemma drive_duty_counts:
  assumes "drive_duty pin d b = Some b'" and "counts n (b (pwm_unit pin))"
  shows "counts n (b' (pwm_unit pin)) \<and> PRSC (b' (pwm_unit pin)) = PRSC (b (pwm_unit pin))"
  using assms
  by (auto simp: drive_duty_def PWM_UpdatePwmDutycycleHighAccuracy_def PWM_SetPwmLdok_def set_pulse_def pulse_values_def counts_def Let_def bind_eq_Some_conv
      split: if_splits)

text \<open>
  \<open>pwm_init\<close> gives a pin the frequency it is asked for: for every clock below \<open>2^32\<close> Hz and frequency below 65536 Hz and the clock, when it returns,
  the counter of the submodule runs at the clock over \<open>2^k\<close>, \<open>k \<le> 7\<close>, and the period of \<open>n\<close> counts is the requested one, rounded down to a count;
  it fits the 16-bit counter, and the clock is never divided further than needed: with \<open>k > 0\<close> the period still has
  32768 counts, so the frequency is exact to one part in 32768.
\<close>

theorem pwm_init_frequency:
  assumes "pwm_init clk pin freq d b = Some b'" and "0 < freq" and "freq < 65536" and "freq \<le> clk" and "clk < 4294967296"
  shows "\<exists>k n. 0 \<le> k \<and> k \<le> 7 \<and> PRSC (b' (pwm_unit pin)) = k \<and> counts n (b' (pwm_unit pin)) \<and> 1 \<le> n \<and> n \<le> 65536 \<and>
    (k \<noteq> 0 \<longrightarrow> 32768 \<le> n) \<and> n * (freq * 2 ^ nat k) \<le> clk \<and> clk < (n + 1) * (freq * 2 ^ nat k)"
proof -
  from assms(1) obtain k s where k: "pwm_divisor clk freq = Some k"
    and s: "PWM_SetupPwm (pwm_module_ch pin) 0 kPWM_EdgeAligned freq clk (PWM_SetPwmLdok False (PWM_Init k (PWM_Deinit (PWM_Init k (b (pwm_unit pin)))))) = Some s"
    and d: "drive_duty pin d (b(pwm_unit pin := PWM_StartTimer (PWM_SetPwmLdok True s))) = Some b'"
    by (auto simp: pwm_init_def split: if_splits Option.bind_splits)
  define n where "n = clk div 2 ^ nat k div freq"
  define N where "N = freq * 2 ^ nat k"
  have N: "0 < N" "n = clk div N" using assms(2) by (simp_all add: N_def n_def zdiv_zmult2_eq mult.commute [of freq])
  have n: "n \<le> 65536" "k \<noteq> 0 \<Longrightarrow> 32768 \<le> n" "0 \<le> k" "k \<le> 7"
    using divisor_fits [OF k assms(2,3) _ assms(5)] assms(2,4) by (auto simp: n_def)
  have n1: "1 \<le> n"
  proof (cases "k = 0")
    case True
    then have "freq div freq \<le> n" using assms(2,4) unfolding n_def by (simp add: zdiv_mono1 del: div_self)
    then show ?thesis using assms(2) by simp
  qed (use n(2) in simp)
  have "PRSC (PWM_SetPwmLdok False (PWM_Init k (PWM_Deinit (PWM_Init k (b (pwm_unit pin)))))) = k"
    by (simp add: PWM_SetPwmLdok_def PWM_Init_def)
  from setup_counts [OF n1 n(1) n_def assms(2) _ this, of "pwm_module_ch pin"] have "counts n s" "PRSC s = k"
    using s assms(2,4) by auto
  then have c: "counts n (b' (pwm_unit pin))" "PRSC (b' (pwm_unit pin)) = k"
    using drive_duty_counts [OF d, of n] by (auto simp: counts_def PWM_StartTimer_def PWM_SetPwmLdok_def)
  have "n * N \<le> clk" "clk < (n + 1) * N"
    using div_mult_mod_eq [of clk N] pos_mod_sign [OF N(1), of clk] pos_mod_bound [OF N(1), of clk] unfolding N(2) distrib_right by linarith+
  then show ?thesis using n n1 c by (auto simp: N_def)
qed

lemma pwm_init_frequency_witness:
  "\<exists>b' k n. pwm_init 150000000 85 50 382 bank_zero = Some b' \<and> PRSC (b' (2, 0)) = k \<and> counts n (b' (2, 0)) \<and> 32768 \<le> n \<and> n \<le> 65536"
proof -
  obtain s where s: "pwm_init 150000000 85 50 382 bank_zero = Some (bank_zero((2, 0) := s))" "PRSC s = 6"
    using pwm_init_ok [of 85 150000000 50 6 46875 382 bank_zero] pin_divisor [of TURN_MOTOR_CON_PIN]
    by (auto simp: pwm_iomuxc_def safe_duty_def pwm_unit_def u8_def BUS_CLOCK_def pin_freq_def)
  have u: "pwm_unit 85 = (2, 0)" by (simp add: pwm_unit_def u8_def)
  from pwm_init_frequency [OF s(1), unfolded u] s show ?thesis by auto
qed

end
