(* ===== verification/Attitude.thy ===== *)
theory Attitude
  imports Floats
begin

text \<open>
  Attitude of the car (\<open>code/src/Attitude_algorithm.c\<close>): conversion of the raw IMU
  samples with a first order filter on the yaw rate, the calibration of the gyro
  offset, the yaw integration the car uses, and the Kalman variant for roll and pitch.

  The IMU is hardware: a call of \<open>icm20602_get_acc\<close> and \<open>icm20602_get_gyro\<close> replaces the raw
  globals with the next sample, an argument here.  The functions of \<open>math.h\<close> whose
  results C leaves to the implementation are the fields of \<open>libm\<close>.
\<close>

section \<open>State\<close>

record State =
  roll :: flt
  yaw :: flt
  pitch :: flt

record imu_raw =
  acc_x :: int
  acc_y :: int
  acc_z :: int
  gyro_x :: int
  gyro_y :: int
  gyro_z :: int

record Gyro_Offset =
  off_x :: flt
  off_y :: flt
  off_z :: flt

record KalmanInfo =
  P :: flt
  Ka :: flt
  Qk :: flt
  Rk :: flt
  H :: flt

record libm =
  m_tan :: "flt \<Rightarrow> flt"
  m_sin :: "flt \<Rightarrow> flt"
  m_cos :: "flt \<Rightarrow> flt"
  m_atan2 :: "flt \<Rightarrow> flt \<Rightarrow> flt"
  m_sqrt :: "flt \<Rightarrow> flt"

text \<open>\<open>D_Gyro\<close> keeps the four entries that are read: [0][1], [0][2], [1][1], [1][2], then
  [2][1] and [2][2]; \<open>fliter\<close> is the static \<open>fliter_value[0]\<close>.\<close>

record attitude =
  Att :: State
  Att_A :: State
  Att_G :: State
  D_Gyro :: "flt list list"
  GyroOffset :: Gyro_Offset
  previous_t :: int
  current_t :: int
  dt :: flt
  acc_data :: "flt list"
  gyr_data :: "flt list"
  fliter_value :: "flt list"
  icm20602 :: imu_raw

definition State_zero :: State where
  "State_zero = \<lparr>roll = Fin 0, yaw = Fin 0, pitch = Fin 0\<rparr>"

definition imu_zero :: imu_raw where
  "imu_zero = \<lparr>acc_x = 0, acc_y = 0, acc_z = 0, gyro_x = 0, gyro_y = 0, gyro_z = 0\<rparr>"

definition attitude_zero :: attitude where
  "attitude_zero = \<lparr>Att = State_zero, Att_A = State_zero, Att_G = State_zero,
     D_Gyro = replicate 3 (replicate 3 (Fin 0)),
     GyroOffset = \<lparr>off_x = Fin 0, off_y = Fin 0, off_z = Fin 0\<rparr>, previous_t = 0, current_t = 0,
     dt = Fin 0, acc_data = replicate 3 (Fin 0), gyr_data = replicate 3 (Fin 0),
     fliter_value = replicate 2 (Fin 0), icm20602 = imu_zero\<rparr>"

definition angle_to_rad :: flt where "angle_to_rad = flit (174532925 / 10000000000)"

text \<open>
  \<open>PI\<close> is the \<open>double\<close> of \<open>zf_device_gnss.h\<close>, which the headers include first; the \<open>float\<close> of
  \<open>Attitude_algorithm.h\<close> is only defined where that one is not.
\<close>

definition PI :: flt where "PI = dlit (31415926535898 / 10000000000000)"

section \<open>Conversion\<close>

definition acc_conv :: "int \<Rightarrow> flt" where
  "acc_conv a = fdiv (fmul (i2f a) (i2f 16)) (i2f 65536)"

definition gyr_conv :: "int \<Rightarrow> flt \<Rightarrow> flt" where
  "gyr_conv g off =
     fmul (fdiv (fmul (fsub (i2f g) off) (i2f 4000)) (i2f 65536)) angle_to_rad"

text \<open>
  The arguments are the raw globals as they were before the call: C passes them by
  value, and the body then reads the next sample into the globals.
\<close>

definition imu_data_convertion ::
  "imu_raw \<Rightarrow> int \<Rightarrow> int \<Rightarrow> int \<Rightarrow> int \<Rightarrow> int \<Rightarrow> int \<Rightarrow> attitude \<Rightarrow> attitude" where
  "imu_data_convertion nxt ax ay az gx gy gz s =
    (let a = flit (2 / 10);
         s = s\<lparr>icm20602 := nxt\<rparr>;
         s = s\<lparr>acc_data := [acc_conv ax, acc_conv ay, acc_conv az]\<rparr>;
         s = s\<lparr>gyr_data := [gyr_conv gx (off_x (GyroOffset s)), gyr_conv gy (off_y (GyroOffset s)),
                            gyr_conv gz (off_z (GyroOffset s))]\<rparr>;
         f1 = fadd (fmul (fsub (flit 1) a) (fliter_value s ! 0)) (fmul a (gyr_data s ! 2))
     in s\<lparr>fliter_value := [f1, f1], gyr_data := (gyr_data s)[2 := f1]\<rparr>)"

definition conv_acc_gyro :: "imu_raw \<Rightarrow> attitude \<Rightarrow> attitude" where
  "conv_acc_gyro nxt s = (let r = icm20602 s in
     imu_data_convertion nxt (acc_x r) (acc_y r) (acc_z r) (gyro_x r) (gyro_y r) (gyro_z r) s)"

section \<open>Yaw\<close>

definition yaw_update :: "attitude \<Rightarrow> attitude" where
  "yaw_update s =
    (if flt_gt (fl_abs (gyr_data s ! 2)) (flit (1 / 100))
     then s\<lparr>Att := (Att s)\<lparr>yaw := fadd (yaw (Att s)) (fdiv (fmul (gyr_data s ! 2) (dt s)) angle_to_rad)\<rparr>\<rparr>
     else s)"

definition Att_GetYaw :: "imu_raw \<Rightarrow> int \<Rightarrow> attitude \<Rightarrow> (flt \<times> attitude) option" where
  "Att_GetYaw nxt tick s =
    do {
      let s = conv_acc_gyro nxt s;
      let s = s\<lparr>current_t := s32 tick\<rparr>;
      d \<leftarrow> chk32 (current_t s - previous_t s);
      let s = s\<lparr>dt := d2f (dmul (i2f d) (dlit (1 / 1000)))\<rparr>;
      let s = s\<lparr>previous_t := current_t s\<rparr>;
      let s = yaw_update s;
      Some (yaw (Att s), s)
    }"

text \<open>
  Calibration: a hundred samples of the gyro are summed into the offset, and the sums divided by
  a hundred.  The samples the loop reads are the argument.
\<close>

fun offset_sum :: "imu_raw list \<Rightarrow> attitude \<Rightarrow> attitude" where
  "offset_sum [] s = s"
| "offset_sum (r # rs) s =
    (let s = s\<lparr>icm20602 := (icm20602 s)\<lparr>gyro_x := gyro_x r, gyro_y := gyro_y r, gyro_z := gyro_z r\<rparr>\<rparr>;
         g = GyroOffset s
     in offset_sum rs (s\<lparr>GyroOffset := \<lparr>off_x = fadd (off_x g) (i2f (gyro_x (icm20602 s))),
          off_y = fadd (off_y g) (i2f (gyro_y (icm20602 s))),
          off_z = fadd (off_z g) (i2f (gyro_z (icm20602 s)))\<rparr>\<rparr>))"

definition Att_Algo_Init :: "(nat \<Rightarrow> imu_raw) \<Rightarrow> attitude \<Rightarrow> attitude" where
  "Att_Algo_Init samples s =
    (let s = s\<lparr>GyroOffset := \<lparr>off_x = i2f 0, off_y = i2f 0, off_z = i2f 0\<rparr>\<rparr>;
         s = offset_sum (map samples [0..<100]) s;
         g = GyroOffset s
     in s\<lparr>GyroOffset := \<lparr>off_x = fdiv (off_x g) (i2f 100), off_y = fdiv (off_y g) (i2f 100),
            off_z = fdiv (off_z g) (i2f 100)\<rparr>\<rparr>)"

section \<open>Roll and pitch\<close>

definition Cancer_GetDGyro :: "libm \<Rightarrow> attitude \<Rightarrow> flt list list" where
  "Cancer_GetDGyro l s =
    (let tanp = d2f (m_tan l (pitch (Att s)));
         sinr = d2f (m_sin l (roll (Att s)));
         cosr = d2f (m_cos l (roll (Att s)));
         cosp = d2f (m_cos l (pitch (Att s)))
     in [[Fin 1, fmul tanp sinr, fmul tanp cosr],
         [Fin 0, cosr, fl_neg sinr],
         [Fin 0, fdiv sinr cosp, fdiv cosr cosp]])"

text \<open>The call passes the gyro readings in the places of the accelerations, as the source does.\<close>

definition Cancer_GetState_Accel :: "libm \<Rightarrow> imu_raw \<Rightarrow> State \<Rightarrow> attitude \<Rightarrow> State \<times> attitude" where
  "Cancer_GetState_Accel l nxt att s =
    (let r = icm20602 s;
         s = imu_data_convertion nxt (gyro_x r) (gyro_y r) (gyro_z r) (gyro_x r) (gyro_y r) (gyro_z r) s;
         a = acc_data s;
         att = att\<lparr>roll := d2f (ddiv (dmul (m_atan2 l (a ! 1) (a ! 2)) (i2d 180)) PI)\<rparr>;
         x = fadd (fmul (a ! 1) (a ! 1)) (fmul (a ! 2) (a ! 2));
         att = att\<lparr>pitch := d2f (ddiv (dmul (fl_neg (m_atan2 l (a ! 0) (m_sqrt l x))) (i2d 180)) PI)\<rparr>
     in (att, s))"

definition Cancer_KalmanInit :: "libm \<Rightarrow> imu_raw \<Rightarrow> KalmanInfo \<Rightarrow> attitude \<Rightarrow> KalmanInfo \<times> attitude" where
  "Cancer_KalmanInit l nxt kal s =
    (let kal = kal\<lparr>Qk := d2f (dlit (25 / 10000)), Rk := d2f (dlit (3 / 10)), H := i2f 1, P := i2f 1\<rparr>;
         s = s\<lparr>D_Gyro := Cancer_GetDGyro l s\<rparr>;
         (att, s) = Cancer_GetState_Accel l nxt (Att s) s
     in (kal, s\<lparr>Att := att\<rparr>))"

definition kalman_gain :: "KalmanInfo \<Rightarrow> KalmanInfo" where
  "kalman_gain kal =
    (let kal = kal\<lparr>P := fadd (P kal) (Qk kal)\<rparr>
     in kal\<lparr>Ka := fdiv (P kal) (fadd (P kal) (Rk kal))\<rparr>)"

definition kalman_update :: "KalmanInfo \<Rightarrow> KalmanInfo" where
  "kalman_update kal = kal\<lparr>P := fmul (fsub (i2f 1) (Ka kal)) (P kal)\<rparr>"

definition Cancer_Kalman_Algo ::
  "libm \<Rightarrow> imu_raw \<Rightarrow> imu_raw \<Rightarrow> int \<Rightarrow> KalmanInfo \<Rightarrow> attitude \<Rightarrow> (KalmanInfo \<times> attitude) option" where
  "Cancer_Kalman_Algo l nxt1 nxt2 tick kal s =
    do {
      let s = conv_acc_gyro nxt1 s;
      let s = s\<lparr>current_t := s32 tick\<rparr>;
      d \<leftarrow> chk32 (current_t s - previous_t s);
      let s = s\<lparr>dt := fdiv (i2f d) (i2f 1000)\<rparr>;
      let s = s\<lparr>previous_t := current_t s\<rparr>;
      let g = gyr_data s;
      let D = D_Gyro s;
      let s = s\<lparr>Att_G := (Att_G s)\<lparr>
          pitch := fadd (pitch (Att s)) (fmul (fadd (fadd (g ! 0) (fmul (D ! 0 ! 1) (g ! 1))) (fmul (D ! 0 ! 2) (g ! 2))) (dt s)),
          roll := fadd (roll (Att s)) (fmul (fadd (fmul (D ! 1 ! 1) (g ! 1)) (fmul (D ! 1 ! 2) (g ! 2))) (dt s))\<rparr>\<rparr>;
      let s = yaw_update s;
      let kal = kalman_gain kal;
      let (aa, s) = Cancer_GetState_Accel l nxt2 (Att_A s) s;
      let s = s\<lparr>Att_A := aa\<rparr>;
      let s = s\<lparr>Att := (Att s)\<lparr>roll := fadd (roll (Att s)) (fmul (Ka kal) (fsub (roll (Att_A s)) (roll (Att_G s))))\<rparr>\<rparr>;
      let s = s\<lparr>Att := (Att s)\<lparr>pitch := fadd (pitch (Att s)) (fmul (Ka kal) (fsub (pitch (Att_A s)) (pitch (Att_G s))))\<rparr>\<rparr>;
      Some (kalman_update kal, s)
    }"

section \<open>Calibration is exact\<close>

definition gyro_ok :: "imu_raw \<Rightarrow> bool" where
  "gyro_ok r \<longleftrightarrow> \<bar>gyro_x r\<bar> \<le> 32768 \<and> \<bar>gyro_y r\<bar> \<le> 32768 \<and> \<bar>gyro_z r\<bar> \<le> 32768"

lemma offset_sum_z:
  assumes "list_all gyro_ok rs" and "off_z (GyroOffset s) = Fin (of_int z)"
    and "\<bar>z\<bar> + 32768 * int (length rs) \<le> 16777216"
  shows "off_z (GyroOffset (offset_sum rs s)) = Fin (of_int (z + sum_list (map gyro_z rs)))"
  using assms
proof (induction rs arbitrary: s z)
  case (Cons r rs)
  then have r: "\<bar>gyro_z r\<bar> \<le> 32768" by (simp add: gyro_ok_def)
  with Cons.prems(3) have sz: "\<bar>z + gyro_z r\<bar> + 32768 * int (length rs) \<le> 16777216" by simp
  then have "\<bar>z + gyro_z r\<bar> \<le> 16777216" by linarith
  with r Cons.prems sz show ?case
    by (simp add: Let_def i2f_exact fadd_int Cons.IH [where z = "z + gyro_z r"] add.assoc del: of_int_add)
qed simp

lemma offset_sum_last:
  "gyro_z (icm20602 (offset_sum rs s)) = (if rs = [] then gyro_z (icm20602 s) else gyro_z (last rs))"
  by (induction rs arbitrary: s) (simp_all add: Let_def)

lemma offset_sum_frame:
  "fliter_value (offset_sum rs s) = fliter_value s" "Att (offset_sum rs s) = Att s"
  "previous_t (offset_sum rs s) = previous_t s"
  by (induction rs arbitrary: s) (simp_all add: Let_def)

lemma Att_Algo_Init_frame:
  "fliter_value (Att_Algo_Init sm s) = fliter_value s" "Att (Att_Algo_Init sm s) = Att s"
  "previous_t (Att_Algo_Init sm s) = previous_t s"
  "gyro_z (icm20602 (Att_Algo_Init sm s)) = gyro_z (sm 99)"
proof -
  have "last (map sm [0..<100]) = sm 99" by (simp add: last_map)
  then show "fliter_value (Att_Algo_Init sm s) = fliter_value s" "Att (Att_Algo_Init sm s) = Att s"
    "previous_t (Att_Algo_Init sm s) = previous_t s"
    "gyro_z (icm20602 (Att_Algo_Init sm s)) = gyro_z (sm 99)"
    by (simp_all add: Att_Algo_Init_def Let_def offset_sum_frame offset_sum_last)
qed

lemma calibration_sum:
  assumes "\<And>k. k < 100 \<Longrightarrow> gyro_ok (sm k)"
  shows "off_z (GyroOffset (Att_Algo_Init sm s)) = f32 (of_int (\<Sum>k<100. gyro_z (sm k)) / 100)"
proof -
  have "list_all gyro_ok (map sm [0..<100])" using assms by (simp add: list_all_iff)
  then have "off_z (GyroOffset (offset_sum (map sm [0..<100]) (s\<lparr>GyroOffset := \<lparr>off_x = i2f 0, off_y = i2f 0, off_z = i2f 0\<rparr>\<rparr>)))
      = Fin (of_int (0 + sum_list (map gyro_z (map sm [0..<100]))))"
    by (rule offset_sum_z) (simp_all add: i2f_exact)
  moreover have "sum_list (map gyro_z (map sm [0..<100])) = (\<Sum>k<100. gyro_z (sm k))"
    by (simp only: map_map o_def interv_sum_list_conv_sum_set_nat) (simp add: atLeast0LessThan)
  ultimately show ?thesis
    by (simp add: Att_Algo_Init_def Let_def i2f_exact fdiv_def)
qed

text \<open>C28: The gyro calibration loses nothing to rounding on the way: for any hundred 16 bit
  samples the stored z offset is the binary32 value nearest to their exact mean.\<close>

theorem calibration_is_mean:
  assumes "\<forall>k<100. gyro_ok (samples k)"
  shows "off_z (GyroOffset (Att_Algo_Init samples s)) =
    f32 (of_int (\<Sum>k<100. gyro_z (samples k)) / 100)"
  using assms by (intro calibration_sum) simp

theorem calibration_is_mean_witness:
  "off_z (GyroOffset (Att_Algo_Init (\<lambda>k. imu_zero\<lparr>gyro_z := - 7\<rparr>) attitude_zero)) =
    f32 (of_int (\<Sum>k<(100::nat). gyro_z (imu_zero\<lparr>gyro_z := - 7\<rparr>)) / 100)"
  by (rule calibration_is_mean) (simp add: gyro_ok_def imu_zero_def)

section \<open>A car at rest does not turn\<close>

text \<open>The state of a calibrated gyro at rest: readings equal the offset, the filter is empty.\<close>

definition at_rest :: "int \<Rightarrow> attitude \<Rightarrow> bool" where
  "at_rest g s \<longleftrightarrow> off_z (GyroOffset s) = Fin (of_int g) \<and> gyro_z (icm20602 s) = g \<and>
     fliter_value s ! 0 = Fin 0"

lemma gyr_conv_zero: "\<bar>g\<bar> \<le> 32768 \<Longrightarrow> gyr_conv g (Fin (of_int g)) = Fin 0"
  by (simp add: gyr_conv_def i2f_exact fsub_int fmul_def fdiv_def angle_to_rad_def f32_small)

lemma filter_zero: "fadd (fmul (fsub (flit 1) (flit (1 / 5))) (Fin 0)) (fmul (flit (1 / 5)) (Fin 0)) = Fin 0"
  by code_simp

lemma dead_zone_zero: "\<not> flt_less (flit (1 / 100)) (Fin 0)"
  by code_simp

lemma GetYaw_at_rest:
  assumes "at_rest g s" and "\<bar>g\<bar> \<le> 32768" and "gyro_z nxt = g"
    and "Att_GetYaw nxt tick s = Some (y, s')"
  shows "at_rest g s' \<and> y = yaw (Att s) \<and> yaw (Att s') = yaw (Att s)"
proof -
  from assms(1,2) have "gyr_conv (gyro_z (icm20602 s)) (off_z (GyroOffset s)) = Fin 0"
    by (simp add: at_rest_def gyr_conv_zero)
  with assms show ?thesis
    by (auto simp: Att_GetYaw_def conv_acc_gyro_def imu_data_convertion_def Let_def at_rest_def
        yaw_update_def filter_zero dead_zone_zero split: Option.bind_splits if_splits)
qed

fun yaw_run :: "(imu_raw \<times> int) list \<Rightarrow> attitude \<Rightarrow> attitude option" where
  "yaw_run [] s = Some s"
| "yaw_run ((r, t) # xs) s = do { (y, s') \<leftarrow> Att_GetYaw r t s; yaw_run xs s' }"

lemma yaw_run_at_rest:
  "at_rest g s \<Longrightarrow> \<bar>g\<bar> \<le> 32768 \<Longrightarrow> list_all (\<lambda>(r, t). gyro_z r = g) xs \<Longrightarrow>
     yaw_run xs s = Some s' \<Longrightarrow> yaw (Att s') = yaw (Att s)"
proof (induction xs arbitrary: s)
  case (Cons x xs)
  obtain r t where x: "x = (r, t)" by (cases x)
  with Cons.prems obtain y s1 where s1: "Att_GetYaw r t s = Some (y, s1)" "yaw_run xs s1 = Some s'"
    by (auto split: Option.bind_splits)
  with GetYaw_at_rest [OF Cons.prems(1,2) _ s1(1)] Cons.prems(3) Cons.IH [OF _ Cons.prems(2) _ s1(2)] x
  show ?case by simp
qed simp

text \<open>Ticks that start at the last reading and never run backwards are always defined.\<close>

fun ticks_ok :: "int \<Rightarrow> (imu_raw \<times> int) list \<Rightarrow> bool" where
  "ticks_ok t0 [] = True"
| "ticks_ok t0 ((r, t) # xs) = (t0 \<le> t \<and> t < 2147483648 \<and> ticks_ok t xs)"

lemma yaw_update_frame [simp]: "previous_t (yaw_update s) = previous_t s"
  by (simp add: yaw_update_def)

lemma sum_previous_t: "previous_t (offset_sum rs s) = previous_t s"
  by (induction rs arbitrary: s) (simp_all add: Let_def)

lemma GetYaw_defined:
  assumes "previous_t s = t0" and "0 \<le> t0" and "t0 \<le> t" and "t < 2147483648"
  shows "\<exists>y s'. Att_GetYaw r t s = Some (y, s') \<and> previous_t s' = t"
  using assms
  by (simp add: Att_GetYaw_def conv_acc_gyro_def imu_data_convertion_def Let_def s32_id)

lemma yaw_run_defined:
  "ticks_ok t0 xs \<Longrightarrow> 0 \<le> t0 \<Longrightarrow> previous_t s = t0 \<Longrightarrow> \<exists>s'. yaw_run xs s = Some s'"
proof (induction xs arbitrary: s t0)
  case (Cons x xs)
  obtain r t where x: "x = (r, t)" by (cases x)
  with Cons.prems have t: "t0 \<le> t" "t < 2147483648" "ticks_ok t xs" by auto
  from GetYaw_defined [OF Cons.prems(3,2) t(1,2)] obtain y s1
    where "Att_GetYaw r t s = Some (y, s1)" "previous_t s1 = t" by blast
  with Cons.IH [OF t(3)] Cons.prems(2) t(1) x show ?case by auto
qed simp

text \<open>
  C29: A car at rest does not drift: from the cleared state at power-up, if the gyro reads the same 16 bit value g in all hundred samples of the
  calibration and afterwards, then for any sequence of ticks that does not run backwards
  (from 0, below 2 ^ 31) every \<open>Att_GetYaw\<close> is defined and the yaw stays zero.
\<close>

theorem yaw_no_drift:
  assumes "\<bar>g\<bar> \<le> 32768" and "\<forall>k<100. gyro_ok (samples k) \<and> gyro_z (samples k) = g"
    and "list_all (\<lambda>(r, t). gyro_z r = g) xs" and "ticks_ok 0 xs"
  shows "\<exists>s. yaw_run xs (Att_Algo_Init samples attitude_zero) = Some s \<and> yaw (Att s) = Fin 0"
proof -
  let ?s = "Att_Algo_Init samples attitude_zero"
  have z: "fliter_value attitude_zero ! 0 = Fin 0" "previous_t attitude_zero = 0"
    "yaw (Att attitude_zero) = Fin 0"
    by (simp_all add: attitude_zero_def State_zero_def)
  have "(\<Sum>k<(100::nat). gyro_z (samples k)) = (\<Sum>k<(100::nat). g)"
    using assms(2) by (intro sum.cong) auto
  then have "off_z (GyroOffset ?s) = Fin (of_int g)"
    using assms(1,2) by (simp add: calibration_sum f32_of_int)
  then have rest: "at_rest g ?s" using assms(2) z by (simp add: at_rest_def Att_Algo_Init_frame)
  from yaw_run_defined [OF assms(4), of ?s] z obtain s where s: "yaw_run xs ?s = Some s"
    by (auto simp: Att_Algo_Init_frame)
  with yaw_run_at_rest [OF rest assms(1,3) s] z show ?thesis by (simp add: Att_Algo_Init_frame)
qed

theorem yaw_no_drift_witness:
  "\<exists>s. yaw_run [(imu_zero\<lparr>gyro_z := 13\<rparr>, 1), (imu_zero\<lparr>gyro_z := 13\<rparr>, 2)]
     (Att_Algo_Init (\<lambda>k. imu_zero\<lparr>gyro_z := 13\<rparr>) attitude_zero) = Some s \<and> yaw (Att s) = Fin 0"
  by (rule yaw_no_drift [of 13]) (simp_all add: gyro_ok_def imu_zero_def)

section \<open>Latency\<close>

text \<open>The yaw is one sample late: the value Att_GetYaw returns does not depend on
  the sample it reads during the call, because the raw values are passed before the
  IMU is read; the new sample takes effect in the next call.\<close>

theorem GetYaw_one_sample_late:
  "map_option fst (Att_GetYaw nxt1 tick s) = map_option fst (Att_GetYaw nxt2 tick s) \<and>
   (Att_GetYaw nxt1 tick s = Some (y, s') \<longrightarrow> icm20602 s' = nxt1)"
  by (auto simp: Att_GetYaw_def conv_acc_gyro_def imu_data_convertion_def Let_def yaw_update_def
      split: Option.bind_splits)

theorem GetYaw_one_sample_late_witness:
  "map_option fst (Att_GetYaw (imu_zero\<lparr>gyro_z := 900\<rparr>) 5 attitude_zero) =
     map_option fst (Att_GetYaw imu_zero 5 attitude_zero) \<and>
   icm20602 (snd (the (Att_GetYaw (imu_zero\<lparr>gyro_z := 900\<rparr>) 5 attitude_zero))) = imu_zero\<lparr>gyro_z := 900\<rparr>"
proof -
  obtain y s' where r: "Att_GetYaw (imu_zero\<lparr>gyro_z := 900\<rparr>) 5 attitude_zero = Some (y, s')"
    using GetYaw_defined [of attitude_zero 0 5 "imu_zero\<lparr>gyro_z := 900\<rparr>"] by (auto simp: attitude_zero_def)
  with GetYaw_one_sample_late [of "imu_zero\<lparr>gyro_z := 900\<rparr>" 5 attitude_zero imu_zero y s'] show ?thesis
    by simp
qed

section \<open>The Kalman gain\<close>

definition kal_ok :: "KalmanInfo \<Rightarrow> bool" where
  "kal_ok k \<longleftrightarrow> in_range 0 1 (P k) \<and> Qk k = d2f (dlit (25 / 10000)) \<and> Rk k = d2f (dlit (3 / 10))"

lemma kal_consts: "d2f (dlit (25 / 10000)) = Fin (5368709 / 2147483648)"
  "d2f (dlit (3 / 10)) = Fin (5033165 / 16777216)"
  by code_simp+

lemma kal_round: "rnd32 (1 + 5368709 / 2147483648) \<le> 1003 / 1000"
  "rnd32 (1003 / 1000 + 5033165 / 16777216) \<le> 1304 / 1000"
  "3 / 4 \<le> rnd32 (1 / (1304 / 1000))" "rnd32 (1 / 4 * (1003 / 1000)) \<le> 1" "rnd32 (1 - 3 / 4) \<le> 1 / 4"
  by code_simp+

lemma kalman_gain_range:
  assumes "kal_ok k"
  obtains p a where "P (kalman_gain k) = Fin p" and "Ka (kalman_gain k) = Fin a"
    and "0 \<le> p" and "p \<le> 1003 / 1000" and "0 \<le> a" and "a \<le> 1" and "1 \<le> p \<Longrightarrow> 3 / 4 \<le> a"
proof -
  let ?q = "5368709 / 2147483648 :: rat" and ?r = "5033165 / 16777216 :: rat"
  from assms obtain x where x: "P k = Fin x" "0 \<le> x" "x \<le> 1"
    by (auto simp: kal_ok_def in_range_iff)
  define p where "p = rnd32 (x + ?q)"
  define d where "d = rnd32 (p + ?r)"
  have p: "0 \<le> p" "p \<le> 1003 / 1000"
    using x b32.R_nonneg [of "x + ?q"] b32.R_mono [of "x + ?q" "1 + ?q"] kal_round(1)
    unfolding p_def by linarith+
  have pp: "rnd32 p = p" by (simp add: p_def b32.R_idem)
  have rr: "rnd32 ?r = ?r" by code_simp
  have d: "p \<le> d" "?r \<le> d" "d \<le> 1304 / 1000"
    using b32.R_ge_fix [OF pp, of "p + ?r"] b32.R_ge_fix [OF rr, of "p + ?r"]
      b32.R_mono [of "p + ?r" "1003 / 1000 + ?r"] p kal_round(2)
    unfolding d_def by linarith+
  then have d0: "0 < d" by linarith
  have q: "0 \<le> p / d" "p / d \<le> 1" using p d d0 by simp_all
  have k: "Qk k = Fin ?q" "Rk k = Fin ?r" using assms unfolding kal_ok_def kal_consts by simp_all
  have P1: "P (kalman_gain k) = Fin p"
    using x k by (simp add: kalman_gain_def Let_def fadd_def f32_small p_def)
  moreover have "fadd (Fin x) (Fin ?q) = Fin p" using x by (simp add: fadd_def f32_small p_def)
  moreover have "fadd (Fin p) (Fin ?r) = Fin d" using p by (simp add: fadd_def f32_small d_def)
  moreover have "f32 (p / d) = Fin (rnd32 (p / d))" using q by (intro f32_small) linarith
  ultimately have K1: "Ka (kalman_gain k) = Fin (rnd32 (p / d))"
    using x k d0 q by (simp add: kalman_gain_def Let_def fdiv_def)
  have a: "0 \<le> rnd32 (p / d)" "rnd32 (p / d) \<le> 1"
    using b32.R_nonneg [OF q(1)] b32.R_le_fix [OF rnd32_one q(2)] by simp_all
  have "3 / 4 \<le> rnd32 (p / d)" if "1 \<le> p"
  proof -
    have "1 / (1304 / 1000) \<le> p / d" using d d0 that by (intro frac_le) linarith+
    from b32.R_mono [OF this] kal_round(3) show ?thesis by linarith
  qed
  from that [OF P1 K1 p a this] show thesis .
qed

text \<open>The Kalman filter of roll and pitch stays a filter: with the constants of
  Cancer_KalmanInit and a covariance P in [0, 1], the gain Ka lies in [0, 1], so each correction is
  a convex combination, and the updated covariance lies in [0, 1] again.\<close>

theorem kalman_stable:
  assumes "kal_ok k"
  shows "in_range 0 1 (Ka (kalman_gain k)) \<and> kal_ok (kalman_update (kalman_gain k))"
proof -
  from kalman_gain_range [OF assms] obtain p a where
    pa: "P (kalman_gain k) = Fin p" "Ka (kalman_gain k) = Fin a" "0 \<le> p" "p \<le> 1003 / 1000"
      "0 \<le> a" "a \<le> 1" "1 \<le> p \<Longrightarrow> 3 / 4 \<le> a" by blast
  define c where "c = rnd32 (1 - a)"
  have c: "0 \<le> c" "c \<le> 1" using pa b32.R_nonneg [of "1 - a"] b32.R_le_fix [of 1 "1 - a"]
    unfolding c_def by simp_all
  then have cp: "0 \<le> c * p" "c * p \<le> p" "c * p \<le> 100000000000000000000000000000000000000"
    using pa(3,4) mult_right_mono [of c 1 p] by simp_all
  have P2: "P (kalman_update (kalman_gain k)) = Fin (rnd32 (c * p))"
    using pa cp by (simp add: kalman_update_def i2f_exact fsub_def fl_sub_def fmul_def f32_small c_def)
  have "rnd32 (c * p) \<le> 1"
  proof (cases "1 \<le> p")
    case True
    then have "c \<le> 1 / 4"
      using b32.R_mono [of "1 - a" "1 - 3 / 4"] pa(7) kal_round(5) unfolding c_def by linarith
    then have "c * p \<le> 1 / 4 * (1003 / 1000)" using pa(3,4) c by (intro mult_mono) auto
    from b32.R_mono [OF this] kal_round(4) show ?thesis by linarith
  next
    case False
    with cp show ?thesis by (intro b32.R_le_fix) auto
  qed
  with P2 pa b32.R_nonneg [OF cp(1)] assms show ?thesis
    by (simp add: kal_ok_def) (simp add: kalman_update_def kalman_gain_def Let_def)
qed

theorem kalman_stable_witness:
  "in_range 0 1 (Ka (kalman_gain \<lparr>P = Fin 1, Ka = Fin 0, Qk = d2f (dlit (25 / 10000)), Rk = d2f (dlit (3 / 10)), H = Fin 1\<rparr>))
   \<and> kal_ok (kalman_update (kalman_gain \<lparr>P = Fin 1, Ka = Fin 0, Qk = d2f (dlit (25 / 10000)), Rk = d2f (dlit (3 / 10)), H = Fin 1\<rparr>))"
  by (rule kalman_stable) (simp add: kal_ok_def)

end
