(* ===== verification/Car.thy ===== *)
theory Car
  imports Motor Attitude
begin

text \<open>
  The chassis (\<open>code/src/car.c\<close>, \<open>code/inc/car.h\<close>): wheel speeds from the body
  speed, the yaw loop, the start switch, and the motion thread.  \<open>car\<close> holds the
  globals of \<open>car.c\<close> and of the modules it drives.  One pass of the motion thread is
  \<open>car_motion_pass\<close>.
\<close>

section \<open>State\<close>

datatype Speed_Con_Right = Con_By_TraceLine | Con_By_AngleLoop | Con_By_Circule

record mecanum_Speed =
  Vx :: flt
  Vy :: flt
  Omega :: flt

record car =
  Car_Speed :: mecanum_Speed
  Car_Yaw_Controller :: Pos_PID_t
  Car_BootSwitch :: int
  Car_Speed_ConRight :: Speed_Con_Right
  mot :: motor
  att :: attitude

definition SIN30 :: flt where "SIN30 = flit (1 / 2)"
definition COS30 :: flt where "COS30 = flit (866 / 1000)"
definition maxLinearSpeed :: flt where "maxLinearSpeed = i2f 1000"
definition Car_Max_Speed :: int where "Car_Max_Speed = 1000"

text \<open>The globals as the program starts: the switch is on until \<open>car_motion_Init\<close>.\<close>

definition car_zero :: car where
  "car_zero = \<lparr>Car_Speed = \<lparr>Vx = Fin 0, Vy = Fin 0, Omega = Fin 0\<rparr>, Car_Yaw_Controller = Pos_PID_zero,
     Car_BootSwitch = 1, Car_Speed_ConRight = Con_By_TraceLine, mot = motor_zero, att = attitude_zero\<rparr>"

section \<open>Operations\<close>

definition wheel_speeds :: "flt \<Rightarrow> flt \<Rightarrow> flt \<Rightarrow> flt \<times> flt \<times> flt" where
  "wheel_speeds xSpeed ySpeed aSpeed =
    (fadd (fadd (fmul (fl_neg xSpeed) SIN30) (fdiv ySpeed COS30)) aSpeed,
     fadd (fsub (fmul (fl_neg xSpeed) SIN30) (fdiv ySpeed COS30)) aSpeed,
     fadd xSpeed aSpeed)"

definition wheel_max :: "flt \<times> flt \<times> flt \<Rightarrow> flt" where
  "wheel_max w = (case w of (speedA, speedB, speedC) \<Rightarrow>
     let max = speedA;
         max = (if flt_less max speedB then speedB else max);
         max = (if flt_less max speedC then speedC else max)
     in max)"

definition wheel_scale :: "flt \<times> flt \<times> flt \<Rightarrow> flt \<times> flt \<times> flt" where
  "wheel_scale w = (case w of (speedA, speedB, speedC) \<Rightarrow>
     let max = wheel_max w
     in if flt_gt max maxLinearSpeed
        then (fmul (fdiv speedA max) maxLinearSpeed, fmul (fdiv speedB max) maxLinearSpeed,
              fmul (fdiv speedC max) maxLinearSpeed)
        else w)"

definition mecanumRun :: "flt \<Rightarrow> flt \<Rightarrow> flt \<Rightarrow> motor \<Rightarrow> motor" where
  "mecanumRun xSpeed ySpeed aSpeed m =
    (let (speedA, speedB, speedC) = wheel_scale (wheel_speeds xSpeed ySpeed aSpeed)
     in Motor_Set_Speed 3 speedC (Motor_Set_Speed 2 (fl_neg speedB) (Motor_Set_Speed 1 speedA m)))"

definition Car_Change_Speed :: "flt \<Rightarrow> flt \<Rightarrow> flt \<Rightarrow> car \<Rightarrow> car" where
  "Car_Change_Speed xSpeed ySpeed aSpeed c =
    (if Car_BootSwitch c \<noteq> 0 then
       let c = c\<lparr>Car_Speed := (Car_Speed c)\<lparr>Vx := xSpeed, Vy := ySpeed\<rparr>\<rparr>
       in if Car_Speed_ConRight c \<noteq> Con_By_AngleLoop
          then c\<lparr>Car_Speed := (Car_Speed c)\<lparr>Omega := aSpeed\<rparr>\<rparr> else c
     else c)"

definition Car_Change_Yaw :: "flt \<Rightarrow> car \<Rightarrow> car" where
  "Car_Change_Yaw Yaw_Ref c = c\<lparr>Car_Yaw_Controller := (Car_Yaw_Controller c)\<lparr>Ref := Yaw_Ref\<rparr>\<rparr>"

definition car_motion_run :: "counters \<Rightarrow> car \<Rightarrow> (io list \<times> car) option" where
  "car_motion_run q c =
    do {
      let c = (if Car_Speed_ConRight c = Con_By_AngleLoop
               then let (y, p) = Pos_PID_Controller (Car_Yaw_Controller c) (yaw (Att (att c)))
                    in c\<lparr>Car_Yaw_Controller := p, Car_Speed := (Car_Speed c)\<lparr>Omega := y\<rparr>\<rparr>
               else c);
      let c = c\<lparr>mot := mecanumRun (Vx (Car_Speed c)) (Vy (Car_Speed c)) (Omega (Car_Speed c)) (mot c)\<rparr>;
      (es, m) \<leftarrow> motor_run q (mot c);
      Some (es, c\<lparr>mot := m\<rparr>)
    }"

text \<open>One pass of \<open>car_motion_entry\<close>: the yaw is integrated even while the switch is off.\<close>

definition car_motion_pass :: "imu_raw \<Rightarrow> int \<Rightarrow> counters \<Rightarrow> car \<Rightarrow> (io list \<times> car) option" where
  "car_motion_pass nxt tick q c =
    do {
      (y, a) \<leftarrow> Att_GetYaw nxt tick (att c);
      let c = c\<lparr>att := a\<rparr>;
      (es, c) \<leftarrow> (if Car_BootSwitch c \<noteq> 0 then car_motion_run q c else Some ([], c));
      Some (Toggle C3 # es @ [Toggle C3, Delay 1], c)
    }"

definition Car_Rotate :: "flt \<Rightarrow> car \<Rightarrow> car" where
  "Car_Rotate angle c =
    (let c = c\<lparr>Car_Speed_ConRight := Con_By_AngleLoop\<rparr>
     in Car_Change_Yaw (fadd (yaw (Att (att c))) angle) c)"

text \<open>\<open>x*130.0f/25.0f\<close> and \<open>y*100.0f/30.0f\<close>.\<close>

definition Car_DisConvert_x :: "flt \<Rightarrow> flt" where
  "Car_DisConvert_x x = fdiv (fmul x (flit 130)) (flit 25)"

definition Car_DsiConvert_y :: "flt \<Rightarrow> flt" where
  "Car_DsiConvert_y y = fdiv (fmul y (flit 100)) (flit 30)"

definition dist_limit :: "flt \<Rightarrow> flt" where
  "dist_limit v = (if flt_gt v (i2f Car_Max_Speed) then i2f (Car_Max_Speed sdiv 5) else v)"

text \<open>
  \<open>Car_DistanceMotion\<close> changes the speed twice with a wait between; the motion thread runs
  during the waits, so the function is its two speed changes and its delays.
\<close>

definition Car_DistanceMotion_start :: "flt \<Rightarrow> flt \<Rightarrow> flt \<Rightarrow> car \<Rightarrow> (io list \<times> car) option" where
  "Car_DistanceMotion_start dx dy d c =
    do {
      let vx = dist_limit (fdiv (Car_DisConvert_x dx) d);
      let vy = dist_limit (fdiv (Car_DsiConvert_y dy) d);
      let c = Car_Change_Speed vx vy (Omega (Car_Speed c)) c;
      t \<leftarrow> f2s32 (fmul d (i2f 1000));
      Some ([Delay t], c)
    }"

definition Car_DistanceMotion_end :: "car \<Rightarrow> io list \<times> car" where
  "Car_DistanceMotion_end c =
    (let c = Car_Change_Speed (i2f 0) (i2f 0) (Omega (Car_Speed c)) c in ([Delay 5], c))"

definition Car_DistanceMotion :: "(car \<Rightarrow> car) \<Rightarrow> flt \<Rightarrow> flt \<Rightarrow> flt \<Rightarrow> car \<Rightarrow> (io list \<times> car) option" where
  "Car_DistanceMotion between dx dy d c =
    do {
      (e1, c) \<leftarrow> Car_DistanceMotion_start dx dy d c;
      let (e2, c) = Car_DistanceMotion_end (between c);
      Some (e1 @ e2, c)
    }"

definition Car_Stop :: "car \<Rightarrow> (io list \<times> car) option" where
  "Car_Stop c =
    do {
      let c = c\<lparr>Car_BootSwitch := 0\<rparr>;
      a \<leftarrow> pwm_set_duty MOTORA_PWM 0;
      b \<leftarrow> pwm_set_duty MOTORB_PWM 0;
      d \<leftarrow> pwm_set_duty MOTORC_PWM 0;
      Some (a @ b @ d, c)
    }"

definition Car_Start :: "car \<Rightarrow> car" where
  "Car_Start c = c\<lparr>Car_BootSwitch := 1\<rparr>"

text \<open>
  Initialisation; the thread it starts runs \<open>car_motion_pass\<close>.  The calibration
  samples are an argument.
\<close>

definition car_motion_Init :: "(nat \<Rightarrow> imu_raw) \<Rightarrow> car \<Rightarrow> (io list \<times> car) option" where
  "car_motion_Init samples c =
    do {
      let (e1, m) = Motor_init (mot c);
      let c = c\<lparr>mot := m, att := Att_Algo_Init samples (att c), Car_Speed_ConRight := Con_By_TraceLine,
                Car_Yaw_Controller := Pos_PID_Init (Car_Yaw_Controller c) (d2f (dlit 5)) (i2f 0) (i2f 0)\<rparr>;
      let c = c\<lparr>Car_Yaw_Controller := (Car_Yaw_Controller c)\<lparr>Ref := i2f 0, Output_Max := i2f 300,
                Output_Min := i2f (- 300), Value_I_Max := i2f 1000\<rparr>\<rparr>;
      let c = c\<lparr>Car_Speed := \<lparr>Vx = flit 0, Vy = flit 0, Omega = flit 0\<rparr>, Car_BootSwitch := 0\<rparr>;
      (e2, c) \<leftarrow> Car_Stop c;
      Some (e1 @ e2, c)
    }"

section \<open>Wheel speeds\<close>

lemma car_consts: "SIN30 = Fin (1 / 2)" "COS30 = Fin (14529069 / 16777216)" "maxLinearSpeed = Fin 1000"
proof -
  show "SIN30 = Fin (1 / 2)" "COS30 = Fin (14529069 / 16777216)" by code_simp+
  show "maxLinearSpeed = Fin 1000" by (simp add: maxLinearSpeed_def i2f_exact)
qed

lemma wheel_speeds_bnd:
  assumes "bnd 15 x" and "bnd 15 y" and "bnd 15 a" and "wheel_speeds x y a = (A, B, C)"
  shows "bnd 18 A" and "bnd 18 B" and "bnd 18 C"
proof -
  have sn: "bnd (- 1) (Fin (1 / 2))" "pow2 (- 1) \<le> \<bar>14529069 / 16777216\<bar>" by (simp_all add: pow2_def)
  have 1: "bnd 14 (fmul (fl_neg x) SIN30)"
    unfolding car_consts by (rule bnd_fmul [OF bnd_neg [OF assms(1)] sn(1)]) simp_all
  have 2: "bnd 16 (fdiv y COS30)"
    unfolding car_consts by (rule bnd_fdiv [OF assms(2) refl sn(2)]) simp_all
  have s: "bnd 17 (fadd (fmul (fl_neg x) SIN30) (fdiv y COS30))"
    "bnd 17 (fsub (fmul (fl_neg x) SIN30) (fdiv y COS30))"
    by (rule bnd_fadd [OF 1 2] bnd_fsub [OF 1 2]; simp)+
  have "bnd 18 (fadd (fadd (fmul (fl_neg x) SIN30) (fdiv y COS30)) a)"
    "bnd 18 (fadd (fsub (fmul (fl_neg x) SIN30) (fdiv y COS30)) a)"
    by (rule bnd_fadd [OF s(1) assms(3)] bnd_fadd [OF s(2) assms(3)]; simp)+
  moreover have "bnd 16 (fadd x a)" by (rule bnd_fadd [OF assms(1,3)]) simp_all
  ultimately show "bnd 18 A" "bnd 18 B" "bnd 18 C"
    using assms(4) bnd_mono [of 16 _ 18] by (auto simp: wheel_speeds_def)
qed

lemma wheel_max_Fin:
  "wheel_max (Fin a, Fin b, Fin c) = Fin (max a (max b c))"
  by (auto simp: wheel_max_def Let_def)

lemma pow2_9: "pow2 9 = 512"
  by (simp add: pow2_def)

lemma scale_one:
  assumes "\<bar>a\<bar> \<le> pow2 18" and "1000 < m"
  shows "bnd 19 (fmul (fdiv (Fin a) (Fin m)) (Fin 1000))"
proof -
  have "bnd 9 (fdiv (Fin a) (Fin m))"
    by (rule bnd_fdiv [of 18 _ _ m 9]) (use assms in \<open>simp_all add: pow2_9\<close>)
  then show ?thesis by (rule bnd_fmul [where k = 10]) (simp_all add: pow2_def)
qed

lemma scale_upper:
  assumes "\<bar>a\<bar> \<le> pow2 18" and "1000 < m" and "a \<le> m"
  shows "flt_le (fmul (fdiv (Fin a) (Fin m)) (Fin 1000)) (Fin 1000)"
proof -
  from bnd_fdiv [of 18 "Fin a" "Fin m" m 9 9] assms
  have b: "bnd 9 (fdiv (Fin a) (Fin m))" by (simp add: pow2_9)
  moreover have "a / m \<le> 1" using assms by simp
  then have r: "rnd32 (a / m) \<le> 1" by (intro b32.R_le_fix) simp_all
  moreover have "\<bar>a / m\<bar> \<le> pow2 9"
    using abs_div_pow2 [of a 18 9 m] assms by (simp add: pow2_9)
  then have d: "fdiv (Fin a) (Fin m) = Fin (rnd32 (a / m))"
    using assms(2) f32_bnd(1) [of "a / m" 9] by (simp add: fdiv_def)
  ultimately have "\<bar>rnd32 (a / m) * 1000\<bar> \<le> 512000" by (simp add: pow2_9 abs_mult)
  then have f: "fmul (Fin (rnd32 (a / m))) (Fin 1000) = Fin (rnd32 (rnd32 (a / m) * 1000))"
    by (simp add: fmul_def f32_small)
  have "rnd32 (a / m) * 1000 \<le> 1000" using r by simp
  then have "rnd32 (rnd32 (a / m) * 1000) \<le> 1000" by (intro b32.R_le_fix) simp_all
  then show ?thesis by (simp add: d f)
qed

lemma wheel_scale_ok:
  assumes "bnd 18 A" and "bnd 18 B" and "bnd 18 C" and "wheel_scale (A, B, C) = (A', B', C')"
  shows "bnd 19 A' \<and> bnd 19 B' \<and> bnd 19 C'"
    and "flt_le A' (Fin 1000) \<and> flt_le B' (Fin 1000) \<and> flt_le C' (Fin 1000)"
proof -
  from assms(1-3) obtain a b c where v: "A = Fin a" "B = Fin b" "C = Fin c"
    and le: "\<bar>a\<bar> \<le> pow2 18" "\<bar>b\<bar> \<le> pow2 18" "\<bar>c\<bar> \<le> pow2 18" by (auto simp: bnd_iff)
  have up: "\<bar>x\<bar> \<le> pow2 18 \<Longrightarrow> \<bar>x\<bar> \<le> pow2 19" for x by (simp add: pow2_def)
  show "bnd 19 A' \<and> bnd 19 B' \<and> bnd 19 C'"
    "flt_le A' (Fin 1000) \<and> flt_le B' (Fin 1000) \<and> flt_le C' (Fin 1000)"
    using assms(4) le up scale_one [OF le(1)] scale_one [OF le(2)] scale_one [OF le(3)]
      scale_upper [OF le(1)] scale_upper [OF le(2)] scale_upper [OF le(3)]
    by (auto simp: wheel_scale_def v wheel_max_Fin car_consts Let_def split: if_splits)
qed

lemma mecanumRun_targets:
  assumes "bnd 15 x" and "bnd 15 y" and "bnd 15 a"
  obtains A B C where "bnd 19 A" "bnd 19 B" "bnd 19 C"
    "flt_le A (Fin 1000)" "flt_le B (Fin 1000)" "flt_le C (Fin 1000)"
    "mecanumRun x y a m = m\<lparr>MA_target_speed := A, MB_target_speed := fl_neg B, MC_target_speed := C\<rparr>"
proof -
  obtain A B C where w: "wheel_speeds x y a = (A, B, C)" by (cases "wheel_speeds x y a") auto
  obtain A' B' C' where s: "wheel_scale (A, B, C) = (A', B', C')" by (cases "wheel_scale (A, B, C)") auto
  have "mecanumRun x y a m = m\<lparr>MA_target_speed := A', MB_target_speed := fl_neg B', MC_target_speed := C'\<rparr>"
    by (simp add: mecanumRun_def w s Motor_Set_Speed_def)
  with that wheel_scale_ok [OF wheel_speeds_bnd [OF assms w] s] show thesis by blast
qed

text \<open>C31: mecanumRun limits the wheels from above: for body speeds up to 2 ^ 15 the
  three wheel speeds it computes are at most maxLinearSpeed (wheel B is driven with the opposite
  sign), whatever is rounded on the way.\<close>

theorem mecanum_upper_limit:
  assumes "bnd 15 x" and "bnd 15 y" and "bnd 15 a"
  shows "flt_le (MA_target_speed (mecanumRun x y a m)) maxLinearSpeed \<and>
         flt_le (fl_neg maxLinearSpeed) (MB_target_speed (mecanumRun x y a m)) \<and>
         flt_le (MC_target_speed (mecanumRun x y a m)) maxLinearSpeed"
proof -
  from mecanumRun_targets [OF assms, of m] obtain A B C where
    "bnd 19 B" "flt_le A (Fin 1000)" "flt_le B (Fin 1000)" "flt_le C (Fin 1000)"
    "mecanumRun x y a m = m\<lparr>MA_target_speed := A, MB_target_speed := fl_neg B, MC_target_speed := C\<rparr>" by metis
  then show ?thesis by (auto simp: car_consts bnd_iff)
qed

theorem mecanum_upper_limit_witness:
  "flt_le (MA_target_speed (mecanumRun (Fin 3000) (Fin 400) (Fin 20) motor_zero)) maxLinearSpeed \<and>
   flt_le (fl_neg maxLinearSpeed) (MB_target_speed (mecanumRun (Fin 3000) (Fin 400) (Fin 20) motor_zero)) \<and>
   flt_le (MC_target_speed (mecanumRun (Fin 3000) (Fin 400) (Fin 20) motor_zero)) maxLinearSpeed"
  by (rule mecanum_upper_limit) (simp_all add: pow2_def)

text \<open>There is no lower limit: driving sideways with speed -v, for any whole v from 1 to
  2000, sets wheel C to -v, beyond -maxLinearSpeed for v over 1000, because only the greatest
  signed wheel speed is compared; driving with +v above 1000 is scaled to 1000.\<close>

theorem mecanum_no_lower_limit:
  assumes "1 \<le> v" and "v \<le> 2000"
  shows "MC_target_speed (mecanumRun (Fin (- of_int v)) (Fin 0) (Fin 0) m) = Fin (- of_int v)"
proof -
  have h: "rnd32 (of_int v / 2) = of_int v / 2"
    unfolding rnd32_def
    by (rule rnd_multiple_less [where m = v and e = "- 1"]) (use assms in \<open>simp_all add: pow2_def\<close>)
  have v: "(1 :: rat) \<le> of_int v" "(of_int v :: rat) \<le> 2000"
    using assms of_int_le_iff [of v 2000, where 'a = rat] by simp_all
  have f: "f32 (of_int v / 2) = Fin (of_int v / 2)" using v h f32_small [of "of_int v / 2"] by simp
  have r: "f32 (- of_int v) = Fin (- of_int v)" using f32_of_int [of "- v"] assms by simp
  have w: "wheel_speeds (Fin (- of_int v)) (Fin 0) (Fin 0) =
      (Fin (of_int v / 2), Fin (of_int v / 2), Fin (- of_int v))"
    using f r f32_small [of 0]
    by (simp add: wheel_speeds_def car_consts fadd_def fsub_def fl_sub_def fmul_def fdiv_def)
  have "max (of_int v / 2) (max (of_int v / 2) (- of_int v)) \<le> (1000 :: rat)" using v by simp
  then have "wheel_scale (Fin (of_int v / 2), Fin (of_int v / 2), Fin (- of_int v)) =
      (Fin (of_int v / 2), Fin (of_int v / 2), Fin (- of_int v))"
    by (simp only: wheel_scale_def wheel_max_Fin car_consts Let_def prod.case flt_less.simps) auto
  then show ?thesis by (simp add: mecanumRun_def w Motor_Set_Speed_def)
qed

theorem mecanum_no_lower_limit_witness:
  "MC_target_speed (mecanumRun (Fin (- of_int 2000)) (Fin 0) (Fin 0) motor_zero) = Fin (- of_int 2000)"
  by (rule mecanum_no_lower_limit) simp_all

text \<open>Turning on the spot: with no translation and a whole turn rate up to the wheel limit,
  the three motors get exactly that rate, wheel B with the opposite sign, for both directions.\<close>

theorem mecanum_rotation:
  assumes "\<bar>w\<bar> \<le> 1000"
  shows "mecanumRun (Fin 0) (Fin 0) (Fin (of_int w)) m =
    m\<lparr>MA_target_speed := Fin (of_int w), MB_target_speed := Fin (- of_int w), MC_target_speed := Fin (of_int w)\<rparr>"
proof -
  have r: "f32 (of_int w) = Fin (of_int w)" using assms by (intro f32_of_int) simp
  have s: "wheel_speeds (Fin 0) (Fin 0) (Fin (of_int w)) = (Fin (of_int w), Fin (of_int w), Fin (of_int w))"
    using r by (simp add: wheel_speeds_def car_consts fadd_def fsub_def fl_sub_def fmul_def fdiv_def f32_small)
  have "(of_int w :: rat) \<le> of_int 1000" using assms by (simp only: of_int_le_iff)
  then have "wheel_scale (Fin (of_int w), Fin (of_int w), Fin (of_int w)) =
      (Fin (of_int w), Fin (of_int w), Fin (of_int w))"
    by (simp add: wheel_scale_def wheel_max_Fin car_consts Let_def)
  then show ?thesis by (simp add: mecanumRun_def s Motor_Set_Speed_def)
qed

theorem mecanum_rotation_witness:
  "mecanumRun (Fin 0) (Fin 0) (Fin (of_int (- 90))) motor_zero =
    motor_zero\<lparr>MA_target_speed := Fin (of_int (- 90)), MB_target_speed := Fin (- of_int (- 90)), MC_target_speed := Fin (of_int (- 90))\<rparr>"
  by (rule mecanum_rotation) simp

section \<open>The motion loop\<close>

definition car_wf :: "car \<Rightarrow> bool" where
  "car_wf c \<longleftrightarrow> motor_wf (mot c) \<and> bnd 15 (Vx (Car_Speed c)) \<and> bnd 15 (Vy (Car_Speed c)) \<and>
     bnd 15 (Omega (Car_Speed c)) \<and> pid_wf (Car_Yaw_Controller c) \<and>
     Output_Max (Car_Yaw_Controller c) = Fin 300 \<and> Output_Min (Car_Yaw_Controller c) = Fin (- 300)"

definition yaw_ok :: "car \<Rightarrow> bool" where
  "yaw_ok c \<longleftrightarrow> (Car_Speed_ConRight c = Con_By_AngleLoop \<longrightarrow> bnd 20 (yaw (Att (att c))))"

lemma car_motion_run_ok:
  assumes wf: "car_wf c" and y: "yaw_ok c" and q: "counters_ok q"
  shows "\<exists>es c'. car_motion_run q c = Some (es, c') \<and> list_all io_ok es \<and> car_wf c'"
proof -
  define d where "d = (if Car_Speed_ConRight c = Con_By_AngleLoop
     then c\<lparr>Car_Yaw_Controller := snd (Pos_PID_Controller (Car_Yaw_Controller c) (yaw (Att (att c)))),
            Car_Speed := (Car_Speed c)\<lparr>Omega := fst (Pos_PID_Controller (Car_Yaw_Controller c) (yaw (Att (att c))))\<rparr>\<rparr>
     else c)"
  have "car_wf d"
  proof (cases "Car_Speed_ConRight c = Con_By_AngleLoop")
    case True
    then have b: "bnd 20 (yaw (Att (att c)))" and p: "pid_wf (Car_Yaw_Controller c)"
      using y wf by (simp_all add: yaw_ok_def car_wf_def)
    have "in_range (- 300) 300 (fst (Pos_PID_Controller (Car_Yaw_Controller c) (yaw (Att (att c)))))"
      using pid.ctl_range [OF p b] wf by (simp add: in_range_def car_wf_def)
    then have "bnd 15 (fst (Pos_PID_Controller (Car_Yaw_Controller c) (yaw (Att (att c)))))"
      by (auto simp: in_range_iff pow2_15 abs_le_iff)
    with True wf pid.ctl_wf [OF p b] show ?thesis by (simp add: d_def car_wf_def)
  qed (use wf in \<open>simp add: d_def\<close>)
  then have dv: "bnd 15 (Vx (Car_Speed d))" "bnd 15 (Vy (Car_Speed d))" "bnd 15 (Omega (Car_Speed d))"
    and dm: "motor_wf (mot d)" by (simp_all add: car_wf_def)
  from mecanumRun_targets [OF dv, of "mot d"] obtain A B C where t: "bnd 19 A" "bnd 19 B" "bnd 19 C"
    "mecanumRun (Vx (Car_Speed d)) (Vy (Car_Speed d)) (Omega (Car_Speed d)) (mot d) =
      (mot d)\<lparr>MA_target_speed := A, MB_target_speed := fl_neg B, MC_target_speed := C\<rparr>" by metis
  with dm have "motor_wf (mecanumRun (Vx (Car_Speed d)) (Vy (Car_Speed d)) (Omega (Car_Speed d)) (mot d))"
    by (simp add: motor_wf_def bnd_neg)
  from motor_run_ok [OF this q] obtain es m where
    m: "motor_run q (mecanumRun (Vx (Car_Speed d)) (Vy (Car_Speed d)) (Omega (Car_Speed d)) (mot d)) = Some (es, m)"
    "list_all io_ok es" "motor_wf m" by auto
  have e: "car_motion_run q c = do { let d = d\<lparr>mot := mecanumRun (Vx (Car_Speed d)) (Vy (Car_Speed d)) (Omega (Car_Speed d)) (mot d)\<rparr>;
      (es, m) \<leftarrow> motor_run q (mot d); Some (es, d\<lparr>mot := m\<rparr>) }"
    by (simp add: car_motion_run_def d_def split_beta)
  have "car_wf (d\<lparr>mot := m\<rparr>)" using \<open>car_wf d\<close> m(3) by (simp add: car_wf_def)
  with e m show ?thesis by (simp add: car_wf_def)
qed

text \<open>The control loop never fails: in every well-formed state (speeds up to 2 ^ 15, yaw
  within 2 ^ 20 while the angle loop is in charge) and for all 16 bit counter readings,
  car_motion_run is defined, drives every PWM with an accepted duty, and
  ends in a well-formed state.\<close>

theorem car_loop_safe:
  assumes "car_wf c" and "yaw_ok c" and "counters_ok q"
  shows "\<exists>es c'. car_motion_run q c = Some (es, c') \<and> list_all io_ok es \<and> car_wf c'"
  using assms by (rule car_motion_run_ok)

lemma car_init_state:
  assumes "encoders_ok (enc (mot c))"
  shows "\<exists>es c'. car_motion_Init samples c = Some (es, c') \<and> car_wf c' \<and> Car_BootSwitch c' = 0 \<and>
    Car_Speed_ConRight c' = Con_By_TraceLine \<and> duties MOTORA_PWM es = [0, 0, 0]"
proof -
  have m: "motor_wf (snd (Motor_init (mot c)))" by (rule Motor_init_wf [OF assms])
  have k: "d2f (dlit 5) = Fin 5" by code_simp
  have e: "duties MOTORA_PWM (fst (Motor_init (mot c))) = [0, 0]" by (simp add: Motor_init_def Let_def)
  show ?thesis
    using m e
    by (simp add: car_motion_Init_def Car_Stop_def pwm_set_duty_def PWM_DUTY_MAX_def car_wf_def Let_def split_beta
        k Pos_PID_Init_def pid_wf_def i2f_exact f32_small pow2_def)
qed

theorem car_loop_safe_witness:
  "\<exists>es c'. car_motion_run (5, - 5, 7) (snd (the (car_motion_Init (\<lambda>k. imu_zero) car_zero))) = Some (es, c') \<and>
     list_all io_ok es \<and> car_wf c'"
proof -
  obtain es c where c: "car_motion_Init (\<lambda>k. imu_zero) car_zero = Some (es, c)" "car_wf c"
    "Car_Speed_ConRight c = Con_By_TraceLine"
    using car_init_state [of car_zero "\<lambda>k. imu_zero"]
    by (auto simp: car_zero_def motor_zero_def encoders_init_ok)
  then show ?thesis
    using car_loop_safe [of c "(5, - 5, 7)"] by (simp add: yaw_ok_def counters_ok_def)
qed

section \<open>The stop switch\<close>

text \<open>What the threads can do to a car: a pass of the motion thread, or a new command.\<close>

datatype car_op = OpPass imu_raw int counters | OpSpeed flt flt flt | OpRotate flt | OpYaw flt

fun car_op_step :: "car_op \<Rightarrow> car \<Rightarrow> (io list \<times> car) option" where
  "car_op_step (OpPass r t q) c = car_motion_pass r t q c"
| "car_op_step (OpSpeed x y a) c = Some ([], Car_Change_Speed x y a c)"
| "car_op_step (OpRotate g) c = Some ([], Car_Rotate g c)"
| "car_op_step (OpYaw g) c = Some ([], Car_Change_Yaw g c)"

fun car_ops :: "car_op list \<Rightarrow> car \<Rightarrow> (io list \<times> car) option" where
  "car_ops [] c = Some ([], c)"
| "car_ops (x # xs) c =
     do { (e1, c) \<leftarrow> car_op_step x c; (e2, c) \<leftarrow> car_ops xs c; Some (e1 @ e2, c) }"

lemma car_op_step_off:
  assumes "Car_BootSwitch c = 0" and "car_op_step x c = Some (es, c')"
  shows "Car_BootSwitch c' = 0 \<and> duties p es = [] \<and> Car_Speed c' = Car_Speed c \<and> mot c' = mot c"
  using assms
  by (cases x) (auto simp: car_motion_pass_def Car_Change_Speed_def Car_Rotate_def Car_Change_Yaw_def
      Let_def split: Option.bind_splits)

lemma car_ops_off:
  "Car_BootSwitch c = 0 \<Longrightarrow> car_ops xs c = Some (es, c') \<Longrightarrow>
     Car_BootSwitch c' = 0 \<and> duties p es = [] \<and> Car_Speed c' = Car_Speed c \<and> mot c' = mot c"
proof (induction xs arbitrary: c es)
  case Nil
  then show ?case by simp
next
  case (Cons x xs)
  from Cons.prems(2) obtain e1 c1 e2 where st: "car_op_step x c = Some (e1, c1)"
    "car_ops xs c1 = Some (e2, c')" "es = e1 @ e2"
    by (auto split: Option.bind_splits)
  from car_op_step_off [OF Cons.prems(1) st(1), of p] Cons.IH [OF _ st(2)] st(3) show ?case by simp
qed

text \<open>Stop means stop: Car_Stop sets the duty of every motor to zero, and afterwards no sequence
  of motion passes and speed, rotation or yaw commands writes a motor duty or changes
  the commanded speed, until Car_Start.\<close>

theorem stopped_car_stays_stopped:
  assumes "Car_Stop c = Some (es, c1)" and "car_ops xs c1 = Some (es', c2)"
    and "p \<in> {MOTORA_PWM, MOTORB_PWM, MOTORC_PWM}"
  shows "duties p (es @ es') = [0] \<and> Car_BootSwitch c2 = 0 \<and> Car_Speed c2 = Car_Speed c"
proof -
  from assms(1) have "Car_BootSwitch c1 = 0" "Car_Speed c1 = Car_Speed c" "duties p es = [0]"
    using assms(3) by (auto simp: Car_Stop_def pwm_set_duty_def PWM_DUTY_MAX_def)
  with car_ops_off [OF _ assms(2), of p] show ?thesis by simp
qed

theorem stopped_car_stays_stopped_witness:
  "duties MOTORB_PWM ([Duty MOTORA_PWM 0, Duty MOTORB_PWM 0, Duty MOTORC_PWM 0] @ []) = [0] \<and>
   Car_BootSwitch (Car_Rotate (Fin 90) (car_zero\<lparr>Car_BootSwitch := 0\<rparr>)) = 0 \<and>
   Car_Speed (Car_Rotate (Fin 90) (car_zero\<lparr>Car_BootSwitch := 0\<rparr>)) = Car_Speed car_zero"
proof (rule stopped_car_stays_stopped)
  show "Car_Stop car_zero = Some ([Duty MOTORA_PWM 0, Duty MOTORB_PWM 0, Duty MOTORC_PWM 0], car_zero\<lparr>Car_BootSwitch := 0\<rparr>)"
    by (simp add: Car_Stop_def pwm_set_duty_def PWM_DUTY_MAX_def)
  show "car_ops [OpSpeed (Fin 1) (Fin 2) (Fin 3), OpRotate (Fin 90)] (car_zero\<lparr>Car_BootSwitch := 0\<rparr>) =
      Some ([], Car_Rotate (Fin 90) (car_zero\<lparr>Car_BootSwitch := 0\<rparr>))"
    by (simp add: Car_Change_Speed_def)
qed simp

section \<open>Timed moves\<close>

text \<open>A timed move ends at rest: with the switch on, whatever the other threads do during the
  wait (as long as they leave the switch on), the move ends with both
  translation speeds zero, after waiting its duration plus five milliseconds.\<close>

theorem distance_motion_ends_at_rest:
  assumes "Car_DistanceMotion between dx dy d c = Some (es, c')"
    and "\<forall>c. Car_BootSwitch (between c) \<noteq> 0"
  shows "Vx (Car_Speed c') = Fin 0 \<and> Vy (Car_Speed c') = Fin 0 \<and>
    (\<exists>t. f2s32 (fmul d (i2f 1000)) = Some t \<and> waited es = t + 5)"
  using assms
  by (auto simp: Car_DistanceMotion_def Car_DistanceMotion_start_def Car_DistanceMotion_end_def Let_def
      Car_Change_Speed_def i2f_exact split: Option.bind_splits)

theorem distance_motion_ends_at_rest_witness:
  "Vx (Car_Speed (snd (the (Car_DistanceMotion (\<lambda>c. c\<lparr>Car_BootSwitch := 1\<rparr>) (Fin 0) (Fin 50) (Fin (1 / 2)) car_zero)))) = Fin 0"
proof -
  have t: "f2s32 (fmul (Fin (1 / 2)) (i2f 1000)) = Some 500" by code_simp
  then have "\<exists>es c'. Car_DistanceMotion (\<lambda>c. c\<lparr>Car_BootSwitch := 1\<rparr>) (Fin 0) (Fin 50) (Fin (1 / 2)) car_zero = Some (es, c')"
    by (simp add: Car_DistanceMotion_def Car_DistanceMotion_start_def split_beta)
  then obtain es c' where r: "Car_DistanceMotion (\<lambda>c. c\<lparr>Car_BootSwitch := 1\<rparr>) (Fin 0) (Fin 50) (Fin (1 / 2)) car_zero = Some (es, c')"
    by blast
  from distance_motion_ends_at_rest [OF r] show ?thesis by (simp add: r)
qed

end
