(* ===== verification/Session.thy ===== *)
theory Session
  imports Car Pwm
begin

text \<open>
  The motion part on the PWM driver, over a whole drive: what \<open>car.c\<close>, \<open>motor.c\<close>, \<open>Attitude_algorithm.c\<close> and
  \<open>zf_driver_pwm.c\<close> do together from the initialisation on.
\<close>

section \<open>A drive\<close>

text \<open>
  The steps of a drive while the line is in charge of the turn rate: passes of the motion thread, speed and yaw commands, start and stop.
\<close>

datatype drive_op = Op car_op | Start | Stop

fun drive_step :: "drive_op \<Rightarrow> car \<Rightarrow> (io list \<times> car) option" where
  "drive_step (Op x) c = car_op_step x c"
| "drive_step Start c = Some ([], Car_Start c)"
| "drive_step Stop c = Car_Stop c"

fun drive_run :: "drive_op list \<Rightarrow> car \<Rightarrow> (io list \<times> car) option" where
  "drive_run [] c = Some ([], c)"
| "drive_run (x # xs) c = do { (e1, c) \<leftarrow> drive_step x c; (e2, c) \<leftarrow> drive_run xs c; Some (e1 @ e2, c) }"

text \<open>Ticks that do not run backwards, 16-bit counters, speeds up to \<open>2 ^ 15\<close> and yaw references up to \<open>2 ^ 20\<close>.\<close>

fun drive_ok :: "int \<Rightarrow> drive_op list \<Rightarrow> bool" where
  "drive_ok t0 [] = True"
| "drive_ok t0 (Op (OpPass r t q) # xs) \<longleftrightarrow> t0 \<le> t \<and> t < 2147483648 \<and> counters_ok q \<and> drive_ok t xs"
| "drive_ok t0 (Op (OpSpeed x y a) # xs) \<longleftrightarrow> bnd 15 x \<and> bnd 15 y \<and> bnd 15 a \<and> drive_ok t0 xs"
| "drive_ok t0 (Op (OpYaw g) # xs) \<longleftrightarrow> bnd 20 g \<and> drive_ok t0 xs"
| "drive_ok t0 (Op (OpRotate g) # xs) = False"
| "drive_ok t0 (Start # xs) = drive_ok t0 xs"
| "drive_ok t0 (Stop # xs) = drive_ok t0 xs"

text \<open>A car between two steps of a drive.\<close>

definition driving :: "int \<Rightarrow> car \<Rightarrow> bool" where
  "driving t c \<longleftrightarrow> car_wf c \<and> Car_Speed_ConRight c = Con_By_TraceLine \<and> previous_t (att c) = t \<and> 0 \<le> t"

lemma pass_ok:
  assumes "driving t0 c" and "t0 \<le> t" and "t < 2147483648" and "counters_ok q"
  shows "\<exists>es c'. car_motion_pass r t q c = Some (es, c') \<and> list_all io_ok es \<and> driving t c'"
proof -
  from assms(1) have d: "car_wf c" "Car_Speed_ConRight c = Con_By_TraceLine" "previous_t (att c) = t0" "0 \<le> t0"
    by (simp_all add: driving_def)
  obtain y a where a: "Att_GetYaw r t (att c) = Some (y, a)" "previous_t a = t"
    using GetYaw_defined [OF d(3,4) assms(2,3)] by blast
  let ?c = "c\<lparr>att := a\<rparr>"
  have wf: "car_wf ?c" "yaw_ok ?c" using d(1,2) by (simp_all add: car_wf_def yaw_ok_def)
  obtain es c' where r: "car_motion_run q ?c = Some (es, c')" "list_all io_ok es" "car_wf c'"
    using car_motion_run_ok [OF wf assms(4)] by blast
  have "Car_Speed_ConRight c' = Con_By_TraceLine" "att c' = a"
    using r(1) d(2) by (auto simp: car_motion_run_def Let_def split: Option.bind_splits)
  then show ?thesis
    using a r wf d assms(2) by (auto simp: car_motion_pass_def driving_def Let_def)
qed

lemma op_ok:
  assumes "driving t0 c" and "drive_ok t0 (x # xs)"
  shows "\<exists>es c' t. drive_step x c = Some (es, c') \<and> list_all io_ok es \<and> driving t c' \<and> drive_ok t xs"
proof (cases x)
  case (Op y)
  show ?thesis
  proof (cases y)
    case (OpPass r t q)
    then have "t0 \<le> t" "t < 2147483648" "counters_ok q" "drive_ok t xs" using assms(2) by (simp_all add: Op)
    with pass_ok [OF assms(1), of t q r] show ?thesis by (auto simp: Op OpPass)
  qed (use assms in \<open>auto simp: Op driving_def car_wf_def Car_Change_Speed_def Car_Change_Yaw_def pid_wf_def Let_def\<close>)
qed (use assms in \<open>auto simp: driving_def car_wf_def Car_Start_def Car_Stop_def pwm_set_duty_def PWM_DUTY_MAX_def\<close>)

lemma run_ok: "driving t0 c \<Longrightarrow> drive_ok t0 xs \<Longrightarrow> \<exists>es c' t. drive_run xs c = Some (es, c') \<and> list_all io_ok es \<and> driving t c'"
proof (induction xs arbitrary: t0 c)
  case (Cons x xs)
  from op_ok [OF Cons.prems] obtain e1 c1 t1 where s: "drive_step x c = Some (e1, c1)" "list_all io_ok e1" "driving t1 c1" "drive_ok t1 xs"
    by blast
  from Cons.IH [OF s(3,4)] obtain e2 c2 t where "drive_run xs c1 = Some (e2, c2)" "list_all io_ok e2" "driving t c2" by blast
  with s show ?case by auto
qed auto

lemma drive_init_ok:
  assumes "encoders_ok (enc (mot c))" and "0 \<le> previous_t (att c)"
  shows "\<exists>es c'. car_motion_Init samples c = Some (es, c') \<and> list_all io_ok es \<and> driving (previous_t (att c)) c'"
proof -
  obtain es c' where i: "car_motion_Init samples c = Some (es, c')" "car_wf c'" "Car_Speed_ConRight c' = Con_By_TraceLine"
    using car_init_state [OF assms(1), of samples] by blast
  moreover have "list_all io_ok es \<and> previous_t (att c') = previous_t (att c)"
    using i(1) sum_previous_t
    by (auto simp: car_motion_Init_def Motor_init_def Car_Stop_def pwm_set_duty_def PWM_DUTY_MAX_def Att_Algo_Init_def Let_def)
  ultimately show ?thesis using assms(2) by (simp add: driving_def)
qed

section \<open>After a stop\<close>

lemma step_off:
  assumes "Car_BootSwitch c = 0" and "x \<noteq> Start" and "drive_step x c = Some (es, c')" and "p \<in> {MOTORA_PWM, MOTORB_PWM, MOTORC_PWM}"
  shows "Car_BootSwitch c' = 0 \<and> set (duties p es) \<subseteq> {0}"
  using assms car_op_step_off [OF assms(1)]
  by (cases x) (auto simp: Car_Stop_def pwm_set_duty_def PWM_DUTY_MAX_def)

lemma run_off:
  "Car_BootSwitch c = 0 \<Longrightarrow> Start \<notin> set xs \<Longrightarrow> drive_run xs c = Some (es, c') \<Longrightarrow> p \<in> {MOTORA_PWM, MOTORB_PWM, MOTORC_PWM} \<Longrightarrow>
    set (duties p es) \<subseteq> {0}"
proof (induction xs arbitrary: c es)
  case (Cons x xs)
  from Cons.prems(3) obtain e1 c1 e2 where s: "drive_step x c = Some (e1, c1)" "drive_run xs c1 = Some (e2, c')" "es = e1 @ e2"
    by (auto split: Option.bind_splits)
  have "Car_BootSwitch c1 = 0 \<and> set (duties p e1) \<subseteq> {0}" using step_off [OF Cons.prems(1) _ s(1) Cons.prems(4)] Cons.prems(2) by auto
  with Cons.IH [OF _ _ s(2) Cons.prems(4)] Cons.prems(2) show ?case by (simp add: s(3))
qed simp

lemma run_append:
  "drive_run (xs @ ys) c = do { (e1, c) \<leftarrow> drive_run xs c; (e2, c) \<leftarrow> drive_run ys c; Some (e1 @ e2, c) }"
proof (induction xs arbitrary: c)
  case Nil
  then show ?case by (cases "drive_run ys c") auto
next
  case (Cons x xs)
  then show ?case
    by (cases "drive_step x c"; cases "drive_run xs (snd (the (drive_step x c)))") (auto split: Option.bind_splits)
qed

lemma stop_last:
  assumes "drive_run (ys @ Stop # zs) c = Some (es, c')" and "Start \<notin> set zs" and "p \<in> {MOTORA_PWM, MOTORB_PWM, MOTORC_PWM}"
  shows "duties p es \<noteq> [] \<and> last (duties p es) = 0"
proof -
  from assms(1) obtain e1 c1 e2 c2 e3 where s: "Car_Stop c1 = Some (e2, c2)" "drive_run zs c2 = Some (e3, c')" "es = e1 @ e2 @ e3"
    by (auto simp: run_append split: Option.bind_splits)
  have "Car_BootSwitch c2 = 0" "duties p e2 = [0]"
    using s(1) assms(3) by (auto simp: Car_Stop_def pwm_set_duty_def PWM_DUTY_MAX_def)
  with run_off [OF _ assms(2) s(2) assms(3)] show ?thesis
    by (cases "duties p e3" rule: rev_cases) (auto simp: s(3))
qed

text \<open>
  C2: The motion part drives the board, and stop means stop: after the initialisation of the car (encoder filters in range, last tick not negative) and of the six PWM pins, each with an accepted duty, every sequence of motion passes, speed and yaw
  commands, starts and stops, in any order (ticks forward and below \<open>2 ^ 31\<close>, counts of 16 bits, speeds up to \<open>2 ^ 15\<close>, yaw references up to \<open>2 ^ 20\<close>, the line in
  charge of the turn rate), is defined, every duty is
  accepted, each motor's compare registers hold the pulse of its last duty, and from a stop until the next start they hold pulses of no length.
\<close>

theorem drive_session:
  assumes "encoders_ok (enc (mot c))" and "0 \<le> previous_t (att c)" and "drive_ok (previous_t (att c)) xs"
    and "fst ` set ps = UNIV" and "list_all (\<lambda>(p, d). io_ok (Duty p d)) ps"
  shows "\<exists>e1 c1 e2 c2 b0 b1. car_motion_Init samples c = Some (e1, c1) \<and> drive_run xs c1 = Some (e2, c2) \<and> car_wf c2 \<and>
    board_init ps b = Some b0 \<and> drive (e1 @ e2) b0 = Some b1 \<and>
    (\<forall>p. duties p (e1 @ e2) \<noteq> [] \<longrightarrow> pulse (pwm_channel p) b1 = (high_counts (pin_period p) (last (duties p (e1 @ e2))), pin_period p)) \<and>
    (\<forall>ys zs p. xs = ys @ Stop # zs \<and> Start \<notin> set zs \<and> p \<in> {MOTORA_PWM, MOTORB_PWM, MOTORC_PWM} \<longrightarrow>
      pulse (pwm_channel p) b1 = (0, 7500))"
proof -
  obtain e1 c1 where i: "car_motion_Init samples c = Some (e1, c1)" "list_all io_ok e1" "driving (previous_t (att c)) c1"
    using drive_init_ok [OF assms(1,2)] by blast
  obtain e2 c2 t where r: "drive_run xs c1 = Some (e2, c2)" "list_all io_ok e2" "driving t c2"
    using run_ok [OF i(3) assms(3)] by blast
  obtain b0 where b0: "board_init ps b = Some b0" "board_up b0" using board_up_init [OF assms(4,5)] by blast
  have "list_all io_ok (e1 @ e2)" using i(2) r(2) by simp
  from drive_refines [OF b0(2) this] obtain b1 where b1: "drive (e1 @ e2) b0 = Some b1" "pulses b1 = shown_pulse (e1 @ e2) (pulses b0)"
    by blast
  have shown: "pulse (pwm_channel p) b1 = (high_counts (pin_period p) (last (duties p (e1 @ e2))), pin_period p)"
    if "duties p (e1 @ e2) \<noteq> []" for p
    using fun_cong [OF b1(2), of p] that by (simp add: shown_last del: duties_append)
  have "pulse (pwm_channel p) b1 = (0, 7500)"
    if "xs = ys @ Stop # zs" "Start \<notin> set zs" "p \<in> {MOTORA_PWM, MOTORB_PWM, MOTORC_PWM}" for ys zs p
    using stop_last [OF _ that(2,3)] r(1) shown [of p] that(1,3) by (auto simp: pin_period_def)
  with i(1) r(1,3) b0(1) b1(1) shown show ?thesis by (auto simp: driving_def)
qed

definition before_stop :: "drive_op list" where
  "before_stop = [Start, Op (OpSpeed (Fin 0) (Fin 300) (Fin 0)), Op (OpPass imu_zero 5 (5, - 5, 7))]"

definition after_stop :: "drive_op list" where
  "after_stop = [Op (OpPass imu_zero 6 (0, 0, 0))]"

lemma drive_session_witness:
  "\<exists>e1 c1 e2 c2 b0 b1. car_motion_Init (\<lambda>_. imu_zero) car_zero = Some (e1, c1) \<and> drive_run (before_stop @ Stop # after_stop) c1 = Some (e2, c2) \<and>
     board_init init_duties bank_zero = Some b0 \<and> drive (e1 @ e2) b0 = Some b1 \<and> pulse (pwm_channel MOTORB_PWM) b1 = (0, 7500)"
proof -
  have c: "encoders_ok (enc (mot car_zero))" "previous_t (att car_zero) = 0"
    by (simp_all add: car_zero_def motor_zero_def encoders_init_ok attitude_zero_def)
  have "drive_ok 0 (before_stop @ Stop # after_stop)" by (simp add: before_stop_def after_stop_def counters_ok_def pow2_def)
  then have t: "0 \<le> previous_t (att car_zero)" and d: "drive_ok (previous_t (att car_zero)) (before_stop @ Stop # after_stop)" by (simp_all add: c(2))
  have u: "fst ` set init_duties = UNIV" using pwm_pin.exhaust by (auto simp: init_duties_def)
  have l: "list_all (\<lambda>(p, d). io_ok (Duty p d)) init_duties" by (simp add: init_duties_def)
  obtain e1 c1 e2 c2 b0 b1 where s: "car_motion_Init (\<lambda>_. imu_zero) car_zero = Some (e1, c1)"
    "drive_run (before_stop @ Stop # after_stop) c1 = Some (e2, c2)" "board_init init_duties bank_zero = Some b0" "drive (e1 @ e2) b0 = Some b1"
    "\<forall>ys zs p. before_stop @ Stop # after_stop = ys @ Stop # zs \<and> Start \<notin> set zs \<and> p \<in> {MOTORA_PWM, MOTORB_PWM, MOTORC_PWM} \<longrightarrow>
       pulse (pwm_channel p) b1 = (0, 7500)"
    using drive_session [OF c(1) t d u l, of "\<lambda>_. imu_zero" bank_zero] by blast
  have "pulse (pwm_channel MOTORB_PWM) b1 = (0, 7500)"
    using s(5) [rule_format, of before_stop after_stop MOTORB_PWM] by (simp add: after_stop_def)
  with s(1-4) show ?thesis by blast
qed

end
