(* ===== verification/Imu.thy ===== *)
theory Imu
  imports Attitude
begin

unbundle bit_operations_syntax

text \<open>
  The ICM20602 sensor (\<open>zf_device_icm20602.c\<close>, over the register functions of \<open>zf_driver_spi.c\<close>): self check, set-up,
  and the readings the attitude code takes as \<open>imu_raw\<close>.  The chip is not part of the program: the bytes it sends back are the
  list \<open>answers\<close>, one for every byte the driver reads (\<open>None\<close>: the list is used up, so the function has not come to its end).
  What happens on the bus is kept: the level of the chip select pin, the bytes sent, the number of bytes read, and the waits.
\<close>

section \<open>The bus\<close>

datatype traffic = CS int | Send "int list" | Receive nat | Wait int

datatype acc_range = ICM20602_ACC_SAMPLE_SGN_2G | ICM20602_ACC_SAMPLE_SGN_4G | ICM20602_ACC_SAMPLE_SGN_8G | ICM20602_ACC_SAMPLE_SGN_16G

datatype gyro_range = ICM20602_GYRO_SAMPLE_SGN_250DPS | ICM20602_GYRO_SAMPLE_SGN_500DPS | ICM20602_GYRO_SAMPLE_SGN_1000DPS
  | ICM20602_GYRO_SAMPLE_SGN_2000DPS

record icm =
  answers :: "int list"
  traffic :: "traffic list"
  icm_raw :: imu_raw
  acc_factor :: flt
  gyro_factor :: flt

definition ICM20602_TIMEOUT_COUNT :: nat where "ICM20602_TIMEOUT_COUNT = 255"
definition ICM20602_SPI_W :: int where "ICM20602_SPI_W = 0"
definition ICM20602_SPI_R :: int where "ICM20602_SPI_R = 128"
definition ICM20602_SMPLRT_DIV :: int where "ICM20602_SMPLRT_DIV = 25"
definition ICM20602_CONFIG :: int where "ICM20602_CONFIG = 26"
definition ICM20602_GYRO_CONFIG :: int where "ICM20602_GYRO_CONFIG = 27"
definition ICM20602_ACCEL_CONFIG :: int where "ICM20602_ACCEL_CONFIG = 28"
definition ICM20602_ACCEL_CONFIG_2 :: int where "ICM20602_ACCEL_CONFIG_2 = 29"
definition ICM20602_ACCEL_XOUT_H :: int where "ICM20602_ACCEL_XOUT_H = 59"
definition ICM20602_GYRO_XOUT_H :: int where "ICM20602_GYRO_XOUT_H = 67"
definition ICM20602_PWR_MGMT_1 :: int where "ICM20602_PWR_MGMT_1 = 107"
definition ICM20602_PWR_MGMT_2 :: int where "ICM20602_PWR_MGMT_2 = 108"
definition ICM20602_WHO_AM_I :: int where "ICM20602_WHO_AM_I = 117"

definition log_bus :: "traffic \<Rightarrow> icm \<Rightarrow> icm" where
  "log_bus t s = s\<lparr>traffic := traffic s @ [t]\<rparr>"

definition system_delay_ms :: "int \<Rightarrow> icm \<Rightarrow> icm" where
  "system_delay_ms t = log_bus (Wait t)"

definition ICM20602_CS :: "int \<Rightarrow> icm \<Rightarrow> icm" where
  "ICM20602_CS x = log_bus (CS x)"

text \<open>\<open>spi_write\<close> with bytes to send, or (\<open>txdata\<close> is \<open>NULL\<close>) with a buffer for bytes to read.\<close>

definition spi_write :: "int list option \<Rightarrow> nat \<Rightarrow> icm \<Rightarrow> (int list \<times> icm) option" where
  "spi_write txdata len s =
    (if len = 0 then None
     else (case txdata of
        Some bs \<Rightarrow> Some ([], log_bus (Send bs) s)
      | None \<Rightarrow>
          (if len \<le> length (answers s)
           then Some (map u8 (take len (answers s)), log_bus (Receive len) (s\<lparr>answers := drop len (answers s)\<rparr>)) else None)))"

definition spi_write_8bit_register :: "int \<Rightarrow> int \<Rightarrow> icm \<Rightarrow> icm option" where
  "spi_write_8bit_register reg data s =
    do { (_, s) \<leftarrow> spi_write (Some [reg]) 1 s; (_, s) \<leftarrow> spi_write (Some [data]) 1 s; Some s }"

definition spi_read_8bit_register :: "int \<Rightarrow> icm \<Rightarrow> (int \<times> icm) option" where
  "spi_read_8bit_register reg s =
    do { (_, s) \<leftarrow> spi_write (Some [reg]) 1 s; (data, s) \<leftarrow> spi_write None 1 s; Some (data ! 0, s) }"

definition spi_read_8bit_registers :: "int \<Rightarrow> nat \<Rightarrow> icm \<Rightarrow> (int list \<times> icm) option" where
  "spi_read_8bit_registers reg len s =
    do { (_, s) \<leftarrow> spi_write (Some [reg]) 1 s; spi_write None len s }"

definition icm20602_write_register :: "int \<Rightarrow> int \<Rightarrow> icm \<Rightarrow> icm option" where
  "icm20602_write_register reg data s =
    do { s \<leftarrow> spi_write_8bit_register (reg OR ICM20602_SPI_W) data (ICM20602_CS 0 s); Some (ICM20602_CS 1 s) }"

definition icm20602_read_register :: "int \<Rightarrow> icm \<Rightarrow> (int \<times> icm) option" where
  "icm20602_read_register reg s =
    do { (data, s) \<leftarrow> spi_read_8bit_register (reg OR ICM20602_SPI_R) (ICM20602_CS 0 s); Some (data, ICM20602_CS 1 s) }"

definition icm20602_read_registers :: "int \<Rightarrow> nat \<Rightarrow> icm \<Rightarrow> (int list \<times> icm) option" where
  "icm20602_read_registers reg len s =
    do { (data, s) \<leftarrow> spi_read_8bit_registers (reg OR ICM20602_SPI_R) len (ICM20602_CS 0 s); Some (data, ICM20602_CS 1 s) }"

section \<open>Readings\<close>

text \<open>\<open>(int16)((uint16)hi << 8 | lo)\<close>\<close>

definition be16 :: "int \<Rightarrow> int \<Rightarrow> int" where
  "be16 hi lo = s16 (push_bit 8 (u16 hi) OR lo)"

definition icm20602_get_acc :: "icm \<Rightarrow> icm option" where
  "icm20602_get_acc s =
    do {
      (dat, s) \<leftarrow> icm20602_read_registers ICM20602_ACCEL_XOUT_H 6 s;
      Some (s\<lparr>icm_raw := (icm_raw s)\<lparr>acc_x := be16 (dat ! 0) (dat ! 1), acc_y := be16 (dat ! 2) (dat ! 3), acc_z := be16 (dat ! 4) (dat ! 5)\<rparr>\<rparr>)
    }"

definition icm20602_get_gyro :: "icm \<Rightarrow> icm option" where
  "icm20602_get_gyro s =
    do {
      (dat, s) \<leftarrow> icm20602_read_registers ICM20602_GYRO_XOUT_H 6 s;
      Some (s\<lparr>icm_raw := (icm_raw s)\<lparr>gyro_x := be16 (dat ! 0) (dat ! 1), gyro_y := be16 (dat ! 2) (dat ! 3), gyro_z := be16 (dat ! 4) (dat ! 5)\<rparr>\<rparr>)
    }"

section \<open>Initialisation\<close>

text \<open>The counter of the source is 16 bits wide and stays below 258 in both loops.\<close>

function check_loop :: "int \<Rightarrow> nat \<Rightarrow> icm \<Rightarrow> (int \<times> icm) option" where
  "check_loop dat timeout_count s =
    (if dat = 18 then Some (0, s)
     else if ICM20602_TIMEOUT_COUNT < timeout_count then Some (1, s)
     else do { (dat, s) \<leftarrow> icm20602_read_register ICM20602_WHO_AM_I s; check_loop dat (timeout_count + 1) (system_delay_ms 10 s) })"
  by auto
termination by (relation "measure (\<lambda>(_, n, _). 256 - n)") (auto simp: ICM20602_TIMEOUT_COUNT_def)

definition icm20602_self_check :: "icm \<Rightarrow> (int \<times> icm) option" where
  "icm20602_self_check s = check_loop 0 0 s"

function reset_loop :: "nat \<Rightarrow> icm \<Rightarrow> (int \<times> icm) option" where
  "reset_loop timeout_count s =
    do {
      (val, s) \<leftarrow> icm20602_read_register ICM20602_PWR_MGMT_1 s;
      (if ICM20602_TIMEOUT_COUNT < timeout_count then Some (1, s)
       else if val = 65 then Some (0, s) else reset_loop (timeout_count + 1) s)
    }"
  by auto
termination by (relation "measure (\<lambda>(n, _). 256 - n)") (auto simp: ICM20602_TIMEOUT_COUNT_def)

definition acc_setting :: "acc_range \<Rightarrow> int \<times> flt" where
  "acc_setting r = (case r of ICM20602_ACC_SAMPLE_SGN_2G \<Rightarrow> (0, i2f 16384) | ICM20602_ACC_SAMPLE_SGN_4G \<Rightarrow> (8, i2f 8192)
    | ICM20602_ACC_SAMPLE_SGN_8G \<Rightarrow> (16, i2f 4096) | ICM20602_ACC_SAMPLE_SGN_16G \<Rightarrow> (24, i2f 2048))"

definition gyro_setting :: "gyro_range \<Rightarrow> int \<times> flt" where
  "gyro_setting r = (case r of ICM20602_GYRO_SAMPLE_SGN_250DPS \<Rightarrow> (0, d2f (dlit 131)) | ICM20602_GYRO_SAMPLE_SGN_500DPS \<Rightarrow> (8, d2f (dlit (655 / 10)))
    | ICM20602_GYRO_SAMPLE_SGN_1000DPS \<Rightarrow> (16, d2f (dlit (328 / 10))) | ICM20602_GYRO_SAMPLE_SGN_2000DPS \<Rightarrow> (24, d2f (dlit (164 / 10))))"

definition ICM20602_ACC_SAMPLE_DEFAULT :: acc_range where "ICM20602_ACC_SAMPLE_DEFAULT = ICM20602_ACC_SAMPLE_SGN_8G"
definition ICM20602_GYRO_SAMPLE_DEFAULT :: gyro_range where "ICM20602_GYRO_SAMPLE_DEFAULT = ICM20602_GYRO_SAMPLE_SGN_2000DPS"

text \<open>The registers that are set once the chip has been reset.\<close>

definition icm_setup :: "icm \<Rightarrow> icm option" where
  "icm_setup s =
    do {
      s \<leftarrow> icm20602_write_register ICM20602_PWR_MGMT_1 1 s;
      s \<leftarrow> icm20602_write_register ICM20602_PWR_MGMT_2 0 s;
      s \<leftarrow> icm20602_write_register ICM20602_CONFIG 1 s;
      s \<leftarrow> icm20602_write_register ICM20602_SMPLRT_DIV 7 s;
      s \<leftarrow> icm20602_write_register ICM20602_ACCEL_CONFIG (fst (acc_setting ICM20602_ACC_SAMPLE_DEFAULT)) s;
      let s = s\<lparr>acc_factor := snd (acc_setting ICM20602_ACC_SAMPLE_DEFAULT)\<rparr>;
      s \<leftarrow> icm20602_write_register ICM20602_GYRO_CONFIG (fst (gyro_setting ICM20602_GYRO_SAMPLE_DEFAULT)) s;
      let s = s\<lparr>gyro_factor := snd (gyro_setting ICM20602_GYRO_SAMPLE_DEFAULT)\<rparr>;
      icm20602_write_register ICM20602_ACCEL_CONFIG_2 3 s
    }"

definition icm20602_init :: "icm \<Rightarrow> (int \<times> icm) option" where
  "icm20602_init s =
    do {
      (failed, s) \<leftarrow> icm20602_self_check (system_delay_ms 10 s);
      (if failed \<noteq> 0 then Some (1, s)
       else do {
         s \<leftarrow> icm20602_write_register ICM20602_PWR_MGMT_1 128 s;
         (failed, s) \<leftarrow> reset_loop 0 (system_delay_ms 2 s);
         (if failed = 1 then Some (1, s) else do { s \<leftarrow> icm_setup s; Some (0, s) })
       })
    }"


lemmas icm_consts = ICM20602_SPI_W_def ICM20602_SPI_R_def ICM20602_SMPLRT_DIV_def ICM20602_CONFIG_def ICM20602_GYRO_CONFIG_def
  ICM20602_ACCEL_CONFIG_def ICM20602_ACCEL_CONFIG_2_def ICM20602_ACCEL_XOUT_H_def ICM20602_GYRO_XOUT_H_def ICM20602_PWR_MGMT_1_def
  ICM20602_PWR_MGMT_2_def ICM20602_WHO_AM_I_def

declare check_loop.simps [simp del] reset_loop.simps [simp del]

section \<open>One access\<close>

lemma write_register: "icm20602_write_register reg data s = Some (s\<lparr>traffic := traffic s @ [CS 0, Send [reg], Send [data], CS 1]\<rparr>)"
  by (simp add: icm20602_write_register_def spi_write_8bit_register_def spi_write_def ICM20602_CS_def log_bus_def icm_consts)

lemma read_register:
  "icm20602_read_register reg s = (case answers s of [] \<Rightarrow> None
    | a # as \<Rightarrow> Some (u8 a, s\<lparr>answers := as, traffic := traffic s @ [CS 0, Send [reg OR 128], Receive 1, CS 1]\<rparr>))"
  by (simp add: icm20602_read_register_def spi_read_8bit_register_def spi_write_def ICM20602_CS_def log_bus_def icm_consts split: list.split)

lemma read_registers:
  "0 < n \<Longrightarrow> icm20602_read_registers reg n s = (if n \<le> length (answers s)
    then Some (map u8 (take n (answers s)), s\<lparr>answers := drop n (answers s), traffic := traffic s @ [CS 0, Send [reg OR 128], Receive n, CS 1]\<rparr>)
    else None)"
  by (simp add: icm20602_read_registers_def spi_read_8bit_registers_def spi_write_def ICM20602_CS_def log_bus_def icm_consts)

section \<open>The readings are the numbers the chip sends\<close>

text \<open>A 16-bit number as the chip sends it: high byte first.\<close>

definition be_bytes :: "int \<Rightarrow> int list" where
  "be_bytes x = [u16 x div 256, u16 x mod 256]"

lemma be16_bytes:
  assumes "- 32768 \<le> x" and "x < 32768"
  shows "be16 (u16 x div 256) (u16 x mod 256) = x"
proof -
  define u where "u = u16 x"
  have u: "0 \<le> u" "u < 65536" by (simp_all add: u_def)
  have "u div 256 < 256" "0 \<le> u div 256" using u by auto
  then have "u16 (u div 256) = u div 256" by (intro u16_id) auto
  moreover have "push_bit 8 (u div 256) OR u mod 256 = u"
    using concat_bit_eq [of 8 u "u div 256"] concat_bit_def [of 8 u "u div 256"]
    by (simp add: take_bit_eq_mod push_bit_eq_mult or.commute)
  moreover have "s16 u = x"
    using assms by (simp add: u_def s16_def u16_def mod_simps)
  ultimately show ?thesis by (simp add: be16_def flip: u_def)
qed

lemma be_bytes_u8: "map u8 (be_bytes x) = be_bytes x"
proof -
  have "u16 x div 256 < 256" "0 \<le> u16 x div 256" using u16_range [of x] by linarith+
  then show ?thesis by (simp add: be_bytes_def u8_id)
qed

lemma three_numbers:
  "map u8 (take 6 (be_bytes x @ be_bytes y @ be_bytes z @ rest)) = be_bytes x @ be_bytes y @ be_bytes z"
  "drop 6 (be_bytes x @ be_bytes y @ be_bytes z @ rest) = rest" "6 \<le> length (be_bytes x @ be_bytes y @ be_bytes z @ rest)"
  using be_bytes_u8 [of x] be_bytes_u8 [of y] be_bytes_u8 [of z] by (simp_all add: be_bytes_def)

lemma get_acc_reads:
  assumes "answers s = be_bytes x @ be_bytes y @ be_bytes z @ rest" and "\<forall>n \<in> {x, y, z}. - 32768 \<le> n \<and> n < 32768"
  shows "icm20602_get_acc s = Some (s\<lparr>answers := rest, traffic := traffic s @ [CS 0, Send [187], Receive 6, CS 1],
    icm_raw := (icm_raw s)\<lparr>acc_x := x, acc_y := y, acc_z := z\<rparr>\<rparr>)"
  using assms(2) three_numbers [of x y z rest]
  by (simp add: icm20602_get_acc_def read_registers assms(1) icm_consts) (simp add: be_bytes_def be16_bytes)

lemma get_gyro_reads:
  assumes "answers s = be_bytes x @ be_bytes y @ be_bytes z @ rest" and "\<forall>n \<in> {x, y, z}. - 32768 \<le> n \<and> n < 32768"
  shows "icm20602_get_gyro s = Some (s\<lparr>answers := rest, traffic := traffic s @ [CS 0, Send [195], Receive 6, CS 1],
    icm_raw := (icm_raw s)\<lparr>gyro_x := x, gyro_y := y, gyro_z := z\<rparr>\<rparr>)"
  using assms(2) three_numbers [of x y z rest]
  by (simp add: icm20602_get_gyro_def read_registers assms(1) icm_consts) (simp add: be_bytes_def be16_bytes)

section \<open>Waiting for the chip\<close>

text \<open>The number of answers before the first that is the byte \<open>w\<close>, and a number of rounds of a loop on the bus.\<close>

definition misses :: "int \<Rightarrow> int list \<Rightarrow> nat" where
  "misses w as = length (takeWhile (\<lambda>a. u8 a \<noteq> w) as)"

definition rounds :: "traffic list \<Rightarrow> nat \<Rightarrow> icm \<Rightarrow> icm" where
  "rounds ts n s = s\<lparr>answers := drop n (answers s), traffic := traffic s @ concat (replicate n ts)\<rparr>"

definition id_round :: "traffic list" where "id_round = [CS 0, Send [245], Receive 1, CS 1, Wait 10]"
definition reset_round :: "traffic list" where "reset_round = [CS 0, Send [235], Receive 1, CS 1]"

lemma misses_simps [simp]: "misses w [] = 0" "misses w (a # as) = (if u8 a = w then 0 else Suc (misses w as))"
  by (simp_all add: misses_def)

lemma misses_le: "misses w as \<le> length as"
  by (simp add: misses_def length_takeWhile_le)

lemma rounds_0 [simp]: "rounds ts 0 s = s"
  by (simp add: rounds_def)

lemma rounds_Suc:
  "answers s = a # as \<Longrightarrow> rounds ts n (s\<lparr>answers := as, traffic := traffic s @ ts\<rparr>) = rounds ts (Suc n) s"
  by (simp add: rounds_def)

lemma id_read: "answers s = a # as \<Longrightarrow>
  Option.bind (icm20602_read_register ICM20602_WHO_AM_I s) (\<lambda>(d, s). f d (system_delay_ms 10 s)) =
  f (u8 a) (s\<lparr>answers := as, traffic := traffic s @ id_round\<rparr>)"
  by (simp add: read_register icm_consts system_delay_ms_def log_bus_def id_round_def)

lemma check_loop_value:
  "n \<le> 256 \<Longrightarrow> dat \<noteq> 18 \<Longrightarrow> check_loop dat n s =
    (let k = misses 18 (answers s)
     in if 256 - n \<le> k then Some (1, rounds id_round (256 - n) s)
        else if k < length (answers s) then Some (0, rounds id_round (Suc k) s) else None)"
proof (induction "256 - n" arbitrary: n dat s)
  case 0
  then have "n = 256" by simp
  then show ?case using 0 check_loop.simps [of dat 256 s] by (simp add: ICM20602_TIMEOUT_COUNT_def)
next
  case (Suc m)
  have n: "256 - n = Suc m" "m = 256 - (n + 1)" "n + 1 \<le> 256" and lt: "\<not> 255 < n" using Suc.hyps(2) Suc.prems(1) by auto
  show ?case
  proof (cases "answers s")
    case Nil
    then show ?thesis using Suc.prems n by (simp add: check_loop.simps [of dat n] ICM20602_TIMEOUT_COUNT_def read_register)
  next
    case (Cons a as)
    let ?s = "s\<lparr>answers := as, traffic := traffic s @ id_round\<rparr>"
    have "check_loop dat n s = check_loop (u8 a) (n + 1) ?s"
      using Suc.prems lt id_read [OF Cons, of "\<lambda>d. check_loop d (n + 1)"]
      by (subst check_loop.simps) (simp add: ICM20602_TIMEOUT_COUNT_def)
    also have "... = (if u8 a = 18 then Some (0, ?s) else
        (let k = misses 18 as in if m \<le> k then Some (1, rounds id_round m ?s)
         else if k < length as then Some (0, rounds id_round (Suc k) ?s) else None))"
      using Suc.hyps(1) [OF n(2,3), of "u8 a" ?s] n(2) by (simp add: check_loop.simps [of 18] Let_def)
    finally show ?thesis
      using rounds_Suc [OF Cons, of id_round] rounds_Suc [OF Cons, of id_round 0] n(1) by (auto simp: Cons Let_def)
  qed
qed

lemma self_check_value:
  "icm20602_self_check s =
    (let k = misses 18 (answers s)
     in if 256 \<le> k then Some (1, rounds id_round 256 s)
        else if k < length (answers s) then Some (0, rounds id_round (Suc k) s) else None)"
  by (simp add: icm20602_self_check_def check_loop_value Let_def)

lemma reset_loop_value:
  "n \<le> 256 \<Longrightarrow> reset_loop n s =
    (let k = misses 65 (answers s)
     in if k < 256 - n \<and> k < length (answers s) then Some (0, rounds reset_round (Suc k) s)
        else if 256 - n < length (answers s) then Some (1, rounds reset_round (257 - n) s) else None)"
proof (induction "256 - n" arbitrary: n s)
  case 0
  then have "n = 256" by simp
  then show ?case
    using reset_loop.simps [of 256 s] by (cases "answers s") (auto simp: read_register icm_consts ICM20602_TIMEOUT_COUNT_def Let_def rounds_def reset_round_def)
next
  case (Suc m)
  have n: "256 - n = Suc m" "m = 256 - (n + 1)" "n + 1 \<le> 256" "257 - n = Suc (257 - (n + 1))" and lt: "\<not> 255 < n" using Suc.hyps(2) Suc.prems(1) by auto
  show ?case
  proof (cases "answers s")
    case Nil
    then show ?thesis by (simp add: reset_loop.simps [of n] read_register)
  next
    case (Cons a as)
    let ?s = "s\<lparr>answers := as, traffic := traffic s @ reset_round\<rparr>"
    have "reset_loop n s = (if u8 a = 65 then Some (0, ?s) else reset_loop (n + 1) ?s)"
      using lt by (subst reset_loop.simps) (simp add: Cons read_register icm_consts ICM20602_TIMEOUT_COUNT_def reset_round_def)
    also have "... = (if u8 a = 65 then Some (0, ?s) else
        (let k = misses 65 as in if k < m \<and> k < length as then Some (0, rounds reset_round (Suc k) ?s)
         else if m < length as then Some (1, rounds reset_round (257 - (n + 1)) ?s) else None))"
      using Suc.hyps(1) [OF n(2,3), of ?s] n(2) by (simp add: Let_def)
    finally show ?thesis
      using rounds_Suc [OF Cons, of reset_round] rounds_Suc [OF Cons, of reset_round 0] n(1) n(4) by (auto simp: Cons Let_def)
  qed
qed

section \<open>The set-up\<close>

text \<open>The registers that are written, in order.\<close>

fun writes :: "traffic list \<Rightarrow> (int \<times> int) list" where
  "writes [] = []"
| "writes (Send [reg] # Send [data] # ts) = (reg, data) # writes ts"
| "writes (_ # ts) = writes ts"

lemma writes_rounds [simp]:
  "writes (concat (replicate n id_round) @ ts) = writes ts" "writes (concat (replicate n reset_round) @ ts) = writes ts"
  "writes (concat (replicate n id_round)) = []" "writes (concat (replicate n reset_round)) = []"
  "writes (id_round @ ts) = writes ts" "writes (reset_round @ ts) = writes ts" "writes id_round = []" "writes reset_round = []"
  by (induction n) (simp_all add: id_round_def reset_round_def)

definition icm_set_up :: "icm \<Rightarrow> bool" where
  "icm_set_up s \<longleftrightarrow> acc_factor s = i2f 4096 \<and> gyro_factor s = d2f (dlit (164 / 10))"

definition setup_writes :: "(int \<times> int) list" where
  "setup_writes = [(107, 1), (108, 0), (26, 1), (25, 7), (28, 16), (27, 24), (29, 3)]"

lemma setup_value:
  "icm_setup s = Some (s\<lparr>traffic := traffic s @ concat (map (\<lambda>(r, v). [CS 0, Send [r], Send [v], CS 1]) setup_writes),
    acc_factor := i2f 4096, gyro_factor := d2f (dlit (164 / 10))\<rparr>)"
  by (simp add: icm_setup_def write_register setup_writes_def icm_consts acc_setting_def gyro_setting_def
      ICM20602_ACC_SAMPLE_DEFAULT_def ICM20602_GYRO_SAMPLE_DEFAULT_def)

lemma setup_writes_written [simp]:
  "writes (concat (map (\<lambda>(r, v). [CS 0, Send [r], Send [v], CS 1]) setup_writes)) = setup_writes"
  by (simp add: setup_writes_def)

text \<open>
  C26: The set-up of the inertial sensor always ends, and tells whether it has worked: however the chip answers, \<open>icm20602_init\<close> returns after at most 513
  readings; it returns 0 exactly when the chip names itself within 256 tries and reports the reset within 256
  more, and then the registers have been written in the order given, with the ranges 8 g and 2000 degrees per second that the factors
  \<open>4096\<close> and \<open>16.4\<close> belong to; otherwise it returns 1 and the chip has not been configured.
\<close>

theorem icm20602_init_outcome:
  assumes "513 \<le> length (answers s)" and "traffic s = []"
  shows "\<exists>r s'. icm20602_init s = Some (r, s') \<and> length (answers s) \<le> length (answers s') + 513 \<and>
    (let k = misses 18 (answers s); ok = k < 256 \<and> misses 65 (drop (Suc k) (answers s)) < 256
     in if ok then r = 0 \<and> writes (traffic s') = (107, 128) # setup_writes \<and> icm_set_up s'
        else r = 1 \<and> (writes (traffic s') = [] \<or> writes (traffic s') = [(107, 128)]))"
proof -
  define k where "k = misses 18 (answers s)"
  define as where "as = drop (Suc k) (answers s)"
  define m where "m = misses 65 as"
  show ?thesis
  proof (cases "k < 256")
    case False
    then have "icm20602_init s = Some (1, rounds id_round 256 (system_delay_ms 10 s))"
      by (simp add: icm20602_init_def self_check_value system_delay_ms_def log_bus_def k_def)
    then show ?thesis using False assms by (simp add: k_def rounds_def system_delay_ms_def log_bus_def)
  next
    case True
    define s1 where "s1 = rounds id_round (Suc k) (system_delay_ms 10 s)"
    define s2 where "s2 = system_delay_ms 2 (s1\<lparr>traffic := traffic s1 @ [CS 0, Send [107], Send [128], CS 1]\<rparr>)"
    have s2: "answers s2 = as" "writes (traffic s2 @ ts) = (107, 128) # writes ts" for ts
      by (simp_all add: s2_def s1_def rounds_def system_delay_ms_def log_bus_def as_def assms(2))
    have i: "icm20602_init s = do { (failed, s) \<leftarrow> reset_loop 0 s2;
        (if failed = 1 then Some (1, s) else do { s \<leftarrow> icm_setup s; Some (0, s) }) }"
      using True assms(1) by (simp add: icm20602_init_def self_check_value system_delay_ms_def log_bus_def write_register icm_consts
          s1_def s2_def flip: k_def)
    have l: "256 < length as" using True assms(1) by (simp add: as_def)
    have sz: "length (answers s) = Suc k + length as" using True assms(1) by (simp add: as_def)
    show ?thesis
    proof (cases "m < 256")
      case False
      then have "icm20602_init s = Some (1, rounds reset_round 257 s2)"
        using l by (simp add: i reset_loop_value s2(1) m_def Let_def)
      then show ?thesis using False True s2(1) s2(2) [of "concat (replicate 257 reset_round)"] sz l
        by (simp add: rounds_def k_def [symmetric] as_def [symmetric] m_def [symmetric])
    next
      case m: True
      then have "icm20602_init s = Some (0, (rounds reset_round (Suc m) s2)\<lparr>traffic := traffic (rounds reset_round (Suc m) s2) @
          concat (map (\<lambda>(r, v). [CS 0, Send [r], Send [v], CS 1]) setup_writes), acc_factor := i2f 4096, gyro_factor := d2f (dlit (164 / 10))\<rparr>)"
        using l by (simp add: i reset_loop_value s2(1) m_def Let_def setup_value)
      then show ?thesis using m True s2 sz l
        by (simp add: rounds_def icm_set_up_def k_def [symmetric] as_def [symmetric] m_def [symmetric])
    qed
  qed
qed

definition icm_zero :: "int list \<Rightarrow> icm" where
  "icm_zero as = \<lparr>answers = as, traffic = [], icm_raw = imu_zero, acc_factor = i2f 4096, gyro_factor = d2f (dlit (164 / 10))\<rparr>"

lemma icm20602_init_outcome_witness:
  "\<exists>s'. icm20602_init (icm_zero ([255, 18, 128, 65] @ replicate 600 0)) = Some (0, s') \<and> writes (traffic s') = (107, 128) # setup_writes"
  using icm20602_init_outcome [of "icm_zero ([255, 18, 128, 65] @ replicate 600 0)"] by (auto simp: icm_zero_def u8_def Let_def)

section \<open>A sample\<close>

text \<open>The two readings at the start of \<open>imu_data_convertion\<close>.\<close>

definition icm_sample :: "icm \<Rightarrow> icm option" where
  "icm_sample s = do { s \<leftarrow> icm20602_get_acc s; icm20602_get_gyro s }"

definition sample_bytes :: "imu_raw \<Rightarrow> int list" where
  "sample_bytes r = concat (map be_bytes [acc_x r, acc_y r, acc_z r, gyro_x r, gyro_y r, gyro_z r])"

definition raw_ok :: "imu_raw \<Rightarrow> bool" where
  "raw_ok r \<longleftrightarrow> list_all (\<lambda>n. - 32768 \<le> n \<and> n < 32768) [acc_x r, acc_y r, acc_z r, gyro_x r, gyro_y r, gyro_z r]"

text \<open>
  C27: The attitude code sees the numbers the sensor measured: for all six 16-bit readings, sent high byte first from the two blocks of
  output registers, the sample that \<open>icm20602_get_acc\<close> and \<open>icm20602_get_gyro\<close> leave in the globals is exactly these readings, negative ones included,
  with one access to register 0x3B and one to 0x43 and twelve bytes read.
\<close>

theorem sample_roundtrip:
  assumes "raw_ok r" and "answers s = sample_bytes r @ rest"
  shows "icm_sample s = Some (s\<lparr>answers := rest, icm_raw := r,
    traffic := traffic s @ [CS 0, Send [59 OR 128], Receive 6, CS 1, CS 0, Send [67 OR 128], Receive 6, CS 1]\<rparr>)"
proof -
  have "answers s = be_bytes (acc_x r) @ be_bytes (acc_y r) @ be_bytes (acc_z r) @ be_bytes (gyro_x r) @ be_bytes (gyro_y r) @ be_bytes (gyro_z r) @ rest"
    by (simp add: assms(2) sample_bytes_def)
  from get_acc_reads [OF this] get_gyro_reads show ?thesis
    using assms(1) by (simp add: icm_sample_def raw_ok_def)
qed

lemma sample_roundtrip_witness:
  "map_option icm_raw (icm_sample (icm_zero [255, 0, 0, 1, 16, 0, 127, 255, 128, 0, 255, 255, 9]))
     = Some \<lparr>acc_x = - 256, acc_y = 1, acc_z = 4096, gyro_x = 32767, gyro_y = - 32768, gyro_z = - 1\<rparr>"
  using sample_roundtrip [of "\<lparr>acc_x = - 256, acc_y = 1, acc_z = 4096, gyro_x = 32767, gyro_y = - 32768, gyro_z = - 1\<rparr>"
      "icm_zero [255, 0, 0, 1, 16, 0, 127, 255, 128, 0, 255, 255, 9]" "[9]"]
  by (simp add: raw_ok_def sample_bytes_def be_bytes_def u16_def icm_zero_def)

end
