(* ===== verification/Uart.thy ===== *)
theory Uart
  imports Board
begin

text \<open>
  The two serial links of the car: the MCX camera that finds and locates a picture
  (\<open>code/src/MCXvision.c\<close>) and the Art camera that classifies it (\<open>code/src/art.c\<close>).  Each
  link has an interrupt callback that assembles frames (head \<open>0xAA\<close>, tail \<open>0xFF\<close>) one byte
  at a time; a buffer access outside the 128 byte buffer is \<open>None\<close>.  The enum constant
  \<open>Reset_Mode\<close> that both files declare is \<open>ArtReset_Mode\<close> for the Art camera.
\<close>

definition BUFFER_HEAD :: int where [run_simps]: "BUFFER_HEAD = 170"
definition BUFFER_TAIL :: int where [run_simps]: "BUFFER_TAIL = 255"

section \<open>The MCX link\<close>

datatype MCX_Current_Mode = Reset_Mode | Detection_Mode | Location_Mode | Put_Mode

fun mode_code :: "MCX_Current_Mode \<Rightarrow> int" where
  "mode_code Reset_Mode = 0"
| "mode_code Detection_Mode = 1"
| "mode_code Location_Mode = 2"
| "mode_code Put_Mode = 3"

text \<open>\<open>MCX_sent\<close> is what \<open>uart_write_byte(MCX_UART, _)\<close> has written, in order.\<close>

record mcx =
  MCX_rx_buffer :: "int list"
  MCX_count :: int
  MCX_rx_state :: int
  mcxCurrent_Mode :: MCX_Current_Mode
  MCX_Detection_Flag :: int
  MCX_rx_flag :: int
  center_x :: int
  center_y :: int
  MCX_last_x :: int
  MCX_sent :: "int list"

definition mcx_zero :: mcx where
  "mcx_zero = \<lparr>MCX_rx_buffer = replicate 128 0, MCX_count = 0, MCX_rx_state = 0, mcxCurrent_Mode = Reset_Mode,
     MCX_Detection_Flag = 0, MCX_rx_flag = 0, center_x = 0, center_y = 0, MCX_last_x = 0, MCX_sent = []\<rparr>"

definition MCX_Change_Mode :: "int \<Rightarrow> mcx \<Rightarrow> mcx" where
  "MCX_Change_Mode mode s =
    (let s = s\<lparr>MCX_sent := MCX_sent s @ [mode]\<rparr>
     in if mode = 82 then s\<lparr>mcxCurrent_Mode := Reset_Mode\<rparr>
        else if mode = 68 then s\<lparr>mcxCurrent_Mode := Detection_Mode\<rparr>
        else if mode = 76 then s\<lparr>mcxCurrent_Mode := Location_Mode\<rparr>
        else s)"

text \<open>\<open>(int16_t)b[i] << 8 | (int16_t)b[i + 1]\<close>, stored into an \<open>int16_t\<close>.\<close>

definition be16 :: "int \<Rightarrow> int \<Rightarrow> int" where
  "be16 hi lo = s16 (or (hi * 256) lo)"

definition MCX_read_center :: "mcx \<Rightarrow> mcx option" where
  "MCX_read_center s =
    do {
      b2 \<leftarrow> rd (MCX_rx_buffer s) 2; b3 \<leftarrow> rd (MCX_rx_buffer s) 3;
      b4 \<leftarrow> rd (MCX_rx_buffer s) 4; b5 \<leftarrow> rd (MCX_rx_buffer s) 5;
      Some (s\<lparr>center_x := be16 b2 b3, center_y := be16 b4 b5\<rparr>)
    }"

definition MCX_uart_handle :: "mcx \<Rightarrow> mcx option" where
  "MCX_uart_handle s =
    do {
      s \<leftarrow> (case mcxCurrent_Mode s of
          Reset_Mode \<Rightarrow> Some s
        | Detection_Mode \<Rightarrow>
            do {
              b1 \<leftarrow> rd (MCX_rx_buffer s) 1;
              if b1 \<noteq> 0 then
                do {
                  s \<leftarrow> MCX_read_center s;
                  Some ((MCX_Change_Mode (mode_code Location_Mode) s)\<lparr>MCX_Detection_Flag := 1\<rparr>)
                }
              else Some s
            }
        | Location_Mode \<Rightarrow>
            do {
              b1 \<leftarrow> rd (MCX_rx_buffer s) 1;
              if b1 \<noteq> 0 then
                do { s \<leftarrow> MCX_read_center s; Some (s\<lparr>MCX_last_x := center_x s\<rparr>) }
              else Some (s\<lparr>center_x := s16 (MCX_last_x s)\<rparr>)
            }
        | Put_Mode \<Rightarrow> Some s);
      Some (s\<lparr>MCX_rx_flag := 1\<rparr>)
    }"

text \<open>
  The callback; \<open>idle\<close> is \<open>status == kStatus_LPUART_RxIdle\<close>, \<open>byte\<close> the received byte.
\<close>

definition MCX_uart_callback :: "bool \<Rightarrow> int \<Rightarrow> mcx \<Rightarrow> mcx option" where
  "MCX_uart_callback idle byte s =
    (if \<not> idle then Some s
     else
       do {
         s \<leftarrow> (if byte = BUFFER_HEAD then Some (s\<lparr>MCX_rx_state := 1\<rparr>)
              else if byte = BUFFER_TAIL then
                do { s \<leftarrow> MCX_uart_handle s; Some (s\<lparr>MCX_rx_state := 0, MCX_count := 0\<rparr>) }
              else Some s);
         if MCX_rx_state s \<noteq> 0 then
           do {
             buf \<leftarrow> wr (MCX_rx_buffer s) (MCX_count s) byte;
             let s = s\<lparr>MCX_rx_buffer := buf, MCX_count := u8 (MCX_count s + 1)\<rparr>;
             if MCX_count s > 7 then Some (s\<lparr>MCX_count := 0, MCX_rx_state := 0\<rparr>) else Some s
           }
         else Some s
       })"

definition MCX_UART_Init :: "mcx \<Rightarrow> mcx" where
  "MCX_UART_Init s = MCX_Change_Mode 68 (s\<lparr>MCX_Detection_Flag := 0\<rparr>)"

section \<open>The Art link\<close>

datatype Art_Mode_t = Classify_Mode | ArtReset_Mode

record art =
  Art_rx_buffer :: "int list"
  Art_count :: int
  Art_rx_state :: int
  ArtCurrent_Mode :: Art_Mode_t
  Art_Data :: int
  Art_sent :: "int list"

definition art_zero :: art where
  "art_zero = \<lparr>Art_rx_buffer = replicate 128 0, Art_count = 0, Art_rx_state = 0,
     ArtCurrent_Mode = Classify_Mode, Art_Data = 0, Art_sent = []\<rparr>"

definition Art_uart_callback :: "bool \<Rightarrow> int \<Rightarrow> art \<Rightarrow> art option" where
  "Art_uart_callback idle byte s =
    (if \<not> idle then Some s
     else
       do {
         s \<leftarrow> (if byte = BUFFER_HEAD then Some (s\<lparr>Art_rx_state := 1\<rparr>)
              else if byte = BUFFER_TAIL then
                do { d \<leftarrow> rd (Art_rx_buffer s) 1; Some (s\<lparr>Art_Data := d, Art_count := 0, Art_rx_state := 0\<rparr>) }
              else Some s);
         if Art_rx_state s \<noteq> 0 then
           do {
             buf \<leftarrow> wr (Art_rx_buffer s) (Art_count s) byte;
             let s = s\<lparr>Art_rx_buffer := buf, Art_count := u8 (Art_count s + 1)\<rparr>;
             if Art_count s > 3 then Some (s\<lparr>Art_count := 0, Art_rx_state := 0\<rparr>) else Some s
           }
         else Some s
       })"

definition Art_Change_Mode :: "int \<Rightarrow> art \<Rightarrow> art" where
  "Art_Change_Mode mode s =
    (let s = s\<lparr>Art_sent := Art_sent s @ [mode]\<rparr>
     in if mode = 67 then s\<lparr>ArtCurrent_Mode := Classify_Mode\<rparr>
        else if mode = 82 then s\<lparr>Art_Data := 0, ArtCurrent_Mode := ArtReset_Mode\<rparr>
        else s)"

definition Art_uart_handle :: "art \<Rightarrow> art" where
  "Art_uart_handle s = (case ArtCurrent_Mode s of Classify_Mode \<Rightarrow> s | ArtReset_Mode \<Rightarrow> s)"

definition Art_GetData :: "art \<Rightarrow> int" where "Art_GetData s = Art_Data s"
definition Art_DataClear :: "art \<Rightarrow> art" where "Art_DataClear s = s\<lparr>Art_Data := 0\<rparr>"

section \<open>The contract of a framed receiver\<close>

fun rx_run :: "(int \<Rightarrow> 's \<Rightarrow> 's option) \<Rightarrow> int list \<Rightarrow> 's \<Rightarrow> 's option" where
  "rx_run recv [] s = Some s"
| "rx_run recv (b # bs) s = do { s \<leftarrow> recv b s; rx_run recv bs s }"

lemma rx_run_append: "rx_run recv (xs @ ys) s = do { s \<leftarrow> rx_run recv xs s; rx_run recv ys s }"
  by (induction xs arbitrary: s) (auto split: Option.bind_splits)

lemma rx_run_snoc:
  assumes "rx_run recv xs s = Some t" and "\<exists>s'. recv b t = Some s' \<and> P s'"
  shows "\<exists>s'. rx_run recv (xs @ [b]) s = Some s' \<and> P s'"
  using assms by (auto simp: rx_run_append)

text \<open>
  What both callbacks promise: no byte leads outside the buffer, and a tail byte ends
  whatever frame was begun.  From these laws alone the receiver survives any input and is
  ready for a new frame after any tail byte.
\<close>

locale framed_receiver =
  fixes recv :: "int \<Rightarrow> 's \<Rightarrow> 's option" and wf :: "'s \<Rightarrow> bool" and ready :: "'s \<Rightarrow> bool"
  assumes recv_wf: "wf s \<Longrightarrow> 0 \<le> b \<Longrightarrow> b < 256 \<Longrightarrow> \<exists>s'. recv b s = Some s' \<and> wf s'"
    and tail_ready: "wf s \<Longrightarrow> recv 255 s = Some s' \<Longrightarrow> ready s'"

context framed_receiver
begin

lemma run_wf:
  "wf s \<Longrightarrow> list_all (\<lambda>b. 0 \<le> b \<and> b < 256) bs \<Longrightarrow> \<exists>s'. rx_run recv bs s = Some s' \<and> wf s'"
proof (induction bs arbitrary: s)
  case Nil
  then show ?case by simp
next
  case (Cons b bs)
  then obtain t where "recv b s = Some t" "wf t" using recv_wf [of s b] by auto
  with Cons show ?case by simp
qed

lemma resync:
  assumes "wf s" and "list_all (\<lambda>b. 0 \<le> b \<and> b < 256) bs"
  shows "\<exists>s'. rx_run recv (bs @ [255]) s = Some s' \<and> wf s' \<and> ready s'"
proof -
  obtain t where t: "rx_run recv bs s = Some t" "wf t" using run_wf [OF assms] by blast
  then obtain u where "recv 255 t = Some u" "wf u" using recv_wf [of t 255] by auto
  with t tail_ready [OF t(2)] show ?thesis by (simp add: rx_run_append)
qed

end

section \<open>Both links keep the contract\<close>

text \<open>Between frames the byte count is zero; inside one it has not reached the limit.\<close>

definition mcx_wf :: "mcx \<Rightarrow> bool" where
  "mcx_wf s \<longleftrightarrow> length (MCX_rx_buffer s) = 128 \<and> 0 \<le> MCX_count s \<and> MCX_count s \<le> 7 \<and>
     (MCX_rx_state s = 0 \<longrightarrow> MCX_count s = 0)"

definition mcx_ready :: "mcx \<Rightarrow> bool" where
  "mcx_ready s \<longleftrightarrow> MCX_rx_state s = 0 \<and> MCX_count s = 0"

definition art_wf :: "art \<Rightarrow> bool" where
  "art_wf s \<longleftrightarrow> length (Art_rx_buffer s) = 128 \<and> 0 \<le> Art_count s \<and> Art_count s \<le> 3 \<and>
     (Art_rx_state s = 0 \<longrightarrow> Art_count s = 0)"

definition art_ready :: "art \<Rightarrow> bool" where
  "art_ready s \<longleftrightarrow> Art_rx_state s = 0 \<and> Art_count s = 0"

lemma MCX_read_center_Some:
  "length (MCX_rx_buffer s) = 128 \<Longrightarrow> MCX_read_center s = Some (s\<lparr>
     center_x := be16 (MCX_rx_buffer s ! 2) (MCX_rx_buffer s ! 3),
     center_y := be16 (MCX_rx_buffer s ! 4) (MCX_rx_buffer s ! 5)\<rparr>)"
  by (simp add: MCX_read_center_def)

lemma MCX_Change_Mode_frame [simp]:
  "MCX_rx_buffer (MCX_Change_Mode m s) = MCX_rx_buffer s" "MCX_count (MCX_Change_Mode m s) = MCX_count s"
  "MCX_rx_state (MCX_Change_Mode m s) = MCX_rx_state s" "center_x (MCX_Change_Mode m s) = center_x s"
  "center_y (MCX_Change_Mode m s) = center_y s" "MCX_sent (MCX_Change_Mode m s) = MCX_sent s @ [m]"
  by (simp_all add: MCX_Change_Mode_def Let_def)

lemma MCX_handle_frame:
  assumes "length (MCX_rx_buffer s) = 128"
  shows "\<exists>s'. MCX_uart_handle s = Some s' \<and> MCX_rx_buffer s' = MCX_rx_buffer s \<and> MCX_count s' = MCX_count s \<and>
    MCX_rx_state s' = MCX_rx_state s"
  using assms
  by (cases "mcxCurrent_Mode s") (simp_all add: MCX_uart_handle_def MCX_read_center_Some)

lemma MCX_callback_wf: "mcx_wf s \<Longrightarrow> \<exists>s'. MCX_uart_callback True b s = Some s' \<and> mcx_wf s'"
  using MCX_handle_frame [of s]
  by (auto simp: MCX_uart_callback_def mcx_wf_def Let_def u8_id BUFFER_HEAD_def BUFFER_TAIL_def)

lemma MCX_callback_tail: "mcx_wf s \<Longrightarrow> MCX_uart_callback True 255 s = Some s' \<Longrightarrow> mcx_ready s'"
  using MCX_handle_frame [of s]
  by (auto simp: MCX_uart_callback_def mcx_wf_def mcx_ready_def BUFFER_HEAD_def BUFFER_TAIL_def)

lemma Art_callback_wf: "art_wf s \<Longrightarrow> \<exists>s'. Art_uart_callback True b s = Some s' \<and> art_wf s'"
  by (auto simp: Art_uart_callback_def art_wf_def Let_def u8_id BUFFER_HEAD_def BUFFER_TAIL_def)

lemma Art_callback_tail: "art_wf s \<Longrightarrow> Art_uart_callback True 255 s = Some s' \<Longrightarrow> art_ready s'"
  by (auto simp: Art_uart_callback_def art_wf_def art_ready_def BUFFER_HEAD_def BUFFER_TAIL_def)

interpretation mcx_rx: framed_receiver "MCX_uart_callback True" mcx_wf mcx_ready
  by unfold_locales (use MCX_callback_wf MCX_callback_tail in blast)+

interpretation art_rx: framed_receiver "Art_uart_callback True" art_wf art_ready
  by unfold_locales (use Art_callback_wf Art_callback_tail in blast)+

section \<open>Frames\<close>

text \<open>The receiver from a ready state: bytes that are not a tail fill the buffer from index 0.\<close>

lemma MCX_store:
  assumes "length (MCX_rx_buffer s) = 128" and "b \<noteq> 255" and "b = 170 \<or> MCX_rx_state s = 1"
    and "0 \<le> MCX_count s" and "MCX_count s < 7"
  shows "MCX_uart_callback True b s = Some (s\<lparr>MCX_rx_buffer := (MCX_rx_buffer s)[nat (MCX_count s) := b],
    MCX_count := MCX_count s + 1, MCX_rx_state := 1\<rparr>)"
  using assms by (cases s) (auto simp: MCX_uart_callback_def BUFFER_HEAD_def BUFFER_TAIL_def Let_def u8_id)

lemma Art_store:
  assumes "length (Art_rx_buffer s) = 128" and "b \<noteq> 255" and "b = 170 \<or> Art_rx_state s = 1"
    and "0 \<le> Art_count s" and "Art_count s < 3"
  shows "Art_uart_callback True b s = Some (s\<lparr>Art_rx_buffer := (Art_rx_buffer s)[nat (Art_count s) := b],
    Art_count := Art_count s + 1, Art_rx_state := 1\<rparr>)"
  using assms by (cases s) (auto simp: Art_uart_callback_def BUFFER_HEAD_def BUFFER_TAIL_def Let_def u8_id)

lemma MCX_tail:
  "MCX_uart_callback True 255 s =
    do { s \<leftarrow> MCX_uart_handle s; Some (s\<lparr>MCX_rx_state := 0, MCX_count := 0\<rparr>) }"
  by (auto simp: MCX_uart_callback_def BUFFER_HEAD_def BUFFER_TAIL_def split: Option.bind_splits)

definition locating :: "mcx \<Rightarrow> bool" where
  "locating s \<longleftrightarrow> mcxCurrent_Mode s = Detection_Mode \<or> mcxCurrent_Mode s = Location_Mode"

lemma mode_of_reply: "mcxCurrent_Mode (MCX_Change_Mode 2 s) = mcxCurrent_Mode s"
  by (simp add: MCX_Change_Mode_def Let_def)

lemma MCX_handle_center:
  assumes "length (MCX_rx_buffer s) = 128" and "locating s" and "MCX_rx_buffer s ! 1 \<noteq> 0"
  shows "\<exists>s'. MCX_uart_handle s = Some s' \<and> center_x s' = be16 (MCX_rx_buffer s ! 2) (MCX_rx_buffer s ! 3) \<and>
    center_y s' = be16 (MCX_rx_buffer s ! 4) (MCX_rx_buffer s ! 5) \<and> MCX_rx_flag s' = 1"
  using assms by (auto simp: MCX_uart_handle_def MCX_read_center_Some locating_def)

lemma MCX_handle_mode:
  assumes "length (MCX_rx_buffer s) = 128" and "MCX_uart_handle s = Some s'"
  shows "mcxCurrent_Mode s' = mcxCurrent_Mode s \<and> (MCX_sent s' = MCX_sent s \<or> MCX_sent s' = MCX_sent s @ [2])"
  using assms
  by (cases "mcxCurrent_Mode s")
    (auto simp: MCX_uart_handle_def MCX_read_center_Some mode_of_reply split: if_splits)

lemma MCX_callback_mode:
  assumes "mcx_wf s" and "MCX_uart_callback True b s = Some s'"
  shows "mcxCurrent_Mode s' = mcxCurrent_Mode s \<and> (MCX_sent s' = MCX_sent s \<or> MCX_sent s' = MCX_sent s @ [2])"
  using assms MCX_handle_mode [of s] MCX_handle_frame [of s]
  by (auto simp: MCX_uart_callback_def mcx_wf_def BUFFER_HEAD_def BUFFER_TAIL_def Let_def u8_id split: if_splits)

lemma MCX_run_mode:
  assumes "mcx_wf s" and "rx_run (MCX_uart_callback True) bs s = Some s'"
  shows "mcx_wf s' \<and> mcxCurrent_Mode s' = mcxCurrent_Mode s \<and> (\<exists>k. MCX_sent s' = MCX_sent s @ replicate k 2)"
  using assms
proof (induction bs arbitrary: s)
  case Nil
  then show ?case by (auto intro: exI [of _ 0])
next
  case (Cons b bs)
  then obtain t where t: "MCX_uart_callback True b s = Some t" "rx_run (MCX_uart_callback True) bs t = Some s'"
    by (auto split: Option.bind_splits)
  have m: "mcx_wf t" using MCX_callback_wf [OF Cons.prems(1), of b] t(1) by simp
  have mode: "mcxCurrent_Mode t = mcxCurrent_Mode s" "MCX_sent t = MCX_sent s \<or> MCX_sent t = MCX_sent s @ [2]"
    using MCX_callback_mode [OF Cons.prems(1) t(1)] by simp_all
  from Cons.IH [OF m t(2)] obtain k where k: "mcx_wf s'" "mcxCurrent_Mode s' = mcxCurrent_Mode t"
    "MCX_sent s' = MCX_sent t @ replicate k 2" by blast
  from mode(2) have "\<exists>k. MCX_sent s' = MCX_sent s @ replicate k 2"
  proof
    assume "MCX_sent t = MCX_sent s @ [2]"
    then have "MCX_sent s' = MCX_sent s @ replicate (Suc k) 2" using k(3) by simp
    then show ?thesis by blast
  qed (use k(3) in auto)
  with k mode(1) show ?case by simp
qed

lemma MCX_frame:
  assumes "mcx_wf s" and "mcx_ready s" and "locating s" and "f \<noteq> 0"
    and "f \<noteq> 255" and "xh \<noteq> 255" and "xl \<noteq> 255" and "yh \<noteq> 255" and "yl \<noteq> 255"
  shows "\<exists>s'. rx_run (MCX_uart_callback True) [170, f, xh, xl, yh, yl, 255] s = Some s' \<and>
    center_x s' = be16 xh xl \<and> center_y s' = be16 yh yl \<and> MCX_rx_flag s' = 1"
proof -
  let ?b = "(MCX_rx_buffer s)[0 := 170, 1 := f, 2 := xh, 3 := xl, 4 := yh, 5 := yl]"
  let ?t = "s\<lparr>MCX_rx_buffer := ?b, MCX_count := 6, MCX_rx_state := 1\<rparr>"
  have "rx_run (MCX_uart_callback True) [170, f, xh, xl, yh, yl] s = Some ?t"
    using assms by (simp add: MCX_store mcx_wf_def mcx_ready_def)
  moreover have "\<exists>s'. MCX_uart_handle ?t = Some s' \<and> center_x s' = be16 xh xl \<and> center_y s' = be16 yh yl \<and>
    MCX_rx_flag s' = 1"
    using MCX_handle_center [of ?t] assms by (simp add: mcx_wf_def locating_def)
  ultimately have "\<exists>s'. rx_run (MCX_uart_callback True) ([170, f, xh, xl, yh, yl] @ [255]) s = Some s' \<and>
    center_x s' = be16 xh xl \<and> center_y s' = be16 yh yl \<and> MCX_rx_flag s' = 1"
    by (elim rx_run_snoc) (auto simp: MCX_tail)
  then show ?thesis by (simp only: append.simps)
qed

text \<open>In the modes in which no box is looked for the handler only reports that a frame has come.\<close>

lemma MCX_handle_still:
  "\<not> locating s \<Longrightarrow> MCX_uart_handle s = Some (s\<lparr>MCX_rx_flag := 1\<rparr>)"
  by (cases "mcxCurrent_Mode s") (simp_all add: MCX_uart_handle_def locating_def)

lemma MCX_run_still:
  assumes "mcx_wf s" and "\<not> locating s" and "rx_run (MCX_uart_callback True) bs s = Some s'"
  shows "center_x s' = center_x s \<and> center_y s' = center_y s"
  using assms
proof (induction bs arbitrary: s)
  case (Cons b bs)
  then obtain t where t: "MCX_uart_callback True b s = Some t" "rx_run (MCX_uart_callback True) bs t = Some s'"
    by (auto split: Option.bind_splits)
  have "mcx_wf t" using MCX_callback_wf [OF Cons.prems(1), of b] t(1) by simp
  moreover have "\<not> locating t"
    using MCX_callback_mode [OF Cons.prems(1) t(1)] Cons.prems(2) by (simp add: locating_def)
  moreover have "center_x t = center_x s \<and> center_y t = center_y s"
    using t(1) Cons.prems(1,2)
    by (auto simp: MCX_uart_callback_def MCX_handle_still mcx_wf_def Let_def u8_id split: if_splits)
  ultimately show ?case using Cons.IH [of t] t(2) by simp
qed simp

lemma MCX_frame_still:
  assumes "mcx_wf s" and "mcx_ready s" and "\<not> locating s"
    and "f \<noteq> 255" and "xh \<noteq> 255" and "xl \<noteq> 255" and "yh \<noteq> 255" and "yl \<noteq> 255"
  shows "\<exists>s'. rx_run (MCX_uart_callback True) [170, f, xh, xl, yh, yl, 255] s = Some s' \<and> MCX_rx_flag s' = 1"
proof -
  let ?b = "(MCX_rx_buffer s)[0 := 170, 1 := f, 2 := xh, 3 := xl, 4 := yh, 5 := yl]"
  let ?t = "s\<lparr>MCX_rx_buffer := ?b, MCX_count := 6, MCX_rx_state := 1\<rparr>"
  have "rx_run (MCX_uart_callback True) [170, f, xh, xl, yh, yl] s = Some ?t"
    using assms by (simp add: MCX_store mcx_wf_def mcx_ready_def)
  moreover have "MCX_uart_handle ?t = Some (?t\<lparr>MCX_rx_flag := 1\<rparr>)"
    using assms(3) by (intro MCX_handle_still) (simp add: locating_def)
  ultimately have "\<exists>s'. rx_run (MCX_uart_callback True) ([170, f, xh, xl, yh, yl] @ [255]) s = Some s' \<and> MCX_rx_flag s' = 1"
    by (elim rx_run_snoc) (auto simp: MCX_tail)
  then show ?thesis by (simp only: append.simps)
qed

lemma Art_frame:
  assumes "art_wf s" and "art_ready s" and "d \<noteq> 255"
  shows "\<exists>s'. rx_run (Art_uart_callback True) [170, d, 255] s = Some s' \<and> Art_GetData s' = d"
proof -
  let ?t = "s\<lparr>Art_rx_buffer := (Art_rx_buffer s)[0 := 170, 1 := d], Art_count := 2, Art_rx_state := 1\<rparr>"
  have "rx_run (Art_uart_callback True) [170, d] s = Some ?t"
    using assms by (simp add: Art_store art_wf_def art_ready_def)
  moreover have "\<exists>s'. Art_uart_callback True 255 ?t = Some s' \<and> Art_GetData s' = d"
    using assms by (simp add: Art_uart_callback_def BUFFER_HEAD_def BUFFER_TAIL_def art_wf_def Art_GetData_def)
  ultimately have "\<exists>s'. rx_run (Art_uart_callback True) ([170, d] @ [255]) s = Some s' \<and> Art_GetData s' = d"
    by (elim rx_run_snoc)
  then show ?thesis by (simp only: append.simps)
qed

section \<open>Properties\<close>

text \<open>
  C20: The MCX link resynchronises: in a well-formed state of the receiver, whatever bytes came before, after a tail byte a
  frame with a nonzero flag and no tail byte in its payload is taken as a whole (head bytes in the payload
  included) and sets the receive flag; no byte sequence leads outside the buffer. In the detection and the
  location mode it is decoded into the signed big-endian coordinates it carries; in the other two modes (after the
  letter R, which the box task sends at its end, and the put mode) the coordinates stay what they were, whatever
  bytes and frames arrive.
\<close>

theorem mcx_frame_after_noise:
  assumes "mcx_wf s" and "list_all (\<lambda>b. 0 \<le> b \<and> b < 256) noise"
    and "f \<noteq> 0" and "f \<noteq> 255" and "xh \<noteq> 255" and "xl \<noteq> 255" and "yh \<noteq> 255" and "yl \<noteq> 255"
  shows "\<exists>s'. rx_run (MCX_uart_callback True) ((noise @ [255]) @ [170, f, xh, xl, yh, yl, 255]) s = Some s' \<and>
    (if locating s then center_x s' = be16 xh xl \<and> center_y s' = be16 yh yl
     else center_x s' = center_x s \<and> center_y s' = center_y s) \<and> MCX_rx_flag s' = 1"
proof -
  obtain t where t: "rx_run (MCX_uart_callback True) (noise @ [255]) s = Some t" "mcx_wf t" "mcx_ready t"
    using mcx_rx.resync [OF assms(1,2)] by blast
  then have m: "locating t = locating s" using MCX_run_mode [OF assms(1) t(1)] by (simp add: locating_def)
  have run: "rx_run (MCX_uart_callback True) ((noise @ [255]) @ bs) s = rx_run (MCX_uart_callback True) bs t" for bs
    using t(1) by (simp only: rx_run_append) simp
  show ?thesis
  proof (cases "locating s")
    case True
    with MCX_frame [OF t(2,3) _ assms(3-8)] m run show ?thesis by auto
  next
    case False
    obtain s' where s': "rx_run (MCX_uart_callback True) [170, f, xh, xl, yh, yl, 255] t = Some s'" "MCX_rx_flag s' = 1"
      using MCX_frame_still [OF t(2,3) _ assms(4-8)] m False by blast
    from MCX_run_still [OF assms(1) False, of "(noise @ [255]) @ [170, f, xh, xl, yh, yl, 255]"] s' run False
    show ?thesis by simp
  qed
qed

lemma mcx_frame_after_noise_witness:
  "(\<exists>s'. rx_run (MCX_uart_callback True) (([7, 170, 170, 3] @ [255]) @ [170, 1, 0, 160, 0, 120, 255])
      (MCX_UART_Init mcx_zero) = Some s' \<and>
    center_x s' = be16 0 160 \<and> center_y s' = be16 0 120 \<and> MCX_rx_flag s' = 1) \<and>
   (\<exists>s'. rx_run (MCX_uart_callback True) (([7, 170, 170, 3] @ [255]) @ [170, 1, 0, 160, 0, 120, 255])
      (MCX_Change_Mode 82 (MCX_UART_Init mcx_zero)) = Some s' \<and>
    center_x s' = 0 \<and> center_y s' = 0 \<and> MCX_rx_flag s' = 1)"
proof -
  have w: "mcx_wf (MCX_UART_Init mcx_zero)" "mcx_wf (MCX_Change_Mode 82 (MCX_UART_Init mcx_zero))"
    "locating (MCX_UART_Init mcx_zero)" "\<not> locating (MCX_Change_Mode 82 (MCX_UART_Init mcx_zero))"
    "center_x (MCX_Change_Mode 82 (MCX_UART_Init mcx_zero)) = 0" "center_y (MCX_Change_Mode 82 (MCX_UART_Init mcx_zero)) = 0"
    by (simp_all add: MCX_UART_Init_def MCX_Change_Mode_def mcx_zero_def mcx_wf_def locating_def Let_def)
  have n: "list_all (\<lambda>b. 0 \<le> b \<and> b < 256) [7, 170, 170, 3 :: int]" by simp
  show ?thesis
    using mcx_frame_after_noise [OF w(1) n, of 1 0 160 0 120] mcx_frame_after_noise [OF w(2) n, of 1 0 160 0 120] w(3-6) by simp
qed

text \<open>
  The link never enters the location mode: from its initialisation on, after any received
  bytes, the mode is still the detection mode, because the handler asks for the mode with the enum
  constant \<open>Location_Mode\<close> (the byte 2) and not with the letter \<open>L\<close>; all it ever sends is the initial
  \<open>D\<close> followed by bytes 2.
\<close>

theorem mcx_never_locates:
  assumes "list_all (\<lambda>b. 0 \<le> b \<and> b < 256) bs"
  shows "\<exists>s' k. rx_run (MCX_uart_callback True) bs (MCX_UART_Init mcx_zero) = Some s' \<and>
    mcxCurrent_Mode s' = Detection_Mode \<and> MCX_sent s' = 68 # replicate k 2"
proof -
  have w: "mcx_wf (MCX_UART_Init mcx_zero)" "mcxCurrent_Mode (MCX_UART_Init mcx_zero) = Detection_Mode"
    "MCX_sent (MCX_UART_Init mcx_zero) = [68]"
    by (simp_all add: MCX_UART_Init_def MCX_Change_Mode_def mcx_zero_def mcx_wf_def Let_def)
  obtain t where t: "rx_run (MCX_uart_callback True) bs (MCX_UART_Init mcx_zero) = Some t"
    using mcx_rx.run_wf [OF w(1) assms] by blast
  with MCX_run_mode [OF w(1) t] w show ?thesis by simp
qed

lemma mcx_never_locates_witness:
  "\<exists>s' k. rx_run (MCX_uart_callback True) [170, 1, 0, 160, 0, 120, 255] (MCX_UART_Init mcx_zero) = Some s' \<and>
    mcxCurrent_Mode s' = Detection_Mode \<and> MCX_sent s' = 68 # replicate k 2"
  by (rule mcx_never_locates) simp

text \<open>
  A coordinate byte equal to the tail byte is lost: a frame whose low byte of \<open>x\<close> is 255 is cut
  there, and the coordinates published are those of the bytes left in the buffer by the frames
  before it; the rest of the frame is dropped.
\<close>

theorem mcx_tail_in_payload:
  assumes "mcx_wf s" and "mcx_ready s" and "locating s" and "f \<noteq> 0" and "f \<noteq> 255" and "xh \<noteq> 255"
  shows "\<exists>s'. rx_run (MCX_uart_callback True) [170, f, xh, 255] s = Some s' \<and> mcx_ready s' \<and>
    center_x s' = be16 xh (MCX_rx_buffer s ! 3) \<and>
    center_y s' = be16 (MCX_rx_buffer s ! 4) (MCX_rx_buffer s ! 5) \<and> MCX_rx_flag s' = 1"
proof -
  let ?t = "s\<lparr>MCX_rx_buffer := (MCX_rx_buffer s)[0 := 170, 1 := f, 2 := xh], MCX_count := 3, MCX_rx_state := 1\<rparr>"
  have "rx_run (MCX_uart_callback True) [170, f, xh] s = Some ?t"
    using assms by (simp add: MCX_store mcx_wf_def mcx_ready_def)
  moreover have "\<exists>s'. MCX_uart_handle ?t = Some s' \<and> center_x s' = be16 xh (MCX_rx_buffer s ! 3) \<and>
    center_y s' = be16 (MCX_rx_buffer s ! 4) (MCX_rx_buffer s ! 5) \<and> MCX_rx_flag s' = 1"
    using MCX_handle_center [of ?t] assms by (simp add: mcx_wf_def locating_def)
  ultimately have "\<exists>s'. rx_run (MCX_uart_callback True) ([170, f, xh] @ [255]) s = Some s' \<and> mcx_ready s' \<and>
    center_x s' = be16 xh (MCX_rx_buffer s ! 3) \<and>
    center_y s' = be16 (MCX_rx_buffer s ! 4) (MCX_rx_buffer s ! 5) \<and> MCX_rx_flag s' = 1"
    by (elim rx_run_snoc) (auto simp: MCX_tail mcx_ready_def)
  then show ?thesis by (simp only: append.simps)
qed

lemma mcx_tail_in_payload_witness:
  "\<exists>s'. rx_run (MCX_uart_callback True) [170, 1, 0, 255] (MCX_UART_Init mcx_zero) = Some s' \<and> mcx_ready s' \<and>
    center_x s' = be16 0 (MCX_rx_buffer (MCX_UART_Init mcx_zero) ! 3) \<and>
    center_y s' = be16 (MCX_rx_buffer (MCX_UART_Init mcx_zero) ! 4) (MCX_rx_buffer (MCX_UART_Init mcx_zero) ! 5) \<and>
    MCX_rx_flag s' = 1"
  by (rule mcx_tail_in_payload)
    (simp_all add: MCX_UART_Init_def MCX_Change_Mode_def mcx_zero_def mcx_wf_def mcx_ready_def locating_def Let_def)

text \<open>
  C21: The Art link resynchronises in the same way: in a well-formed state of the receiver, after any bytes and a tail, a frame
  whose class is not the tail byte 255 delivers its class to \<open>Art_GetData\<close>; no byte sequence leads outside the buffer.
\<close>

theorem art_frame_after_noise:
  assumes "art_wf s" and "list_all (\<lambda>b. 0 \<le> b \<and> b < 256) noise" and "d \<noteq> 255"
  shows "\<exists>s'. rx_run (Art_uart_callback True) ((noise @ [255]) @ [170, d, 255]) s = Some s' \<and> Art_GetData s' = d"
proof -
  obtain t where t: "rx_run (Art_uart_callback True) (noise @ [255]) s = Some t" "art_wf t" "art_ready t"
    using art_rx.resync [OF assms(1,2)] by blast
  with Art_frame [OF t(2,3) assms(3)] show ?thesis by (simp only: rx_run_append) simp
qed

lemma art_frame_after_noise_witness:
  "\<exists>s'. rx_run (Art_uart_callback True) (([170, 9] @ [255]) @ [170, 12, 255]) art_zero = Some s' \<and> Art_GetData s' = 12"
  by (rule art_frame_after_noise) (simp_all add: art_zero_def art_wf_def)

end
