(* ===== verification/Button.thy ===== *)
theory Button
  imports Prelude
begin

text \<open>
  The buttons (\<open>code/src/button.c\<close>, \<open>code/inc/button.h\<close>).  A call of a scan function gets what it
  reads: the levels of the pin in the order of the reads, and the tick counter of the
  operating system (an unsigned 32 bit value); the time of the press is kept in 16 bits.
\<close>

section \<open>State and scans\<close>

definition PUSH_DOWN_LEVEL :: int where [run_simps]: "PUSH_DOWN_LEVEL = 0"
definition BUTTON_SHORTPRESS :: int where [run_simps]: "BUTTON_SHORTPRESS = 1"
definition BUTTON_LONGPRESS :: int where [run_simps]: "BUTTON_LONGPRESS = 2"
definition BUTTON_IDLE :: int where [run_simps]: "BUTTON_IDLE = 0"
definition BUTTON_TICK :: int where [run_simps]: "BUTTON_TICK = 1"
definition BUTTON_FLIT :: int where [run_simps]: "BUTTON_FLIT = 2"
definition BUTTON_LONG :: int where [run_simps]: "BUTTON_LONG = 3"

record button_t =
  Denoi_tick :: int
  lock_flag :: int
  button_status :: int

definition button_new :: button_t where
  "button_new = \<lparr>Denoi_tick = 0, lock_flag = 0, button_status = BUTTON_IDLE\<rparr>"

definition released :: int where [run_simps]: "released = (if PUSH_DOWN_LEVEL = 0 then 1 else 0)"

text \<open>\<open>rt_tick_get() - button->Denoi_tick\<close>, an unsigned difference.\<close>

definition since :: "int \<Rightarrow> button_t \<Rightarrow> int" where
  "since now b = u32 (now - Denoi_tick b)"

definition button_scan_pushdown :: "int \<Rightarrow> int \<Rightarrow> int \<Rightarrow> int \<Rightarrow> button_t \<Rightarrow> int \<times> button_t" where
  "button_scan_pushdown lv1 lv2 now tick b =
    (if lv1 = PUSH_DOWN_LEVEL \<and> lock_flag b = 0 then (1, b\<lparr>lock_flag := 1, Denoi_tick := u16 now\<rparr>)
     else if lv2 = released \<and> lock_flag b \<noteq> 0 \<and> tick \<le> since now b then (0, b\<lparr>lock_flag := 0\<rparr>)
     else (0, b))"

definition button_scan_longshort :: "int \<Rightarrow> int \<Rightarrow> int \<Rightarrow> int \<Rightarrow> button_t \<Rightarrow> int \<times> button_t" where
  "button_scan_longshort lv now long_tick short_tick b =
    (if button_status b = BUTTON_IDLE then
       if lv = PUSH_DOWN_LEVEL then (0, b\<lparr>button_status := BUTTON_FLIT, Denoi_tick := u16 now\<rparr>) else (0, b)
     else if button_status b = BUTTON_FLIT then
       if short_tick \<le> since now b then (0, b\<lparr>button_status := BUTTON_TICK\<rparr>) else (0, b)
     else if button_status b = BUTTON_TICK then
       if lv = released then
         if long_tick \<le> since now b then (0, b\<lparr>button_status := BUTTON_LONG\<rparr>)
         else (BUTTON_SHORTPRESS, b\<lparr>button_status := BUTTON_IDLE\<rparr>)
       else (0, b)
     else if button_status b = BUTTON_LONG then
       if lv = released then (0, b\<lparr>button_status := BUTTON_IDLE\<rparr>) else (0, b)
     else (0, b))"

section \<open>Runs of scans\<close>

text \<open>A run over samples (level, tick), one scan each; both reads of a scan see the same level.\<close>

fun scan_run :: "(int \<Rightarrow> int \<Rightarrow> button_t \<Rightarrow> int \<times> button_t) \<Rightarrow> (int \<times> int) list \<Rightarrow> button_t \<Rightarrow> int list \<times> button_t" where
  "scan_run scan [] b = ([], b)"
| "scan_run scan ((lv, now) # xs) b =
     (let (r, b) = scan lv now b; (rs, b) = scan_run scan xs b in (r # rs, b))"

abbreviation push_run :: "int \<Rightarrow> (int \<times> int) list \<Rightarrow> button_t \<Rightarrow> int list \<times> button_t" where
  "push_run tick \<equiv> scan_run (\<lambda>lv now. button_scan_pushdown lv lv now tick)"

abbreviation press_run :: "int \<Rightarrow> int \<Rightarrow> (int \<times> int) list \<Rightarrow> button_t \<Rightarrow> int list \<times> button_t" where
  "press_run long_tick short_tick \<equiv> scan_run (\<lambda>lv now. button_scan_longshort lv now long_tick short_tick)"

lemma length_scan_run [simp]: "length (fst (scan_run scan xs b)) = length xs"
proof (induction xs arbitrary: b)
  case (Cons x xs)
  then show ?case by (cases x) (simp add: split_beta Let_def)
qed simp

lemma scan_run_append:
  "scan_run scan (xs @ ys) b =
    (let (rs, b) = scan_run scan xs b; (qs, b) = scan_run scan ys b in (rs @ qs, b))"
proof (induction xs arbitrary: b)
  case (Cons x xs)
  then show ?case by (cases x) (simp add: split_beta Let_def)
qed simp

text \<open>Samples in time order, before the counter leaves 16 bits.\<close>

definition in_order :: "int \<Rightarrow> int \<Rightarrow> (int \<times> int) list \<Rightarrow> bool" where
  "in_order lo hi xs \<longleftrightarrow> sorted (map snd xs) \<and> list_all (\<lambda>x. lo \<le> snd x \<and> snd x < hi) xs"

lemma in_order_Cons:
  "in_order lo hi ((l, t) # xs) \<longleftrightarrow> lo \<le> t \<and> t < hi \<and> in_order t hi xs"
  by (auto simp: in_order_def list_all_iff)

lemma since_exact: "0 \<le> Denoi_tick b \<Longrightarrow> Denoi_tick b \<le> now \<Longrightarrow> now < 65536 \<Longrightarrow> since now b = now - Denoi_tick b"
  by (simp add: since_def u32_id)

text \<open>While the button is locked, a press is reported only after a release at least \<open>tick\<close> after the lock.\<close>

lemma locked_run:
  assumes "lock_flag b \<noteq> 0" and "0 \<le> Denoi_tick b" and "in_order (Denoi_tick b) 65536 xs"
    and "j < length xs" and "fst (push_run tick xs b) ! j = 1"
  shows "\<exists>k < j. fst (xs ! k) = 1 \<and> tick \<le> snd (xs ! k) - Denoi_tick b"
  using assms
proof (induction xs arbitrary: b j)
  case Nil
  then show ?case by simp
next
  case (Cons x xs)
  obtain l t where x: "x = (l, t)" by fastforce
  have t: "Denoi_tick b \<le> t" "t < 65536" "in_order t 65536 xs" using Cons.prems(3) x by (simp_all add: in_order_Cons)
  have s: "since t b = t - Denoi_tick b" using t Cons.prems(2) by (simp add: since_exact)
  let ?scan = "button_scan_pushdown l l t tick b"
  have r: "fst ?scan = 0" using Cons.prems(1) by (simp add: button_scan_pushdown_def)
  then obtain j' where j: "j = Suc j'" using Cons.prems(5) x by (cases j) (simp_all add: split_beta Let_def)
  show ?case
  proof (cases "l = 1 \<and> tick \<le> t - Denoi_tick b")
    case True
    then show ?thesis using j x by (intro exI [of _ 0]) simp
  next
    case False
    then have "l \<noteq> 1 \<or> \<not> tick \<le> since t b" using s by simp
    then have "?scan = (0, b)"
      using Cons.prems(1) by (auto simp: button_scan_pushdown_def released_def PUSH_DOWN_LEVEL_def)
    then have "fst (push_run tick xs b) ! j' = 1" using Cons.prems(5) x j by (simp add: split_beta Let_def)
    moreover have "in_order (Denoi_tick b) 65536 xs" using t by (auto simp: in_order_def list_all_iff)
    ultimately obtain k where "k < j'" "fst (xs ! k) = 1" "tick \<le> snd (xs ! k) - Denoi_tick b"
      using Cons.IH [OF Cons.prems(1,2), of j'] Cons.prems(4) j by auto
    then show ?thesis using j by (intro exI [of _ "Suc k"]) simp
  qed
qed


lemma held_run:
  assumes "button_status b = BUTTON_FLIT \<or> button_status b = BUTTON_TICK" and "0 \<le> Denoi_tick b"
    and "in_order (Denoi_tick b) 65536 xs" and "list_all (\<lambda>x. fst x = 0) xs"
    and "button_status b = BUTTON_TICK \<or> (\<exists>x \<in> set xs. short_tick \<le> snd x - Denoi_tick b)"
  shows "press_run long_tick short_tick xs b = (replicate (length xs) 0, b\<lparr>button_status := BUTTON_TICK\<rparr>)"
  using assms
proof (induction xs arbitrary: b)
  case Nil
  then show ?case by simp
next
  case (Cons x xs)
  obtain l t where x: "x = (l, t)" by fastforce
  have t: "Denoi_tick b \<le> t" "t < 65536" "in_order t 65536 xs" "l = 0" using Cons.prems x by (simp_all add: in_order_Cons)
  then have o: "in_order (Denoi_tick b) 65536 xs" by (auto simp: in_order_def list_all_iff)
  have s: "since t b = t - Denoi_tick b" using t Cons.prems(2) by (simp add: since_exact)
  consider "button_status b = BUTTON_TICK" | "button_status b = BUTTON_FLIT" "short_tick \<le> t - Denoi_tick b"
    | "button_status b = BUTTON_FLIT" "\<not> short_tick \<le> t - Denoi_tick b"
    using Cons.prems(1) by blast
  then show ?case
  proof cases
    case 1
    then show ?thesis using Cons.IH [of b] Cons.prems o x t(4)
      by (simp add: button_scan_longshort_def run_simps Let_def)
  next
    case 2
    then show ?thesis using Cons.IH [of "b\<lparr>button_status := BUTTON_TICK\<rparr>"] Cons.prems o x t(4) s
      by (simp add: button_scan_longshort_def run_simps Let_def)
  next
    case 3
    then show ?thesis using Cons.IH [of b] Cons.prems o x t(4) s
      by (simp add: button_scan_longshort_def run_simps Let_def)
  qed
qed

section \<open>Properties\<close>

text \<open>
  C36: The press scan reports no bounce while the tick counter fits in 16 bits: between two reported
  presses there is a sample with the button released, taken at least \<open>tick\<close> ticks after the first one.
\<close>

theorem pushdown_debounced:
  assumes "in_order 0 65536 xs" and "i < j" and "j < length xs"
    and "fst (push_run tick xs b) ! i = 1" and "fst (push_run tick xs b) ! j = 1"
  shows "\<exists>k. i < k \<and> k < j \<and> fst (xs ! k) = 1 \<and> tick \<le> snd (xs ! k) - snd (xs ! i)"
  using assms
proof (induction i arbitrary: xs b j)
  case 0
  then obtain l t xs' where x: "xs = (l, t) # xs'" by (cases xs) auto
  let ?c = "b\<lparr>lock_flag := 1, Denoi_tick := u16 t\<rparr>"
  have t: "0 \<le> t" "t < 65536" "in_order t 65536 xs'" using 0(1) x by (simp_all add: in_order_Cons)
  have s: "button_scan_pushdown l l t tick b = (1, ?c)"
    using 0(4) x by (auto simp: button_scan_pushdown_def split_beta Let_def split: if_splits)
  obtain j' where j: "j = Suc j'" using 0(2) by (cases j) auto
  have "fst (push_run tick xs' ?c) ! j' = 1" using 0(5) x j s by (simp add: split_beta Let_def)
  then have "\<exists>k < j'. fst (xs' ! k) = 1 \<and> tick \<le> snd (xs' ! k) - t"
    using locked_run [of ?c xs' j' tick] t 0(3) x j by (simp add: u16_id)
  then obtain k where "k < j'" "fst (xs' ! k) = 1" "tick \<le> snd (xs' ! k) - t" by blast
  then show ?case using x j by (intro exI [of _ "Suc k"]) simp
next
  case (Suc i)
  then obtain l t xs' j' where x: "xs = (l, t) # xs'" "j = Suc j'" by (cases xs; cases j) auto
  let ?c = "snd (button_scan_pushdown l l t tick b)"
  have "in_order 0 65536 xs'" using Suc.prems(1) x by (auto simp: in_order_def list_all_iff)
  moreover have "fst (push_run tick xs' ?c) ! i = 1" "fst (push_run tick xs' ?c) ! j' = 1"
    using Suc.prems(4,5) x by (simp_all add: split_beta Let_def)
  ultimately obtain k where "i < k" "k < j'" "fst (xs' ! k) = 1" "tick \<le> snd (xs' ! k) - snd (xs' ! i)"
    using Suc.IH [of xs' j' ?c] Suc.prems(2,3) x by auto
  then show ?case using x by (intro exI [of _ "Suc k"]) simp
qed

lemma pushdown_debounced_witness:
  "\<exists>k. 0 < k \<and> k < 3 \<and> fst ([(0, 5), (1, 9), (1, 30), (0, 40)] ! k :: int \<times> int) = 1 \<and>
    20 \<le> snd ([(0, 5), (1, 9), (1, 30), (0, 40)] ! k :: int \<times> int) - snd ([(0, 5), (1, 9), (1, 30), (0, 40)] ! 0 :: int \<times> int)"
  by (rule pushdown_debounced [of "[(0, 5), (1, 9), (1, 30), (0, 40)]" 0 3 20 button_new])
    (simp_all add: in_order_def button_scan_pushdown_def button_new_def since_def run_simps u16_def u32_def)

text \<open>
  After the tick counter has left 16 bits the debounce is void: a press at tick 65536 or later is
  unlocked by the very next released sample, however soon it comes and whatever \<open>tick\<close> asks for,
  because the press time is truncated to 16 bits and then subtracted from the full counter.
\<close>

theorem pushdown_no_debounce_later:
  assumes "lock_flag b = 0" and "65536 \<le> t" and "t \<le> t'" and "t' < 4294967296" and "tick < 65536"
  shows "push_run tick [(0, t), (1, t'), (0, t')] b = ([1, 0, 1], b\<lparr>lock_flag := 1, Denoi_tick := u16 t'\<rparr>)"
proof -
  have "u16 t \<le> t - 65536" using zmod_le_nonneg_dividend [of "t - 65536" 65536] assms(2)
    by (simp add: u16_def)
  then have "tick \<le> t' - u16 t" "t' - u16 t < 4294967296" "0 \<le> t' - u16 t"
    using assms u16_range(1) [of t] by linarith+
  then have "tick \<le> since t' (b\<lparr>lock_flag := 1, Denoi_tick := u16 t\<rparr>)" by (simp add: since_def u32_id)
  then show ?thesis
    using assms(1) by (simp add: button_scan_pushdown_def released_def PUSH_DOWN_LEVEL_def Let_def)
qed

lemma pushdown_no_debounce_later_witness:
  "push_run 20 [(0, 70000), (1, 70000), (0, 70000)] button_new =
    ([1, 0, 1], button_new\<lparr>lock_flag := 1, Denoi_tick := u16 70000\<rparr>)"
  by (rule pushdown_no_debounce_later) (simp_all add: button_new_def)

text \<open>
  C37: A short press is reported once, at its release, and a long press never, as long as the tick counter fits in the 16 bits of
  \<open>Denoi_tick\<close>: a press from the idle state, with all its ticks in order and below 65536, held with a sample at \<open>short_tick\<close> ticks or
  more after its first and then released, answers 0 until the release, where it answers \<open>BUTTON_SHORTPRESS\<close> when shorter than
  \<open>long_tick\<close> and 0 otherwise (the constant \<open>BUTTON_LONGPRESS\<close> of the header is never answered). Beyond tick 65535 this does
  not hold: the 16 bit tick is subtracted from the 32 bit one, so a short press counts as a long one.
\<close>

theorem short_press_reported_once:
  assumes "button_status b = BUTTON_IDLE" and "in_order 0 65536 ((0, t0) # held @ [(1, t1)])"
    and "list_all (\<lambda>x. fst x = 0) held" and "\<exists>x \<in> set held. short_tick \<le> snd x - t0"
  shows "fst (press_run long_tick short_tick ((0, t0) # held @ [(1, t1)]) b) =
    0 # replicate (length held) 0 @ [if t1 - t0 < long_tick then BUTTON_SHORTPRESS else 0]"
proof -
  let ?c = "b\<lparr>button_status := BUTTON_FLIT, Denoi_tick := u16 t0\<rparr>"
  let ?d = "?c\<lparr>button_status := BUTTON_TICK\<rparr>"
  have t: "0 \<le> t0" "t0 < 65536" "in_order t0 65536 held" "t0 \<le> t1" "t1 < 65536"
    using assms(2) by (auto simp: in_order_def list_all_iff sorted_append)
  have "press_run long_tick short_tick held ?c = (replicate (length held) 0, ?d)"
    using held_run [of ?c held short_tick long_tick] t assms(3,4) by (simp add: u16_id)
  moreover have "since t1 ?d = t1 - t0" using t by (simp add: since_exact u16_id)
  ultimately show ?thesis
    using assms(1) by (auto simp: scan_run_append button_scan_longshort_def run_simps Let_def)
qed

lemma short_press_reported_once_witness:
  "fst (press_run 1000 20 ((0, 100) # [(0, 110), (0, 130)] @ [(1, 300)]) button_new) =
    0 # replicate (length [(0 :: int, 110 :: int), (0, 130)]) 0 @ [if 300 - 100 < (1000 :: int) then BUTTON_SHORTPRESS else 0]"
  by (rule short_press_reported_once) (simp_all add: button_new_def in_order_def)

end
