(* ===== verification/Screen.thy ===== *)
theory Screen
  imports Floats
begin

unbundle bit_operations_syntax

text \<open>
  The drawing functions of the display driver, \<open>libraries/zf_device/zf_device_ips200.c\<close>, that the program
  calls: the region test of every transfer, points, lines and grey images.

  A drawing function returns the pixels it writes, \<open>(x, y, colour)\<close> in the order of the writes; \<open>None\<close> is a
  failed \<open>zf_assert\<close>, which stops the program, or undefined behaviour.  The controller fills a region
  row by row, which is how the transfers of an image become pixels here.  The size is the one of
  \<open>IPS200_CROSSWISE\<close>, which \<open>Camera_and_Screen_Init\<close> sets.
\<close>

section \<open>Regions, points and colours\<close>

definition ips200_x_max :: int where "ips200_x_max = 320"
definition ips200_y_max :: int where "ips200_y_max = 240"

type_synonym pixel = "int \<times> int \<times> int"

definition RGB565_WHITE :: int where "RGB565_WHITE = 0xFFFF"
definition RGB565_BLACK :: int where "RGB565_BLACK = 0x0000"
definition RGB565_BLUE :: int where "RGB565_BLUE = 0x001F"
definition RGB565_RED :: int where "RGB565_RED = 0xF800"
definition RGB565_GREEN :: int where "RGB565_GREEN = 0x07E0"
definition RGB565_CYAN :: int where "RGB565_CYAN = 0x07FF"
definition RGB565_BROWN :: int where "RGB565_BROWN = 0xBC40"

definition ips200_set_region :: "int \<Rightarrow> int \<Rightarrow> int \<Rightarrow> int \<Rightarrow> unit option" where
  "ips200_set_region x1 y1 x2 y2 =
    (if x1 < ips200_x_max \<and> y1 < ips200_y_max \<and> x2 < ips200_x_max \<and> y2 < ips200_y_max then Some () else None)"

text \<open>The coordinates are \<open>uint16\<close>: the conversion is that of the call.\<close>

definition ips200_draw_point :: "int \<Rightarrow> int \<Rightarrow> int \<Rightarrow> pixel option" where
  "ips200_draw_point x y c =
    (if u16 x < ips200_x_max \<and> u16 y < ips200_y_max then
       do { _ \<leftarrow> ips200_set_region (u16 x) (u16 y) (u16 x) (u16 y); Some (u16 x, u16 y, c) }
     else None)"

section \<open>Lines\<close>

text \<open>
  One loop of \<open>ips200_draw_line\<close>: the leading coordinate runs through the list, the other one is
  computed anew from each value of it after the first.
\<close>

definition walk :: "int \<Rightarrow> int \<Rightarrow> int list" where
  "walk a b = (if a < b then [a..b] else downto a b)"

fun line_walk :: "(int \<Rightarrow> int \<Rightarrow> pixel option) \<Rightarrow> (int \<Rightarrow> int option) \<Rightarrow> int \<Rightarrow> int list \<Rightarrow> pixel list option" where
  "line_walk draw other s [] = Some []"
| "line_walk draw other s [p] = do { a \<leftarrow> draw p s; Some [a] }"
| "line_walk draw other s (p # q # ps) =
     do { a \<leftarrow> draw p s; s \<leftarrow> other q; as \<leftarrow> line_walk draw other s (q # ps); Some (a # as) }"

definition ips200_draw_line :: "int \<Rightarrow> int \<Rightarrow> int \<Rightarrow> int \<Rightarrow> int \<Rightarrow> pixel list option" where
  "ips200_draw_line x_start y_start x_end y_end color =
    (let x_start = u16 x_start; y_start = u16 y_start; x_end = u16 x_end; y_end = u16 y_end in
     if x_start < ips200_x_max \<and> y_start < ips200_y_max \<and> x_end < ips200_x_max \<and> y_end < ips200_y_max then
       if x_start = x_end then
         line_walk (\<lambda>y x. ips200_draw_point x y color) (\<lambda>_. Some x_start) x_start (walk y_start y_end)
       else
         let temp_rate = fdiv (i2f (y_start - y_end)) (i2f (x_start - x_end));
             temp_b = fsub (i2f y_start) (fmul (i2f x_start) temp_rate)
         in if \<bar>y_start - y_end\<bar> > \<bar>x_start - x_end\<bar> then
              line_walk (\<lambda>y x. ips200_draw_point x y color)
                (\<lambda>y. map_option u16 (f2s16 (fdiv (fsub (i2f y) temp_b) temp_rate))) x_start (walk y_start y_end)
            else
              line_walk (\<lambda>x y. ips200_draw_point x y color)
                (\<lambda>x. map_option u16 (f2s16 (fadd (fmul (i2f x) temp_rate) temp_b))) y_start (walk x_start x_end)
     else None)"

section \<open>Grey images\<close>

text \<open>The colour of a grey value; a \<open>threshold\<close> other than 0 makes the picture black and white.\<close>

definition gray_colour :: "int \<Rightarrow> int \<Rightarrow> int" where
  "gray_colour threshold temp =
    (if threshold = 0 then
       u16 (push_bit 11 (0x1F AND drop_bit 3 temp) OR push_bit 5 (0x3F AND drop_bit 2 temp) OR (0x1F AND drop_bit 3 temp))
     else if temp < threshold then RGB565_BLACK else RGB565_WHITE)"

definition gray_row :: "int \<Rightarrow> int \<Rightarrow> int list \<Rightarrow> int \<Rightarrow> int \<Rightarrow> int \<Rightarrow> int \<Rightarrow> int \<Rightarrow> int \<Rightarrow> pixel list option" where
  "gray_row x y img width height dis_width dis_height threshold j =
    (let image_temp = u32 (u32 (j * height) div dis_height * width)
     in those (map (\<lambda>i. do {
          temp \<leftarrow> rd img (image_temp + u32 (i * width) div dis_width);
          Some (x + i, y + j, gray_colour threshold temp) }) [0..dis_width - 1]))"

definition ips200_show_gray_image :: "int \<Rightarrow> int \<Rightarrow> int list \<Rightarrow> int \<Rightarrow> int \<Rightarrow> int \<Rightarrow> int \<Rightarrow> int \<Rightarrow> pixel list option" where
  "ips200_show_gray_image x y img width height dis_width dis_height threshold =
    (if x < ips200_x_max \<and> y < ips200_y_max then
       do {
         _ \<leftarrow> ips200_set_region x y (u16 (x + dis_width - 1)) (u16 (y + dis_height - 1));
         rows \<leftarrow> those (map (gray_row x y img width height dis_width dis_height threshold) [0..dis_height - 1]);
         Some (concat rows)
       }
     else None)"

section \<open>Points and straight lines\<close>

definition on_screen :: "pixel list \<Rightarrow> bool" where
  "on_screen ps \<longleftrightarrow> (\<forall>(x, y, c) \<in> set ps. 0 \<le> x \<and> x < ips200_x_max \<and> 0 \<le> y \<and> y < ips200_y_max)"

lemmas screen_size = ips200_x_max_def ips200_y_max_def

lemma draw_point_ok:
  "0 \<le> x \<Longrightarrow> x < 320 \<Longrightarrow> 0 \<le> y \<Longrightarrow> y < 240 \<Longrightarrow> ips200_draw_point x y c = Some (x, y, c)"
  by (simp add: ips200_draw_point_def ips200_set_region_def screen_size u16_id)

lemma walk_bounds: "p \<in> set (walk a b) \<Longrightarrow> min a b \<le> p \<and> p \<le> max a b"
  by (auto simp: walk_def split: if_splits)

lemma walk_start: "\<exists>ps. walk a b = a # ps"
proof (cases "a < b")
  case True
  then show ?thesis by (simp add: walk_def upto_rec1)
next
  case False
  then show ?thesis by (simp add: walk_def upto_rec2)
qed

text \<open>
  A walk whose every computed coordinate is acceptable draws one pixel for each leading coordinate.
\<close>

lemma line_walk_ok:
  assumes "\<And>q. q \<in> set (tl ps) \<Longrightarrow> \<exists>s. other q = Some s \<and> good q s"
    and "ps \<noteq> [] \<Longrightarrow> good (hd ps) s"
    and "\<And>p s. p \<in> set ps \<Longrightarrow> good p s \<Longrightarrow> \<exists>a. draw p s = Some a \<and> lead a = p \<and> R a"
  shows "\<exists>as. line_walk draw other s ps = Some as \<and> map lead as = ps \<and> (\<forall>a \<in> set as. R a)"
  using assms
proof (induction draw other s ps rule: line_walk.induct)
  case (1 draw other s)
  then show ?case by simp
next
  case (2 draw other s p)
  then show ?case by fastforce
next
  case (3 draw other s p q ps)
  from "3.prems"(1) [of q] obtain t where t: "other q = Some t" "good q t" by auto
  have "\<exists>a. draw p s = Some a \<and> lead a = p \<and> R a" by (rule "3.prems"(3)) (use "3.prems"(2) in simp_all)
  then obtain a where a: "draw p s = Some a" "lead a = p" "R a" by blast
  have "\<exists>as. line_walk draw other t (q # ps) = Some as \<and> map lead as = q # ps \<and> (\<forall>a \<in> set as. R a)"
    by (rule "3.IH" [OF a(1) t(1)]) (use "3.prems" t in auto)
  then obtain as where "line_walk draw other t (q # ps) = Some as" "map lead as = q # ps" "\<forall>a \<in> set as. R a"
    by (elim exE conjE)
  with a t show ?case by (intro exI [of _ "a # as"]) simp
qed

section \<open>How close the computed coordinates are\<close>

text \<open>
  Each operation of the loop rounds to binary32.  For end points on the screen the errors sum to less than a
  thousandth of a pixel, so the truncated coordinate stays on the screen and within one pixel of the line.
\<close>

lemma f32_err:
  assumes "\<bar>x\<bar> < pow2 k" and "- 126 < k" and "k \<le> 120"
  shows "\<exists>e. f32 x = Fin (x + e) \<and> \<bar>e\<bar> \<le> pow2 (k - 25)"
proof -
  have "pow2 k \<le> mx32" using assms(3) by (intro pow2_le_mx32) simp
  then have "f32 x = Fin (rnd32 x)" using assms(1) by (intro f32_Fin) linarith
  moreover have "\<bar>rnd32 x - x\<bar> \<le> pow2 (k - 25)"
    using rnd_error [OF assms(1,2), of 24] by (simp add: rnd32_def algebra_simps)
  ultimately show ?thesis by (intro exI [of _ "rnd32 x - x"]) simp
qed

lemma float_Fin:
  "fadd (Fin u) (Fin w) = f32 (u + w)" "fsub (Fin u) (Fin w) = f32 (u - w)" "fmul (Fin u) (Fin w) = f32 (u * w)"
  "w \<noteq> 0 \<Longrightarrow> fdiv (Fin u) (Fin w) = f32 (u / w)"
  by (simp_all add: fadd_def fsub_def fl_sub_def fmul_def fdiv_def)

lemma trunc_near:
  assumes "\<bar>v - of_int p / of_int q\<bar> \<le> (1 / 1000 :: rat)" and "q \<noteq> 0" and "\<bar>q\<bar> < 500"
    and "of_int lo \<le> of_int p / (of_int q :: rat)" and "of_int p / of_int q \<le> (of_int hi :: rat)" and "0 \<le> lo"
  shows "0 \<le> rtrunc v \<and> rtrunc v \<le> hi \<and> \<bar>rtrunc v * q - p\<bar> \<le> \<bar>q\<bar>"
proof -
  let ?t = "of_int p / of_int q :: rat"
  let ?n = "rtrunc v"
  have "0 \<le> (of_int lo :: rat)" using assms(6) by simp
  then have v: "v \<le> of_int hi + 1 / 1000" "- 1 / 1000 \<le> v" using assms(1,4,5) by linarith+
  have hi: "0 \<le> hi" using \<open>0 \<le> of_int lo\<close> assms(4,5) by (metis of_int_0_le_iff order_trans)
  have n: "0 \<le> ?n" "?n \<le> hi" "\<bar>of_int ?n - v\<bar> < 1"
  proof -
    show "0 \<le> ?n" using v(2) by (simp add: rtrunc_def le_ceiling_iff)
    show "?n \<le> hi" using v(1) hi by (auto simp: rtrunc_def ceiling_le_iff floor_le_iff)
    show "\<bar>of_int ?n - v\<bar> < 1" by (simp add: rtrunc_def) linarith
  qed
  have "\<bar>of_int ?n - ?t\<bar> < 1001 / 1000" using n(3) assms(1) by linarith
  then have "\<bar>(of_int ?n - ?t) * of_int q\<bar> < 1001 / 1000 * of_int \<bar>q\<bar>"
    using assms(2) by (simp add: abs_mult)
  moreover have "(of_int ?n - ?t) * of_int q = of_int (?n * q - p)" using assms(2) by (simp add: field_simps)
  ultimately have "of_int \<bar>?n * q - p\<bar> < (of_int \<bar>q\<bar> + of_int \<bar>q\<bar> / 1000 :: rat)" by (simp add: algebra_simps)
  moreover have "of_int \<bar>q\<bar> / 1000 < (1 :: rat)" using assms(3) by simp
  ultimately have "of_int \<bar>?n * q - p\<bar> < (of_int (\<bar>q\<bar> + 1) :: rat)" by simp
  then have "\<bar>?n * q - p\<bar> < \<bar>q\<bar> + 1" by (simp only: of_int_less_iff)
  then have "\<bar>?n * q - p\<bar> \<le> \<bar>q\<bar>" by linarith
  with n show ?thesis by simp
qed


lemma shallow_near:
  fixes x x0 y0 dx dy :: int
  assumes "dx \<noteq> 0" and "\<bar>dy\<bar> \<le> \<bar>dx\<bar>" and "0 \<le> x0" and "x0 < 320" and "0 \<le> y0" and "y0 < 240" and "0 \<le> x" and "x < 320"
    and "\<bar>dx\<bar> < 320"
  defines "rate \<equiv> fdiv (i2f dy) (i2f dx)"
  defines "b \<equiv> fsub (i2f y0) (fmul (i2f x0) rate)"
  shows "\<exists>v. fadd (fmul (i2f x) rate) b = Fin v \<and> \<bar>v - (of_int y0 + of_int (x - x0) * (of_int dy / of_int dx))\<bar> \<le> 1 / 1000"
proof -
  let ?r = "of_int dy / of_int dx :: rat"
  have r: "\<bar>?r\<bar> \<le> 1" using assms(1,2) by (simp add: field_simps flip: of_int_abs)
  have fin: "i2f dy = Fin (of_int dy)" "i2f dx = Fin (of_int dx)" "i2f x = Fin (of_int x)" "i2f x0 = Fin (of_int x0)"
    "i2f y0 = Fin (of_int y0)" using assms by (auto intro!: i2f_exact)
  obtain e1 where e1: "f32 ?r = Fin (?r + e1)" "\<bar>e1\<bar> \<le> 1 / 16777216"
    using f32_err [of ?r 1] r by (auto simp: pow2_def)
  let ?q = "?r + e1"
  have rate: "rate = Fin ?q" using e1(1) assms(1) by (simp add: rate_def fin fdiv_def)
  have q: "\<bar>?q\<bar> \<le> 1 + 1 / 16777216" using r e1(2) by linarith
  have mul: "\<bar>of_int k * ?q\<bar> \<le> 320" if "0 \<le> k" "k < 320" for k :: int
  proof -
    have "\<bar>of_int k * ?q\<bar> \<le> 319 * (1 + 1 / 16777216)"
      using that q by (simp only: abs_mult) (intro mult_mono, auto)
    then show ?thesis by simp
  qed
  define m0 m :: rat where "m0 = of_int x0 * ?q" and "m = of_int x * ?q"
  have m: "\<bar>m0\<bar> \<le> 320" "\<bar>m\<bar> \<le> 320" using mul assms(3,4,7,8) by (simp_all add: m0_def m_def)
  have y: "0 \<le> (of_int y0 :: rat)" "of_int y0 \<le> (239 :: rat)" using assms(5,6) by simp_all
  have err: "\<exists>e. f32 z = Fin (z + e) \<and> \<bar>e\<bar> \<le> 1 / 2 ^ j" if "\<bar>z\<bar> < 2 ^ (25 - j)" "5 \<le> j" "j \<le> 25" for z j
  proof -
    have "nat (25 - int j) = 25 - j" by simp
    then show ?thesis using f32_err [of z "25 - int j"] that by (simp add: pow2_def)
  qed
  obtain e2 where e2: "f32 m0 = Fin (m0 + e2)" "\<bar>e2\<bar> \<le> 1 / 2 ^ 16" using err [of m0 16] m by auto
  have e2': "\<bar>e2\<bar> \<le> 1 / 65536" using e2(2) by simp
  obtain e3 where e3: "f32 (of_int y0 - (m0 + e2)) = Fin (of_int y0 - (m0 + e2) + e3)" "\<bar>e3\<bar> \<le> 1 / 2 ^ 15"
    using err [of "of_int y0 - (m0 + e2)" 15] m(1) y e2' by fastforce
  have e3': "\<bar>e3\<bar> \<le> 1 / 32768" using e3(2) by simp
  obtain e4 where e4: "f32 m = Fin (m + e4)" "\<bar>e4\<bar> \<le> 1 / 2 ^ 16" using err [of m 16] m by auto
  have e4': "\<bar>e4\<bar> \<le> 1 / 65536" using e4(2) by simp
  let ?s = "(m + e4) + (of_int y0 - (m0 + e2) + e3)"
  have "\<bar>?s\<bar> < 2048" using m y e2' e3' e4' by linarith
  then obtain e5 where e5: "f32 ?s = Fin (?s + e5)" "\<bar>e5\<bar> \<le> 1 / 2 ^ 14" using err [of ?s 14] by auto
  have e5': "\<bar>e5\<bar> \<le> 1 / 16384" using e5(2) by simp
  have "fadd (fmul (i2f x) rate) b = Fin (?s + e5)"
    by (simp only: b_def rate fin float_Fin m0_def [symmetric] m_def [symmetric] e2(1) e3(1) e4(1) e5(1))
  moreover have "\<bar>(?s + e5) - (of_int y0 + of_int (x - x0) * ?r)\<bar> \<le> 1 / 1000"
  proof -
    have "\<bar>of_int (x - x0) * e1\<bar> \<le> 320 * (1 / 16777216)"
      using assms(3,4,7,8) e1(2) by (simp only: abs_mult) (intro mult_mono, auto)
    then have "\<bar>of_int (x - x0) * e1\<bar> \<le> 1 / 32768" by simp
    moreover have "m - m0 = of_int (x - x0) * ?r + of_int (x - x0) * e1"
      by (simp only: m_def m0_def of_int_diff left_diff_distrib distrib_left)
    ultimately show ?thesis using e2' e3' e4' e5' by linarith
  qed
  ultimately show ?thesis by blast
qed


lemma steep_near:
  fixes y x0 y0 dx dy :: int
  assumes "dx \<noteq> 0" and "\<bar>dx\<bar> < \<bar>dy\<bar>" and "0 \<le> x0" and "x0 < 320" and "0 \<le> y0" and "y0 < 240" and "0 \<le> y" and "y < 240"
    and "\<bar>dy\<bar> < 240"
  defines "rate \<equiv> fdiv (i2f dy) (i2f dx)"
  defines "b \<equiv> fsub (i2f y0) (fmul (i2f x0) rate)"
  shows "\<exists>v. fdiv (fsub (i2f y) b) rate = Fin v \<and> \<bar>v - (of_int x0 + of_int (y - y0) * (of_int dx / of_int dy))\<bar> \<le> 1 / 1000"
proof -
  define r :: rat where "r = of_int dy / of_int dx"
  have r: "1 < \<bar>r\<bar>" "\<bar>r\<bar> < 240"
  proof -
    have "0 < \<bar>dx\<bar>" using assms(1) by simp
    then have "(1 :: rat) \<le> of_int \<bar>dx\<bar>" by (simp only: of_int_1_le_iff) 
    moreover have "of_int \<bar>dx\<bar> < (of_int \<bar>dy\<bar> :: rat)" "of_int \<bar>dy\<bar> < (240 :: rat)" using assms(2,9) by (simp_all del: of_int_abs)
    ultimately show "1 < \<bar>r\<bar>" "\<bar>r\<bar> < 240" by (simp_all add: r_def abs_divide divide_less_eq less_divide_eq)
  qed
  define k where "k = ilog2 \<bar>r\<bar> + 1"
  define K where "K = pow2 k"
  have K: "\<bar>r\<bar> < K" "K \<le> 2 * \<bar>r\<bar>"
    using ilog2_bounds [of "\<bar>r\<bar>"] r(1) by (auto simp: K_def k_def pow2_add pow2_def [of 1])
  have k: "0 < k" "k \<le> 8"
  proof -
    have "pow2 0 < pow2 k" using K(1) r(1) by (simp add: K_def pow2_def [of 0])
    then show "0 < k" by simp
    have "\<bar>r\<bar> < pow2 8" using r(2) by (simp add: pow2_def)
    then have "ilog2 \<bar>r\<bar> < 8" using r(1) by (intro ilog2_less) auto
    then show "k \<le> 8" by (simp add: k_def)
  qed
  have err: "\<exists>e. f32 z = Fin (z + e) \<and> \<bar>e\<bar> \<le> K / 2 ^ j" if "\<bar>z\<bar> < K * 2 ^ (25 - j)" "5 \<le> j" "j \<le> 25" for z j
  proof -
    have "pow2 (25 - int j) = 2 ^ (25 - j)" using that(3) by (simp add: pow2_def nat_diff_distrib')
    then have "\<bar>z\<bar> < pow2 (k + (25 - int j))" using that(1) by (simp only: pow2_add K_def)
    moreover have "pow2 (k + (25 - int j) - 25) = K / 2 ^ j" by (simp add: K_def pow2_diff pow2_nat)
    ultimately show ?thesis using f32_err [of z "k + (25 - int j)"] k that(2,3) by simp
  qed
  have K1: "1 < K" using r(1) K(1) by linarith
  obtain e1 where e1: "f32 r = Fin (r + e1)" "\<bar>e1\<bar> \<le> K / 2 ^ 25"
    using f32_err [of r k] K(1) k by (auto simp: K_def pow2_diff pow2_def [of 25])
  have e1': "\<bar>e1\<bar> \<le> K / 33554432" using e1(2) by simp
  define q where "q = r + e1"
  have q: "\<bar>q\<bar> \<le> K + K / 33554432" "49 / 100 * K \<le> \<bar>q\<bar>" "q \<noteq> 0"
    unfolding q_def using K e1' K1 by linarith+
  have fin: "i2f dy = Fin (of_int dy)" "i2f dx = Fin (of_int dx)" "i2f y = Fin (of_int y)" "i2f x0 = Fin (of_int x0)"
    "i2f y0 = Fin (of_int y0)" using assms by (auto intro!: i2f_exact)
  have rate: "rate = Fin q" using e1(1) assms(1) by (simp add: rate_def fin float_Fin r_def q_def)
  define m0 where "m0 = of_int x0 * q"
  have m0: "\<bar>m0\<bar> \<le> 320 * K"
  proof -
    have "\<bar>m0\<bar> \<le> 319 * (K + K / 33554432)"
      unfolding m0_def abs_mult using assms(3,4) q(1) by (intro mult_mono) auto
    then show ?thesis using K1 by simp
  qed
  have y: "0 \<le> (of_int y0 :: rat)" "of_int y0 \<le> (239 :: rat)" "0 \<le> (of_int y :: rat)" "of_int y \<le> (239 :: rat)"
    using assms(5-8) by simp_all
  obtain e2 where e2: "f32 m0 = Fin (m0 + e2)" "\<bar>e2\<bar> \<le> K / 2 ^ 16" using err [of m0 16] m0 K1 by auto
  have e2': "\<bar>e2\<bar> \<le> K / 65536" using e2(2) by simp
  have "\<bar>of_int y0 - (m0 + e2)\<bar> < K * 1024" using m0 y e2' K1 by linarith
  then obtain e3 where e3: "f32 (of_int y0 - (m0 + e2)) = Fin (of_int y0 - (m0 + e2) + e3)" "\<bar>e3\<bar> \<le> K / 2 ^ 15"
    using err [of "of_int y0 - (m0 + e2)" 15] by auto
  have e3': "\<bar>e3\<bar> \<le> K / 32768" using e3(2) by simp
  let ?b = "of_int y0 - (m0 + e2) + e3"
  have "\<bar>of_int y - ?b\<bar> < K * 1024" using m0 y e2' e3' K1 by linarith
  then obtain e4 where e4: "f32 (of_int y - ?b) = Fin (of_int y - ?b + e4)" "\<bar>e4\<bar> \<le> K / 2 ^ 15"
    using err [of "of_int y - ?b" 15] by auto
  have e4': "\<bar>e4\<bar> \<le> K / 32768" using e4(2) by simp
  define e where "e = e2 - e3 + e4"
  define w where "w = (of_int y - ?b + e4) / q"
  have w: "w = of_int x0 + of_int (y - y0) / q + e / q"
    using q(3) by (simp add: w_def m0_def e_def field_simps)
  have e: "\<bar>e / q\<bar> \<le> 2 / 10000"
  proof -
    have "\<bar>e\<bar> \<le> K * (8 / 100000)" unfolding e_def using e2' e3' e4' K1 by linarith
    then have "\<bar>e\<bar> \<le> 2 / 10000 * \<bar>q\<bar>" using q(2) K1 by linarith
    then show ?thesis using q(3) by (simp add: abs_divide divide_le_eq)
  qed
  have d: "\<bar>of_int (y - y0) / q - of_int (y - y0) / r\<bar> \<le> 1 / 10000"
  proof -
    have "49 / 100 * K * 1 \<le> \<bar>q\<bar> * \<bar>r\<bar>" using q(2) r(1) K1 by (intro mult_mono) auto
    moreover have "\<bar>of_int (y - y0)\<bar> * \<bar>e1\<bar> \<le> 240 * (K / 33554432)"
      using y e1' by (intro mult_mono) auto
    ultimately have "\<bar>of_int (y - y0)\<bar> * \<bar>e1\<bar> \<le> 1 / 10000 * (\<bar>q\<bar> * \<bar>r\<bar>)" using K1 by linarith
    then have "\<bar>of_int (y - y0) * e1 / (q * r)\<bar> \<le> 1 / 10000"
      using q(3) r(1) by (simp add: abs_mult divide_le_eq)
    moreover have "of_int (y - y0) / q - of_int (y - y0) / r = - (of_int (y - y0) * e1 / (q * r))"
    proof -
      have "e1 = q - r" "r \<noteq> 0" using r(1) by (auto simp: q_def)
      then show ?thesis using q(3) by (simp only:) (simp add: field_simps)
    qed
    ultimately show ?thesis by simp
  qed
  have t: "of_int (y - y0) / r = of_int (y - y0) * (of_int dx / of_int dy)" by (simp add: r_def)
  have "\<bar>of_int (y - y0) / r\<bar> \<le> 240"
  proof -
    have "\<bar>of_int (y - y0)\<bar> \<le> 240 * \<bar>r\<bar>" using y r(1) by simp
    then show ?thesis using r(1) by (auto simp: abs_divide divide_le_eq)
  qed
  moreover have "0 \<le> (of_int x0 :: rat)" "of_int x0 \<le> (319 :: rat)" using assms(3,4) by simp_all
  ultimately have "\<bar>w\<bar> < 1024" using w e d by linarith
  then obtain e5 where e5: "f32 w = Fin (w + e5)" "\<bar>e5\<bar> \<le> 1 / 32768"
    using f32_err [of w 10] by (auto simp: pow2_def)
  have "fdiv (fsub (i2f y) b) rate = Fin (w + e5)"
    using q(3) by (simp add: b_def rate fin float_Fin m0_def [symmetric] e2(1) e3(1) e4(1) w_def [symmetric] e5(1))
  moreover have "\<bar>(w + e5) - (of_int x0 + of_int (y - y0) * (of_int dx / of_int dy))\<bar> \<le> 1 / 1000"
    using w e d e5(2) t by linarith
  ultimately show ?thesis by blast
qed


lemma interpolated:
  fixes a b p u v hi :: int
  assumes "a \<noteq> b" and "min a b \<le> p" and "p \<le> max a b" and "0 \<le> u" and "u \<le> hi" and "0 \<le> v" and "v \<le> hi"
  shows "0 \<le> (of_int u + of_int (p - a) * (of_int (u - v) / of_int (a - b)) :: rat) \<and>
    of_int u + of_int (p - a) * (of_int (u - v) / of_int (a - b)) \<le> (of_int hi :: rat)"
proof -
  define t :: rat where "t = of_int (p - a) / of_int (b - a)"
  have t: "0 \<le> t" "t \<le> 1"
    using assms(1-3) by (cases "a < b"; auto simp: t_def zero_le_divide_iff divide_le_eq)+
  have eq: "of_int u + of_int (p - a) * (of_int (u - v) / of_int (a - b)) = (1 - t) * of_int u + t * of_int v"
  proof -
    have "of_int (u - v) / of_int (a - b) = (of_int (v - u) / of_int (b - a) :: rat)"
      by (metis minus_diff_eq minus_divide_divide of_int_minus)
    moreover have "(1 - t) * of_int u + t * of_int v = of_int u + t * of_int (v - u)" by (simp add: algebra_simps)
    ultimately show ?thesis by (simp add: t_def)
  qed
  have "(1 - t) * of_int u \<le> (1 - t) * of_int hi" "t * of_int v \<le> t * of_int hi"
    using t assms(5,7) by (auto intro!: mult_left_mono)
  then have "(1 - t) * of_int u + t * of_int v \<le> of_int hi" by (simp add: algebra_simps)
  moreover have "0 \<le> (1 - t) * of_int u + t * of_int v" using t assms(4,6) by simp
  ultimately show ?thesis by (simp only: eq)
qed

lemma line_coord:
  fixes a b p u v hi :: int
  assumes "\<bar>w - (of_int u + of_int (p - a) * (of_int (u - v) / of_int (a - b)))\<bar> \<le> (1 / 1000 :: rat)"
    and "a \<noteq> b" and "\<bar>a - b\<bar> < 500" and "min a b \<le> p" and "p \<le> max a b" and "0 \<le> u" and "u \<le> hi" and "0 \<le> v" and "v \<le> hi" and "hi < 32768"
  shows "\<exists>s. map_option u16 (f2s16 (Fin w)) = Some s \<and> 0 \<le> s \<and> s \<le> hi \<and> \<bar>(s - u) * (b - a) - (p - a) * (v - u)\<bar> \<le> \<bar>b - a\<bar>"
proof -
  let ?num = "u * (a - b) + (p - a) * (u - v)"
  have eq: "of_int u + of_int (p - a) * (of_int (u - v) / of_int (a - b)) = (of_int ?num / of_int (a - b) :: rat)"
    using assms(2) by (simp add: field_simps)
  have "0 \<le> rtrunc w \<and> rtrunc w \<le> hi \<and> \<bar>rtrunc w * (a - b) - ?num\<bar> \<le> \<bar>a - b\<bar>"
    using assms(1-3) interpolated [OF assms(2,4-9)] unfolding eq by (intro trunc_near [where lo = 0]) auto
  moreover have "rtrunc w * (a - b) - ?num = - ((rtrunc w - u) * (b - a) - (p - a) * (v - u))" by (simp add: algebra_simps)
  ultimately show ?thesis
    using assms(10) by (intro exI [of _ "rtrunc w"]) (auto simp: u16_id Let_def abs_minus_commute)
qed

section \<open>A line on the screen\<close>

text \<open>
  One line on the screen: the leading coordinates are those of the walk, and every pixel lies within one
  pixel of the line through the end points, on the screen.
\<close>

definition near_line :: "int \<Rightarrow> int \<Rightarrow> int \<Rightarrow> int \<Rightarrow> int \<Rightarrow> pixel \<Rightarrow> bool" where
  "near_line x0 y0 x1 y1 c a = (case a of (x, y, k) \<Rightarrow> k = c \<and> 0 \<le> x \<and> x < ips200_x_max \<and> 0 \<le> y \<and> y < ips200_y_max \<and>
     \<bar>(y - y0) * (x1 - x0) - (x - x0) * (y1 - y0)\<bar> \<le> max \<bar>x1 - x0\<bar> \<bar>y1 - y0\<bar>)"

lemma hd_walk: "hd (walk a b) = a"
  using walk_start [of a b] by auto

lemma draw_line_near:
  assumes "0 \<le> x0" "x0 < 320" "0 \<le> y0" "y0 < 240" "0 \<le> x1" "x1 < 320" "0 \<le> y1" "y1 < 240"
  shows "\<exists>as. ips200_draw_line x0 y0 x1 y1 c = Some as \<and>
    (if x0 = x1 \<or> \<bar>x1 - x0\<bar> < \<bar>y1 - y0\<bar> then map (fst \<circ> snd) as = walk y0 y1 else map fst as = walk x0 x1) \<and>
    (\<forall>a \<in> set as. near_line x0 y0 x1 y1 c a)"
proof -
  let ?rate = "fdiv (i2f (y0 - y1)) (i2f (x0 - x1))"
  let ?b = "fsub (i2f y0) (fmul (i2f x0) ?rate)"
  have u: "u16 x0 = x0" "u16 y0 = y0" "u16 x1 = x1" "u16 y1 = y1" using assms by (simp_all add: u16_id)
  note line = ips200_draw_line_def u screen_size Let_def assms
  note mem = list.set_sel(2) walk_bounds
  consider (vertical) "x0 = x1" | (steep) "x0 \<noteq> x1" "\<bar>x1 - x0\<bar> < \<bar>y1 - y0\<bar>" | (shallow) "x0 \<noteq> x1" "\<not> \<bar>x1 - x0\<bar> < \<bar>y1 - y0\<bar>"
    by blast
  then show ?thesis
  proof cases
    case vertical
    have "\<exists>as. line_walk (\<lambda>y x. ips200_draw_point x y c) (\<lambda>_. Some x0) x0 (walk y0 y1) = Some as \<and>
        map (fst \<circ> snd) as = walk y0 y1 \<and> (\<forall>a \<in> set as. near_line x0 y0 x1 y1 c a)"
      by (rule line_walk_ok [where good = "\<lambda>y x. x = x0"])
        (use assms vertical in \<open>auto dest!: walk_bounds simp: draw_point_ok near_line_def screen_size\<close>)
    then show ?thesis using vertical by (simp add: line)
  next
    case steep
    let ?good = "\<lambda>y x. 0 \<le> x \<and> x \<le> 319 \<and> \<bar>(x - x0) * (y1 - y0) - (y - y0) * (x1 - x0)\<bar> \<le> \<bar>y1 - y0\<bar>"
    have other: "\<exists>s. map_option u16 (f2s16 (fdiv (fsub (i2f y) ?b) ?rate)) = Some s \<and> ?good y s"
      if "y \<in> set (tl (walk y0 y1))" for y
    proof -
      have y: "min y0 y1 \<le> y" "y \<le> max y0 y1" using that walk_start [of y0 y1] walk_bounds [of y y0 y1] by auto
      have pre: "x0 - x1 \<noteq> 0" "\<bar>x0 - x1\<bar> < \<bar>y0 - y1\<bar>" and y': "0 \<le> y" "y < 240" "\<bar>y0 - y1\<bar> < 240"
        using steep y assms by linarith+
      obtain w where "fdiv (fsub (i2f y) ?b) ?rate = Fin w"
        "\<bar>w - (of_int x0 + of_int (y - y0) * (of_int (x0 - x1) / of_int (y0 - y1)))\<bar> \<le> 1 / 1000"
        using steep_near [OF pre assms(1-4) y'] by blast
      then show ?thesis using line_coord [of w x0 y y0 x1 y1 319] steep y assms by auto
    qed
    have "\<exists>as. line_walk (\<lambda>y x. ips200_draw_point x y c) (\<lambda>y. map_option u16 (f2s16 (fdiv (fsub (i2f y) ?b) ?rate))) x0 (walk y0 y1) = Some as \<and>
        map (fst \<circ> snd) as = walk y0 y1 \<and> (\<forall>a \<in> set as. near_line x0 y0 x1 y1 c a)"
      by (rule line_walk_ok [where good = ?good, OF other])
        (use assms steep in \<open>auto dest!: walk_bounds simp: draw_point_ok near_line_def screen_size hd_walk abs_minus_commute\<close>)
    then show ?thesis using steep by (simp add: line abs_minus_commute)
  next
    case shallow
    let ?good = "\<lambda>x y. 0 \<le> y \<and> y \<le> 239 \<and> \<bar>(y - y0) * (x1 - x0) - (x - x0) * (y1 - y0)\<bar> \<le> \<bar>x1 - x0\<bar>"
    have other: "\<exists>s. map_option u16 (f2s16 (fadd (fmul (i2f x) ?rate) ?b)) = Some s \<and> ?good x s"
      if "x \<in> set (tl (walk x0 x1))" for x
    proof -
      have x: "min x0 x1 \<le> x" "x \<le> max x0 x1" using that walk_start [of x0 x1] walk_bounds [of x x0 x1] by auto
      have pre: "x0 - x1 \<noteq> 0" "\<bar>y0 - y1\<bar> \<le> \<bar>x0 - x1\<bar>" and x': "0 \<le> x" "x < 320" "\<bar>x0 - x1\<bar> < 320"
        using shallow x assms by linarith+
      obtain w where "fadd (fmul (i2f x) ?rate) ?b = Fin w"
        "\<bar>w - (of_int y0 + of_int (x - x0) * (of_int (y0 - y1) / of_int (x0 - x1)))\<bar> \<le> 1 / 1000"
        using shallow_near [OF pre assms(1-4) x'] by blast
      then show ?thesis using line_coord [of w y0 x x0 y1 x1 239] shallow x assms by auto
    qed
    have "\<exists>as. line_walk (\<lambda>x y. ips200_draw_point x y c) (\<lambda>x. map_option u16 (f2s16 (fadd (fmul (i2f x) ?rate) ?b))) y0 (walk x0 x1) = Some as \<and>
        map fst as = walk x0 x1 \<and> (\<forall>a \<in> set as. near_line x0 y0 x1 y1 c a)"
      by (rule line_walk_ok [where good = ?good, OF other])
        (use assms shallow in \<open>auto dest!: walk_bounds simp: draw_point_ok near_line_def screen_size hd_walk abs_minus_commute\<close>)
    then show ?thesis using shallow by (simp add: line abs_minus_commute)
  qed
qed

text \<open>
  C34: A line on the display is a line: between any two points of the screen \<open>ips200_draw_line\<close> succeeds and writes exactly one pixel for each
  value of the leading coordinate, in order from the start to the end, each of them on the screen, in the given colour and within one
  pixel of the ideal line, whatever the \<open>float\<close> arithmetic of slope and offset rounds.
\<close>

theorem line_drawn:
  assumes "0 \<le> x0" "x0 < 320" "0 \<le> y0" "y0 < 240" "0 \<le> x1" "x1 < 320" "0 \<le> y1" "y1 < 240"
  shows "\<exists>as. ips200_draw_line x0 y0 x1 y1 c = Some as \<and>
    (if \<bar>x1 - x0\<bar> < \<bar>y1 - y0\<bar> \<or> x0 = x1 then map (\<lambda>(x, y, k). y) as = (if y0 < y1 then [y0..y1] else downto y0 y1)
      else map (\<lambda>(x, y, k). x) as = (if x0 < x1 then [x0..x1] else downto x0 x1)) \<and>
    (\<forall>(x, y, k) \<in> set as. k = c \<and> 0 \<le> x \<and> x < 320 \<and> 0 \<le> y \<and> y < 240 \<and>
      \<bar>(y - y0) * (x1 - x0) - (x - x0) * (y1 - y0)\<bar> \<le> max \<bar>x1 - x0\<bar> \<bar>y1 - y0\<bar>)"
proof -
  have e: "map (fst \<circ> snd) as = map (\<lambda>(x, y, k). y) as" "map fst as = map (\<lambda>(x, y, k). x) as" for as :: "pixel list"
    by (auto intro!: map_cong)
  from draw_line_near [OF assms, of c] obtain as where a: "ips200_draw_line x0 y0 x1 y1 c = Some as"
    "if x0 = x1 \<or> \<bar>x1 - x0\<bar> < \<bar>y1 - y0\<bar> then map (fst \<circ> snd) as = walk y0 y1 else map fst as = walk x0 x1"
    "\<forall>a \<in> set as. near_line x0 y0 x1 y1 c a" by blast
  show ?thesis
    by (rule exI [of _ as]) (use a in \<open>auto simp: e near_line_def walk_def screen_size split: if_splits\<close>)
qed

lemma line_drawn_witness:
  "\<exists>as. ips200_draw_line 300 10 20 200 RGB565_RED = Some as \<and> map (\<lambda>(x, y, k). x) as = downto 300 20"
  using line_drawn [of 300 10 20 200 RGB565_RED] by (auto simp del: upto_rec_numeral)

section \<open>An image at its own size\<close>

text \<open>Shown at its own size on the screen, an image is drawn pixel by pixel, row by row.\<close>

lemma gray_image_own_size:
  assumes "0 \<le> x" and "0 < w" and "x + w \<le> 320" and "0 \<le> y" and "0 < h" and "y + h \<le> 240" and "w * h \<le> int (length img)"
  shows "ips200_show_gray_image x y img w h w h threshold =
    Some (concat (map (\<lambda>j. map (\<lambda>i. (x + i, y + j, gray_colour threshold (img ! nat (j * w + i)))) [0..w - 1]) [0..h - 1]))"
proof -
  have row: "gray_row x y img w h w h threshold j =
      Some (map (\<lambda>i. (x + i, y + j, gray_colour threshold (img ! nat (j * w + i)))) [0..w - 1])" if j: "j \<in> set [0..h - 1]" for j
  proof -
    have j': "0 \<le> j" "j < h" using j by auto
    have small: "j * h \<le> 240 * 240" "j * w \<le> 240 * 320" by (rule mult_mono; use j' assms in simp)+
    have base: "u32 (u32 (j * h) div h * w) = j * w"
      using small j' assms by (simp add: u32_id)
    show ?thesis
      unfolding gray_row_def Let_def
    proof (rule those_map_Some)
      fix i assume i: "i \<in> set [0..w - 1]"
      then have i': "0 \<le> i" "i < w" by auto
      have "i * w \<le> 320 * 320" by (rule mult_mono) (use i' assms in simp_all)
      then have "u32 (i * w) div w = i" using i' assms by (simp add: u32_id)
      moreover have "j * w + i < w * h"
      proof -
        have "j * w + i < (j + 1) * w" using i' by (simp add: algebra_simps)
        also have "\<dots> \<le> h * w" using j' assms by (intro mult_right_mono) auto
        finally show ?thesis by (simp add: mult.commute)
      qed
      ultimately show "do { temp \<leftarrow> rd img (u32 (u32 (j * h) div h * w) + u32 (i * w) div w); Some (x + i, y + j, gray_colour threshold temp) } =
          Some (x + i, y + j, gray_colour threshold (img ! nat (j * w + i)))"
        unfolding base using i' j' assms by simp
    qed
  qed
  have "those (map (gray_row x y img w h w h threshold) [0..h - 1]) =
      Some (map (\<lambda>j. map (\<lambda>i. (x + i, y + j, gray_colour threshold (img ! nat (j * w + i)))) [0..w - 1]) [0..h - 1])"
    by (rule those_map_Some) (rule row)
  then show ?thesis
    using assms by (simp add: ips200_show_gray_image_def ips200_set_region_def screen_size u16_id)
qed

end
