(* ===== verification/NumText.thy ===== *)
theory NumText
  imports Floats
begin

text \<open>
  Numbers as text: decimal numerals, and how the display driver writes an integer or a \<open>double\<close> into a field of characters
  (\<open>libraries/zf_common/zf_common_function.c\<close>, \<open>ips200_show_int\<close> and \<open>ips200_show_float\<close> of \<open>zf_device_ips200.c\<close>).  A character
  buffer is a list of its bytes; a write outside it, also outside the local digit buffers, is \<open>None\<close>.
\<close>

section \<open>Numerals\<close>

definition is_digit :: "char \<Rightarrow> bool" where
  "is_digit c \<longleftrightarrow> 48 \<le> (of_char c :: nat) \<and> (of_char c :: nat) \<le> 57"

definition digits :: "string \<Rightarrow> int" where
  "digits s = foldl (\<lambda>v c. 10 * v + (of_char c - 48)) 0 s"

text \<open>The decimal numeral of an integer, as \<open>%d\<close> prints it.\<close>

fun dec_nat :: "nat \<Rightarrow> string" where
  "dec_nat n = (if n < 10 then [char_of (48 + n)] else dec_nat (n div 10) @ [char_of (48 + n mod 10)])"

definition dec :: "int \<Rightarrow> string" where
  "dec n = (if n < 0 then CHR ''-'' # dec_nat (nat (- n)) else dec_nat (nat n))"

declare dec_nat.simps [simp del]

lemma digit_char: "d < 10 \<Longrightarrow> is_digit (char_of (48 + d :: nat))" "d < 10 \<Longrightarrow> (of_char (char_of (48 + d :: nat)) :: int) = int (48 + d)"
proof -
  assume "d < 10"
  then have "(48 + d) mod 256 = 48 + d" by simp
  then have "(of_char (char_of (48 + d)) :: nat) = 48 + d" by (simp add: of_char_of)
  with \<open>d < 10\<close> show "is_digit (char_of (48 + d))" by (simp add: is_digit_def)
  show "(of_char (char_of (48 + d)) :: int) = int (48 + d)"
    using \<open>(of_char (char_of (48 + d)) :: nat) = 48 + d\<close> by (metis of_nat_of_char)
qed

lemma digit_value: "is_digit c \<Longrightarrow> 48 \<le> (of_char c :: int) \<and> (of_char c :: int) \<le> 57"
  unfolding of_nat_of_char [symmetric, where ?'a = int] by (simp add: is_digit_def)

lemma digits_snoc: "digits (s @ [c]) = 10 * digits s + (of_char c - 48)"
  by (simp add: digits_def)

lemma dec_nat_digits: "digits (dec_nat n) = int n" "list_all is_digit (dec_nat n)" "dec_nat n \<noteq> []"
proof (induction n rule: dec_nat.induct)
  case (1 n)
  { case 1
    show ?case using "1.IH"(1) digit_char(2) [of n] digit_char(2) [of "n mod 10"]
      by (cases "n < 10") (simp_all add: dec_nat.simps [of n] digits_snoc digits_def [of "[_]"], simp add: zdiv_int zmod_int) }
  { case 2
    show ?case using "1.IH"(2) digit_char(1) [of n] digit_char(1) [of "n mod 10"] by (simp add: dec_nat.simps [of n]) }
  { case 3 show ?case by (simp add: dec_nat.simps [of n]) }
qed

lemma takeWhile_digits: "takeWhile is_digit (dec_nat n) = dec_nat n" "dropWhile is_digit (dec_nat n) = []"
  using dec_nat_digits(2) [of n] by (simp_all add: list_all_iff)

lemma dec_nat_cases: obtains c s where "dec_nat n = c # s" and "is_digit c" and "list_all is_digit s"
  using dec_nat_digits(2,3) [of n] by (cases "dec_nat n") auto

lemma dec_nat_length: "n < 10 ^ k \<Longrightarrow> 0 < k \<Longrightarrow> length (dec_nat n) \<le> k"
proof (induction n arbitrary: k rule: dec_nat.induct)
  case (1 n)
  show ?case
  proof (cases "n < 10")
    case False
    with "1.prems" obtain j where j: "k = Suc j" "0 < j" by (cases k; cases "k - 1") auto
    with "1.prems"(1) have "n div 10 < 10 ^ j" by (simp add: less_mult_imp_div_less mult.commute)
    with "1.IH" [OF False this j(2)] False j(1) show ?thesis by (simp add: dec_nat.simps [of n])
  qed (use "1.prems" in \<open>simp add: dec_nat.simps [of n]\<close>)
qed

section \<open>Conversions\<close>

text \<open>The digits of a number from the last on, in a local array with \<open>room\<close> places: \<open>while\<close> and \<open>do while\<close> form.\<close>

fun digits_from :: "nat \<Rightarrow> int \<Rightarrow> int list option" where
  "digits_from room n =
     (if n = 0 then Some []
      else case room of 0 \<Rightarrow> None | Suc room \<Rightarrow> map_option (\<lambda>ds. n smod 10 # ds) (digits_from room (n sdiv 10)))"

declare digits_from.simps [simp del]

definition digits_from_one :: "nat \<Rightarrow> int \<Rightarrow> int list option" where
  "digits_from_one room n =
     (case room of 0 \<Rightarrow> None | Suc room \<Rightarrow> map_option (\<lambda>ds. n smod 10 # ds) (digits_from room (n sdiv 10)))"

text \<open>A fixed number of digits.\<close>

fun digits_fixed :: "nat \<Rightarrow> nat \<Rightarrow> int \<Rightarrow> int list option" where
  "digits_fixed room 0 n = Some []"
| "digits_fixed 0 (Suc k) n = None"
| "digits_fixed (Suc room) (Suc k) n = map_option (\<lambda>ds. n smod 10 # ds) (digits_fixed room k (n sdiv 10))"

definition ascii :: "int \<Rightarrow> char" where
  "ascii d = char_of (nat (\<bar>d\<bar> + 48))"

text \<open>\<open>*str ++ = ...\<close> for each character, from position \<open>k\<close>.\<close>

fun put_chars :: "int \<Rightarrow> string \<Rightarrow> string \<Rightarrow> string option" where
  "put_chars k [] buf = Some buf"
| "put_chars k (c # cs) buf = do { buf \<leftarrow> wr buf k c; put_chars (k + 1) cs buf }"

definition func_int_to_str :: "string \<Rightarrow> int \<Rightarrow> string option" where
  "func_int_to_str str number =
    (if number < 0 then
       do {
         str \<leftarrow> wr str 0 (CHR ''-'');
         number \<leftarrow> chk32 (- number);
         ds \<leftarrow> digits_from 16 number;
         put_chars 1 (map ascii (rev ds)) str
       }
     else if number = 0 then wr str 0 (CHR ''0'')
     else do { ds \<leftarrow> digits_from 16 number; put_chars 0 (map ascii (rev ds)) str })"

fun read_int :: "int \<Rightarrow> string \<Rightarrow> int option" where
  "read_int temp [] = Some temp"
| "read_int temp (c # str) =
     (if is_digit c then do { temp \<leftarrow> chk32 (temp * 10 + (of_char c - 48)); read_int temp str } else Some temp)"

definition func_str_to_int :: "string \<Rightarrow> int option" where
  "func_str_to_int str =
    (case str of
      [] \<Rightarrow> Some 0
    | c # s \<Rightarrow>
        if c = CHR ''-'' then do { temp \<leftarrow> read_int 0 s; chk32 (- temp) }
        else if c = CHR ''+'' then read_int 0 s else read_int 0 str)"

definition func_double_to_str :: "string \<Rightarrow> flt \<Rightarrow> nat \<Rightarrow> string option" where
  "func_double_to_str str number point_bit =
    do {
      data_int \<leftarrow> f2s32 number;
      if number = Fin 0 then put_chars 0 ''0.0'' str
      else
        do {
          (str, k) \<leftarrow> (if flt_less number (Fin 0) then do { str \<leftarrow> wr str 0 (CHR ''-''); Some (str, 1) } else Some (str, 0));
          let number = ((\<lambda>x. dmul x (i2d 10)) ^^ point_bit) (dsub number (i2d data_int));
          data_float \<leftarrow> f2s32 number;
          ds \<leftarrow> digits_from_one 12 data_int;
          str \<leftarrow> put_chars k (map ascii (rev ds)) str;
          let k = k + int (length ds);
          if point_bit \<noteq> 0 then
            do {
              str \<leftarrow> wr str k (CHR ''.'');
              if data_float = 0 then wr str (k + 1) (CHR ''0'')
              else do { ds \<leftarrow> digits_fixed 9 point_bit data_float; put_chars (k + 1) (map ascii (rev ds)) str }
            }
          else Some str
        }
    }"

section \<open>Fields of the display\<close>

text \<open>
  What the driver passes to \<open>ips200_show_string\<close>: the characters before the first zero byte.  The number is cut to its
  last \<open>num\<close> digits; the field keeps the blanks behind it.
\<close>

definition c_string :: "string \<Rightarrow> string" where
  "c_string = takeWhile (\<lambda>c. c \<noteq> CHR 0x00)"

definition blank_buffer :: "nat \<Rightarrow> nat \<Rightarrow> string" where
  "blank_buffer len n = replicate n (CHR '' '') @ replicate (len - n) (CHR 0x00)"

definition show_int_text :: "int \<Rightarrow> int \<Rightarrow> string option" where
  "show_int_text dat num =
    (if 0 < num \<and> num \<le> 10
     then map_option c_string (func_int_to_str (blank_buffer 12 (nat num + 1)) (if num < 10 then dat smod 10 ^ nat num else dat))
     else None)"

definition show_float_text :: "flt \<Rightarrow> int \<Rightarrow> int \<Rightarrow> string option" where
  "show_float_text dat num pointnum =
    (if 0 < num \<and> num \<le> 8 \<and> 0 < pointnum \<and> pointnum \<le> 6
     then do {
       d \<leftarrow> f2s32 dat;
       let dat_temp = dsub dat (dmul (i2d (d sdiv 10 ^ nat num)) (i2d (10 ^ nat num)));
       map_option c_string (func_double_to_str (blank_buffer 17 (nat num + nat pointnum + 2)) dat_temp (nat pointnum))
     }
     else None)"

section \<open>Integers\<close>

lemma ascii_digit: "0 \<le> d \<Longrightarrow> ascii d = char_of (48 + nat d)"
  by (simp add: ascii_def nat_add_distrib add.commute)

lemma digits_from_dec:
  "0 < n \<Longrightarrow> n < 10 ^ room \<Longrightarrow> \<exists>ds. digits_from room n = Some ds \<and> map ascii (rev ds) = dec_nat (nat n)"
proof (induction room arbitrary: n)
  case (Suc room)
  have m: "n smod 10 = n mod 10" "n sdiv 10 = n div 10" using Suc.prems(1) by (simp_all add: signed_modulo_int_def sdiv_nonneg)
  show ?case
  proof (cases "n < 10")
    case True
    then have "n sdiv 10 = 0" using m Suc.prems by simp
    then show ?thesis using True Suc.prems m by (simp add: digits_from.simps [of "Suc room"] digits_from.simps [of room 0] dec_nat.simps [of "nat n"] ascii_digit nat_less_iff)
  next
    case False
    then have "0 < n div 10" "n div 10 < 10 ^ room" using Suc.prems by auto
    from Suc.IH [OF this] obtain ds where ds: "digits_from room (n div 10) = Some ds" "map ascii (rev ds) = dec_nat (nat (n div 10))" by blast
    have "nat (n div 10) = nat n div 10" "nat (n mod 10) = nat n mod 10" using Suc.prems by (simp_all add: nat_div_distrib nat_mod_distrib)
    with ds False Suc.prems(1) m show ?thesis
      by (simp add: digits_from.simps [of "Suc room"] dec_nat.simps [of "nat n"] ascii_digit nat_less_iff)
  qed
qed simp

lemma put_chars_ok:
  "k + length cs \<le> length buf \<Longrightarrow> put_chars (int k) cs buf = Some (take k buf @ cs @ drop (k + length cs) buf)"
proof (induction cs arbitrary: k buf)
  case (Cons c cs)
  from Cons.prems have w: "wr buf (int k) c = Some (buf[k := c])" by (simp add: wr_def)
  have e: "int k + 1 = int (Suc k)" by simp
  have "take (Suc k) (buf[k := c]) = take k buf @ [c]" using Cons.prems by (simp add: take_Suc_conv_app_nth)
  with Cons.IH [of "Suc k" "buf[k := c]"] Cons.prems show ?case by (simp only: put_chars.simps w e bind.bind_lunit) simp
qed simp

lemma int_to_str_dec:
  assumes "- 2147483648 < n" and "n < 2147483648" and "length (dec n) \<le> length buf"
  shows "func_int_to_str buf n = Some (dec n @ drop (length (dec n)) buf)"
proof -
  have d: "\<exists>ds. digits_from 16 m = Some ds \<and> map ascii (rev ds) = dec_nat (nat m)" if "0 < m" "m < 2147483648" for m
    using digits_from_dec [of m 16] that by simp
  consider "n < 0" | "n = 0" | "0 < n" by linarith
  then show ?thesis
  proof cases
    case 1
    obtain ds where ds: "digits_from 16 (- n) = Some ds" "map ascii (rev ds) = dec_nat (nat (- n))" using d [of "- n"] assms 1 by auto
    obtain c b where b: "buf = c # b" using assms(3) 1 by (cases buf) (auto simp: dec_def)
    show ?thesis using put_chars_ok [of 1 "dec_nat (nat (- n))" "CHR ''-'' # b"] assms 1
      by (simp add: func_int_to_str_def ds wr_def b dec_def)
  next
    case 2
    have "dec 0 = ''0''" by code_simp
    then show ?thesis using assms(3) 2 by (cases buf) (simp_all add: func_int_to_str_def wr_def)
  next
    case 3
    obtain ds where ds: "digits_from 16 n = Some ds" "map ascii (rev ds) = dec_nat (nat n)" using d [of n] assms 3 by auto
    show ?thesis using put_chars_ok [of 0 "dec_nat (nat n)" buf] assms 3 by (simp add: func_int_to_str_def ds dec_def)
  qed
qed

lemma grows: "list_all is_digit s \<Longrightarrow> 0 \<le> t \<Longrightarrow> (t :: int) \<le> foldl (\<lambda>v c. 10 * v + (of_char c - 48)) t s"
proof (induction s arbitrary: t)
  case (Cons c s)
  have "48 \<le> (of_char c :: int)" using Cons.prems(1) digit_value [of c] by simp
  then have "t \<le> 10 * t + (of_char c - 48)" "0 \<le> 10 * t + (of_char c - 48)" using Cons.prems(2) by linarith+
  with Cons.IH [of "10 * t + (of_char c - 48)"] Cons.prems(1) show ?case by simp
qed simp

lemma read_int_digits:
  "list_all is_digit s \<Longrightarrow> 0 \<le> t \<Longrightarrow> foldl (\<lambda>v c. 10 * v + (of_char c - 48)) t s < 2147483648 \<Longrightarrow> r = [] \<or> \<not> is_digit (hd r) \<Longrightarrow>
     read_int t (s @ r) = Some (foldl (\<lambda>v c. 10 * v + (of_char c - 48)) t s)"
proof (induction s arbitrary: t)
  case Nil
  then show ?case by (cases r) auto
next
  case (Cons c s)
  let ?t = "10 * t + (of_char c - 48)"
  have "48 \<le> (of_char c :: int)" using Cons.prems(1) digit_value [of c] by simp
  then have t: "0 \<le> ?t" using Cons.prems(2) by simp
  have "?t \<le> foldl (\<lambda>v c. 10 * v + (of_char c - 48)) ?t s" using grows [of s ?t] Cons.prems(1) t by simp
  then have "chk32 (t * 10 + (of_char c - 48)) = Some ?t" using t Cons.prems(3) by (simp add: mult.commute)
  with Cons.IH [of ?t] Cons.prems t show ?case by simp
qed

lemma str_to_int_dec:
  assumes "- 2147483648 < n" and "n < 2147483648" and "r = [] \<or> \<not> is_digit (hd r)"
  shows "func_str_to_int (dec n @ r) = Some n"
proof -
  have m: "\<not> is_digit (CHR ''-'')" "\<not> is_digit (CHR ''+'')" by (simp_all add: is_digit_def)
  have k: "read_int 0 (dec_nat m @ r) = Some (int m)" if "m < 2147483648" for m
    using read_int_digits [of "dec_nat m" 0 r] dec_nat_digits(1,2) [of m] assms(3) that by (simp add: digits_def)
  show ?thesis
  proof (cases "n < 0")
    case True
    then show ?thesis using k [of "nat (- n)"] assms by (simp add: func_str_to_int_def dec_def nat_less_iff)
  next
    case False
    obtain c s where s: "dec_nat (nat n) = c # s" "is_digit c" by (rule dec_nat_cases)
    then have "c \<noteq> CHR ''-''" "c \<noteq> CHR ''+''" using m by auto
    then show ?thesis using k [of "nat n"] assms False s by (simp add: func_str_to_int_def dec_def nat_less_iff)
  qed
qed

lemma dec_length:
  assumes "\<bar>n\<bar> < 10 ^ k" and "0 < k"
  shows "length (dec n) \<le> k + 1"
  using dec_nat_length [of "nat \<bar>n\<bar>" k] assms by (cases "n < 0") (auto simp: dec_def nat_less_iff)

lemma dec_no_nul: "CHR 0x00 \<notin> set (dec n)"
proof -
  have "\<not> is_digit (CHR 0x00)" by (simp add: is_digit_def)
  then show ?thesis using dec_nat_digits(2) by (auto simp: dec_def list_all_iff)
qed

lemma dec_printable: "c \<in> set (dec n) \<Longrightarrow> 32 \<le> (of_char c :: int) \<and> (of_char c :: int) < 127"
  using dec_nat_digits(2) digit_value [of c] by (auto simp: dec_def list_all_iff split: if_splits)

text \<open>The number a field of \<open>num\<close> digits shows.\<close>

definition field_value :: "int \<Rightarrow> int \<Rightarrow> int" where
  "field_value dat num = (if num < 10 then dat smod 10 ^ nat num else dat)"

lemma field_range:
  assumes "0 < num" and "num \<le> 10" and "num < 10 \<or> - 2147483648 < dat \<and> dat < 2147483648"
  shows "\<bar>field_value dat num\<bar> < 10 ^ nat num \<and> \<bar>field_value dat num\<bar> < 2147483648"
proof (cases "num < 10")
  case True
  have "\<bar>dat smod 10 ^ nat num\<bar> \<le> \<bar>dat\<bar> mod 10 ^ nat num" by (simp add: signed_modulo_int_def abs_mult abs_sgn_eq)
  then have "\<bar>dat smod 10 ^ nat num\<bar> < 10 ^ nat num" by (rule order.strict_trans1 [OF _ pos_mod_bound]) simp
  moreover have "(10 :: int) ^ nat num \<le> 10 ^ 9" using True by (intro power_increasing) auto
  ultimately show ?thesis using True by (simp add: field_value_def)
next
  case False
  then have "nat num = 10" using assms by simp
  then show ?thesis using False assms by (auto simp: field_value_def)
qed

lemma show_int_dec:
  assumes "0 < num" and "num \<le> 10" and "num < 10 \<or> - 2147483648 < dat \<and> dat < 2147483648"
  shows "length (dec (field_value dat num)) \<le> nat num + 1"
    and "show_int_text dat num = Some (dec (field_value dat num) @ replicate (nat num + 1 - length (dec (field_value dat num))) (CHR '' ''))"
proof -
  define n where "n = nat num + 1"
  let ?v = "field_value dat num"
  have v: "\<bar>?v\<bar> < 10 ^ nat num" "- 2147483648 < ?v" "?v < 2147483648" using field_range [OF assms] by auto
  show l: "length (dec ?v) \<le> nat num + 1" using dec_length [OF v(1)] assms(1) by simp
  then have l: "length (dec ?v) \<le> n" by (simp add: n_def)
  have b: "blank_buffer 12 n = replicate n (CHR '' '') @ replicate (12 - n) (CHR 0x00)" "n < 12" using assms by (auto simp: blank_buffer_def n_def)
  let ?t = "dec ?v @ replicate (n - length (dec ?v)) (CHR '' '')"
  have "func_int_to_str (blank_buffer 12 n) ?v = Some (?t @ replicate (12 - n) (CHR 0x00))"
    using int_to_str_dec [OF v(2,3), of "blank_buffer 12 n"] l b by simp
  moreover have "c_string (?t @ replicate (12 - n) (CHR 0x00)) = ?t"
    using dec_no_nul [of ?v] b(2) by (simp add: c_string_def takeWhile_append)
  ultimately show "show_int_text dat num = Some (dec ?v @ replicate (nat num + 1 - length (dec ?v)) (CHR '' ''))"
    using assms by (simp add: show_int_text_def field_value_def n_def)
qed

text \<open>
  C39: The screen shows the number it is given: for every 32 bit number except the smallest and every legal field width the driver writes exactly the
  decimal numeral of the number's last \<open>num\<close> digits with its sign, followed by blanks up to the width of the field and the sign, stays inside its buffer,
  and reading the text back with \<open>func_str_to_int\<close> gives the shown number again.
\<close>

theorem shown_number_reads_back:
  assumes "- 2147483648 < dat" and "dat < 2147483648" and "0 < num" and "num \<le> 10"
  shows "\<exists>t. show_int_text dat num = Some t \<and> length t = nat num + 1 \<and>
    t = dec (field_value dat num) @ replicate (nat num + 1 - length (dec (field_value dat num))) (CHR '' '') \<and>
    func_str_to_int t = Some (field_value dat num)"
proof -
  let ?v = "field_value dat num" and ?r = "replicate (nat num + 1 - length (dec (field_value dat num))) (CHR '' '')"
  note s = show_int_dec [OF assms(3,4)]
  have "func_str_to_int (dec ?v @ ?r) = Some ?v"
  proof (rule str_to_int_dec)
    have "\<not> is_digit (CHR '' '')" by (simp add: is_digit_def)
    then show "?r = [] \<or> \<not> is_digit (hd ?r)" by (cases "nat num + 1 - length (dec ?v)") simp_all
  qed (use field_range [OF assms(3,4), of dat] assms(1,2) in \<open>simp_all add: abs_less_iff\<close>)
  then show ?thesis using s [of dat] assms by simp
qed

theorem shown_number_reads_back_witness:
  "\<exists>t. show_int_text (- 1207) 3 = Some t \<and> length t = 4 \<and> t = ''-207'' \<and> func_str_to_int t = Some (- 207)"
proof -
  have "field_value (- 1207) 3 = - 207" "dec (- 207) = ''-207''" by code_simp+
  then show ?thesis using shown_number_reads_back [of "- 1207" 3] by simp
qed

text \<open>The smallest number has no absolute value of the type; a time of 1009 ms is shown as 1.008, one of 0 as 0.0 with the blanks behind it.\<close>

lemma shown_numbers:
  "show_int_text (- 2147483648) 10 = None"
  "show_float_text (fdiv (i2f 1009) (flit 1000)) 4 3 = Some ''1.008    ''"
  "show_float_text (fdiv (i2f 0) (flit 1000)) 4 3 = Some ''0.0      ''"
  by code_simp+

end
