(* ===== verification/Classify.thy ===== *)
theory Classify
  imports NumText Board Screen
begin

text \<open>
  The classified items (\<open>code/src/classify.c\<close>, \<open>code/inc/classify.h\<close>): the table of 100 items
  filled by \<open>Class_Add\<close>, the glyph tables, the result page of \<open>result_diaplay\<close> and the listing of
  \<open>Class_Debug\<close>.  A table access out of range, a glyph read beyond its table and a failed
  assertion of the display driver are \<open>None\<close>.  The source's tables \<open>num\<close> and \<open>kind\<close> are
  \<open>num_glyphs\<close> and \<open>kind_glyphs\<close>.
\<close>

named_theorems glyph_defs \<open>the glyph tables\<close>
named_theorems class_defs \<open>the class codes\<close>

section \<open>Glyph tables\<close>

definition num_glyphs :: "int list list" where [glyph_defs]:
  "num_glyphs =
  [[1, 0, 0, 128, 63, 254, 32, 0, 35, 248, 32, 16, 32, 160, 32, 64],
   [47, 254, 32, 66, 32, 68, 32, 64, 64, 64, 64, 64, 129, 64, 0, 128],
   [0, 0, 31, 240, 16, 16, 16, 16, 16, 16, 31, 240, 0, 0, 255, 254],
   [8, 0, 16, 0, 31, 240, 0, 16, 0, 16, 0, 16, 0, 160, 0, 64]]"

definition kind_glyphs :: "int list list" where [glyph_defs]:
  "kind_glyphs =
  [[1, 0, 1, 0, 1, 0, 127, 252, 65, 4, 65, 4, 65, 4, 66, 132],
   [66, 68, 68, 36, 72, 20, 80, 20, 64, 4, 64, 4, 64, 20, 64, 8],
   [2, 0, 1, 0, 127, 254, 64, 2, 136, 36, 17, 16, 34, 136, 4, 64],
   [8, 32, 48, 24, 223, 246, 16, 16, 16, 16, 16, 16, 31, 240, 16, 16]]"

definition mouse :: "int list list" where [glyph_defs]:
  "mouse =
  [[4, 0, 56, 120, 32, 8, 60, 120, 32, 8, 32, 8, 63, 248, 0, 0],
   [41, 72, 37, 40, 33, 8, 41, 72, 37, 42, 33, 10, 41, 70, 49, 130],
   [16, 0, 17, 252, 16, 0, 16, 0, 252, 0, 19, 254, 48, 32, 56, 32],
   [85, 40, 85, 36, 146, 36, 18, 34, 20, 34, 16, 32, 16, 160, 16, 64]]"

definition Keyboard :: "int list list" where [glyph_defs]:
  "Keyboard =
  [[32, 16, 32, 16, 59, 124, 33, 20, 65, 254, 122, 20, 162, 124, 39, 16],
   [249, 124, 37, 16, 37, 254, 34, 16, 42, 16, 53, 0, 40, 254, 0, 0],
   [2, 0, 4, 0, 31, 240, 17, 16, 16, 144, 255, 254, 16, 16, 18, 16],
   [33, 80, 64, 32, 63, 248, 36, 72, 36, 72, 36, 72, 255, 254, 0, 0]]"

definition Monitor :: "int list list" where [glyph_defs]:
  "Monitor =
  [[0, 0, 31, 240, 16, 16, 16, 16, 31, 240, 16, 16, 16, 16, 31, 240],
   [4, 64, 68, 68, 36, 68, 20, 72, 20, 80, 4, 64, 255, 254, 0, 0],
   [0, 0, 63, 248, 0, 0, 0, 0, 0, 0, 0, 0, 255, 254, 1, 0],
   [1, 0, 17, 16, 17, 8, 33, 4, 65, 2, 129, 2, 5, 0, 2, 0],
   [0, 0, 62, 124, 34, 68, 34, 68, 62, 124, 1, 32, 1, 16, 255, 254],
   [2, 128, 12, 96, 48, 24, 192, 6, 62, 124, 34, 68, 34, 68, 62, 124]]"

definition Headphones :: "int list list" where [glyph_defs]:
  "Headphones =
  [[0, 128, 0, 128, 8, 128, 4, 128, 36, 128, 16, 128, 16, 128, 0, 128],
   [255, 254, 1, 0, 1, 64, 2, 32, 4, 16, 8, 8, 48, 4, 192, 4],
   [8, 32, 127, 40, 8, 36, 255, 254, 0, 32, 127, 32, 73, 36, 127, 36],
   [73, 36, 127, 40, 34, 40, 127, 16, 34, 18, 255, 170, 34, 70, 65, 130],
   [0, 72, 0, 68, 0, 68, 0, 64, 255, 254, 0, 64, 0, 64, 62, 64],
   [8, 64, 8, 64, 8, 32, 8, 34, 15, 18, 120, 10, 32, 6, 0, 2],
   [0, 0, 127, 252, 16, 16, 16, 16, 31, 240, 16, 16, 16, 16, 31, 240],
   [16, 16, 16, 16, 16, 62, 23, 208, 248, 16, 0, 16, 0, 16, 0, 16],
   [16, 0, 17, 240, 17, 16, 17, 16, 253, 16, 17, 16, 49, 16, 57, 16],
   [85, 16, 85, 16, 145, 16, 17, 18, 17, 18, 18, 18, 18, 14, 20, 0]]"

definition sound_system :: "int list list" where [glyph_defs]:
  "sound_system =
  [[2, 0, 1, 0, 63, 248, 0, 0, 8, 32, 4, 64, 255, 254, 0, 0],
   [31, 240, 16, 16, 16, 16, 31, 240, 16, 16, 16, 16, 31, 240, 16, 16],
   [0, 64, 0, 64, 120, 128, 75, 252, 74, 4, 74, 4, 74, 244, 74, 148],
   [74, 148, 74, 148, 122, 148, 74, 244, 2, 4, 2, 4, 2, 20, 2, 8]]"

definition Printer :: "int list list" where [glyph_defs]:
  "Printer =
  [[16, 0, 16, 0, 19, 254, 16, 32, 252, 32, 16, 32, 16, 32, 20, 32],
   [24, 32, 48, 32, 208, 32, 16, 32, 16, 32, 16, 32, 80, 160, 32, 64],
   [0, 0, 6, 0, 120, 252, 64, 132, 64, 132, 64, 132, 126, 132, 64, 132],
   [64, 132, 64, 132, 64, 132, 78, 168, 112, 144, 0, 128, 0, 128, 0, 128],
   [16, 0, 17, 240, 17, 16, 17, 16, 253, 16, 17, 16, 49, 16, 57, 16],
   [85, 16, 85, 16, 145, 16, 17, 18, 17, 18, 18, 18, 18, 14, 20, 0]]"

definition Mobile_phone :: "int list list" where [glyph_defs]:
  "Mobile_phone =
  [[0, 16, 0, 248, 63, 0, 1, 0, 1, 0, 63, 248, 1, 0, 1, 0],
   [1, 0, 255, 254, 1, 0, 1, 0, 1, 0, 1, 0, 5, 0, 2, 0],
   [16, 0, 17, 240, 17, 16, 17, 16, 253, 16, 17, 16, 49, 16, 57, 16],
   [85, 16, 85, 16, 145, 16, 17, 18, 17, 18, 18, 18, 18, 14, 20, 0]]"

definition Wrench :: "int list list" where [glyph_defs]:
  "Wrench =
  [[16, 8, 16, 28, 17, 224, 17, 0, 253, 0, 17, 252, 17, 68, 21, 68],
   [25, 68, 49, 40, 209, 40, 17, 16, 17, 16, 18, 40, 82, 68, 36, 130],
   [0, 16, 0, 248, 63, 0, 1, 0, 1, 0, 63, 248, 1, 0, 1, 0],
   [1, 0, 255, 254, 1, 0, 1, 0, 1, 0, 1, 0, 5, 0, 2, 0]]"

definition screwdriver :: "int list list" where [glyph_defs]:
  "screwdriver =
  [[16, 0, 17, 252, 17, 36, 125, 252, 85, 36, 85, 252, 84, 64, 84, 136],
   [125, 240, 80, 32, 16, 68, 23, 254, 28, 34, 229, 36, 66, 34, 0, 96],
   [8, 16, 8, 16, 16, 32, 16, 32, 34, 68, 66, 132, 124, 248, 4, 8],
   [8, 16, 16, 32, 32, 64, 126, 252, 0, 0, 0, 0, 255, 254, 0, 0],
   [0, 0, 0, 0, 63, 248, 2, 8, 2, 8, 2, 8, 2, 8, 2, 8],
   [2, 8, 4, 8, 4, 8, 8, 8, 8, 8, 16, 8, 32, 80, 64, 32]]"

definition Electric_drill :: "int list list" where [glyph_defs]:
  "Electric_drill =
  [[0, 16, 0, 248, 63, 0, 1, 0, 1, 0, 63, 248, 1, 0, 1, 0],
   [1, 0, 255, 254, 1, 0, 1, 0, 1, 0, 1, 0, 5, 0, 2, 0],
   [1, 0, 1, 0, 1, 0, 63, 248, 33, 8, 33, 8, 33, 8, 63, 248],
   [33, 8, 33, 8, 33, 8, 63, 248, 33, 10, 1, 2, 1, 2, 0, 254],
   [16, 32, 16, 32, 60, 32, 32, 32, 64, 62, 188, 32, 16, 32, 16, 32],
   [253, 252, 17, 4, 17, 4, 17, 4, 21, 4, 25, 4, 17, 252, 1, 4]]"

definition Pliers :: "int list list" where [glyph_defs]:
  "Pliers =
  [[16, 136, 16, 136, 60, 136, 32, 136, 67, 254, 188, 136, 16, 136, 16, 136],
   [252, 136, 16, 248, 16, 136, 16, 136, 20, 136, 24, 136, 16, 248, 0, 136],
   [0, 0, 127, 248, 0, 16, 0, 32, 0, 64, 1, 128, 1, 0, 255, 254],
   [1, 0, 1, 0, 1, 0, 1, 0, 1, 0, 1, 0, 5, 0, 2, 0]]"

definition multimeter :: "int list list" where [glyph_defs]:
  "multimeter =
  [[0, 0, 0, 0, 255, 254, 4, 0, 4, 0, 4, 0, 7, 240, 4, 16],
   [4, 16, 8, 16, 8, 16, 16, 16, 16, 16, 32, 16, 64, 160, 128, 64],
   [0, 0, 63, 248, 33, 8, 33, 8, 33, 8, 63, 248, 33, 8, 33, 8],
   [33, 8, 63, 248, 33, 8, 33, 8, 33, 8, 65, 8, 65, 40, 128, 16],
   [1, 0, 1, 0, 127, 252, 1, 0, 1, 0, 63, 248, 1, 0, 1, 0],
   [255, 254, 5, 0, 8, 136, 24, 80, 40, 32, 201, 24, 10, 6, 12, 0]]"

definition oscilloscope :: "int list list" where [glyph_defs]:
  "oscilloscope =
  [[0, 0, 63, 248, 0, 0, 0, 0, 0, 0, 0, 0, 255, 254, 1, 0],
   [1, 0, 17, 16, 17, 8, 33, 4, 65, 2, 129, 2, 5, 0, 2, 0],
   [0, 32, 32, 32, 16, 32, 19, 254, 130, 34, 66, 36, 74, 32, 11, 252],
   [18, 132, 18, 136, 226, 72, 34, 80, 34, 32, 36, 80, 36, 136, 9, 6],
   [0, 0, 62, 124, 34, 68, 34, 68, 62, 124, 1, 32, 1, 16, 255, 254],
   [2, 128, 12, 96, 48, 24, 192, 6, 62, 124, 34, 68, 34, 68, 62, 124]]"

definition soldering_iron :: "int list list" where [glyph_defs]:
  "soldering_iron =
  [[1, 0, 1, 0, 1, 0, 63, 248, 33, 8, 33, 8, 33, 8, 63, 248],
   [33, 8, 33, 8, 33, 8, 63, 248, 33, 10, 1, 2, 1, 2, 0, 254],
   [16, 128, 16, 128, 16, 248, 21, 8, 91, 16, 84, 160, 80, 64, 144, 160],
   [17, 24, 18, 6, 21, 248, 41, 8, 37, 8, 69, 8, 65, 248, 129, 8],
   [16, 32, 16, 32, 61, 32, 33, 32, 65, 252, 189, 32, 18, 32, 16, 32],
   [253, 254, 16, 32, 16, 80, 16, 80, 20, 136, 24, 136, 17, 4, 2, 2]]"

definition Tape_measure :: "int list list" where [glyph_defs]:
  "Tape_measure =
  [[1, 0, 17, 16, 9, 32, 63, 248, 2, 0, 2, 0, 127, 252, 8, 32],
   [16, 16, 47, 232, 200, 38, 8, 32, 8, 168, 8, 72, 8, 8, 7, 248],
   [0, 0, 31, 248, 16, 8, 16, 8, 16, 8, 16, 8, 31, 248, 16, 128],
   [16, 128, 16, 128, 16, 64, 16, 64, 32, 32, 32, 16, 64, 8, 128, 6]]"

section \<open>Class codes\<close>

definition Class_Utilities :: int where [class_defs]: "Class_Utilities = 3"
definition Class_Electronic_Peripherals :: int where [class_defs]: "Class_Electronic_Peripherals = 2"
definition Class_Num :: int where [class_defs]: "Class_Num = 1"

definition Class_Wrench :: int where [class_defs]: "Class_Wrench = 101"
definition Class_Solder :: int where [class_defs]: "Class_Solder = 102"
definition Class_Drill :: int where [class_defs]: "Class_Drill = 103"
definition Class_Tape :: int where [class_defs]: "Class_Tape = 104"
definition Class_Screwdriver :: int where [class_defs]: "Class_Screwdriver = 105"
definition Class_Tongs :: int where [class_defs]: "Class_Tongs = 106"
definition Class_Oscilloscope :: int where [class_defs]: "Class_Oscilloscope = 107"
definition Class_Multimeter :: int where [class_defs]: "Class_Multimeter = 108"
definition Class_Printer :: int where [class_defs]: "Class_Printer = 109"
definition Class_Keyboard :: int where [class_defs]: "Class_Keyboard = 110"
definition Class_Phone :: int where [class_defs]: "Class_Phone = 111"
definition Class_Mouse :: int where [class_defs]: "Class_Mouse = 112"
definition Class_Headphone :: int where [class_defs]: "Class_Headphone = 113"
definition Class_Monitor :: int where [class_defs]: "Class_Monitor = 114"
definition Class_Sound :: int where [class_defs]: "Class_Sound = 115"

section \<open>The table of items\<close>

record Class_Info_t =
  item_num :: int
  Class_Huge :: int
  Class_Small :: int
  Class_Flag :: int

record classes =
  Class_Info :: "Class_Info_t list"
  Class_Number :: int

definition Class_Info_zero :: Class_Info_t where
  "Class_Info_zero = \<lparr>item_num = 0, Class_Huge = 0, Class_Small = 0, Class_Flag = 0\<rparr>"

definition classes_zero :: classes where
  "classes_zero = \<lparr>Class_Info = replicate 100 Class_Info_zero, Class_Number = 0\<rparr>"

definition Class_Init :: "classes \<Rightarrow> classes option" where
  "Class_Init s =
    do {
      tab \<leftarrow> for_each (\<lambda>i tab. do { e \<leftarrow> rd tab i; wr tab i (e\<lparr>Class_Flag := 0, item_num := 0\<rparr>) }) [0..99] (Class_Info s);
      Some (s\<lparr>Class_Info := tab, Class_Number := 0\<rparr>)
    }"

text \<open>The four stores of each branch of \<open>Class_Add\<close> and the counter.\<close>

definition class_store :: "int \<Rightarrow> int \<Rightarrow> classes \<Rightarrow> classes option" where
  "class_store huge small s =
    do {
      tab \<leftarrow> wr (Class_Info s) (Class_Number s) \<lparr>item_num = u8 (Class_Number s + 1), Class_Huge = huge,
        Class_Small = u8 small, Class_Flag = 1\<rparr>;
      Some (s\<lparr>Class_Info := tab, Class_Number := u8 (Class_Number s + 1)\<rparr>)
    }"

text \<open>
  The side to push the item to: \<open>PUSH_LEFT\<close> (0), \<open>PUSH_RIGHT\<close> (1); \<open>None\<close> where the function
  ends without a \<open>return\<close>.  \<open>smod\<close> is C's remainder.
\<close>

definition Class_Add :: "int \<Rightarrow> classes \<Rightarrow> (int option \<times> classes) option" where
  "Class_Add c s =
    (if c < Class_Wrench then
       do { s \<leftarrow> class_store Class_Num (c - 1) s; Some (Some (if (c - 1) smod 2 \<noteq> 0 then 0 else 1), s) }
     else if c \<le> Class_Multimeter then
       do { s \<leftarrow> class_store Class_Utilities c s; Some (Some 1, s) }
     else if c \<le> Class_Sound then
       do { s \<leftarrow> class_store Class_Electronic_Peripherals c s; Some (Some 0, s) }
     else Some (None, s))"

section \<open>The result page\<close>

text \<open>
  What the display driver draws: the pixels of a run of glyphs (\<open>ips200_show_chinese\<close> of
  \<open>zf_device_ips200.c\<close>, row by row, most significant bit first), a line of characters, each 8 by 16, or the cleared screen.
  The screen is 320 by 240: the display is set crosswise before any result is shown.  A region that is not on
  the screen, and a character the font does not have, stops the program or is undefined (\<open>None\<close>).
\<close>

datatype drawn = Glyphs int int "bool list" | Chars int int string | Cleared

definition byte_pixels :: "int \<Rightarrow> bool list" where
  "byte_pixels b = map (\<lambda>j. (b div 2 ^ nat (j - 1)) mod 2 = 1) (downto 8 1)"

definition glyph_reads :: "int \<Rightarrow> int \<Rightarrow> int list" where
  "glyph_reads sz number =
    concat (map (\<lambda>i. concat (map (\<lambda>c. map (\<lambda>k. i * (sz div 8) + c * (sz div 8 * sz) + k) [0..sz div 8 - 1])
      [0..number - 1])) [0..sz - 1])"

definition ips200_show_chinese :: "int \<Rightarrow> int \<Rightarrow> int \<Rightarrow> int list list \<Rightarrow> int \<Rightarrow> drawn option" where
  "ips200_show_chinese x y sz buffer number =
    (if x < ips200_x_max \<and> y < ips200_y_max then
       do {
         _ \<leftarrow> ips200_set_region x y (u16 (number * sz - 1 + x)) (u16 (y + sz - 1));
         bytes \<leftarrow> those (map (rd (concat buffer)) (glyph_reads sz number));
         Some (Glyphs x y (concat (map byte_pixels bytes)))
       }
     else None)"

definition ips200_show_char :: "int \<Rightarrow> int \<Rightarrow> char \<Rightarrow> unit option" where
  "ips200_show_char x y c =
    (if x < ips200_x_max \<and> y < ips200_y_max \<and> 32 \<le> (of_char c :: int) \<and> (of_char c :: int) < 32 + 95
     then ips200_set_region x y (u16 (x + 7)) (u16 (y + 15)) else None)"

definition ips200_show_string :: "int \<Rightarrow> int \<Rightarrow> string \<Rightarrow> drawn option" where
  "ips200_show_string x y s =
    (if x < ips200_x_max \<and> y < ips200_y_max then
       do {
         _ \<leftarrow> for_each (\<lambda>j _. ips200_show_char (u16 (x + 8 * j)) y (s ! nat j)) [0..int (length s) - 1] ();
         Some (Chars x y s)
       }
     else None)"

definition ips200_show_int :: "int \<Rightarrow> int \<Rightarrow> int \<Rightarrow> int \<Rightarrow> drawn option" where
  "ips200_show_int x y dat num =
    (if x < ips200_x_max \<and> y < ips200_y_max then do { s \<leftarrow> show_int_text dat num; ips200_show_string x y s } else None)"

definition ips200_show_float :: "int \<Rightarrow> int \<Rightarrow> flt \<Rightarrow> int \<Rightarrow> int \<Rightarrow> drawn option" where
  "ips200_show_float x y dat num pointnum =
    (if x < ips200_x_max \<and> y < ips200_y_max then do { s \<leftarrow> show_float_text dat num pointnum; ips200_show_string x y s } else None)"

definition JIAN_GE :: int where "JIAN_GE = 5"

text \<open>The \<open>switch\<close> over \<open>Class_Small\<close>: a tool's glyphs or, by default, the number.\<close>

definition show_item :: "int \<Rightarrow> int \<Rightarrow> int \<Rightarrow> drawn option" where
  "show_item x y small =
    (if small = Class_Wrench then ips200_show_chinese x y 16 Wrench 2
     else if small = Class_Screwdriver then ips200_show_chinese x y 16 screwdriver 3
     else if small = Class_Tape then ips200_show_chinese x y 16 Tape_measure 2
     else if small = Class_Tongs then ips200_show_chinese x y 16 Pliers 2
     else if small = Class_Solder then ips200_show_chinese x y 16 soldering_iron 3
     else if small = Class_Drill then ips200_show_chinese x y 16 Electric_drill 3
     else if small = Class_Phone then ips200_show_chinese x y 16 Mobile_phone 2
     else if small = Class_Multimeter then ips200_show_chinese x y 16 multimeter 3
     else if small = Class_Sound then ips200_show_chinese x y 16 sound_system 2
     else if small = Class_Headphone then ips200_show_chinese x y 16 Headphones 5
     else if small = Class_Keyboard then ips200_show_chinese x y 16 Keyboard 2
     else if small = Class_Mouse then ips200_show_chinese x y 16 mouse 2
     else if small = Class_Monitor then ips200_show_chinese x y 16 Monitor 3
     else if small = Class_Oscilloscope then ips200_show_chinese x y 16 oscilloscope 3
     else if small = Class_Printer then ips200_show_chinese x y 16 Printer 3
     else ips200_show_int x y small 2)"

text \<open>
  One column of lines: the line of item \<open>i\<close> is at \<open>y = 32 + 16 * (i - first)\<close>, its number at
  \<open>xn\<close>, its item at \<open>xi\<close>.
\<close>

definition show_column :: "int \<Rightarrow> int \<Rightarrow> int \<Rightarrow> int list \<Rightarrow> Class_Info_t list \<Rightarrow> drawn list \<Rightarrow> drawn list option" where
  "show_column xn xi first is tab acc =
    for_each (\<lambda>i out. do {
      n \<leftarrow> ips200_show_int xn (32 + 16 * (i - first)) (i + 1) 2;
      e \<leftarrow> rd tab i;
      d \<leftarrow> show_item xi (32 + 16 * (i - first)) (Class_Small e);
      Some (out @ [n, d]) }) is acc"

definition show_head :: "int \<Rightarrow> int \<Rightarrow> drawn list option" where
  "show_head xn xk =
    do { a \<leftarrow> ips200_show_chinese xn 0 16 num_glyphs 2; b \<leftarrow> ips200_show_chinese xk 0 16 kind_glyphs 2; Some [a, b] }"

text \<open>The parameter \<open>n\<close> is the \<open>Class_Number\<close> argument.\<close>

definition result_one_column :: "int \<Rightarrow> Class_Info_t list \<Rightarrow> drawn list option" where
  "result_one_column n tab =
    do { h \<leftarrow> show_head 0 (16 * JIAN_GE); show_column 0 (16 * JIAN_GE) 0 [0..n - 1] tab h }"

definition result_two_columns :: "int \<Rightarrow> Class_Info_t list \<Rightarrow> drawn list option" where
  "result_two_columns n tab =
    do {
      h1 \<leftarrow> show_head 0 (16 * JIAN_GE);
      h2 \<leftarrow> show_head (16 * 10) (16 * 15);
      c1 \<leftarrow> show_column 0 (16 * JIAN_GE) 0 [0..12] tab (h1 @ h2);
      show_column (16 * 11) (16 * 15) 13 [13..n - 1] tab c1
    }"

definition result_diaplay :: "int \<Rightarrow> Class_Info_t list \<Rightarrow> drawn list option" where
  "result_diaplay n tab = (if n \<le> 13 then result_one_column n tab else result_two_columns n tab)"

section \<open>The listing\<close>

datatype printed = Kprint_num int int | Kprint_name int string | Print_name int string

definition debug_line :: "Class_Info_t \<Rightarrow> printed list" where
  "debug_line e =
    (let c = Class_Small e; n = item_num e in
     if Class_Huge e = Class_Num then [Kprint_num n c]
     else if c = Class_Wrench then [Kprint_name n ''Wrench'']
     else if c = Class_Multimeter then [Kprint_name n ''Multimeter'']
     else if c = Class_Sound then [Kprint_name n ''Sound'']
     else if c = Class_Headphone then [Kprint_name n ''Headphone'']
     else if c = Class_Keyboard then [Print_name n ''Keyboard'']
     else if c = Class_Mouse then [Kprint_name n ''Mouse'']
     else if c = Class_Monitor then [Kprint_name n ''Monitor'']
     else if c = Class_Oscilloscope then [Kprint_name n ''Oscilloscope'']
     else if c = Class_Printer then [Kprint_name n ''Printer'']
     else if c = Class_Screwdriver then [Kprint_name n ''Screwdriver'']
     else if c = Class_Tape then [Kprint_name n ''Tape'']
     else if c = Class_Tongs then [Kprint_name n ''Tongs'']
     else if c = Class_Solder then [Kprint_name n ''Solder'']
     else if c = Class_Drill then [Kprint_name n ''Drill'']
     else if c = Class_Phone then [Kprint_name n ''Phone'']
     else [])"

definition Class_Debug :: "classes \<Rightarrow> printed list option" where
  "Class_Debug s =
    for_each (\<lambda>i out. do { e \<leftarrow> rd (Class_Info s) i; Some (out @ debug_line e) }) [0..Class_Number s - 1] []"

section \<open>What is recorded of a session\<close>

text \<open>The record a recognised class leaves, as the \<open>k\<close>-th item.\<close>

definition class_entry :: "int \<Rightarrow> int \<Rightarrow> Class_Info_t" where
  "class_entry k c =
    (if c < Class_Wrench then \<lparr>item_num = k, Class_Huge = Class_Num, Class_Small = c - 1, Class_Flag = 1\<rparr>
     else if c \<le> Class_Multimeter then \<lparr>item_num = k, Class_Huge = Class_Utilities, Class_Small = c, Class_Flag = 1\<rparr>
     else \<lparr>item_num = k, Class_Huge = Class_Electronic_Peripherals, Class_Small = c, Class_Flag = 1\<rparr>)"

definition class_side :: "int \<Rightarrow> int" where
  "class_side c = (if c < Class_Wrench then (if even c then 0 else 1) else if c \<le> Class_Multimeter then 1 else 0)"

definition recognised :: "int \<Rightarrow> bool" where
  "recognised c \<longleftrightarrow> 1 \<le> c \<and> c \<le> 115"

fun add_all :: "int list \<Rightarrow> classes \<Rightarrow> (int option list \<times> classes) option" where
  "add_all [] s = Some ([], s)"
| "add_all (c # cs) s =
    do { (d, s) \<leftarrow> Class_Add c s; (ds, s) \<leftarrow> add_all cs s; Some (d # ds, s) }"

text \<open>The items of \<open>cs\<close> in the table, numbered from 1.\<close>

definition entries :: "int list \<Rightarrow> Class_Info_t list" where
  "entries cs = map2 class_entry [1..int (length cs)] cs"

definition holds_items :: "int list \<Rightarrow> classes \<Rightarrow> bool" where
  "holds_items cs s \<longleftrightarrow> length (Class_Info s) = 100 \<and> Class_Number s = int (length cs) \<and>
     take (length cs) (Class_Info s) = entries cs"

lemma entries_snoc: "entries (cs @ [c]) = entries cs @ [class_entry (int (length cs) + 1) c]"
  by (simp add: entries_def upto_rec2 zip_append1 add.commute)

lemma length_entries [simp]: "length (entries cs) = length cs"
  by (simp add: entries_def)

lemma class_store_holds:
  assumes "holds_items cs s" and "length cs < 100"
    and "class_entry (int (length cs) + 1) c = \<lparr>item_num = u8 (int (length cs) + 1), Class_Huge = h, Class_Small = u8 m, Class_Flag = 1\<rparr>"
  shows "\<exists>s'. class_store h m s = Some s' \<and> holds_items (cs @ [c]) s'"
proof -
  have s: "length (Class_Info s) = 100" "Class_Number s = int (length cs)" "take (length cs) (Class_Info s) = entries cs"
    using assms(1) by (simp_all add: holds_items_def)
  let ?e = "class_entry (int (length cs) + 1) c"
  have "take (Suc (length cs)) ((Class_Info s)[length cs := ?e]) = entries (cs @ [c])"
    using s assms(2) by (simp add: take_Suc_conv_app_nth entries_snoc)
  then show ?thesis
    using s assms(2) unfolding class_store_def assms(3) [symmetric] s(2)
    by (simp add: holds_items_def u8_id assms(3) [symmetric])
qed

lemma parity_smod: "1 \<le> c \<Longrightarrow> (c - 1) smod 2 \<noteq> 0 \<longleftrightarrow> even (c :: int)"
  by (simp add: signed_modulo_int_def signed_divide_int_def sgn_if) presburger

lemma Class_Add_holds:
  assumes "holds_items cs s" and "recognised c" and "length cs < 100"
  shows "\<exists>s'. Class_Add c s = Some (Some (class_side c), s') \<and> holds_items (cs @ [c]) s'"
proof -
  have u: "u8 (int (length cs) + 1) = int (length cs) + 1" using assms(3) by (simp add: u8_id)
  consider "c < 101" | "101 \<le> c" "c \<le> 108" | "109 \<le> c" "c \<le> 115"
    using assms(2) unfolding recognised_def by linarith
  then show ?thesis
  proof cases
    case 1
    then obtain s' where "class_store Class_Num (c - 1) s = Some s'" "holds_items (cs @ [c]) s'"
      using class_store_holds [OF assms(1,3), of c Class_Num "c - 1"] assms(2) u
      by (auto simp: class_entry_def class_defs recognised_def u8_id)
    with 1 assms(2) show ?thesis by (simp add: Class_Add_def class_side_def class_defs parity_smod recognised_def)
  next
    case 2
    then obtain s' where "class_store Class_Utilities c s = Some s'" "holds_items (cs @ [c]) s'"
      using class_store_holds [OF assms(1,3), of c Class_Utilities c] u
      by (auto simp: class_entry_def class_defs u8_id)
    with 2 show ?thesis by (simp add: Class_Add_def class_side_def class_defs)
  next
    case 3
    then obtain s' where "class_store Class_Electronic_Peripherals c s = Some s'" "holds_items (cs @ [c]) s'"
      using class_store_holds [OF assms(1,3), of c Class_Electronic_Peripherals c] u
      by (auto simp: class_entry_def class_defs u8_id)
    with 3 show ?thesis by (simp add: Class_Add_def class_side_def class_defs)
  qed
qed

lemma add_all_holds:
  assumes "holds_items cs s" and "list_all recognised ds" and "length cs + length ds \<le> 100"
  shows "\<exists>s'. add_all ds s = Some (map (\<lambda>c. Some (class_side c)) ds, s') \<and> holds_items (cs @ ds) s'"
  using assms
proof (induction ds arbitrary: cs s)
  case Nil
  then show ?case by simp
next
  case (Cons c ds)
  then obtain t where t: "Class_Add c s = Some (Some (class_side c), t)" "holds_items (cs @ [c]) t"
    using Class_Add_holds [of cs s c] by auto
  with Cons.IH [OF t(2)] Cons.prems obtain u where "add_all ds t = Some (map (\<lambda>c. Some (class_side c)) ds, u)"
    "holds_items (cs @ c # ds) u" by auto
  with t(1) show ?case by simp
qed

lemma holds_nth: "holds_items cs s \<Longrightarrow> i < length cs \<Longrightarrow> Class_Info s ! i = class_entry (int i + 1) (cs ! i)"
proof -
  assume a: "holds_items cs s" "i < length cs"
  then have "take (length cs) (Class_Info s) ! i = entries cs ! i" by (simp add: holds_items_def)
  with a show ?thesis by (simp add: entries_def add.commute)
qed

lemma holds_len: "holds_items cs s \<Longrightarrow> length (Class_Info s) = 100 \<and> Class_Number s = int (length cs)"
  by (simp add: holds_items_def)

section \<open>The page and the listing of a session\<close>

lemma glyph_reads_range:
  assumes "r \<in> set (glyph_reads 16 number)"
  shows "0 \<le> r \<and> r < 32 * number"
  using assms by (auto simp: glyph_reads_def)

lemma region_ok: "0 \<le> x \<Longrightarrow> x \<le> 240 \<Longrightarrow> 0 \<le> y \<Longrightarrow> y \<le> 224 \<Longrightarrow> 0 \<le> w \<Longrightarrow> w < 80 \<Longrightarrow> 0 \<le> h \<Longrightarrow> h < 16 \<Longrightarrow>
    ips200_set_region x y (u16 (x + w)) (u16 (y + h)) = Some ()"
  by (simp add: ips200_set_region_def ips200_x_max_def ips200_y_max_def u16_id)

lemma show_chinese_ok:
  assumes "int (length (concat buffer)) = 32 * number" and "0 < number" and "number \<le> 5"
    and "0 \<le> x" and "x \<le> 240" and "0 \<le> y" and "y \<le> 224"
  shows "\<exists>d. ips200_show_chinese x y 16 buffer number = Some d"
proof -
  have "those (map (rd (concat buffer)) (glyph_reads 16 number)) =
      Some (map (\<lambda>i. concat buffer ! nat i) (glyph_reads 16 number))"
    using glyph_reads_range [of _ number] assms(1) by (intro those_map_Some) (simp add: rd_ok)
  with assms show ?thesis
    using region_ok [of x y "number * 16 - 1" 15] by (simp add: ips200_show_chinese_def ips200_x_max_def ips200_y_max_def algebra_simps)
qed

lemma show_string_ok:
  assumes "0 \<le> x" and "x \<le> 240" and "0 \<le> y" and "y \<le> 224" and "length s \<le> 10" and "\<forall>c \<in> set s. 32 \<le> (of_char c :: int) \<and> (of_char c :: int) < 127"
  shows "ips200_show_string x y s = Some (Chars x y s)"
proof -
  have "\<exists>u. for_each (\<lambda>j _. ips200_show_char (u16 (x + 8 * j)) y (s ! nat j)) [0..int (length s) - 1] () = Some u \<and> True"
  proof (rule for_each_inv)
    fix j :: int and u :: unit
    assume "j \<in> set [0..int (length s) - 1]"
    then have j: "0 \<le> j" "nat j < length s" by auto
    then have "s ! nat j \<in> set s" "j \<le> 9" using assms(5) by auto
    then show "\<exists>u. ips200_show_char (u16 (x + 8 * j)) y (s ! nat j) = Some u \<and> True"
      using assms j by (simp add: ips200_show_char_def ips200_set_region_def ips200_x_max_def ips200_y_max_def u16_id)
  qed simp
  then show ?thesis using assms by (auto simp: ips200_show_string_def ips200_x_max_def ips200_y_max_def)
qed

lemma show_int_ok:
  assumes "0 \<le> x" and "x \<le> 240" and "0 \<le> y" and "y \<le> 224"
  shows "\<exists>d. ips200_show_int x y v 2 = Some d"
proof -
  let ?t = "dec (field_value v 2) @ replicate (nat 2 + 1 - length (dec (field_value v 2))) (CHR '' '')"
  have t: "show_int_text v 2 = Some ?t" "length (dec (field_value v 2)) \<le> nat 2 + 1" using show_int_dec [of 2 v] by simp_all
  have "ips200_show_string x y ?t = Some (Chars x y ?t)"
    by (rule show_string_ok [OF assms]) (use t(2) dec_printable in auto)
  then show ?thesis using t(1) assms by (simp add: ips200_show_int_def ips200_x_max_def ips200_y_max_def)
qed

text \<open>Every table has exactly the 32 bytes per glyph that are read from it.\<close>

lemma glyph_lengths:
  "int (length (concat num_glyphs)) = 32 * 2" "int (length (concat kind_glyphs)) = 32 * 2"
  "int (length (concat Wrench)) = 32 * 2" "int (length (concat screwdriver)) = 32 * 3"
  "int (length (concat Tape_measure)) = 32 * 2" "int (length (concat Pliers)) = 32 * 2"
  "int (length (concat soldering_iron)) = 32 * 3" "int (length (concat Electric_drill)) = 32 * 3"
  "int (length (concat Mobile_phone)) = 32 * 2" "int (length (concat multimeter)) = 32 * 3"
  "int (length (concat sound_system)) = 32 * 2" "int (length (concat Headphones)) = 32 * 5"
  "int (length (concat Keyboard)) = 32 * 2" "int (length (concat mouse)) = 32 * 2"
  "int (length (concat Monitor)) = 32 * 3" "int (length (concat oscilloscope)) = 32 * 3"
  "int (length (concat Printer)) = 32 * 3"
  by (simp_all add: glyph_defs)

lemma if_Some_ex: "\<exists>d. a = Some d \<Longrightarrow> \<exists>d. b = Some d \<Longrightarrow> \<exists>d. (if P then a else b) = Some d"
  by simp

lemma show_item_ok:
  assumes "0 \<le> x" and "x \<le> 240" and "0 \<le> y" and "y \<le> 224"
  shows "\<exists>d. show_item x y small = Some d"
  unfolding show_item_def
  by (intro if_Some_ex show_int_ok [OF assms] glyph_lengths [THEN show_chinese_ok, OF _ _ assms]) simp_all

lemma show_head_ok: "0 \<le> xn \<Longrightarrow> xn \<le> 240 \<Longrightarrow> 0 \<le> xk \<Longrightarrow> xk \<le> 240 \<Longrightarrow> \<exists>h. show_head xn xk = Some h \<and> length h = 2"
  using show_chinese_ok [OF glyph_lengths(1), of xn 0] show_chinese_ok [OF glyph_lengths(2), of xk 0]
  by (auto simp: show_head_def)

lemma show_column_ok:
  assumes "0 \<le> xn" and "xn \<le> 240" and "0 \<le> xi" and "xi \<le> 240" and "first \<le> hi" and "0 \<le> first" and "hi \<le> first + 13" and "hi \<le> int (length tab)"
  shows "\<exists>out. show_column xn xi first [first..hi - 1] tab acc = Some out \<and> length out = length acc + 2 * nat (hi - first)"
  unfolding show_column_def
proof (rule for_up_inv [where P = "\<lambda>i out. length out = length acc + 2 * nat (i - first)"])
  fix i :: int and out :: "drawn list"
  assume i: "first \<le> i" "i < hi" "length out = length acc + 2 * nat (i - first)"
  have y: "0 \<le> 32 + 16 * (i - first)" "32 + 16 * (i - first) \<le> 224" using i(1,2) assms(7) by simp_all
  obtain n d where "ips200_show_int xn (32 + 16 * (i - first)) (i + 1) 2 = Some n"
    "show_item xi (32 + 16 * (i - first)) (Class_Small (tab ! nat i)) = Some d"
    using show_int_ok [OF assms(1,2) y] show_item_ok [OF assms(3,4) y] by blast
  with i assms show "\<exists>out'. do { n \<leftarrow> ips200_show_int xn (32 + 16 * (i - first)) (i + 1) 2; e \<leftarrow> rd tab i;
      d \<leftarrow> show_item xi (32 + 16 * (i - first)) (Class_Small e); Some (out @ [n, d]) } = Some out' \<and>
    length out' = length acc + 2 * nat (i + 1 - first)"
    by (simp add: nat_diff_distrib nat_add_distrib)
qed (use assms in auto)

lemma result_ok:
  assumes "0 \<le> n" and "n \<le> 26" and "length tab = 100"
  shows "\<exists>out. result_diaplay n tab = Some out \<and>
    length out = (if n \<le> 13 then 2 else 4) + 2 * nat n"
proof (cases "n \<le> 13")
  case True
  obtain h where "show_head 0 (16 * JIAN_GE) = Some h" "length h = 2"
    using show_head_ok [of 0 "16 * JIAN_GE"] by (auto simp: JIAN_GE_def)
  moreover obtain out where "show_column 0 (16 * JIAN_GE) 0 [0..n - 1] tab h = Some out" "length out = length h + 2 * nat (n - 0)"
    using show_column_ok [of 0 "16 * JIAN_GE" 0 n tab h] assms True by (auto simp: JIAN_GE_def)
  ultimately show ?thesis using True by (simp add: result_diaplay_def result_one_column_def)
next
  case False
  obtain h1 h2 where "show_head 0 (16 * JIAN_GE) = Some h1" "length h1 = 2" "show_head (16 * 10) (16 * 15) = Some h2" "length h2 = 2"
    using show_head_ok [of 0 "16 * JIAN_GE"] show_head_ok [of "16 * 10" "16 * 15"] by (auto simp: JIAN_GE_def)
  moreover obtain c1 where "show_column 0 (16 * JIAN_GE) 0 [0..12] tab (h1 @ h2) = Some c1" "length c1 = length (h1 @ h2) + 26"
    using show_column_ok [of 0 "16 * JIAN_GE" 0 13 tab "h1 @ h2"] assms by (auto simp: JIAN_GE_def)
  moreover obtain out where "show_column (16 * 11) (16 * 15) 13 [13..n - 1] tab c1 = Some out" "length out = length c1 + 2 * nat (n - 13)"
    using show_column_ok [of "16 * 11" "16 * 15" 13 n tab c1] assms False by auto
  ultimately show ?thesis using False by (simp add: result_diaplay_def result_two_columns_def nat_diff_distrib)
qed

lemma Class_Debug_holds:
  assumes "holds_items cs s" and "length cs \<le> 100"
  shows "Class_Debug s = Some (concat (map debug_line (entries cs)))"
proof -
  let ?P = "\<lambda>i out. 0 \<le> i \<and> out = concat (map debug_line (take (nat i) (entries cs)))"
  have "\<exists>out. for_each (\<lambda>i out. do { e \<leftarrow> rd (Class_Info s) i; Some (out @ debug_line e) }) [0..int (length cs) - 1] [] = Some out
      \<and> ?P (int (length cs)) out"
  proof (rule for_up_inv [where P = ?P])
    fix i :: int and out :: "printed list"
    assume i: "0 \<le> i" "i < int (length cs)" "0 \<le> i \<and> out = concat (map debug_line (take (nat i) (entries cs)))"
    have e: "Class_Info s ! nat i = entries cs ! nat i"
      using assms(1) i by (simp add: holds_items_def) (metis nat_less_iff nth_take)
    have "nat (i + 1) = Suc (nat i)" using i(1) by (rule Suc_nat_eq_nat_zadd1 [symmetric, unfolded add.commute [of 1]])
    then have "take (nat (i + 1)) (entries cs) = take (nat i) (entries cs) @ [entries cs ! nat i]"
      using i by (simp add: take_Suc_conv_app_nth nat_less_iff)
    with i e assms holds_len [OF assms(1)]
    show "\<exists>out'. do { e \<leftarrow> rd (Class_Info s) i; Some (out @ debug_line e) } = Some out' \<and> ?P (i + 1) out'"
      by simp
  qed auto
  then show ?thesis using holds_len [OF assms(1)] by (auto simp: Class_Debug_def)
qed

lemma holds_zero: "holds_items [] classes_zero"
  by (simp add: holds_items_def classes_zero_def entries_def)

section \<open>Properties\<close>

text \<open>
  C38: A session of up to 26 recognised classes (1 to 115): every item is recorded in order with its
  number and group, the side returned for each is the one of its kind (tools right, electronics left,
  digits by parity), the listing prints the recorded items in order, and the result page draws a head
  and two entries a line without reading beyond a glyph table or leaving the screen.
\<close>

theorem classify_session:
  assumes "list_all recognised cs" and "length cs \<le> 26"
  shows "\<exists>s out. add_all cs classes_zero = Some (map (\<lambda>c. Some (class_side c)) cs, s) \<and>
    (\<forall>i < length cs. Class_Info s ! i = class_entry (int i + 1) (cs ! i)) \<and>
    Class_Number s = int (length cs) \<and> Class_Debug s = Some (concat (map debug_line (entries cs))) \<and>
    result_diaplay (Class_Number s) (Class_Info s) = Some out \<and>
    length out = (if length cs \<le> 13 then 2 else 4) + 2 * length cs"
proof -
  obtain s where s: "add_all cs classes_zero = Some (map (\<lambda>c. Some (class_side c)) cs, s)" "holds_items cs s"
    using add_all_holds [OF holds_zero assms(1)] assms(2) by auto
  moreover have "Class_Debug s = Some (concat (map debug_line (entries cs)))"
    using Class_Debug_holds [OF s(2)] assms(2) by simp
  moreover obtain out where "result_diaplay (int (length cs)) (Class_Info s) = Some out"
    "length out = (if length cs \<le> 13 then 2 else 4) + 2 * length cs"
    using result_ok [of "int (length cs)" "Class_Info s"] assms(2) holds_len [OF s(2)] by auto
  ultimately show ?thesis using holds_nth [OF s(2)] holds_len [OF s(2)] by auto
qed

lemma classify_session_witness:
  "\<exists>s out. add_all [3, 101, 115] classes_zero = Some (map (\<lambda>c. Some (class_side c)) [3, 101, 115], s) \<and>
    (\<forall>i < length [3, 101, 115 :: int]. Class_Info s ! i = class_entry (int i + 1) ([3, 101, 115] ! i)) \<and>
    Class_Number s = int (length [3, 101, 115 :: int]) \<and>
    Class_Debug s = Some (concat (map debug_line (entries [3, 101, 115]))) \<and>
    result_diaplay (Class_Number s) (Class_Info s) = Some out \<and>
    length out = (if length [3, 101, 115 :: int] \<le> 13 then 2 else 4) + 2 * length [3, 101, 115 :: int]"
  by (rule classify_session) (simp_all add: recognised_def)

lemma show_column_bottom:
  assumes "26 < n" and "length tab = 100"
  shows "show_column (16 * 11) (16 * 15) 13 [13..n - 1] tab acc = None"
proof -
  have "[13..n - 1] = [13..25] @ [26..n - 1]" using assms(1) upto_split2 [of 13 25 "n - 1"] by simp
  moreover have "[26..n - 1] = 26 # [27..n - 1]" using assms(1) by (simp add: upto_rec1)
  moreover have "ips200_show_int (16 * 11) (32 + 16 * (26 - 13)) (26 + 1) 2 = None"
    by (simp add: ips200_show_int_def ips200_y_max_def)
  ultimately show ?thesis
    unfolding show_column_def by (simp only: for_each_append) (simp split: Option.bind_splits)
qed

text \<open>
  The limits of the item table and of the page: the 101st recognised class is stored outside the
  table of 100, and with 27 items or more the page stops at a failed assertion of the display driver,
  whatever the items are.
\<close>

theorem classify_limits:
  assumes "list_all recognised cs" and "length cs = 100" and "recognised c" and "26 < n" and "length tab = 100"
  shows "(\<exists>s. add_all cs classes_zero = Some (map (\<lambda>c. Some (class_side c)) cs, s) \<and> Class_Add c s = None) \<and>
    result_diaplay n tab = None"
proof -
  obtain s where s: "add_all cs classes_zero = Some (map (\<lambda>c. Some (class_side c)) cs, s)" "holds_items cs s"
    using add_all_holds [OF holds_zero assms(1)] assms(2) by auto
  have "class_store h m s = None" for h m
    using holds_len [OF s(2)] assms(2) by (simp add: class_store_def wr_def)
  then have "Class_Add c s = None" using assms(3) by (simp add: Class_Add_def recognised_def class_defs)
  moreover have "result_diaplay n tab = None"
    using assms(4) show_column_bottom [OF assms(4,5)]
    by (simp add: result_diaplay_def result_two_columns_def split: Option.bind_splits)
  ultimately show ?thesis using s(1) by blast
qed

lemma classify_limits_witness:
  "(\<exists>s. add_all (replicate 100 7) classes_zero = Some (map (\<lambda>c. Some (class_side c)) (replicate 100 7), s) \<and>
      Class_Add 101 s = None) \<and>
    result_diaplay 27 (replicate 100 Class_Info_zero) = None"
  by (rule classify_limits) (simp_all add: recognised_def list_all_iff)

end
