(* ===== verification/UserMath.thy ===== *)
theory UserMath
  imports Floats
begin

text \<open>
  Geometry on border lines (\<open>user/src/user_math.c\<close>, \<open>user/inc/user_math.h\<close>).  A border is an
  \<open>int16\<close> array indexed by image row; a read outside it is \<open>None\<close>.  Where the source leaves a local
  uninitialised its value is a parameter \<open>junk\<close>.  \<open>fsqrt\<close> and \<open>dsqrt\<close> are the correctly rounded
  square roots of IEEE 754.
\<close>

section \<open>Square roots\<close>

function isqrt :: "int \<Rightarrow> int" where
  "isqrt n = (if n \<le> 0 then 0 else let r = 2 * isqrt (n div 4) in if (r + 1) * (r + 1) \<le> n then r + 1 else r)"
  by auto
termination
  by (relation "measure nat") auto

declare isqrt.simps [simp del]

lemma isqrt_bounds: "0 \<le> n \<Longrightarrow> 0 \<le> isqrt n \<and> isqrt n * isqrt n \<le> n \<and> n < (isqrt n + 1) * (isqrt n + 1)"
proof (induction n rule: isqrt.induct)
  case (1 n)
  show ?case
  proof (cases "n \<le> 0")
    case True
    with 1(2) show ?thesis by (simp add: isqrt.simps [of 0])
  next
    case False
    define s where "s = isqrt (n div 4)"
    have s: "0 \<le> s" "s * s \<le> n div 4" "n div 4 < (s + 1) * (s + 1)" using 1 False unfolding s_def by simp_all
    have "4 * (s * s) \<le> n" using s(2) by linarith
    moreover have "n < 4 * ((s + 1) * (s + 1))" using s(3) by linarith
    ultimately show ?thesis
      using False s(1) by (auto simp: isqrt.simps [of n] Let_def s_def [symmetric] algebra_simps)
  qed
qed

text \<open>The root of a positive rational to \<open>p\<close> bits: the quantum puts the root into \<open>[2^(p-1), 2^p)\<close>.\<close>

definition root_to :: "nat \<Rightarrow> rat \<Rightarrow> rat" where
  "root_to p x =
    (let q = pow2 (ilog2 x div 2 - (int p - 1)); y = x / (q * q); n = isqrt \<lfloor>y\<rfloor>; h = of_int n + 1 / 2;
         m = (if y < h * h then n else if y > h * h then n + 1 else if even n then n else n + 1)
     in of_int m * q)"

fun fl_sqrt :: "nat \<Rightarrow> (rat \<Rightarrow> flt) \<Rightarrow> flt \<Rightarrow> flt" where
  "fl_sqrt p f (Fin x) = (if x < 0 then NaN else if x = 0 then Fin 0 else f (root_to p x))"
| "fl_sqrt p f PInf = PInf"
| "fl_sqrt p f _ = NaN"

definition fsqrt :: "flt \<Rightarrow> flt" where "fsqrt = fl_sqrt 24 f32"
definition dsqrt :: "flt \<Rightarrow> flt" where "dsqrt = fl_sqrt 53 f64"

lemma dsqrt_examples: "dsqrt (Fin 25) = Fin 5" "dsqrt (Fin 2) = Fin (6369051672525773 / 4503599627370496)"
  by code_simp+

section \<open>Points and vectors\<close>

record point_t =
  pt_x :: int
  pt_y :: int

text \<open>\<open>(point_t){x, y}\<close>: both coordinates are stored as \<open>int16\<close>.\<close>

definition point :: "int \<Rightarrow> int \<Rightarrow> point_t" where
  "point x y = \<lparr>pt_x = s16 x, pt_y = s16 y\<rparr>"

definition Vector_Module :: "point_t \<Rightarrow> flt option" where
  "Vector_Module v = do { n \<leftarrow> chk32 (pt_x v * pt_x v + pt_y v * pt_y v); Some (dsqrt (i2d n)) }"

definition Vector_Dot_Product :: "point_t \<Rightarrow> point_t \<Rightarrow> int option" where
  "Vector_Dot_Product v w = chk32 (pt_x v * pt_x w + pt_y v * pt_y w)"

definition Point_GetDistance :: "point_t \<Rightarrow> point_t \<Rightarrow> flt option" where
  "Point_GetDistance p1 p2 =
    do {
      n \<leftarrow> chk32 ((pt_x p1 - pt_x p2) * (pt_x p1 - pt_x p2) + (pt_y p1 - pt_y p2) * (pt_y p1 - pt_y p2));
      Some (fsqrt (i2f n))
    }"

definition Line_CalK :: "point_t \<Rightarrow> point_t \<Rightarrow> flt" where
  "Line_CalK p1 p2 = fdiv (i2f (pt_y p1 - pt_y p2)) (i2f (pt_x p1 - pt_x p2))"

definition Tool_CmpMax :: "int \<Rightarrow> int \<Rightarrow> int" where "Tool_CmpMax a b = (if a > b then a else b)"
definition Tool_CmpMin :: "int \<Rightarrow> int \<Rightarrow> int" where "Tool_CmpMin a b = (if a > b then b else a)"

definition Vector_AngleGet :: "point_t \<Rightarrow> point_t \<Rightarrow> point_t \<Rightarrow> flt option" where
  "Vector_AngleGet p1 p2 p3 =
    do {
      let vec1 = point (pt_x p1 - pt_x p2) (pt_y p1 - pt_y p2);
      let vec2 = point (pt_x p3 - pt_x p2) (pt_y p3 - pt_y p2);
      dot \<leftarrow> Vector_Dot_Product vec1 vec2;
      m1 \<leftarrow> Vector_Module vec1;
      m2 \<leftarrow> Vector_Module vec2;
      Some (d2f (ddiv (i2d dot) (dmul m1 m2)))
    }"

definition Point_CalSlope :: "point_t \<Rightarrow> point_t \<Rightarrow> flt" where
  "Point_CalSlope p1 p2 = fdiv (i2f (pt_y p1 - pt_y p2)) (i2f (pt_x p1 - pt_x p2))"

section \<open>Lines\<close>

definition ISSTRAIGHT :: int where "ISSTRAIGHT = 1"
definition NOTSTRAIGHT :: int where "NOTSTRAIGHT = 0"
definition MONO_EXIST :: int where "MONO_EXIST = 1"
definition MONO_NOEXIST :: int where "MONO_NOEXIST = 0"
definition Math_StraightJudgeValue :: int where "Math_StraightJudgeValue = 5"

definition Line_IsStraight :: "int list \<Rightarrow> int \<Rightarrow> int \<Rightarrow> int option" where
  "Line_IsStraight broder x1 x2 =
    do {
      y1 \<leftarrow> rd broder x1;
      y2 \<leftarrow> rd broder x2;
      let K = Line_CalK (point x1 y1) (point x2 y2);
      let max = s16 (Tool_CmpMax x1 x2);
      let min = s16 (Tool_CmpMin x1 x2);
      r \<leftarrow> for_break (\<lambda>i _. do {
          b0 \<leftarrow> rd broder min;
          target_value \<leftarrow> f2s16 (fadd (i2f b0) (fmul K (i2f i)));
          bi \<leftarrow> rd broder i;
          Some (if flt_gt (fl_abs (i2f (bi - target_value))) (i2f Math_StraightJudgeValue) then Inl NOTSTRAIGHT else Inr ())
        }) [0..max - min - 1] ();
      Some (case r of Inl v \<Rightarrow> v | Inr _ \<Rightarrow> ISSTRAIGHT)
    }"

text \<open>
  \<open>df\<close> is an uninitialised array of 160: an entry not yet written is \<open>None\<close> and reading it is
  undefined.
\<close>

definition rd_df :: "int option list \<Rightarrow> int \<Rightarrow> int option" where
  "rd_df df i = Option.bind (rd df i) id"

definition mono_df :: "int list \<Rightarrow> int \<Rightarrow> int \<Rightarrow> int \<Rightarrow> (int option list \<times> int) option" where
  "mono_df broder mx n junk =
    for_each (\<lambda>i (df, aver_df). do {
      a \<leftarrow> rd broder (mx - i);
      b \<leftarrow> rd broder (mx - i - 1);
      df \<leftarrow> wr df i (Some (s16 (a - b)));
      aver_df \<leftarrow> chk32 (aver_df + s16 (a - b));
      if \<bar>s16 (a - b)\<bar> \<ge> \<bar>aver_df sdiv (i + 1)\<bar> + 20
      then do { p \<leftarrow> rd_df df (i - 1); df \<leftarrow> wr df i (Some p); Some (df, aver_df) }
      else Some (df, aver_df)
    }) [0..n - 2] (replicate 160 None, junk)"

text \<open>
  The search from entry \<open>i\<close> for the next entry of a sign: the \<open>while\<close> loop of the positive case;
  the negative case is the same on the negated entries.  \<open>Some True\<close> is the early
  \<open>return MONO_NOEXIST\<close>.  Each round reads one entry further, so 160 rounds leave the array.
\<close>

fun mono_while :: "nat \<Rightarrow> (int \<Rightarrow> int) \<Rightarrow> int option list \<Rightarrow> int \<Rightarrow> int \<Rightarrow> int \<Rightarrow> bool option" where
  "mono_while 0 sg df i k mx = None"
| "mono_while (Suc fuel) sg df i k mx =
    do {
      d \<leftarrow> rd_df df (i + k);
      if sg d \<le> 0 then
        do {
          e \<leftarrow> rd_df df (i + (k + 1));
          if sg e < 0 then Some True
          else if sg e > 0 \<or> i + (k + 1) = mx then Some False
          else mono_while fuel sg df i (k + 1) mx
        }
      else Some False
    }"

definition Line_IsMonotonous :: "int \<Rightarrow> int list \<Rightarrow> int \<Rightarrow> int \<Rightarrow> int option" where
  "Line_IsMonotonous junk broder x1 x2 =
    do {
      let max = s16 (Tool_CmpMax x1 x2);
      let min = s16 (Tool_CmpMin x1 x2);
      let n = max - min + 1;
      (df, aver_df) \<leftarrow> mono_df broder max n junk;
      r \<leftarrow> for_break (\<lambda>i _. do {
          d \<leftarrow> rd_df df i;
          if i < n - 3 then
            if d > 0 then do { q \<leftarrow> mono_while 160 id df i 1 max; Some (if q then Inl MONO_NOEXIST else Inr ()) }
            else if d < 0 then do { q \<leftarrow> mono_while 160 uminus df i 1 max; Some (if q then Inl MONO_NOEXIST else Inr ()) }
            else Some (Inr ())
          else Some (Inr ())
        }) [0..n - 2] ();
      Some (case r of Inl v \<Rightarrow> v | Inr _ \<Rightarrow> MONO_EXIST)
    }"

definition Line_FindMaxPoint :: "int list \<Rightarrow> int \<Rightarrow> int \<Rightarrow> int option" where
  "Line_FindMaxPoint broder x1 x2 =
    do {
      let min = Tool_CmpMin x1 x2;
      let max = Tool_CmpMax x1 x2;
      p \<leftarrow> for_each (\<lambda>i p. do { a \<leftarrow> rd broder i; b \<leftarrow> rd broder p; Some (if a > b then i else p) }) [min..max - 1] min;
      Some (s16 p)
    }"

definition Line_FindMinPoint :: "int list \<Rightarrow> int \<Rightarrow> int \<Rightarrow> int option" where
  "Line_FindMinPoint broder x1 x2 =
    do {
      let min = Tool_CmpMin x1 x2;
      let max = Tool_CmpMax x1 x2;
      p \<leftarrow> for_each (\<lambda>i p. do { a \<leftarrow> rd broder i; b \<leftarrow> rd broder p; Some (if a < b then i else p) }) [min..max - 1] min;
      Some (s16 p)
    }"

text \<open>\<open>total\<close> is uninitialised.\<close>

definition Line_GetAverage :: "int \<Rightarrow> int list \<Rightarrow> int \<Rightarrow> int \<Rightarrow> int option" where
  "Line_GetAverage junk broder x1 x2 =
    do {
      let min = Tool_CmpMin x1 x2;
      let max = Tool_CmpMax x1 x2;
      total \<leftarrow> for_each (\<lambda>i t. do { b \<leftarrow> rd broder i; chk32 (t + b) }) [min..max] junk;
      Some (s16 (total sdiv (max - min + 1)))
    }"

text \<open>The two \<open>while\<close> loops have no bound in the source: fuel.\<close>

fun reduce_loop :: "nat \<Rightarrow> (flt \<Rightarrow> bool) \<Rightarrow> (flt \<Rightarrow> flt) \<Rightarrow> flt \<Rightarrow> flt option" where
  "reduce_loop 0 c f t = None"
| "reduce_loop (Suc fuel) c f t = (if c t then reduce_loop fuel c f (f t) else Some t)"

definition Tool_IsMultiple :: "nat \<Rightarrow> flt \<Rightarrow> flt \<Rightarrow> flt \<Rightarrow> int option" where
  "Tool_IsMultiple fuel target multiple delta =
    do {
      t \<leftarrow> reduce_loop fuel (\<lambda>t. flt_gt t multiple) (\<lambda>t. fsub t multiple) target;
      t \<leftarrow> reduce_loop fuel (\<lambda>t. flt_less t (Fin 0)) (\<lambda>t. fadd t multiple) t;
      Some (c_bool (flt_less (fl_abs (fsub t multiple)) delta \<or> flt_less (fl_abs t) delta))
    }"

definition Line_GetAverK :: "int list \<Rightarrow> int \<Rightarrow> int \<Rightarrow> flt option" where
  "Line_GetAverK broder x1 x2 =
    do {
      let min = Tool_CmpMin x1 x2;
      let max = Tool_CmpMax x1 x2;
      k \<leftarrow> for_each (\<lambda>i k. do {
          a \<leftarrow> rd broder i;
          b \<leftarrow> rd broder (i + 1);
          s \<leftarrow> f2s16 (Line_CalK (point i a) (point (i + 1) b));
          Some (fadd k (i2f s))
        }) [min..max - 1] (Fin 0);
      Some (fdiv k (i2f (max - min)))
    }"

section \<open>Lemmas\<close>

text \<open>Borders of the image have small values; so have their rows.\<close>

definition small_border :: "int list \<Rightarrow> bool" where
  "small_border b \<longleftrightarrow> length b \<le> 1000 \<and> (\<forall>v \<in> set b. \<bar>v\<bar> \<le> 1000)"

lemma small_nth: "small_border b \<Longrightarrow> 0 \<le> i \<Longrightarrow> i < int (length b) \<Longrightarrow> \<bar>b ! nat i\<bar> \<le> 1000"
  by (simp add: small_border_def nat_less_iff)

lemma point_small: "\<bar>x\<bar> \<le> 1000 \<Longrightarrow> \<bar>y\<bar> \<le> 1000 \<Longrightarrow> pt_x (point x y) = x \<and> pt_y (point x y) = y"
  by (simp add: point_def s16_id)

lemma f2s16_int: "- 32768 \<le> n \<Longrightarrow> n \<le> 32767 \<Longrightarrow> f2s16 (Fin (of_int n)) = Some n"
  by (simp add: Let_def)

lemma step_slope:
  assumes "\<bar>i\<bar> < 1000" and "\<bar>a\<bar> \<le> 1000" and "\<bar>b\<bar> \<le> 1000"
  shows "f2s16 (Line_CalK (point i a) (point (i + 1) b)) = Some (b - a)"
proof -
  have ab: "\<bar>a - b\<bar> \<le> 2000" "\<bar>b - a\<bar> \<le> 2000" using assms by linarith+
  then have e: "i2f (a - b) = Fin (of_int (a - b))" "i2f (- 1) = Fin (of_int (- 1))" by (intro i2f_exact; simp)+
  have "fdiv (Fin (of_int (a - b))) (Fin (of_int (- 1))) = f32 (of_int (b - a))" by (simp add: fdiv_def)
  also have "\<dots> = Fin (of_int (b - a))" using ab by (intro f32_of_int) simp
  finally have "Line_CalK (point i a) (point (i + 1) b) = Fin (of_int (b - a))"
    using assms by (simp add: Line_CalK_def point_small e [simplified])
  then show ?thesis using ab by (simp only: f2s16_int)
qed

lemma CmpMinMax: "x1 \<le> x2 \<Longrightarrow> Tool_CmpMin x1 x2 = x1 \<and> Tool_CmpMax x1 x2 = x2"
    "x2 \<le> x1 \<Longrightarrow> Tool_CmpMin x1 x2 = x2 \<and> Tool_CmpMax x1 x2 = x1"
  by (auto simp: Tool_CmpMin_def Tool_CmpMax_def)

lemma GetAverK_loop:
  assumes "small_border b" and "0 \<le> lo" and "lo \<le> hi" and "hi < int (length b)"
  shows "for_each (\<lambda>i k. do { a \<leftarrow> rd b i; c \<leftarrow> rd b (i + 1); s \<leftarrow> f2s16 (Line_CalK (point i a) (point (i + 1) c));
      Some (fadd k (i2f s)) }) [lo..hi - 1] (Fin 0) = Some (Fin (of_int (b ! nat hi - b ! nat lo)))"
proof -
  have "\<exists>k. for_each (\<lambda>i k. do { a \<leftarrow> rd b i; c \<leftarrow> rd b (i + 1); s \<leftarrow> f2s16 (Line_CalK (point i a) (point (i + 1) c));
      Some (fadd k (i2f s)) }) [lo..hi - 1] (Fin 0) = Some k \<and> k = Fin (of_int (b ! nat hi - b ! nat lo))"
  proof (rule for_up_inv [where P = "\<lambda>i k. k = Fin (of_int (b ! nat i - b ! nat lo))"])
    fix i :: int and k
    assume i: "lo \<le> i" "i < hi" "k = Fin (of_int (b ! nat i - b ! nat lo))"
    have v: "\<bar>b ! nat i\<bar> \<le> 1000" "\<bar>b ! nat (i + 1)\<bar> \<le> 1000" "\<bar>b ! nat lo\<bar> \<le> 1000"
      using small_nth [OF assms(1)] i assms by simp_all
    have l: "\<bar>i\<bar> < 1000" using i assms by (simp add: small_border_def)
    have "i2f (b ! nat (i + 1) - b ! nat i) = Fin (of_int (b ! nat (i + 1) - b ! nat i))"
      using v by (intro i2f_exact) linarith
    moreover have "fadd k (Fin (of_int (b ! nat (i + 1) - b ! nat i))) = Fin (of_int (b ! nat (i + 1) - b ! nat lo))"
      unfolding i(3) using v by (subst fadd_int) simp_all
    ultimately show "\<exists>k'. do { a \<leftarrow> rd b i; c \<leftarrow> rd b (i + 1); s \<leftarrow> f2s16 (Line_CalK (point i a) (point (i + 1) c));
        Some (fadd k (i2f s)) } = Some k' \<and> k' = Fin (of_int (b ! nat (i + 1) - b ! nat lo))"
      using i assms step_slope [OF l v(1,2)] by simp
  qed (use assms in simp_all)
  then show ?thesis by blast
qed

section \<open>Properties\<close>

text \<open>
  The average slope of a border between two rows is exact: all intermediate slopes and sums are
  represented without rounding and telescope, so the answer is the difference of the two end values
  divided by the number of rows, rounded once, whatever the border does in between and in whichever
  order the rows are given.
\<close>

theorem GetAverK_telescopes:
  assumes "small_border b" and "0 \<le> lo" and "lo < hi" and "hi < int (length b)"
  shows "Line_GetAverK b lo hi = Some (fdiv (Fin (of_int (b ! nat hi - b ! nat lo))) (Fin (of_int (hi - lo)))) \<and>
    Line_GetAverK b hi lo = Line_GetAverK b lo hi"
proof -
  have "hi - lo \<le> 1000" using assms by (simp add: small_border_def)
  then have "i2f (hi - lo) = Fin (of_int (hi - lo))" using assms by (intro i2f_exact) simp
  then show ?thesis
    using GetAverK_loop [OF assms(1,2) _ assms(4)] assms(3) CmpMinMax(1) [of lo hi] CmpMinMax(2) [of lo hi]
    by (simp add: Line_GetAverK_def Let_def)
qed

lemma GetAverK_telescopes_witness:
  "Line_GetAverK [10, 40, 13, 22] 0 3 =
      Some (fdiv (Fin (of_int ([10, 40, 13, 22] ! nat 3 - [10, 40, 13, 22] ! nat 0))) (Fin (of_int (3 - 0)))) \<and>
    Line_GetAverK [10, 40, 13, 22] 3 0 = Line_GetAverK [10, 40, 13, 22] 0 3"
  by (rule GetAverK_telescopes) (simp_all add: small_border_def)

lemma extremum_loop:
  fixes sg :: "int \<Rightarrow> int"
  assumes "0 \<le> lo" and "lo < hi" and "hi \<le> int (length b)"
  shows "\<exists>p. for_each (\<lambda>i p. do { a \<leftarrow> rd b i; c \<leftarrow> rd b p; Some (if sg a > sg c then i else p) }) [lo..hi - 1] lo = Some p \<and>
    lo \<le> p \<and> p < hi \<and> (\<forall>j. lo \<le> j \<longrightarrow> j < hi \<longrightarrow> sg (b ! nat j) \<le> sg (b ! nat p)) \<and>
    (\<forall>j. lo \<le> j \<longrightarrow> j < p \<longrightarrow> sg (b ! nat j) < sg (b ! nat p))"
proof -
  let ?P = "\<lambda>i p. lo \<le> p \<and> p < hi \<and> (p < i \<or> p = lo) \<and> (\<forall>j. lo \<le> j \<longrightarrow> j < i \<longrightarrow> sg (b ! nat j) \<le> sg (b ! nat p)) \<and>
    (\<forall>j. lo \<le> j \<longrightarrow> j < p \<longrightarrow> sg (b ! nat j) < sg (b ! nat p))"
  have "\<exists>p. for_each (\<lambda>i p. do { a \<leftarrow> rd b i; c \<leftarrow> rd b p; Some (if sg a > sg c then i else p) }) [lo..hi - 1] lo = Some p \<and> ?P hi p"
  proof (rule for_up_inv [where P = ?P])
    fix i p :: int
    assume i: "lo \<le> i" "i < hi" "?P i p"
    have le: "sg (b ! nat j) \<le> max (sg (b ! nat i)) (sg (b ! nat p))" if "lo \<le> j" "j < i + 1" for j
      using that i(3) by (cases "j = i") force+
    have st: "do { a \<leftarrow> rd b i; c \<leftarrow> rd b p; Some (if sg a > sg c then i else p) } =
        Some (if sg (b ! nat i) > sg (b ! nat p) then i else p)"
      using i assms by simp
    show "\<exists>p'. do { a \<leftarrow> rd b i; c \<leftarrow> rd b p; Some (if sg a > sg c then i else p) } = Some p' \<and> ?P (i + 1) p'"
    proof (cases "sg (b ! nat i) > sg (b ! nat p)")
      case True
      have "sg (b ! nat j) < sg (b ! nat i)" if "lo \<le> j" "j < i" for j
        using that i(3) True by force
      moreover have "\<forall>j. lo \<le> j \<longrightarrow> j < i + 1 \<longrightarrow> sg (b ! nat j) \<le> sg (b ! nat i)"
        using le True by (metis less_imp_le max.absorb1)
      ultimately show ?thesis unfolding st using i(1,2) True by simp
    next
      case False
      have "\<forall>j. lo \<le> j \<longrightarrow> j < i + 1 \<longrightarrow> sg (b ! nat j) \<le> sg (b ! nat p)"
        using le False by (metis linorder_not_less max.absorb2)
      then show ?thesis unfolding st using i False by auto
    qed
  qed (use assms in auto)
  then show ?thesis by blast
qed

text \<open>
  The extremum searches: over rows \<open>lo\<close> to \<open>hi\<close> the answer is a row of the half-open range
  \<open>[lo, hi)\<close> where the border is largest (smallest), the first such row; row \<open>hi\<close> itself, which the
  documentation includes, is not looked at.
\<close>

theorem FindMaxMin_spec:
  assumes "0 \<le> lo" and "lo < hi" and "hi < int (length b)" and "length b \<le> 1000"
  shows "(\<exists>p. Line_FindMaxPoint b lo hi = Some p \<and> Line_FindMaxPoint b hi lo = Some p \<and> lo \<le> p \<and> p < hi \<and>
      (\<forall>j. lo \<le> j \<longrightarrow> j < hi \<longrightarrow> b ! nat j \<le> b ! nat p) \<and> (\<forall>j. lo \<le> j \<longrightarrow> j < p \<longrightarrow> b ! nat j < b ! nat p)) \<and>
    (\<exists>p. Line_FindMinPoint b lo hi = Some p \<and> Line_FindMinPoint b hi lo = Some p \<and> lo \<le> p \<and> p < hi \<and>
      (\<forall>j. lo \<le> j \<longrightarrow> j < hi \<longrightarrow> b ! nat p \<le> b ! nat j) \<and> (\<forall>j. lo \<le> j \<longrightarrow> j < p \<longrightarrow> b ! nat p < b ! nat j))"
proof -
  note c = CmpMinMax(1) [of lo hi] CmpMinMax(2) [of lo hi]
  obtain p where p: "for_each (\<lambda>i p. do { a \<leftarrow> rd b i; c \<leftarrow> rd b p; Some (if a > c then i else p) }) [lo..hi - 1] lo = Some p"
    "lo \<le> p" "p < hi" "\<forall>j. lo \<le> j \<longrightarrow> j < hi \<longrightarrow> b ! nat j \<le> b ! nat p" "\<forall>j. lo \<le> j \<longrightarrow> j < p \<longrightarrow> b ! nat j < b ! nat p"
    using extremum_loop [of lo hi b "\<lambda>x. x"] assms by auto
  obtain q where q: "for_each (\<lambda>i p. do { a \<leftarrow> rd b i; c \<leftarrow> rd b p; Some (if a < c then i else p) }) [lo..hi - 1] lo = Some q"
    "lo \<le> q" "q < hi" "\<forall>j. lo \<le> j \<longrightarrow> j < hi \<longrightarrow> b ! nat q \<le> b ! nat j" "\<forall>j. lo \<le> j \<longrightarrow> j < q \<longrightarrow> b ! nat q < b ! nat j"
    using extremum_loop [of lo hi b uminus] assms by auto
  have "Line_FindMaxPoint b lo hi = Some p" "Line_FindMaxPoint b hi lo = Some p"
    "Line_FindMinPoint b lo hi = Some q" "Line_FindMinPoint b hi lo = Some q"
    using p(1-3) q(1-3) c assms by (simp_all add: Line_FindMaxPoint_def Line_FindMinPoint_def Let_def s16_id)
  with p q show ?thesis by blast
qed

definition example_border :: "int list" where "example_border = [7, 9, 9, 2, 50]"

lemma FindMaxMin_spec_witness:
  "(\<exists>p. Line_FindMaxPoint example_border 0 4 = Some p \<and> Line_FindMaxPoint example_border 4 0 = Some p \<and> 0 \<le> p \<and> p < 4 \<and>
      (\<forall>j. 0 \<le> j \<longrightarrow> j < 4 \<longrightarrow> example_border ! nat j \<le> example_border ! nat p) \<and>
      (\<forall>j. 0 \<le> j \<longrightarrow> j < p \<longrightarrow> example_border ! nat j < example_border ! nat p)) \<and>
    (\<exists>p. Line_FindMinPoint example_border 0 4 = Some p \<and> Line_FindMinPoint example_border 4 0 = Some p \<and> 0 \<le> p \<and> p < 4 \<and>
      (\<forall>j. 0 \<le> j \<longrightarrow> j < 4 \<longrightarrow> example_border ! nat p \<le> example_border ! nat j) \<and>
      (\<forall>j. 0 \<le> j \<longrightarrow> j < p \<longrightarrow> example_border ! nat p < example_border ! nat j))"
  by (rule FindMaxMin_spec) (simp_all add: example_border_def)

text \<open>
  The straight line test looks at the wrong rows: for a segment from row \<open>lo\<close> to row \<open>hi\<close> with
  equal end values, it answers straight exactly when the border rows 0 to \<open>hi - lo - 1\<close>, not the rows of
  the segment, are within 5 of the chord; the rows of the segment between its ends play no part.
\<close>

theorem IsStraight_wrong_rows:
  assumes "small_border b" and "0 \<le> lo" and "lo < hi" and "hi < int (length b)" and "b ! nat lo = b ! nat hi"
  shows "Line_IsStraight b lo hi = Some (if \<forall>i. 0 \<le> i \<longrightarrow> i < hi - lo \<longrightarrow> \<bar>b ! nat i - b ! nat lo\<bar> \<le> 5
    then ISSTRAIGHT else NOTSTRAIGHT)"
proof -
  define c where "c = b ! nat lo"
  have c: "\<bar>c\<bar> \<le> 1000" "b ! nat hi = c" "b ! nat lo = c" using small_nth [OF assms(1)] assms by (simp_all add: c_def)
  have len: "length b \<le> 1000" using assms(1) by (simp add: small_border_def)
  have n: "i2f (lo - hi) = Fin (of_int (lo - hi))" using len assms by (intro i2f_exact) simp
  have K: "Line_CalK (point lo c) (point hi c) = Fin 0"
    using c assms len n i2f_exact [of 0] by (simp add: Line_CalK_def point_small fdiv_def f32_small)
  let ?body = "\<lambda>i (_ :: unit). do { b0 \<leftarrow> rd b lo; target_value \<leftarrow> f2s16 (fadd (i2f b0) (fmul (Fin 0) (i2f i)));
      bi \<leftarrow> rd b i;
      Some (if flt_gt (fl_abs (i2f (bi - target_value))) (i2f Math_StraightJudgeValue) then Inl NOTSTRAIGHT else Inr ()) }"
  have body: "?body i u = Some (if \<bar>b ! nat i - c\<bar> \<le> 5 then Inr () else Inl NOTSTRAIGHT)" if i: "0 \<le> i" "i < hi - lo" for i u
  proof -
    have "\<bar>b ! nat i - c\<bar> \<le> 2000" using small_nth [OF assms(1), of i] i assms c(1) by simp
    then have d: "i2f (b ! nat i - c) = Fin (of_int (b ! nat i - c))" by (intro i2f_exact) simp
    have "i2f i = Fin (of_int i)" "i2f c = Fin (of_int c)" "i2f 5 = Fin 5" using i len assms c i2f_exact [of 5] by (auto intro!: i2f_exact)
    moreover have "fadd (Fin (of_int c)) (Fin 0) = Fin (of_int c)" using fadd_int [of c 0] c by simp
    moreover have "f2s16 (Fin (of_int c)) = Some c" using c by (intro f2s16_int) simp_all
    moreover have "\<bar>of_int (b ! nat i - c) :: rat\<bar> \<le> 5 \<longleftrightarrow> \<bar>b ! nat i - c\<bar> \<le> 5"
      by (metis of_int_abs of_int_le_iff of_int_numeral)
    ultimately show ?thesis
      using i assms d by (auto simp add: fmul_def f32_small Math_StraightJudgeValue_def c linorder_not_less del: of_int_diff f2int.simps)
  qed
  have loop: "for_break ?body is () =
      Some (if \<forall>i \<in> set is. \<bar>b ! nat i - c\<bar> \<le> 5 then Inr () else Inl NOTSTRAIGHT)" if "set is \<subseteq> {0..<hi - lo}" for "is"
    using that
  proof (induction "is")
    case (Cons i js)
    then show ?case using body [of i] by (auto split: if_splits)
  qed simp
  have "set [0..hi - lo - 1] \<subseteq> {0..<hi - lo}" by auto
  from loop [OF this] show ?thesis
    using assms c len K CmpMinMax(1) [of lo hi]
    by (auto simp add: Line_IsStraight_def Let_def s16_id Ball_def)
qed

lemma IsStraight_wrong_rows_witness:
  "Line_IsStraight [187, 50, 50, 50] 1 3 = Some (if \<forall>i. 0 \<le> i \<longrightarrow> i < 3 - 1 \<longrightarrow>
      \<bar>[187, 50, 50, 50] ! nat i - [187, 50, 50, 50] ! nat 1\<bar> \<le> (5 :: int) then ISSTRAIGHT else NOTSTRAIGHT)"
  by (rule IsStraight_wrong_rows) (simp_all add: small_border_def)

end
