(* ===== verification/Camera.thy ===== *)
theory Camera
  imports Screen
begin

text \<open>
  The image pipeline of \<open>mdk/camera.c\<close> (\<open>mdk/camera.h\<close>): threshold, binarization, and the search
  for the two borders of the track.  An image is a list of rows; a read outside the array is
  \<open>None\<close>, where a conjunction of two pixel tests reads the second pixel only when the first test
  holds, as in C.  A border is a list indexed by row.
\<close>

section \<open>Images and state\<close>

definition imgRow :: int where [run_simps]: "imgRow = 70"
definition imgCol :: int where [run_simps]: "imgCol = 188"
definition MID_COL :: int where [run_simps]: "MID_COL = imgCol div 2"
definition IMAGE_COL :: int where [run_simps]: "IMAGE_COL = 188"
definition IMAGE_ROW :: int where [run_simps]: "IMAGE_ROW = 70"
definition range_line :: int where [run_simps]: "range_line = 10"

type_synonym image = "int list list"

definition px :: "image \<Rightarrow> int \<Rightarrow> int \<Rightarrow> int option" where
  "px img i j = do { row \<leftarrow> rd img i; rd row j }"

record RoadLine_t =
  MID_Table :: "int list"
  leftBroder :: "int list"
  rightBroder :: "int list"

text \<open>The working state of the border search.\<close>

record scan =
  Image_S :: RoadLine_t
  left_add_flag :: "int list"
  right_add_flag :: "int list"
  Limit_Broder :: "int list"

section \<open>Threshold (Otsu's method)\<close>

record otsu =
  w0 :: flt
  u0tmp :: flt
  deltaMax :: flt
  threshold :: int

definition gray_count :: "int list \<Rightarrow> int \<Rightarrow> int \<Rightarrow> (int list \<times> int) option" where
  "gray_count data width height =
    for_each (\<lambda>i acc.
      for_each (\<lambda>j (cnt, gray_sum). do {
        g \<leftarrow> rd data (i * width + j);
        c \<leftarrow> rd cnt g;
        cnt \<leftarrow> wr cnt g (c + 1);
        Some (cnt, u32 (gray_sum + g))
      }) (filter even [0..width - 1]) acc) (filter even [0..height - 1]) (replicate 256 0, 0)"

text \<open>
  One pass over a gray level; \<open>Inl\<close> is the \<open>break\<close>.  \<open>gray_sum/pixelSum\<close> is an unsigned integer
  division; \<open>pow(x, 2)\<close> of a \<open>float\<close> is exact in \<open>double\<close> and so the product.
\<close>

definition otsu_level :: "flt list \<Rightarrow> int \<Rightarrow> int \<Rightarrow> int \<Rightarrow> otsu \<Rightarrow> (otsu + otsu) option" where
  "otsu_level pixelPro gray_sum pixelSum j s =
    do {
      p \<leftarrow> rd pixelPro j;
      let s = s\<lparr>w0 := fadd (w0 s) p\<rparr>;
      if p = Fin 0 then Some (Inr s)
      else if pixelSum = 0 then None
      else
        do {
          let s = s\<lparr>u0tmp := fadd (u0tmp s) (fmul (i2f j) p)\<rparr>;
          let w1 = fsub (Fin 1) (w0 s);
          let u1tmp = fsub (i2f (gray_sum div pixelSum)) (u0tmp s);
          let u0 = fdiv (u0tmp s) (w0 s);
          let u1 = fdiv u1tmp w1;
          let u = fadd (u0tmp s) u1tmp;
          let d0 = fsub u0 u;
          let d1 = fsub u1 u;
          let deltaTmp = d2f (dadd (dmul (w0 s) (dmul d0 d0)) (dmul w1 (dmul d1 d1)));
          let s = (if flt_gt deltaTmp (deltaMax s) then s\<lparr>deltaMax := deltaTmp, threshold := j\<rparr> else s);
          Some (if flt_less deltaTmp (deltaMax s) then Inl s else Inr s)
        }
    }"

definition Camera_My_Adapt_Threshold :: "int list \<Rightarrow> int \<Rightarrow> int \<Rightarrow> int option" where
  "Camera_My_Adapt_Threshold data width height =
    do {
      let pixelSum = width * height sdiv 4;
      (cnt, gray_sum) \<leftarrow> gray_count data width height;
      let pixelPro = map (\<lambda>c. fdiv (i2f c) (i2f pixelSum)) cnt;
      r \<leftarrow> for_break (otsu_level pixelPro gray_sum pixelSum) [0..255] \<lparr>w0 = Fin 0, u0tmp = Fin 0, deltaMax = Fin 0, threshold = 0\<rparr>;
      let t = threshold (case r of Inl s \<Rightarrow> s | Inr s \<Rightarrow> s);
      let t = (if t > 255 then 255 else t);
      Some (if t < 0 then 0 else t)
    }"

text \<open>\<open>Camera_PreProcess\<close>: the threshold, \<open>my_image_BW\<close> and \<open>my_image\<close> from the sensor image.\<close>

definition binarize :: "int \<Rightarrow> int \<Rightarrow> int" where
  "binarize T v = (if v > T then 255 else 0)"

definition image_map :: "(int \<Rightarrow> int) \<Rightarrow> image \<Rightarrow> image option" where
  "image_map f img =
    those (map (\<lambda>i. those (map (\<lambda>j. map_option f (px img i j)) [0..imgCol - 1])) [0..imgRow - 1])"

definition Camera_PreProcess :: "image \<Rightarrow> (int \<times> image \<times> image) option" where
  "Camera_PreProcess mt9v03x_image =
    do {
      t \<leftarrow> Camera_My_Adapt_Threshold (concat mt9v03x_image) IMAGE_COL IMAGE_ROW;
      let T = s16 t;
      bw \<leftarrow> image_map (binarize T) mt9v03x_image;
      gray \<leftarrow> image_map id mt9v03x_image;
      Some (T, bw, gray)
    }"

definition Camera_CopyMyImage :: "image \<Rightarrow> image option" where
  "Camera_CopyMyImage mt9v03x_image = image_map id mt9v03x_image"

section \<open>The border search\<close>

text \<open>
  Edge tests in the order of the source's reads: \<open>bright_dark\<close> is \<open>img[i][a] > T && img[i][b] < T\<close>,
  \<open>dark_bright\<close> is \<open>img[i][a] < T && img[i][b] > T\<close>.
\<close>

definition bright_dark :: "image \<Rightarrow> int \<Rightarrow> int \<Rightarrow> int \<Rightarrow> int \<Rightarrow> bool option" where
  "bright_dark img T i a b = do { p \<leftarrow> px img i a; if p > T then do { q \<leftarrow> px img i b; Some (q < T) } else Some False }"

definition dark_bright :: "image \<Rightarrow> int \<Rightarrow> int \<Rightarrow> int \<Rightarrow> int \<Rightarrow> bool option" where
  "dark_bright img T i a b = do { p \<leftarrow> px img i a; if p < T then do { q \<leftarrow> px img i b; Some (q > T) } else Some False }"

text \<open>A scan over columns: the first column of the list that passes the test, if any.\<close>

fun find_col :: "(int \<Rightarrow> bool option) \<Rightarrow> int list \<Rightarrow> int option option" where
  "find_col test [] = Some None"
| "find_col test (j # js) = do { t \<leftarrow> test j; if t then Some (Some j) else find_col test js }"

definition set_left :: "int \<Rightarrow> int \<Rightarrow> scan \<Rightarrow> scan option" where
  "set_left i v s = do { l \<leftarrow> wr (leftBroder (Image_S s)) i v; Some (s\<lparr>Image_S := (Image_S s)\<lparr>leftBroder := l\<rparr>\<rparr>) }"

definition set_right :: "int \<Rightarrow> int \<Rightarrow> scan \<Rightarrow> scan option" where
  "set_right i v s = do { r \<leftarrow> wr (rightBroder (Image_S s)) i v; Some (s\<lparr>Image_S := (Image_S s)\<lparr>rightBroder := r\<rparr>\<rparr>) }"

definition flag_left :: "int \<Rightarrow> int \<Rightarrow> scan \<Rightarrow> scan option" where
  "flag_left i v s = do { f \<leftarrow> wr (left_add_flag s) i v; Some (s\<lparr>left_add_flag := f\<rparr>) }"

definition flag_right :: "int \<Rightarrow> int \<Rightarrow> scan \<Rightarrow> scan option" where
  "flag_right i v s = do { f \<leftarrow> wr (right_add_flag s) i v; Some (s\<lparr>right_add_flag := f\<rparr>) }"

definition get_left :: "int \<Rightarrow> scan \<Rightarrow> int option" where "get_left i s = rd (leftBroder (Image_S s)) i"
definition get_right :: "int \<Rightarrow> scan \<Rightarrow> int option" where "get_right i s = rd (rightBroder (Image_S s)) i"

definition left_found :: "int \<Rightarrow> int \<Rightarrow> scan \<Rightarrow> scan option" where
  "left_found i v s = do { s \<leftarrow> set_left i (s16 v) s; flag_left i 0 s }"

definition left_lost :: "int \<Rightarrow> scan \<Rightarrow> scan option" where
  "left_lost i s = do { s \<leftarrow> set_left i 0 s; flag_left i 1 s }"

definition right_found :: "int \<Rightarrow> int \<Rightarrow> scan \<Rightarrow> scan option" where
  "right_found i v s = do { s \<leftarrow> set_right i (s16 v) s; flag_right i 0 s }"

definition right_lost :: "int \<Rightarrow> scan \<Rightarrow> scan option" where
  "right_lost i s = do { s \<leftarrow> set_right i (imgCol - 1) s; flag_right i 1 s }"

text \<open>The lowest row when its middle is white: outwards from the middle.\<close>

definition first_row_white :: "image \<Rightarrow> int \<Rightarrow> int \<Rightarrow> scan \<Rightarrow> scan option" where
  "first_row_white img T i s =
    do {
      l \<leftarrow> find_col (\<lambda>j. bright_dark img T i j (j - 1)) (downto (MID_COL - 1) 1);
      s \<leftarrow> (case l of Some j \<Rightarrow> left_found i (j - 1) s | None \<Rightarrow> left_lost i s);
      r \<leftarrow> find_col (\<lambda>j. dark_bright img T i j (j - 1)) [MID_COL - 1..imgCol - 1];
      (case r of Some j \<Rightarrow> right_found i j s | None \<Rightarrow> right_lost i s)
    }"

text \<open>
  The lowest row when its middle is black: first to the right, then, whatever was found, to
  the left.  The second scan of each side runs only when the first one found its edge.
\<close>

definition first_row_black_right :: "image \<Rightarrow> int \<Rightarrow> int \<Rightarrow> scan \<Rightarrow> scan option" where
  "first_row_black_right img T i s =
    do {
      l \<leftarrow> find_col (\<lambda>j. bright_dark img T i j (j - 1)) [MID_COL - 1..imgCol - 1];
      (case l of
        None \<Rightarrow> Some s
      | Some j \<Rightarrow>
          do {
            s \<leftarrow> set_left i (s16 (j - 1)) s;
            v \<leftarrow> get_left i s;
            r \<leftarrow> find_col (\<lambda>w. dark_bright img T i w (w - 1)) [v + 1..imgCol - 1];
            (case r of Some w \<Rightarrow> set_right i (s16 w) s | None \<Rightarrow> right_lost i s)
          })
    }"

definition first_row_black_left :: "image \<Rightarrow> int \<Rightarrow> int \<Rightarrow> scan \<Rightarrow> scan option" where
  "first_row_black_left img T i s =
    do {
      z \<leftarrow> find_col (\<lambda>z. do { p \<leftarrow> px img i (z - 1); if p > T then do { q \<leftarrow> px img i z; Some (q < T) } else Some False })
        (downto (MID_COL - 1) 1);
      (case z of
        None \<Rightarrow> Some s
      | Some z \<Rightarrow>
          do {
            s \<leftarrow> set_right i (s16 z) s;
            v \<leftarrow> get_right i s;
            r \<leftarrow> find_col (\<lambda>w. bright_dark img T i w (w - 1)) (downto (v - 1) 1);
            (case r of Some w \<Rightarrow> set_left i (s16 w) s | None \<Rightarrow> do { s \<leftarrow> set_left i 1 s; flag_left i 1 s })
          })
    }"

definition first_row_black :: "image \<Rightarrow> int \<Rightarrow> int \<Rightarrow> scan \<Rightarrow> scan option" where
  "first_row_black img T i s =
    do {
      s \<leftarrow> first_row_black_right img T i s;
      s \<leftarrow> first_row_black_left img T i s;
      l \<leftarrow> get_left i s;
      s \<leftarrow> (if l = 0 then flag_left i 1 s else Some s);
      r \<leftarrow> get_right i s;
      if r = 0 then flag_right i 1 s else Some s
    }"

text \<open>
  A row above the lowest one, left border: near the border of the row below, or leftwards from its
  right border, or from the middle.  A loop \<open>for(j = from; j > 0; j--)\<close> with \<open>if(j<=3) break;\<close> after its
  test looks at the columns \<open>cols3 from\<close> and, when it finds nothing, ends at the last of them; whenever it
  ends at column 3, found or not, the border is then marked as lost.
\<close>

definition cols3 :: "int \<Rightarrow> int list" where
  "cols3 from = (if from > 3 then downto from 3 else if from > 0 then [from] else [])"

definition left_scan3 :: "image \<Rightarrow> int \<Rightarrow> int \<Rightarrow> int \<Rightarrow> scan \<Rightarrow> scan option" where
  "left_scan3 img T i from s =
    do {
      l \<leftarrow> find_col (\<lambda>j. bright_dark img T i j (j - 1)) (cols3 from);
      s \<leftarrow> (case l of Some j \<Rightarrow> left_found i (j - 1) s | None \<Rightarrow> Some s);
      let j = (case l of Some j \<Rightarrow> j | None \<Rightarrow> if from > 3 then 3 else from);
      if j = 3 then left_lost i s else Some s
    }"

definition row_left :: "image \<Rightarrow> int \<Rightarrow> int \<Rightarrow> scan \<Rightarrow> scan option" where
  "row_left img T i s =
    do {
      lf \<leftarrow> rd (left_add_flag s) (i + 1);
      if lf = 0 then
        do {
          Target_point \<leftarrow> get_left (i + 1) s;
          let Limit_Broder_add = Target_point + range_line;
          left_scan3 img T i (if Limit_Broder_add > imgCol - 1 then imgCol - 1 else Limit_Broder_add) s
        }
      else
        do {
          rf \<leftarrow> rd (right_add_flag s) (i + 1);
          if rf = 0 then
            do {
              from \<leftarrow> get_right (i + 1) s;
              l \<leftarrow> find_col (\<lambda>j. bright_dark img T i j (j - 1)) (downto from 1);
              (case l of Some j \<Rightarrow> left_found i (j - 1) s | None \<Rightarrow> if from \<ge> 0 then left_lost i s else Some s)
            }
          else left_scan3 img T i (MID_COL - 1) s
        }
    }"

text \<open>The right border of such a row.\<close>

definition row_right :: "image \<Rightarrow> int \<Rightarrow> int \<Rightarrow> scan \<Rightarrow> scan option" where
  "row_right img T i s =
    do {
      rf \<leftarrow> rd (right_add_flag s) (i + 1);
      if rf = 0 then
        do {
          Target_point \<leftarrow> get_right (i + 1) s;
          let from = (if Target_point - range_line \<le> 1 then 1 else Target_point - range_line);
          r \<leftarrow> find_col (\<lambda>j. bright_dark img T i (j - 1) j) [from..imgCol - 2];
          (case r of Some j \<Rightarrow> right_found i j s | None \<Rightarrow> if from \<le> imgCol - 1 then right_lost i s else Some s)
        }
      else
        do {
          lf \<leftarrow> rd (left_add_flag s) (i + 1);
          if lf = 0 then
            do {
              from \<leftarrow> get_left (i + 1) s;
              r \<leftarrow> find_col (\<lambda>j. dark_bright img T i j (j - 1)) [from..imgCol - 1];
              (case r of Some j \<Rightarrow> right_found i j s | None \<Rightarrow> if from \<le> imgCol then right_lost i s else Some s)
            }
          else
            do {
              r \<leftarrow> find_col (\<lambda>j. bright_dark img T i (j - 1) j) [MID_COL - 1..imgCol - 1];
              (case r of Some j \<Rightarrow> right_found i j s | None \<Rightarrow> right_lost i s)
            }
        }
    }"

text \<open>The three limits that end the search.\<close>

definition set_limits :: "image \<Rightarrow> int \<Rightarrow> scan \<Rightarrow> scan option" where
  "set_limits img i s =
    do {
      l \<leftarrow> get_left i s; r \<leftarrow> get_right i s;
      l0 \<leftarrow> rd (Limit_Broder s) 0; l1 \<leftarrow> rd (Limit_Broder s) 1;
      if l \<le> r \<and> r \<le> 10 \<and> l0 = 0 then do { L \<leftarrow> wr (Limit_Broder s) 0 i; Some (s\<lparr>Limit_Broder := L\<rparr>) }
      else if r \<ge> l \<and> l \<ge> 150 \<and> l1 = 0 then do { L \<leftarrow> wr (Limit_Broder s) 1 i; Some (s\<lparr>Limit_Broder := L\<rparr>) }
      else
        do {
          lf \<leftarrow> rd (left_add_flag s) i;
          rf \<leftarrow> rd (right_add_flag s) i;
          p \<leftarrow> (if lf = 1 \<and> rf = 1 then
                 do { a \<leftarrow> px img i 25; if a = 0 then do { b \<leftarrow> px img i 135; Some (b = 0) } else Some False }
               else Some False);
          if p \<or> l > r - 6 then do { L \<leftarrow> wr (Limit_Broder s) 2 i; Some (s\<lparr>Limit_Broder := L\<rparr>) } else Some s
        }
    }"

text \<open>Rows from a limit upwards are reset; the loop variable of the search is used up by this.\<close>

definition clear_from :: "int \<Rightarrow> scan \<Rightarrow> scan option" where
  "clear_from k s =
    do {
      from \<leftarrow> rd (Limit_Broder s) k;
      for_each (\<lambda>i s. do { s \<leftarrow> set_left i 0 s; set_right i (imgCol - 1) s }) (downto from 0) s
    }"

definition scan_row :: "image \<Rightarrow> int \<Rightarrow> int \<Rightarrow> scan \<Rightarrow> (scan + scan) option" where
  "scan_row img T i s =
    do {
      l0 \<leftarrow> rd (Limit_Broder s) 0; l1 \<leftarrow> rd (Limit_Broder s) 1; l2 \<leftarrow> rd (Limit_Broder s) 2;
      if l0 = 0 \<and> l1 = 0 \<and> l2 = 0 then
        do {
          s \<leftarrow> (if i = imgRow - 1 then
                 do {
                   m \<leftarrow> px img i (MID_COL - 1);
                   if m \<ge> T then first_row_white img T i s else first_row_black img T i s
                 }
               else do { s \<leftarrow> row_left img T i s; row_right img T i s });
          s \<leftarrow> set_limits img i s;
          Some (Inr s)
        }
      else
        do { s \<leftarrow> clear_from 0 s; s \<leftarrow> clear_from 1 s; s \<leftarrow> clear_from 2 s; Some (Inl s) }
    }"

definition scan_start :: "RoadLine_t \<Rightarrow> scan" where
  "scan_start road = \<lparr>Image_S = road\<lparr>leftBroder := replicate 70 0, rightBroder := replicate 70 187, MID_Table := replicate 70 80\<rparr>,
     left_add_flag = replicate 70 0, right_add_flag = replicate 70 0, Limit_Broder = [0, 0, 0]\<rparr>"

definition Camera_FindMyLine :: "image \<Rightarrow> int \<Rightarrow> RoadLine_t \<Rightarrow> RoadLine_t option" where
  "Camera_FindMyLine my_image Threshold road =
    do {
      r \<leftarrow> for_break (scan_row my_image Threshold) (downto (imgRow - 1) 0) (scan_start road);
      Some (Image_S (case r of Inl s \<Rightarrow> s | Inr s \<Rightarrow> s))
    }"

section \<open>The longest white column\<close>

record white_columns =
  White_Column :: "int list"
  Longest_White_Column_Left :: "int \<times> int"
  Longest_White_Column_Right :: "int \<times> int"
  Center :: int

definition count_white :: "image \<Rightarrow> int \<Rightarrow> int option" where
  "count_white bw j =
    do {
      r \<leftarrow> for_break (\<lambda>i n. do { p \<leftarrow> px bw i j; Some (if p = 0 then Inl n else Inr (n + 1)) }) (downto (IMAGE_ROW - 1) 0) 0;
      Some (case r of Inl n \<Rightarrow> n | Inr n \<Rightarrow> n)
    }"

definition longest :: "int list \<Rightarrow> int list \<Rightarrow> int \<times> int \<Rightarrow> (int \<times> int) option" where
  "longest cols js old =
    for_each (\<lambda>i (len, pos). do { c \<leftarrow> rd cols i; Some (if len < c then (c, i) else (len, pos)) }) js (0, snd old)"

definition Camera_LongestWight :: "image \<Rightarrow> white_columns \<Rightarrow> white_columns option" where
  "Camera_LongestWight bw s =
    do {
      cols \<leftarrow> those (map (count_white bw) [0..imgCol - 1]);
      l \<leftarrow> longest cols [0..imgCol - 1] (Longest_White_Column_Left s);
      r \<leftarrow> longest cols (downto (imgCol - 1) 0) (Longest_White_Column_Right s);
      Some \<lparr>White_Column = cols, Longest_White_Column_Left = l, Longest_White_Column_Right = r,
        Center = (snd l + snd r) sdiv 2\<rparr>
    }"

section \<open>Local thresholds and the roundabout search\<close>

text \<open>The failed \<open>assert\<close> on an even block size is \<open>None\<close>.\<close>

definition block_sum :: "(int \<Rightarrow> int \<Rightarrow> int option) \<Rightarrow> int \<Rightarrow> int option" where
  "block_sum get half_block =
    for_each (\<lambda>dy t. for_each (\<lambda>dx t. do { v \<leftarrow> get dy dx; Some (t + v) }) [- half_block..half_block] t)
      [- half_block..half_block] 0"

definition adaptiveThreshold :: "int list \<Rightarrow> int list \<Rightarrow> int \<Rightarrow> int \<Rightarrow> int \<Rightarrow> int \<Rightarrow> int list option" where
  "adaptiveThreshold img_data output_data width height block clip_value =
    (if block smod 2 \<noteq> 1 then None
     else
       let half_block = block sdiv 2 in
       for_each (\<lambda>y out. for_each (\<lambda>x out. do {
           thres \<leftarrow> block_sum (\<lambda>dy dx. rd img_data ((x + dx) + (y + dy) * width)) half_block;
           let thres = thres sdiv (block * block) - clip_value;
           v \<leftarrow> rd img_data (x + y * width);
           wr out (x + y * width) (if v > thres then 255 else 0)
         }) [half_block..width - half_block - 1] out) [half_block..height - half_block - 1] output_data)"

definition BLOCK :: int where "BLOCK = 7"
definition CLIP_VAL :: int where "CLIP_VAL = 10"
definition Judge_Thre :: int where "Judge_Thre = 50"

definition VadaptiveTH :: "image \<Rightarrow> int \<Rightarrow> int \<Rightarrow> int option" where
  "VadaptiveTH src x y =
    (let half_block = BLOCK sdiv 2 in
     if y < half_block \<or> y \<ge> imgRow - half_block \<or> x < half_block \<or> x \<ge> imgCol - half_block then Some 1
     else do {
       thres \<leftarrow> block_sum (\<lambda>dy dx. px src (y + dy) (x + dx)) half_block;
       let thres = thres sdiv (BLOCK * BLOCK) - CLIP_VAL;
       v \<leftarrow> px src y x;
       Some (if v > thres then 255 else 0)
     })"

definition Camera_CirFindLine :: "image \<Rightarrow> int list \<Rightarrow> int list option" where
  "Camera_CirFindLine src cir_line =
    for_each (\<lambda>i line. do {
      r \<leftarrow> for_break (\<lambda>j line. do {
          a \<leftarrow> px src (j + 1) i;
          b \<leftarrow> px src j i;
          if \<bar>a - b\<bar> > Judge_Thre then
            do { t \<leftarrow> VadaptiveTH src i j; if t = 0 then do { l \<leftarrow> wr line i j; Some (Inl l) } else Some (Inr line) }
          else do { l \<leftarrow> wr line i 0; Some (Inr l) }
        }) (downto (imgRow - 1) 0) line;
      Some (case r of Inl l \<Rightarrow> l | Inr l \<Rightarrow> l)
    }) (downto (imgCol - 1) 0) cir_line"

section \<open>Drawing the borders\<close>

text \<open>The pixels written: both images, the frame around the second one, the three tables, the marks.\<close>

definition draw_clip :: "int \<Rightarrow> int" where
  "draw_clip v = (let v = (if v \<ge> 188 then 187 else v) in if v < 0 then 0 else v)"

definition copy_table :: "int list \<Rightarrow> int list option" where
  "copy_table tab = those (map (rd tab) [0..imgRow - 1])"

definition draw_tables :: "RoadLine_t \<Rightarrow> pixel list option" where
  "draw_tables road =
    do {
      mid \<leftarrow> copy_table (MID_Table road);
      left \<leftarrow> copy_table (leftBroder road);
      right \<leftarrow> copy_table (rightBroder road);
      for_each (\<lambda>i out. do {
        m \<leftarrow> rd mid i; l \<leftarrow> rd left i; r \<leftarrow> rd right i;
        a \<leftarrow> ips200_draw_point (draw_clip m) i RGB565_RED;
        b \<leftarrow> ips200_draw_point (draw_clip l) i RGB565_BLUE;
        c \<leftarrow> ips200_draw_point (draw_clip r) i RGB565_BROWN;
        d \<leftarrow> ips200_draw_point 94 i RGB565_GREEN;
        Some (out @ [a, b, c, d]) }) (downto (imgRow - 1) 1) []
    }"

definition Vision_Draw :: "image \<Rightarrow> image \<Rightarrow> RoadLine_t \<Rightarrow> pixel list option" where
  "Vision_Draw my_image my_image_BW road =
    do {
      gray \<leftarrow> ips200_show_gray_image 0 0 (concat my_image) imgCol imgRow 188 70 0;
      bw \<leftarrow> ips200_show_gray_image 0 100 (concat my_image_BW) imgCol imgRow 188 70 0;
      top \<leftarrow> ips200_draw_line 0 99 188 99 RGB565_RED;
      bottom \<leftarrow> ips200_draw_line 0 (71 + 99) 188 (71 + 99) RGB565_RED;
      side \<leftarrow> ips200_draw_line 188 99 188 (71 + 99) RGB565_RED;
      tables \<leftarrow> draw_tables road;
      a \<leftarrow> ips200_draw_line 0 60 187 60 RGB565_CYAN;
      b \<leftarrow> ips200_draw_line 46 0 46 69 RGB565_CYAN;
      c \<leftarrow> ips200_draw_line 140 0 140 69 RGB565_CYAN;
      Some (gray @ bw @ top @ bottom @ side @ tables @ a @ b @ c)
    }"

section \<open>The search stays inside the image\<close>

definition image_ok :: "image \<Rightarrow> bool" where
  "image_ok img \<longleftrightarrow> length img = 70 \<and> (\<forall>row \<in> set img. length row = 188)"

lemma px_ok: "image_ok img \<Longrightarrow> 0 \<le> i \<Longrightarrow> i < 70 \<Longrightarrow> 0 \<le> j \<Longrightarrow> j < 188 \<Longrightarrow> px img i j = Some (img ! nat i ! nat j)"
  by (simp add: px_def image_ok_def)

lemma bright_dark_ok:
  assumes "image_ok img" and "0 \<le> i" and "i < 70" and "0 \<le> a" and "a < 188" and "0 \<le> b" and "b < 188"
  shows "bright_dark img T i a b = Some (img ! nat i ! nat a > T \<and> img ! nat i ! nat b < T)"
    and "dark_bright img T i a b = Some (img ! nat i ! nat a < T \<and> img ! nat i ! nat b > T)"
  using px_ok [OF assms(1-3)] assms(4-) by (simp_all add: bright_dark_def dark_bright_def)

text \<open>A scan over columns whose tests are all defined finds the first column that passes.\<close>

lemma find_col_ok:
  assumes "\<And>j. j \<in> set js \<Longrightarrow> test j = Some (P j)"
  shows "find_col test js = Some (find P js)"
  using assms by (induction js) auto

lemma find_range: "find P js = Some j \<Longrightarrow> j \<in> set js \<and> P j"
  by (induction js) (auto split: if_splits)

definition scan_ok :: "scan \<Rightarrow> bool" where
  "scan_ok s \<longleftrightarrow> length (leftBroder (Image_S s)) = 70 \<and> length (rightBroder (Image_S s)) = 70 \<and>
     length (left_add_flag s) = 70 \<and> length (right_add_flag s) = 70 \<and> length (Limit_Broder s) = 3 \<and>
     (\<forall>v \<in> set (leftBroder (Image_S s)). 0 \<le> v \<and> v \<le> 187) \<and> (\<forall>v \<in> set (rightBroder (Image_S s)). 0 \<le> v \<and> v \<le> 187) \<and>
     (\<forall>v \<in> set (Limit_Broder s). 0 \<le> v \<and> v \<le> 69)"

text \<open>Every row below \<open>i\<close> whose left border is known has it at column 1 or later.\<close>

definition searched :: "int \<Rightarrow> scan \<Rightarrow> bool" where
  "searched i s \<longleftrightarrow> (\<forall>k. i < k \<longrightarrow> k < 70 \<longrightarrow> left_add_flag s ! nat k = 0 \<longrightarrow> 1 \<le> leftBroder (Image_S s) ! nat k)"

definition setL :: "int \<Rightarrow> int \<Rightarrow> int \<Rightarrow> scan \<Rightarrow> scan" where
  "setL i v f s = s\<lparr>Image_S := (Image_S s)\<lparr>leftBroder := (leftBroder (Image_S s))[nat i := v]\<rparr>,
     left_add_flag := (left_add_flag s)[nat i := f]\<rparr>"

definition setR :: "int \<Rightarrow> int \<Rightarrow> int \<Rightarrow> scan \<Rightarrow> scan" where
  "setR i v f s = s\<lparr>Image_S := (Image_S s)\<lparr>rightBroder := (rightBroder (Image_S s))[nat i := v]\<rparr>,
     right_add_flag := (right_add_flag s)[nat i := f]\<rparr>"

lemma scan_lengths: "scan_ok s \<Longrightarrow> length (leftBroder (Image_S s)) = 70 \<and> length (rightBroder (Image_S s)) = 70 \<and>
    length (left_add_flag s) = 70 \<and> length (right_add_flag s) = 70 \<and> length (Limit_Broder s) = 3"
  by (simp add: scan_ok_def)

lemma set_ops:
  assumes "scan_ok s" and "0 \<le> i" and "i < 70"
  shows "left_found i v s = Some (setL i (s16 v) 0 s)" "left_lost i s = Some (setL i 0 1 s)"
    "right_found i v s = Some (setR i (s16 v) 0 s)" "right_lost i s = Some (setR i 187 1 s)"
  using assms scan_lengths [OF assms(1)]
  by (simp_all add: left_found_def left_lost_def right_found_def right_lost_def set_left_def set_right_def
      flag_left_def flag_right_def setL_def setR_def imgCol_def)

lemma setL_ok: "scan_ok s \<Longrightarrow> 0 \<le> v \<Longrightarrow> v \<le> 187 \<Longrightarrow> scan_ok (setL i v f s)"
  using set_update_subset_insert [of "leftBroder (Image_S s)" "nat i" v] by (auto simp: scan_ok_def setL_def)

lemma setR_ok: "scan_ok s \<Longrightarrow> 0 \<le> v \<Longrightarrow> v \<le> 187 \<Longrightarrow> scan_ok (setR i v f s)"
  using set_update_subset_insert [of "rightBroder (Image_S s)" "nat i" v] by (auto simp: scan_ok_def setR_def)

lemma setL_setL [simp]: "setL i v f (setL i v' f' s) = setL i v f s"
  by (simp add: setL_def)

lemma border_ranges:
  assumes "scan_ok s" and "0 \<le> i" and "i < 70"
  shows "0 \<le> leftBroder (Image_S s) ! nat i" "leftBroder (Image_S s) ! nat i \<le> 187"
    "0 \<le> rightBroder (Image_S s) ! nat i" "rightBroder (Image_S s) ! nat i \<le> 187"
  using assms by (auto simp: scan_ok_def)

lemma set_frames [simp]:
  "rightBroder (Image_S (setL i v f s)) = rightBroder (Image_S s)" "right_add_flag (setL i v f s) = right_add_flag s"
  "Limit_Broder (setL i v f s) = Limit_Broder s" "leftBroder (Image_S (setR i v f s)) = leftBroder (Image_S s)"
  "left_add_flag (setR i v f s) = left_add_flag s" "Limit_Broder (setR i v f s) = Limit_Broder s"
  "leftBroder (Image_S (setL i v f s)) = (leftBroder (Image_S s))[nat i := v]"
  "left_add_flag (setL i v f s) = (left_add_flag s)[nat i := f]"
  "rightBroder (Image_S (setR i v f s)) = (rightBroder (Image_S s))[nat i := v]"
  "right_add_flag (setR i v f s) = (right_add_flag s)[nat i := f]"
  by (simp_all add: setL_def setR_def)

text \<open>The image has no edge between its first two columns: column 0 is dark where column 1 is bright.\<close>

definition no_edge_at_1 :: "image \<Rightarrow> int \<Rightarrow> bool" where
  "no_edge_at_1 img T \<longleftrightarrow> (\<forall>row \<in> set img. \<not> (row ! 1 > T \<and> row ! 0 < T))"

lemma no_edge: "no_edge_at_1 img T \<Longrightarrow> image_ok img \<Longrightarrow> 0 \<le> i \<Longrightarrow> i < 70 \<Longrightarrow> \<not> (img ! nat i ! 1 > T \<and> img ! nat i ! 0 < T)"
  by (simp add: no_edge_at_1_def image_ok_def nat_less_iff)

text \<open>What a row's left (right) step may do: store one border and its flag in that row.\<close>

definition left_upd :: "int \<Rightarrow> scan \<Rightarrow> scan \<Rightarrow> bool" where
  "left_upd i s s' \<longleftrightarrow> (\<exists>v f. 0 \<le> v \<and> v \<le> 187 \<and> (f = 0 \<longrightarrow> 1 \<le> v) \<and> s' = setL i v f s)"

definition right_upd :: "int \<Rightarrow> scan \<Rightarrow> scan \<Rightarrow> bool" where
  "right_upd i s s' \<longleftrightarrow> (\<exists>v f. 0 \<le> v \<and> v \<le> 187 \<and> s' = setR i v f s)"

lemma left_updI: "0 \<le> v \<Longrightarrow> v \<le> 187 \<Longrightarrow> (f = 0 \<longrightarrow> 1 \<le> v) \<Longrightarrow> left_upd i s (setL i v f s)"
  by (auto simp: left_upd_def)

lemma right_updI: "0 \<le> v \<Longrightarrow> v \<le> 187 \<Longrightarrow> right_upd i s (setR i v f s)"
  by (auto simp: right_upd_def)

lemma find_cols: "find P js = Some j \<Longrightarrow> set js \<subseteq> {1..187} \<Longrightarrow> j \<in> set js \<and> 1 \<le> j \<and> j \<le> 187"
  using find_range by fastforce

lemma find_left:
  assumes "image_ok img" and "no_edge_at_1 img T" and "0 \<le> i" and "i < 70" and "set js \<subseteq> {1..187}"
  shows "\<exists>r. find_col (\<lambda>j. bright_dark img T i j (j - 1)) js = Some r \<and> (\<forall>j. r = Some j \<longrightarrow> j \<in> set js \<and> 2 \<le> j \<and> j \<le> 187)"
proof -
  let ?P = "\<lambda>j. img ! nat i ! nat j > T \<and> img ! nat i ! nat (j - 1) < T"
  have "find_col (\<lambda>j. bright_dark img T i j (j - 1)) js = Some (find ?P js)"
    using assms by (intro find_col_ok bright_dark_ok(1)) auto
  moreover have "2 \<le> j" if "find ?P js = Some j" for j
  proof -
    have "?P j" using find_range [OF that] by simp
    then have "j \<noteq> 1" using no_edge [OF assms(2,1,3,4)] by auto
    with find_cols [OF that assms(5)] show ?thesis by linarith
  qed
  ultimately show ?thesis using find_cols [OF _ assms(5)] by blast
qed

lemma find_right:
  assumes "image_ok img" and "0 \<le> i" and "i < 70" and "set js \<subseteq> {1..187}"
  shows "\<exists>r. find_col (\<lambda>j. bright_dark img T i (j - 1) j) js = Some r \<and> (\<forall>j. r = Some j \<longrightarrow> 1 \<le> j \<and> j \<le> 187)"
    and "\<exists>r. find_col (\<lambda>j. dark_bright img T i j (j - 1)) js = Some r \<and> (\<forall>j. r = Some j \<longrightarrow> 1 \<le> j \<and> j \<le> 187)"
proof -
  have "find_col (\<lambda>j. bright_dark img T i (j - 1) j) js = Some (find (\<lambda>j. img ! nat i ! nat (j - 1) > T \<and> img ! nat i ! nat j < T) js)"
    using assms by (intro find_col_ok bright_dark_ok(1)) auto
  then show "\<exists>r. find_col (\<lambda>j. bright_dark img T i (j - 1) j) js = Some r \<and> (\<forall>j. r = Some j \<longrightarrow> 1 \<le> j \<and> j \<le> 187)"
    using find_cols [OF _ assms(4)] by blast
  have "find_col (\<lambda>j. dark_bright img T i j (j - 1)) js = Some (find (\<lambda>j. img ! nat i ! nat j < T \<and> img ! nat i ! nat (j - 1) > T) js)"
    using assms by (intro find_col_ok bright_dark_ok(2)) auto
  then show "\<exists>r. find_col (\<lambda>j. dark_bright img T i j (j - 1)) js = Some r \<and> (\<forall>j. r = Some j \<longrightarrow> 1 \<le> j \<and> j \<le> 187)"
    using find_cols [OF _ assms(4)] by blast
qed

lemma left_scan3_upd:
  assumes "image_ok img" and "no_edge_at_1 img T" and "scan_ok s" and "0 \<le> i" and "i < 70" and "4 \<le> from" and "from \<le> 187"
  shows "\<exists>s'. left_scan3 img T i from s = Some s' \<and> left_upd i s s'"
proof -
  have "set (cols3 from) \<subseteq> {1..187}" using assms(6,7) by (auto simp: cols3_def)
  then obtain r where r: "find_col (\<lambda>j. bright_dark img T i j (j - 1)) (cols3 from) = Some r"
    "\<forall>j. r = Some j \<longrightarrow> 2 \<le> j \<and> j \<le> 187"
    using find_left [OF assms(1,2,4,5)] by blast
  show ?thesis
  proof (cases r)
    case None
    then show ?thesis using r assms set_ops [OF assms(3-5)] left_updI [of 0 1 i s] by (simp add: left_scan3_def Let_def)
  next
    case (Some j)
    then have j: "2 \<le> j" "j \<le> 187" using r by auto
    have ok: "scan_ok (setL i (j - 1) 0 s)" using setL_ok [OF assms(3)] j by simp
    show ?thesis
      using r(1) Some j set_ops(1) [OF assms(3-5)] set_ops(2) [OF ok assms(4,5)] left_updI [of 0 1 i s] left_updI [of "j - 1" 0 i s]
      by (auto simp add: left_scan3_def Let_def s16_id)
  qed
qed

lemma row_left_upd:
  assumes "image_ok img" and "no_edge_at_1 img T" and "scan_ok s" and "0 \<le> i" and "i < 69"
  shows "\<exists>s'. row_left img T i s = Some s' \<and> left_upd i s s'"
proof -
  note len = scan_lengths [OF assms(3)]
  note b = border_ranges [OF assms(3), of "i + 1"]
  have i: "i < 70" using assms(5) by simp
  consider "left_add_flag s ! nat (i + 1) = 0" | "left_add_flag s ! nat (i + 1) \<noteq> 0" "right_add_flag s ! nat (i + 1) = 0"
    | "left_add_flag s ! nat (i + 1) \<noteq> 0" "right_add_flag s ! nat (i + 1) \<noteq> 0" by blast
  then show ?thesis
  proof cases
    case 1
    define f where "f = (if leftBroder (Image_S s) ! nat (i + 1) + 10 > 187 then 187 else leftBroder (Image_S s) ! nat (i + 1) + 10)"
    have "4 \<le> f" "f \<le> 187" using b assms by (simp_all add: f_def)
    then show ?thesis
      using left_scan3_upd [OF assms(1-4) i, of f] 1 len assms
      by (auto simp add: row_left_def get_left_def range_line_def imgCol_def Let_def f_def split: if_splits)
  next
    case 2
    define f where "f = rightBroder (Image_S s) ! nat (i + 1)"
    have f: "0 \<le> f" "f \<le> 187" using b assms by (simp_all add: f_def)
    then obtain r where r: "find_col (\<lambda>j. bright_dark img T i j (j - 1)) (downto f 1) = Some r"
      "\<forall>j. r = Some j \<longrightarrow> 2 \<le> j \<and> j \<le> 187"
      using find_left [OF assms(1,2,4) i, of "downto f 1"] by auto
    then show ?thesis
      using 2 len assms f set_ops [OF assms(3,4) i] left_updI [of 0 1 i s]
        left_updI [of "the r - 1" 0 i s]
      by (cases r) (simp_all add: row_left_def get_right_def f_def [symmetric] s16_id)
  next
    case 3
    then show ?thesis
      using left_scan3_upd [OF assms(1-4) i, of 93] len assms
      by (simp add: row_left_def MID_COL_def imgCol_def)
  qed
qed

lemma row_right_upd:
  assumes "image_ok img" and "scan_ok s" and "searched i s" and "0 \<le> i" and "i < 69"
  shows "\<exists>s'. row_right img T i s = Some s' \<and> right_upd i s s'"
proof -
  note len = scan_lengths [OF assms(2)]
  note b = border_ranges [OF assms(2), of "i + 1"]
  have i: "i < 70" using assms(5) by simp
  have store: "\<exists>s'. (case r of Some j \<Rightarrow> right_found i j s | None \<Rightarrow> if P then right_lost i s else Some s) = Some s' \<and> right_upd i s s'"
    if "\<forall>j. r = Some j \<longrightarrow> 1 \<le> j \<and> j \<le> 187" "P" for r P
    using that set_ops [OF assms(2,4) i] right_updI [of 187 i s 1] right_updI [of "the r" i s 0]
    by (cases r) (simp_all add: s16_id)
  consider "right_add_flag s ! nat (i + 1) = 0" | "right_add_flag s ! nat (i + 1) \<noteq> 0" "left_add_flag s ! nat (i + 1) = 0"
    | "right_add_flag s ! nat (i + 1) \<noteq> 0" "left_add_flag s ! nat (i + 1) \<noteq> 0" by blast
  then show ?thesis
  proof cases
    case 1
    define f where "f = (if rightBroder (Image_S s) ! nat (i + 1) - 10 \<le> 1 then 1 else rightBroder (Image_S s) ! nat (i + 1) - 10)"
    have f: "1 \<le> f" "f \<le> 187" using b assms by (auto simp: f_def)
    then obtain r where r: "find_col (\<lambda>j. bright_dark img T i (j - 1) j) [f..186] = Some r"
      "\<forall>j. r = Some j \<longrightarrow> 1 \<le> j \<and> j \<le> 187"
      using find_right(1) [OF assms(1,4) i, of "[f..186]"] by auto
    have "row_right img T i s = do { r \<leftarrow> find_col (\<lambda>j. bright_dark img T i (j - 1) j) [f..186];
        (case r of Some j \<Rightarrow> right_found i j s | None \<Rightarrow> if f \<le> 187 then right_lost i s else Some s) }"
      using 1 len assms by (simp add: row_right_def get_right_def range_line_def imgCol_def Let_def f_def)
    then show ?thesis using store [OF r(2), of "f \<le> 187"] f r(1) by simp
  next
    case 2
    define f where "f = leftBroder (Image_S s) ! nat (i + 1)"
    have f: "1 \<le> f" "f \<le> 187" using b assms 2(2) by (simp_all add: f_def searched_def)
    then obtain r where r: "find_col (\<lambda>j. dark_bright img T i j (j - 1)) [f..187] = Some r"
      "\<forall>j. r = Some j \<longrightarrow> 1 \<le> j \<and> j \<le> 187"
      using find_right(2) [OF assms(1,4) i, of "[f..187]"] by auto
    then show ?thesis
      using 2 len assms store [OF r(2), of True] f
      by (cases r) (simp_all add: row_right_def get_left_def imgCol_def f_def [symmetric])
  next
    case 3
    obtain r where r: "find_col (\<lambda>j. bright_dark img T i (j - 1) j) [93..187] = Some r"
      "\<forall>j. r = Some j \<longrightarrow> 1 \<le> j \<and> j \<le> 187"
      using find_right(1) [OF assms(1,4) i, of "[93..187]"] by auto
    then show ?thesis
      using 3 len assms store [OF r(2), of True] by (cases r) (simp_all add: row_right_def MID_COL_def imgCol_def del: upto_rec_numeral)
  qed
qed

lemma searched_step:
  assumes "scan_ok s" and "searched i s" and "left_upd i s s1" and "right_upd i s1 s2" and "0 \<le> i" and "i < 70"
  shows "scan_ok s2 \<and> searched (i - 1) s2"
proof -
  obtain v f where l: "0 \<le> v" "v \<le> 187" "f = 0 \<longrightarrow> 1 \<le> v" "s1 = setL i v f s" using assms(3) by (auto simp: left_upd_def)
  obtain w g where r: "0 \<le> w" "w \<le> 187" "s2 = setR i w g s1" using assms(4) by (auto simp: right_upd_def)
  have "1 \<le> leftBroder (Image_S s2) ! nat k" if "i - 1 < k" "k < 70" "left_add_flag s2 ! nat k = 0" for k
    using that l r assms(2,5,6) scan_lengths [OF assms(1)]
    by (cases "k = i") (auto simp: searched_def nth_list_update nat_eq_iff2)
  then show ?thesis using l r setL_ok [OF assms(1)] setR_ok by (auto simp: searched_def)
qed

lemma first_row_white_upd:
  assumes "image_ok img" and "no_edge_at_1 img T" and "scan_ok s" and "0 \<le> i" and "i < 70"
  shows "\<exists>s1 s2. first_row_white img T i s = Some s2 \<and> left_upd i s s1 \<and> right_upd i s1 s2"
proof -
  obtain l where l: "find_col (\<lambda>j. bright_dark img T i j (j - 1)) (downto 93 1) = Some l"
    "\<forall>j. l = Some j \<longrightarrow> 2 \<le> j \<and> j \<le> 187"
    using find_left [OF assms(1,2,4,5), of "downto 93 1"] by auto
  obtain r where r: "find_col (\<lambda>j. dark_bright img T i j (j - 1)) [93..187] = Some r"
    "\<forall>j. r = Some j \<longrightarrow> 1 \<le> j \<and> j \<le> 187"
    using find_right(2) [OF assms(1,4,5), of "[93..187]"] by auto
  have "\<exists>s1. (case l of Some j \<Rightarrow> left_found i (j - 1) s | None \<Rightarrow> left_lost i s) = Some s1 \<and> left_upd i s s1"
    using l(2) set_ops [OF assms(3-5)] left_updI [of 0 1 i s] left_updI [of "the l - 1" 0 i s]
    by (cases l) (simp_all add: s16_id)
  then obtain s1 where s1: "(case l of Some j \<Rightarrow> left_found i (j - 1) s | None \<Rightarrow> left_lost i s) = Some s1" "left_upd i s s1" by blast
  then have ok: "scan_ok s1" using setL_ok [OF assms(3)] by (auto simp: left_upd_def)
  have "\<exists>s2. (case r of Some j \<Rightarrow> right_found i j s1 | None \<Rightarrow> right_lost i s1) = Some s2 \<and> right_upd i s1 s2"
    using r(2) set_ops [OF ok assms(4,5)] right_updI [of 187 i s1 1] right_updI [of "the r" i s1 0]
    by (cases r) (simp_all add: s16_id)
  with l(1) r(1) s1 show ?thesis by (auto simp: first_row_white_def MID_COL_def imgCol_def)
qed

text \<open>The single stores of the black case: a border without its flag, a flag without its border.\<close>

lemma part_ops:
  assumes "scan_ok s" and "0 \<le> i" and "i < 70"
  shows "set_left i v s = Some (setL i v (left_add_flag s ! nat i) s)" "set_right i v s = Some (setR i v (right_add_flag s ! nat i) s)"
    "flag_left i f s = Some (setL i (leftBroder (Image_S s) ! nat i) f s)"
    "flag_right i f s = Some (setR i (rightBroder (Image_S s) ! nat i) f s)"
    "get_left i s = Some (leftBroder (Image_S s) ! nat i)" "get_right i s = Some (rightBroder (Image_S s) ! nat i)"
  using assms(2,3) scan_lengths [OF assms(1)]
  by (simp_all add: set_left_def set_right_def flag_left_def flag_right_def get_left_def get_right_def setL_def setR_def)

text \<open>The states that differ from \<open>s\<close> at most in row \<open>i\<close>.\<close>

definition same_below :: "int \<Rightarrow> scan \<Rightarrow> scan \<Rightarrow> bool" where
  "same_below i s s' \<longleftrightarrow> scan_ok s' \<and> (\<forall>k. k \<noteq> nat i \<longrightarrow>
     leftBroder (Image_S s') ! k = leftBroder (Image_S s) ! k \<and> left_add_flag s' ! k = left_add_flag s ! k)"

lemma same_below_refl: "scan_ok s \<Longrightarrow> same_below i s s"
  by (simp add: same_below_def)

lemma same_below_setL: "same_below i s t \<Longrightarrow> 0 \<le> v \<Longrightarrow> v \<le> 187 \<Longrightarrow> same_below i s (setL i v f t)"
  by (simp add: same_below_def setL_ok)

lemma same_below_setR: "same_below i s t \<Longrightarrow> 0 \<le> v \<Longrightarrow> v \<le> 187 \<Longrightarrow> same_below i s (setR i v f t)"
  by (simp add: same_below_def setR_ok)

lemma black_right_ok:
  assumes "image_ok img" and "no_edge_at_1 img T" and "scan_ok s" and "0 \<le> i" and "i < 70"
  shows "\<exists>s'. first_row_black_right img T i s = Some s' \<and> same_below i s s'"
proof -
  obtain l where l: "find_col (\<lambda>j. bright_dark img T i j (j - 1)) [93..187] = Some l"
    "\<forall>j. l = Some j \<longrightarrow> 2 \<le> j \<and> j \<le> 187"
    using find_left [OF assms(1,2,4,5), of "[93..187]"] by auto
  show ?thesis
  proof (cases l)
    case None
    with l assms(3) show ?thesis by (simp add: first_row_black_right_def MID_COL_def imgCol_def same_below_refl)
  next
    case (Some j)
    with l have j: "2 \<le> j" "j \<le> 187" by auto
    let ?t = "setL i (j - 1) (left_add_flag s ! nat i) s"
    have t: "same_below i s ?t" using j by (intro same_below_setL same_below_refl assms(3)) simp_all
    then have ok: "scan_ok ?t" by (simp add: same_below_def)
    have g: "leftBroder (Image_S ?t) ! nat i = j - 1" using scan_lengths [OF assms(3)] assms(4,5) by simp
    obtain r where r: "find_col (\<lambda>w. dark_bright img T i w (w - 1)) [j..187] = Some r" "\<forall>w. r = Some w \<longrightarrow> 1 \<le> w \<and> w \<le> 187"
      using find_right(2) [OF assms(1,4,5), of "[j..187]"] j by auto
    have "\<exists>s'. (case r of Some w \<Rightarrow> set_right i (s16 w) ?t | None \<Rightarrow> right_lost i ?t) = Some s' \<and> same_below i s s'"
      using r(2) part_ops [OF ok assms(4,5)] set_ops [OF ok assms(4,5)] same_below_setR [OF t]
      by (cases r) (simp_all add: s16_id)
    with l(1) r(1) Some j part_ops [OF assms(3-5)] part_ops(5) [OF ok assms(4,5)] g show ?thesis
      by (simp add: first_row_black_right_def MID_COL_def imgCol_def s16_id)
  qed
qed

lemma black_left_ok:
  assumes "image_ok img" and "no_edge_at_1 img T" and "same_below i s0 s" and "0 \<le> i" and "i < 70"
  shows "\<exists>s'. first_row_black_left img T i s = Some s' \<and> same_below i s0 s'"
proof -
  have s: "scan_ok s" using assms(3) by (simp add: same_below_def)
  let ?test = "\<lambda>z. do { p \<leftarrow> px img i (z - 1); if p > T then do { q \<leftarrow> px img i z; Some (q < T) } else Some False }"
  have "find_col ?test (downto 93 1) = Some (find (\<lambda>z. img ! nat i ! nat (z - 1) > T \<and> img ! nat i ! nat z < T) (downto 93 1))"
    using px_ok [OF assms(1,4,5)] by (intro find_col_ok) simp
  then obtain l where l: "find_col ?test (downto 93 1) = Some l" "\<forall>j. l = Some j \<longrightarrow> 1 \<le> j \<and> j \<le> 187"
    using find_cols [of _ "downto 93 1"] by fastforce
  show ?thesis
  proof (cases l)
    case None
    with l assms(3) show ?thesis by (simp add: first_row_black_left_def MID_COL_def imgCol_def)
  next
    case (Some z)
    with l have z: "1 \<le> z" "z \<le> 187" by auto
    let ?t = "setR i z (right_add_flag s ! nat i) s"
    have t: "same_below i s0 ?t" using z by (intro same_below_setR assms(3)) simp_all
    then have ok: "scan_ok ?t" by (simp add: same_below_def)
    have g: "rightBroder (Image_S ?t) ! nat i = z" using scan_lengths [OF s] assms(4,5) by simp
    obtain r where r: "find_col (\<lambda>w. bright_dark img T i w (w - 1)) (downto (z - 1) 1) = Some r" "\<forall>w. r = Some w \<longrightarrow> 2 \<le> w \<and> w \<le> 187"
      using find_left [OF assms(1,2,4,5), of "downto (z - 1) 1"] z by auto
    have "same_below i s0 (setL i 1 f ?t)" for f using t by (intro same_below_setL) simp_all
    moreover from this have "scan_ok (setL i 1 f ?t)" for f by (simp add: same_below_def)
    ultimately have "\<exists>s'. (case r of Some w \<Rightarrow> set_left i (s16 w) ?t | None \<Rightarrow> do { s \<leftarrow> set_left i 1 ?t; flag_left i 1 s }) = Some s' \<and> same_below i s0 s'"
      using r(2) part_ops [OF ok assms(4,5)] part_ops [OF _ assms(4,5)] same_below_setL [OF t] scan_lengths [OF ok] assms(4,5)
      by (cases r) (simp_all add: s16_id)
    with l(1) r(1) Some z part_ops [OF s assms(4,5)] part_ops(6) [OF ok assms(4,5)] g show ?thesis
      by (simp add: first_row_black_left_def MID_COL_def imgCol_def s16_id)
  qed
qed

lemma first_row_black_ok:
  assumes "image_ok img" and "no_edge_at_1 img T" and "scan_ok s" and "0 \<le> i" and "i < 70"
  shows "\<exists>s'. first_row_black img T i s = Some s' \<and> same_below i s s' \<and>
    (left_add_flag s' ! nat i = 0 \<longrightarrow> 1 \<le> leftBroder (Image_S s') ! nat i)"
proof -
  obtain t where t: "first_row_black_right img T i s = Some t" "same_below i s t"
    using black_right_ok [OF assms] by blast
  obtain u where u: "first_row_black_left img T i t = Some u" "same_below i s u"
    using black_left_ok [OF assms(1,2) t(2) assms(4,5)] by blast
  then have ok: "scan_ok u" by (simp add: same_below_def)
  note b = border_ranges [OF ok assms(4,5)]
  define w where "w = (if leftBroder (Image_S u) ! nat i = 0 then setL i 0 1 u else u)"
  have w: "same_below i s w" using same_below_setL [OF u(2)] u(2) by (simp add: w_def)
  then have okw: "scan_ok w" by (simp add: same_below_def)
  have lw: "left_add_flag w ! nat i = 0 \<longrightarrow> 1 \<le> leftBroder (Image_S w) ! nat i"
    using b scan_lengths [OF ok] assms(4,5) by (auto simp: w_def)
  have "(if leftBroder (Image_S u) ! nat i = 0 then flag_left i 1 u else Some u) = Some w"
    using part_ops [OF ok assms(4,5)] by (simp add: w_def)
  moreover have "same_below i s (setR i 0 1 w)" by (intro same_below_setR w) simp_all
  ultimately show ?thesis
    using t(1) u(1) w lw part_ops [OF ok assms(4,5)] part_ops [OF okw assms(4,5)]
    by (simp add: first_row_black_def)
qed

lemma set_limits_ok:
  assumes "image_ok img" and "scan_ok s" and "0 \<le> i" and "i < 70"
  shows "\<exists>L. set_limits img i s = Some (s\<lparr>Limit_Broder := L\<rparr>) \<and> length L = 3 \<and> (\<forall>v \<in> set L. 0 \<le> v \<and> v \<le> 69)"
proof -
  have L: "length (Limit_Broder s) = 3" "\<forall>v \<in> set (Limit_Broder s). 0 \<le> v \<and> v \<le> 69"
    using assms(2) by (simp_all add: scan_ok_def)
  have upd: "length ((Limit_Broder s)[k := i]) = 3 \<and> (\<forall>v \<in> set ((Limit_Broder s)[k := i]). 0 \<le> v \<and> v \<le> 69)" for k
    using L assms(3,4) set_update_subset_insert [of "Limit_Broder s" k i] by auto
  have same: "s = s\<lparr>Limit_Broder := Limit_Broder s\<rparr>" by simp
  have w: "wr (Limit_Broder s) 0 i = Some ((Limit_Broder s)[0 := i])" "wr (Limit_Broder s) 1 i = Some ((Limit_Broder s)[1 := i])"
    "wr (Limit_Broder s) 2 i = Some ((Limit_Broder s)[2 := i])" using L by simp_all
  have r: "rd (Limit_Broder s) 0 = Some (Limit_Broder s ! 0)" "rd (Limit_Broder s) 1 = Some (Limit_Broder s ! 1)"
    "rd (left_add_flag s) i = Some (left_add_flag s ! nat i)" "rd (right_add_flag s) i = Some (right_add_flag s ! nat i)"
    using scan_lengths [OF assms(2)] assms(3,4) by simp_all
  have p: "px img i 25 = Some (img ! nat i ! 25)" "px img i 135 = Some (img ! nat i ! 135)"
    using px_ok [OF assms(1,3,4)] by simp_all
  define c where "c = (\<lambda>p. if p \<or> leftBroder (Image_S s) ! nat i > rightBroder (Image_S s) ! nat i - 6 then (Limit_Broder s)[2 := i] else Limit_Broder s)"
  have last: "(if p \<or> leftBroder (Image_S s) ! nat i > rightBroder (Image_S s) ! nat i - 6
      then do { L \<leftarrow> wr (Limit_Broder s) 2 i; Some (s\<lparr>Limit_Broder := L\<rparr>) } else Some s) = Some (s\<lparr>Limit_Broder := c p\<rparr>)" for p
    using w(3) by (simp add: c_def)
  have c: "length (c p) = 3 \<and> (\<forall>v \<in> set (c p). 0 \<le> v \<and> v \<le> 69)" for p
    using upd [of 2] L by (simp add: c_def)
  have flags: "\<exists>q. (if lf = 1 \<and> rf = 1 then do { a \<leftarrow> px img i 25; if a = 0 then do { b \<leftarrow> px img i 135; Some (b = 0) } else Some False }
      else Some False) = Some q" for lf rf :: int
    by (auto simp add: p)
  obtain q where q: "(if left_add_flag s ! nat i = 1 \<and> right_add_flag s ! nat i = 1
      then do { a \<leftarrow> px img i 25; if a = 0 then do { b \<leftarrow> px img i 135; Some (b = 0) } else Some False } else Some False) = Some q"
    using flags by blast
  show ?thesis
    unfolding set_limits_def part_ops(5,6) [OF assms(2-4)] w(1,2) r bind.bind_lunit q last
    using upd [of 0] upd [of 1] c [of q] by (auto simp del: list_update_code)
qed

lemma clear_from_ok:
  assumes "scan_ok s" and "0 \<le> k" and "k < 3"
  shows "\<exists>s'. clear_from k s = Some s' \<and> scan_ok s'"
proof -
  define top where "top = Limit_Broder s ! nat k"
  have f: "rd (Limit_Broder s) k = Some top" "top \<le> 69"
    using assms scan_lengths [OF assms(1)] by (auto simp: top_def scan_ok_def)
  have "\<exists>s'. for_each (\<lambda>i s. do { s \<leftarrow> set_left i 0 s; set_right i (imgCol - 1) s }) (downto top 0) s = Some s' \<and> scan_ok s'"
  proof (rule for_each_inv)
    fix i s
    assume i: "i \<in> set (downto top 0)" "scan_ok s"
    then have "0 \<le> i" "i < 70" using f(2) by auto
    moreover have ok: "scan_ok (setL i 0 (left_add_flag s ! nat i) s)" using i by (simp add: setL_ok)
    ultimately show "\<exists>s'. do { s \<leftarrow> set_left i 0 s; set_right i (imgCol - 1) s } = Some s' \<and> scan_ok s'"
      using part_ops [OF i(2)] part_ops [OF ok] setR_ok [OF ok] by (simp add: imgCol_def)
  qed (rule assms(1))
  then show ?thesis using f(1) by (simp add: clear_from_def)
qed

lemma scan_row_ok:
  assumes "image_ok img" and "no_edge_at_1 img T" and "scan_ok s" and "searched i s" and "0 \<le> i" and "i < 70"
  shows "\<exists>r. scan_row img T i s = Some r \<and> (case r of Inl s' \<Rightarrow> scan_ok s' | Inr s' \<Rightarrow> scan_ok s' \<and> searched (i - 1) s')"
proof -
  have L: "rd (Limit_Broder s) 0 = Some (Limit_Broder s ! 0)" "rd (Limit_Broder s) 1 = Some (Limit_Broder s ! 1)"
    "rd (Limit_Broder s) 2 = Some (Limit_Broder s ! 2)" using scan_lengths [OF assms(3)] by simp_all
  define go where "go = (if i = imgRow - 1 then do { m \<leftarrow> px img i (MID_COL - 1);
      if m \<ge> T then first_row_white img T i s else first_row_black img T i s }
    else do { s \<leftarrow> row_left img T i s; row_right img T i s })"
  have "\<exists>s'. go = Some s' \<and> scan_ok s' \<and> searched (i - 1) s'"
  proof (cases "i = 69")
    case True
    have m: "px img i (MID_COL - 1) = Some (img ! nat i ! 93)" using px_ok [OF assms(1,5,6)] by (simp add: MID_COL_def imgCol_def)
    obtain s1 s2 where w: "first_row_white img T i s = Some s2" "left_upd i s s1" "right_upd i s1 s2"
      using first_row_white_upd [OF assms(1-3,5,6)] by blast
    obtain b where b: "first_row_black img T i s = Some b" "same_below i s b" "left_add_flag b ! nat i = 0 \<longrightarrow> 1 \<le> leftBroder (Image_S b) ! nat i"
      using first_row_black_ok [OF assms(1-3,5,6)] by blast
    have "searched (i - 1) b" unfolding searched_def
    proof (intro allI impI)
      fix k
      assume "i - 1 < k" "k < 70" "left_add_flag b ! nat k = 0"
      moreover from this have "k = i" using True by linarith
      ultimately show "1 \<le> leftBroder (Image_S b) ! nat k" using b(3) by simp
    qed
    with searched_step [OF assms(3,4) w(2,3) assms(5,6)] w(1) b m True show ?thesis
      by (auto simp: go_def imgRow_def same_below_def)
  next
    case False
    obtain s1 where s1: "row_left img T i s = Some s1" "left_upd i s s1"
      using row_left_upd [OF assms(1-3,5)] assms(6) False by auto
    obtain v f where v: "0 \<le> v" "v \<le> 187" "s1 = setL i v f s" using s1(2) by (auto simp: left_upd_def)
    have ok: "scan_ok s1" using v setL_ok [OF assms(3)] by simp
    have "searched i s1" using assms(4,5) v(3) by (auto simp: searched_def)
    then obtain s2 where s2: "row_right img T i s1 = Some s2" "right_upd i s1 s2"
      using row_right_upd [OF assms(1) ok _ assms(5)] assms(6) False by auto
    with s1 searched_step [OF assms(3,4) s1(2) s2(2) assms(5,6)] False show ?thesis by (simp add: go_def imgRow_def)
  qed
  then obtain s' where s': "go = Some s'" "scan_ok s'" "searched (i - 1) s'" by blast
  obtain La where La: "set_limits img i s' = Some (s'\<lparr>Limit_Broder := La\<rparr>)" "length La = 3" "\<forall>v \<in> set La. 0 \<le> v \<and> v \<le> 69"
    using set_limits_ok [OF assms(1) s'(2) assms(5,6)] by blast
  have okL: "scan_ok (s'\<lparr>Limit_Broder := La\<rparr>)" "searched (i - 1) (s'\<lparr>Limit_Broder := La\<rparr>)"
    using s' La by (simp_all add: scan_ok_def searched_def)
  obtain a where a: "clear_from 0 s = Some a" "scan_ok a" using clear_from_ok [OF assms(3), of 0] by auto
  obtain b where b: "clear_from 1 a = Some b" "scan_ok b" using clear_from_ok [OF a(2), of 1] by auto
  obtain c where "clear_from 2 b = Some c" "scan_ok c" using clear_from_ok [OF b(2), of 2] by auto
  note this a(1) b(1)
  with okL La(1) s'(1) L show ?thesis
    by (simp add: scan_row_def go_def [symmetric])
qed

lemma scan_start_ok: "scan_ok (scan_start road)" "searched 69 (scan_start road)"
  by (simp_all add: scan_ok_def scan_start_def searched_def)

lemma FindMyLine_ok:
  assumes "image_ok img" and "no_edge_at_1 img T"
  shows "\<exists>s. Camera_FindMyLine img T road = Some (Image_S s) \<and> scan_ok s"
proof -
  have "\<exists>r. for_break (scan_row img T) (downto k 0) s = Some r \<and> (case r of Inl s' \<Rightarrow> scan_ok s' | Inr s' \<Rightarrow> scan_ok s')"
    if "scan_ok s" "searched k s" "k < 70" for k s
    using that
  proof (induction "nat (k + 1)" arbitrary: k s)
    case 0
    then show ?case by simp
  next
    case (Suc n)
    then have k: "0 \<le> k" "downto k 0 = k # downto (k - 1) 0" by (simp_all add: upto_rec2)
    obtain r where r: "scan_row img T k s = Some r" "case r of Inl s' \<Rightarrow> scan_ok s' | Inr s' \<Rightarrow> scan_ok s' \<and> searched (k - 1) s'"
      using scan_row_ok [OF assms Suc.prems(1,2) k(1) Suc.prems(3)] by blast
    show ?case
    proof (cases r)
      case (Inl s')
      with r k(2) show ?thesis by simp
    next
      case (Inr s')
      with r Suc.hyps(1) [of "k - 1" s'] Suc.hyps(2) Suc.prems(3) k show ?thesis by simp
    qed
  qed
  from this [OF scan_start_ok, of road] obtain r where
    r: "for_break (scan_row img T) (downto 69 0) (scan_start road) = Some r" "case r of Inl s' \<Rightarrow> scan_ok s' | Inr s' \<Rightarrow> scan_ok s'"
    by auto
  then show ?thesis by (cases r) (auto simp: Camera_FindMyLine_def imgRow_def)
qed

section \<open>A clean track\<close>

text \<open>
  An image of a clean track with left border \<open>l i\<close> and right border \<open>r i\<close> in row \<open>i\<close>: bright strictly
  between them, dark elsewhere; the borders leave the outer columns free, keep a width of 6, and
  move by less than the search range from row to row; the middle column of the lowest row is on the track.
\<close>

definition clean_image :: "image \<Rightarrow> int \<Rightarrow> (int \<Rightarrow> int) \<Rightarrow> (int \<Rightarrow> int) \<Rightarrow> bool" where
  "clean_image img T l r \<longleftrightarrow> image_ok img \<and> (\<forall>i. 0 \<le> i \<longrightarrow> i < 70 \<longrightarrow> (\<forall>j. 0 \<le> j \<longrightarrow> j < 188 \<longrightarrow>
     (if l i < j \<and> j < r i then img ! nat i ! nat j > T else img ! nat i ! nat j < T)))"

definition clean_track :: "(int \<Rightarrow> int) \<Rightarrow> (int \<Rightarrow> int) \<Rightarrow> bool" where
  "clean_track l r \<longleftrightarrow> l 69 < 93 \<and> 93 < r 69 \<and>
     (\<forall>i. 0 \<le> i \<longrightarrow> i < 70 \<longrightarrow> 3 \<le> l i \<and> l i < 150 \<and> l i + 6 \<le> r i \<and> 10 < r i \<and> r i \<le> 186) \<and>
     (\<forall>i. 0 \<le> i \<longrightarrow> i < 69 \<longrightarrow> l i < l (i + 1) + 10 \<and> r (i + 1) - 10 \<le> r i)"

lemma find_unique':
  assumes "k \<in> set js" and "P k" and "\<forall>j \<in> set js. P j \<longrightarrow> j = k"
  shows "find P js = Some k"
  using assms
proof (induction js)
  case (Cons a js)
  show ?case
  proof (cases "P a")
    case True
    then have "a = k" using Cons.prems(3) by (meson list.set_intros(1))
    with True show ?thesis by (simp only: find.simps if_True)
  next
    case False
    then have "k \<in> set js" using Cons.prems(1,2) by (metis set_ConsD)
    then have "find P js = Some k" using Cons.IH Cons.prems(2,3) by (meson list.set_intros(2))
    with False show ?thesis by (simp only: find.simps if_False)
  qed
qed simp

lemma find_unique: "k \<in> set js \<Longrightarrow> P k \<Longrightarrow> (\<And>j. j \<in> set js \<Longrightarrow> P j \<Longrightarrow> j = k) \<Longrightarrow> find P js = Some k"
  by (rule find_unique') blast+

lemma clean_px: "clean_image img T l r \<Longrightarrow> 0 \<le> i \<Longrightarrow> i < 70 \<Longrightarrow> 0 \<le> j \<Longrightarrow> j < 188 \<Longrightarrow>
    if l i < j \<and> j < r i then img ! nat i ! nat j > T else img ! nat i ! nat j < T"
  by (simp add: clean_image_def)

lemma clean_left:
  assumes "clean_image img T l r" and "l i < r i - 1" and "0 \<le> i" and "i < 70" and "set js \<subseteq> {1..187}" and "l i + 1 \<in> set js"
  shows "find_col (\<lambda>j. bright_dark img T i j (j - 1)) js = Some (Some (l i + 1))"
proof -
  have ok: "image_ok img" using assms(1) by (simp add: clean_image_def)
  have c: "if l i < j \<and> j < r i then img ! nat i ! nat j > T else img ! nat i ! nat j < T" if "0 \<le> j" "j < 188" for j
    using assms(1,3,4) that by (simp add: clean_image_def)
  have "find_col (\<lambda>j. bright_dark img T i j (j - 1)) js = Some (find (\<lambda>j. img ! nat i ! nat j > T \<and> img ! nat i ! nat (j - 1) < T) js)"
    using assms(3-5) ok by (intro find_col_ok bright_dark_ok(1)) auto
  moreover have "find (\<lambda>j. img ! nat i ! nat j > T \<and> img ! nat i ! nat (j - 1) < T) js = Some (l i + 1)"
  proof (rule find_unique [OF assms(6)])
    show "img ! nat i ! nat (l i + 1) > T \<and> img ! nat i ! nat (l i + 1 - 1) < T"
      using c [of "l i + 1"] c [of "l i"] assms(2,5,6) by (auto split: if_splits)
    fix j
    assume j: "j \<in> set js" "img ! nat i ! nat j > T \<and> img ! nat i ! nat (j - 1) < T"
    then have "1 \<le> j" "j \<le> 187" using assms(5) by auto
    then show "j = l i + 1" using c [of j] c [of "j - 1"] j(2) by (auto split: if_splits)
  qed
  ultimately show ?thesis by simp
qed

lemma clean_right:
  assumes "clean_image img T l r" and "l i < r i - 1" and "0 \<le> i" and "i < 70" and "set js \<subseteq> {1..187}" and "r i \<in> set js"
  shows "find_col (\<lambda>j. bright_dark img T i (j - 1) j) js = Some (Some (r i))"
    and "find_col (\<lambda>j. dark_bright img T i j (j - 1)) js = Some (Some (r i))"
proof -
  have ok: "image_ok img" using assms(1) by (simp add: clean_image_def)
  have c: "if l i < j \<and> j < r i then img ! nat i ! nat j > T else img ! nat i ! nat j < T" if "0 \<le> j" "j < 188" for j
    using assms(1,3,4) that by (simp add: clean_image_def)
  have r: "img ! nat i ! nat (r i - 1) > T" "img ! nat i ! nat (r i) < T" "1 \<le> r i" "r i \<le> 187"
    using c [of "r i - 1"] c [of "r i"] assms(2,5,6) by (auto split: if_splits)
  have u: "j = r i" if "j \<in> set js" "img ! nat i ! nat (j - 1) > T" "img ! nat i ! nat j < T" for j
  proof -
    have "1 \<le> j" "j \<le> 187" using that assms(5) by auto
    then show ?thesis using c [of j] c [of "j - 1"] that(2,3) by (auto split: if_splits)
  qed
  have "find (\<lambda>j. img ! nat i ! nat (j - 1) > T \<and> img ! nat i ! nat j < T) js = Some (r i)"
    using u r by (intro find_unique [OF assms(6)]) auto
  moreover have "find_col (\<lambda>j. bright_dark img T i (j - 1) j) js = Some (find (\<lambda>j. img ! nat i ! nat (j - 1) > T \<and> img ! nat i ! nat j < T) js)"
    using assms(3-5) ok by (intro find_col_ok bright_dark_ok(1)) auto
  ultimately show "find_col (\<lambda>j. bright_dark img T i (j - 1) j) js = Some (Some (r i))" by simp
  have "find (\<lambda>j. img ! nat i ! nat j < T \<and> img ! nat i ! nat (j - 1) > T) js = Some (r i)"
    using u r by (intro find_unique [OF assms(6)]) auto
  moreover have "find_col (\<lambda>j. dark_bright img T i j (j - 1)) js = Some (find (\<lambda>j. img ! nat i ! nat j < T \<and> img ! nat i ! nat (j - 1) > T) js)"
    using assms(3-5) ok by (intro find_col_ok bright_dark_ok(2)) auto
  ultimately show "find_col (\<lambda>j. dark_bright img T i j (j - 1)) js = Some (Some (r i))" by simp
qed

text \<open>The state after the rows below \<open>i\<close> of such an image have been searched.\<close>

definition tracked :: "(int \<Rightarrow> int) \<Rightarrow> (int \<Rightarrow> int) \<Rightarrow> int \<Rightarrow> scan \<Rightarrow> bool" where
  "tracked l r i s \<longleftrightarrow> scan_ok s \<and> Limit_Broder s = [0, 0, 0] \<and> length (MID_Table (Image_S s)) = 70 \<and>
     (\<forall>k. i < k \<longrightarrow> k < 70 \<longrightarrow> leftBroder (Image_S s) ! nat k = l k \<and> rightBroder (Image_S s) ! nat k = r k \<and>
       left_add_flag s ! nat k = 0 \<and> right_add_flag s ! nat k = 0)"

lemma tracked_step:
  assumes "tracked l r i s" and "0 \<le> i" and "i < 70" and "0 \<le> l i" and "l i \<le> 187" and "0 \<le> r i" and "r i \<le> 187"
  shows "tracked l r (i - 1) (setR i (r i) 0 (setL i (l i) 0 s))"
proof -
  have ok: "scan_ok s" using assms(1) by (simp add: tracked_def)
  have "scan_ok (setR i (r i) 0 (setL i (l i) 0 s))" using setL_ok [OF ok] setR_ok assms(4-) by blast
  moreover have "leftBroder (Image_S (setL i (l i) 0 s)) ! nat k = l k \<and> (rightBroder (Image_S s))[nat i := r i] ! nat k = r k \<and>
      left_add_flag (setL i (l i) 0 s) ! nat k = 0 \<and> (right_add_flag s)[nat i := 0] ! nat k = 0" if "i - 1 < k" "k < 70" for k
    using that assms(1-3) scan_lengths [OF ok] by (cases "k = i") (auto simp: tracked_def nth_list_update nat_eq_iff2)
  moreover have "MID_Table (Image_S (setR i (r i) 0 (setL i (l i) 0 s))) = MID_Table (Image_S s)"
    by (simp add: setL_def setR_def)
  ultimately show ?thesis using assms(1) by (simp add: tracked_def)
qed

lemma clean_row:
  assumes "clean_image img T l r" and "clean_track l r" and "tracked l r i s" and "0 \<le> i" and "i < 70"
  shows "scan_row img T i s = Some (Inr (setR i (r i) 0 (setL i (l i) 0 s)))"
proof -
  have ok: "scan_ok s" "image_ok img" "Limit_Broder s = [0, 0, 0]"
    using assms(1,3) by (simp_all add: tracked_def clean_image_def)
  have b: "3 \<le> l i" "l i < 150" "l i + 6 \<le> r i" "10 < r i" "r i \<le> 186" using assms(2,4,5) by (simp_all add: clean_track_def)
  have w: "l i < r i - 1" using b by simp
  let ?s1 = "setL i (l i) 0 s"
  let ?s2 = "setR i (r i) 0 ?s1"
  have ok1: "scan_ok ?s1" using setL_ok [OF ok(1)] b by simp
  have ok2: "scan_ok ?s2" using setR_ok [OF ok1] b by simp
  have step: "(if i = imgRow - 1 then do { m \<leftarrow> px img i (MID_COL - 1);
      if m \<ge> T then first_row_white img T i s else first_row_black img T i s }
    else do { s \<leftarrow> row_left img T i s; row_right img T i s }) = Some ?s2"
  proof (cases "i = 69")
    case True
    have m: "l i < 93" "93 < r i" using assms(2) True by (simp_all add: clean_track_def)
    then have "T < img ! nat i ! 93" using clean_px [OF assms(1,4,5), of 93] True by simp
    moreover have "px img i (MID_COL - 1) = Some (img ! nat i ! 93)" using px_ok [OF ok(2) assms(4,5)] by (simp add: MID_COL_def imgCol_def)
    moreover have "first_row_white img T i s = Some ?s2"
      using clean_left [OF assms(1) w assms(4,5), of "downto 93 1"] clean_right(2) [OF assms(1) w assms(4,5), of "[93..187]"]
        set_ops [OF ok(1) assms(4,5)] set_ops [OF ok1 assms(4,5)] b m
      by (simp add: first_row_white_def MID_COL_def imgCol_def s16_id del: upto_rec_numeral)
    ultimately show ?thesis using True by (simp add: imgRow_def)
  next
    case False
    then have i: "i < 69" using assms(5) by simp
    have n: "leftBroder (Image_S s) ! nat (i + 1) = l (i + 1)" "rightBroder (Image_S s) ! nat (i + 1) = r (i + 1)"
      "left_add_flag s ! nat (i + 1) = 0" "right_add_flag s ! nat (i + 1) = 0"
      using assms(3,4) i by (simp_all add: tracked_def)
    have d: "l i < l (i + 1) + 10" "r (i + 1) - 10 \<le> r i" "3 \<le> l (i + 1)" "l (i + 1) < 150"
      using assms(2,4) i by (simp_all add: clean_track_def)
    have "row_left img T i s = Some ?s1"
      using clean_left [OF assms(1) w assms(4,5), of "downto (l (i + 1) + 10) 3"] set_ops [OF ok(1) assms(4,5)] n d b i assms(4) scan_lengths [OF ok(1)]
      by (simp add: row_left_def left_scan3_def get_left_def cols3_def range_line_def imgCol_def Let_def s16_id)
    moreover have "row_right img T i ?s1 = Some ?s2"
    proof -
      define f where "f = (if r (i + 1) - 10 \<le> 1 then 1 else r (i + 1) - 10)"
      have f: "1 \<le> f" "f \<le> r i" using d b by (simp_all add: f_def)
      have "row_right img T i ?s1 = do { r \<leftarrow> find_col (\<lambda>j. bright_dark img T i (j - 1) j) [f..186];
          (case r of Some j \<Rightarrow> right_found i j ?s1 | None \<Rightarrow> if f \<le> 187 then right_lost i ?s1 else Some ?s1) }"
        using n i assms(4) scan_lengths [OF ok(1)]
        by (simp add: row_right_def get_right_def range_line_def imgCol_def Let_def f_def)
      then show ?thesis
        using clean_right(1) [OF assms(1) w assms(4,5), of "[f..186]"] f b set_ops [OF ok1 assms(4,5)] by (simp add: s16_id)
    qed
    ultimately show ?thesis using False by (simp add: imgRow_def)
  qed
  have "set_limits img i ?s2 = Some ?s2"
    using part_ops(5,6) [OF ok2 assms(4,5)] scan_lengths [OF ok(1)] ok(3) b assms(4,5)
    by (simp add: set_limits_def)
  with step show ?thesis unfolding scan_row_def by (simp add: ok(3))
qed

lemma clean_search:
  assumes "clean_image img T l r" and "clean_track l r" and "tracked l r k s" and "k < 70"
  shows "\<exists>s'. for_break (scan_row img T) (downto k 0) s = Some (Inr s') \<and> tracked l r (-1) s' \<or> k < -1"
  using assms(3,4)
proof (induction "nat (k + 1)" arbitrary: k s)
  case 0
  then show ?case by (cases "k = -1") auto
next
  case (Suc n)
  then have k: "0 \<le> k" "downto k 0 = k # downto (k - 1) 0" by (simp_all add: upto_rec2)
  have b: "3 \<le> l k" "l k < 150" "10 < r k" "r k \<le> 186" using assms(2) k(1) Suc.prems(2) by (simp_all add: clean_track_def)
  have t: "tracked l r (k - 1) (setR k (r k) 0 (setL k (l k) 0 s))"
    using b by (intro tracked_step Suc.prems k) simp_all
  show ?case
    using Suc.hyps(1) [OF _ t] Suc.hyps(2) Suc.prems(2) k clean_row [OF assms(1,2) Suc.prems(1) k(1) Suc.prems(2)] by auto
qed

section \<open>The threshold\<close>

lemma gray_count_ok:
  assumes "0 \<le> width" and "0 \<le> height" and "width * height \<le> int (length data)" and "\<forall>g \<in> set data. 0 \<le> g \<and> g < 256"
  shows "\<exists>cnt gs. gray_count data width height = Some (cnt, gs) \<and> length cnt = 256 \<and>
    (\<forall>g < 256. cnt ! g = 0 \<or> int g \<in> set data)"
proof -
  let ?P = "\<lambda>(cnt, gs :: int). length cnt = 256 \<and> (\<forall>g < 256. cnt ! g = (0 :: int) \<or> int g \<in> set data)"
  have "\<exists>acc. gray_count data width height = Some acc \<and> ?P acc"
    unfolding gray_count_def
  proof (rule for_each_inv)
    fix i :: int and acc :: "int list \<times> int"
    assume i: "i \<in> set (filter even [0..height - 1])" "?P acc"
    show "\<exists>acc'. for_each (\<lambda>j (cnt, gray_sum). do { g \<leftarrow> rd data (i * width + j); c \<leftarrow> rd cnt g; cnt \<leftarrow> wr cnt g (c + 1);
        Some (cnt, u32 (gray_sum + g)) }) (filter even [0..width - 1]) acc = Some acc' \<and> ?P acc'"
    proof (rule for_each_inv)
      fix j :: int and acc :: "int list \<times> int"
      assume j: "j \<in> set (filter even [0..width - 1])" "?P acc"
      obtain cnt gs where a: "acc = (cnt, gs)" by fastforce
      have c: "length cnt = 256" "\<forall>g < 256. cnt ! g = 0 \<or> int g \<in> set data" using j(2) a by simp_all
      have "i * width + j < (i + 1) * width" using j(1) by (simp add: algebra_simps)
      also have "\<dots> \<le> height * width" using i(1) assms(1) by (intro mult_right_mono) auto
      finally have k: "0 \<le> i * width + j" "i * width + j < int (length data)" using i(1) j(1) assms(1,3) by (auto simp: mult.commute)
      define g where "g = data ! nat (i * width + j)"
      have g: "g \<in> set data" "0 \<le> g" "g < 256" using k assms(4) by (auto simp: g_def nat_less_iff)
      have "cnt[nat g := cnt ! nat g + 1] ! h = 0 \<or> int h \<in> set data" if "h < 256" for h
        using that c g by (cases "h = nat g") simp_all
      with c g k show "\<exists>acc'. (case acc of (cnt, gray_sum) \<Rightarrow> do { g \<leftarrow> rd data (i * width + j); c \<leftarrow> rd cnt g; cnt \<leftarrow> wr cnt g (c + 1);
          Some (cnt, u32 (gray_sum + g)) }) = Some acc' \<and> ?P acc'"
        by (simp add: a g_def [symmetric])
    qed (rule i(2))
  qed simp
  then show ?thesis by auto
qed

definition level_ok :: "flt list \<Rightarrow> otsu \<Rightarrow> bool" where
  "level_ok pro s \<longleftrightarrow> threshold s = 0 \<or> (0 \<le> threshold s \<and> threshold s \<le> 255 \<and> pro ! nat (threshold s) \<noteq> Fin 0)"

lemma otsu_level_ok:
  assumes "length pro = 256" and "0 \<le> j" and "j \<le> 255" and "level_ok pro s" and "n \<noteq> 0"
  shows "\<exists>r. otsu_level pro gs n j s = Some r \<and> (case r of Inl s' \<Rightarrow> level_ok pro s' | Inr s' \<Rightarrow> level_ok pro s')"
  using assms by (simp add: otsu_level_def Let_def level_ok_def)

lemma zero_share: "1 \<le> n \<Longrightarrow> n \<le> 16777216 \<Longrightarrow> fdiv (i2f 0) (i2f n) = Fin 0"
  using i2f_exact [of n] i2f_exact [of 0] by (simp add: fdiv_def f32_small)

lemma sdiv4: "4 \<le> m \<Longrightarrow> m \<le> 16777216 \<Longrightarrow> 1 \<le> m sdiv 4 \<and> m sdiv 4 \<le> (16777216 :: int)"
  by (simp add: signed_divide_int_def sgn_if) linarith

lemma threshold_ok:
  assumes "0 \<le> width" and "0 \<le> height" and "4 \<le> width * height" and "width * height \<le> 16777216"
    and "width * height \<le> int (length data)" and "\<forall>g \<in> set data. 0 \<le> g \<and> g < 256"
  shows "\<exists>t. Camera_My_Adapt_Threshold data width height = Some t \<and> 0 \<le> t \<and> t \<le> 255 \<and> (t = 0 \<or> t \<in> set data)"
proof -
  obtain cnt gs where c: "gray_count data width height = Some (cnt, gs)" "length cnt = 256"
    "\<forall>g < 256. cnt ! g = 0 \<or> int g \<in> set data"
    using gray_count_ok [OF assms(1,2,5,6)] by blast
  define n where "n = width * height sdiv 4"
  have n: "1 \<le> n" "n \<le> 16777216" using sdiv4 [OF assms(3,4)] by (simp_all add: n_def)
  define pro where "pro = map (\<lambda>c. fdiv (i2f c) (i2f n)) cnt"
  have "\<exists>r. for_break (otsu_level pro gs n) [0..255] \<lparr>w0 = Fin 0, u0tmp = Fin 0, deltaMax = Fin 0, threshold = 0\<rparr> = Some r \<and>
      (case r of Inl s \<Rightarrow> level_ok pro s | Inr s \<Rightarrow> level_ok pro s)"
  proof (rule for_break_inv)
    fix j s
    assume "j \<in> set [0..255]" "level_ok pro s"
    then show "\<exists>r. otsu_level pro gs n j s = Some r \<and> (case r of Inl s' \<Rightarrow> level_ok pro s' | Inr s' \<Rightarrow> level_ok pro s')"
      using c(2) n by (intro otsu_level_ok) (auto simp: pro_def simp del: upto_rec_numeral)
  qed (simp add: level_ok_def)
  then obtain r where r: "for_break (otsu_level pro gs n) [0..255] \<lparr>w0 = Fin 0, u0tmp = Fin 0, deltaMax = Fin 0, threshold = 0\<rparr> = Some r"
    "case r of Inl s \<Rightarrow> level_ok pro s | Inr s \<Rightarrow> level_ok pro s" by blast
  then have "level_ok pro (case r of Inl s \<Rightarrow> s | Inr s \<Rightarrow> s)" by (cases r) simp_all
  note r = r(1) this
  define t where "t = threshold (case r of Inl s \<Rightarrow> s | Inr s \<Rightarrow> s)"
  have t: "t = 0 \<or> (0 \<le> t \<and> t \<le> 255 \<and> pro ! nat t \<noteq> Fin 0)" using r(2) by (simp add: level_ok_def t_def)
  have "t \<in> set data" if "0 \<le> t" "t \<le> 255" "pro ! nat t \<noteq> Fin 0"
  proof -
    have "cnt ! nat t \<noteq> 0" using that c(2) zero_share [OF n] by (auto simp: pro_def nat_less_iff)
    moreover have "nat t < 256" using that by linarith
    ultimately have "int (nat t) \<in> set data" using c(3) by blast
    with that(1) show ?thesis by simp
  qed
  with t have "0 \<le> t \<and> t \<le> 255 \<and> (t = 0 \<or> t \<in> set data)" by auto
  moreover have "Camera_My_Adapt_Threshold data width height = Some t"
    using t by (auto simp: Camera_My_Adapt_Threshold_def Let_def c(1) n_def [symmetric] pro_def [symmetric] r(1) t_def [symmetric] simp del: upto_rec_numeral)
  ultimately show ?thesis by blast
qed

definition sensor_ok :: "image \<Rightarrow> bool" where
  "sensor_ok img \<longleftrightarrow> length img = 120 \<and> (\<forall>row \<in> set img. length row = 188 \<and> (\<forall>g \<in> set row. 0 \<le> g \<and> g < 256))"

lemma length_concat_const: "\<forall>row \<in> set img. length row = n \<Longrightarrow> length (concat img) = n * length img"
  by (induction img) auto

lemma map_upto_nth: "length xs = n \<Longrightarrow> map (\<lambda>j. f (xs ! nat j)) [0..int n - 1] = map f xs"
proof -
  assume n: "length xs = n"
  have "[0..int n - 1] = map int [0..<n]" by (induction n) (simp_all add: upto_rec2)
  then show ?thesis using n map_nth [of xs] by (simp add: comp_def) (metis (no_types, lifting) map_map comp_apply map_eq_conv)
qed

lemma image_map_ok:
  assumes "70 \<le> length img" and "\<forall>row \<in> set img. length row = 188"
  shows "image_map f img = Some (map (map f) (take 70 img))"
proof -
  have row: "those (map (\<lambda>j. map_option f (px img i j)) [0..imgCol - 1]) = Some (map f (img ! nat i))" if "0 \<le> i" "i < 70" for i
  proof -
    have l: "length (img ! nat i) = 188" using that assms by (simp add: nat_less_iff)
    have "those (map (\<lambda>j. map_option f (px img i j)) [0..imgCol - 1]) = Some (map (\<lambda>j. f (img ! nat i ! nat j)) [0..imgCol - 1])"
      using that assms l by (intro those_map_Some) (simp add: px_def imgCol_def)
    then show ?thesis using map_upto_nth [OF l, of f] by (simp add: imgCol_def)
  qed
  have "image_map f img = Some (map (\<lambda>i. map f (img ! nat i)) [0..imgRow - 1])"
    unfolding image_map_def using row by (intro those_map_Some) (simp add: imgRow_def)
  moreover have "map (\<lambda>i. map f (take 70 img ! nat i)) [0..int 70 - 1] = map (map f) (take 70 img)"
    using assms(1) by (intro map_upto_nth) simp
  moreover have "map (\<lambda>i. map f (img ! nat i)) [0..imgRow - 1] = map (\<lambda>i. map f (take 70 img ! nat i)) [0..int 70 - 1]"
    by (intro map_cong) (auto simp: imgRow_def)
  ultimately show ?thesis by simp
qed

section \<open>Properties\<close>

text \<open>
  C30: Preprocessing a sensor image of bytes always succeeds: the threshold is 0 or a gray level that
  occurs in the image, the binary image is the upper 70 rows with each pixel 255 exactly above the
  threshold and 0 otherwise, and the gray image is those rows unchanged.
\<close>

theorem PreProcess_binarizes:
  assumes "sensor_ok img"
  shows "\<exists>T. Camera_PreProcess img = Some (T, map (map (binarize T)) (take 70 img), take 70 img) \<and>
    0 \<le> T \<and> T \<le> 255 \<and> (T = 0 \<or> T \<in> set (concat img))"
proof -
  have rows: "70 \<le> length img" "\<forall>row \<in> set img. length row = 188" using assms by (simp_all add: sensor_ok_def)
  have "length (concat img) = 188 * 120"
    using length_concat_const [OF rows(2)] assms by (simp add: sensor_ok_def)
  then obtain t where t: "Camera_My_Adapt_Threshold (concat img) IMAGE_COL IMAGE_ROW = Some t" "0 \<le> t" "t \<le> 255"
    "t = 0 \<or> t \<in> set (concat img)"
    using threshold_ok [of IMAGE_COL IMAGE_ROW "concat img"] assms by (auto simp: sensor_ok_def IMAGE_COL_def IMAGE_ROW_def)
  then show ?thesis
    using image_map_ok [OF rows, of "binarize t"] image_map_ok [OF rows, of id]
    by (auto simp: Camera_PreProcess_def s16_id)
qed

lemma PreProcess_binarizes_witness:
  "\<exists>T. Camera_PreProcess (replicate 120 (replicate 188 7)) =
      Some (T, map (map (binarize T)) (take 70 (replicate 120 (replicate 188 7))), take 70 (replicate 120 (replicate 188 7))) \<and>
    0 \<le> T \<and> T \<le> 255 \<and> (T = 0 \<or> T \<in> set (concat (replicate 120 (replicate 188 7))))"
  by (rule PreProcess_binarizes) (simp add: sensor_ok_def)

text \<open>
  C4: The border search is memory safe and total: on every 70 by 188 image without an edge between
  its first two columns, for every threshold and whatever the borders were before, it ends without
  reading outside the image and leaves two borders of 70 rows with all values in the columns 0 to 187.
\<close>

theorem FindMyLine_in_bounds:
  assumes "image_ok img" and "no_edge_at_1 img T"
  shows "\<exists>road'. Camera_FindMyLine img T road = Some road' \<and>
    length (leftBroder road') = 70 \<and> length (rightBroder road') = 70 \<and>
    (\<forall>v \<in> set (leftBroder road'). 0 \<le> v \<and> v \<le> 187) \<and> (\<forall>v \<in> set (rightBroder road'). 0 \<le> v \<and> v \<le> 187)"
  using FindMyLine_ok [OF assms, of road] by (auto simp: scan_ok_def)

definition road_zero :: RoadLine_t where
  "road_zero = \<lparr>MID_Table = replicate 70 0, leftBroder = replicate 70 0, rightBroder = replicate 70 0\<rparr>"

lemma FindMyLine_in_bounds_witness:
  "\<exists>road'. Camera_FindMyLine (replicate 70 (replicate 188 200)) 128 road_zero = Some road' \<and>
    length (leftBroder road') = 70 \<and> length (rightBroder road') = 70 \<and>
    (\<forall>v \<in> set (leftBroder road'). 0 \<le> v \<and> v \<le> 187) \<and> (\<forall>v \<in> set (rightBroder road'). 0 \<le> v \<and> v \<le> 187)"
  by (rule FindMyLine_in_bounds) (simp_all add: image_ok_def no_edge_at_1_def)

lemma FindMyLine_clean:
  assumes "clean_image img T l r" and "clean_track l r"
  shows "\<exists>road'. Camera_FindMyLine img T road = Some road' \<and>
    leftBroder road' = map l [0..69] \<and> rightBroder road' = map r [0..69] \<and> length (MID_Table road') = 70"
proof -
  have "tracked l r 69 (scan_start road)"
    using scan_start_ok(1) [of road] by (simp add: tracked_def) (simp add: scan_start_def)
  then obtain s where s: "for_break (scan_row img T) (downto 69 0) (scan_start road) = Some (Inr s)" "tracked l r (-1) s"
    using clean_search [OF assms, of 69 "scan_start road"] by auto
  have len: "length (leftBroder (Image_S s)) = 70" "length (rightBroder (Image_S s)) = 70"
    "length (MID_Table (Image_S s)) = 70"
    using s(2) by (simp_all add: tracked_def scan_ok_def)
  have e: "map (\<lambda>j. xs ! nat j) [0..69] = xs" if "length xs = 70" for xs :: "int list"
    using map_upto_nth [OF that, of "\<lambda>x. x"] by simp
  have "map l [0..69] = map (\<lambda>j. leftBroder (Image_S s) ! nat j) [0..69]"
    "map r [0..69] = map (\<lambda>j. rightBroder (Image_S s) ! nat j) [0..69]"
    using s(2) by (auto simp: tracked_def simp del: upto_rec_numeral)
  with e [OF len(1)] e [OF len(2)] len(3) s(1) show ?thesis by (simp add: Camera_FindMyLine_def imgRow_def del: upto_rec_numeral)
qed

text \<open>
  C3: A clean track is found exactly. In a 70 by 188 picture every row is bright (above the threshold) strictly between a left
  and a right border and dark (below it) elsewhere. The left border lies in columns 3 to 149, the right one in columns 11 to 186 and
  at least 6 columns to the right of the left one, and in the lowest row the column 93 is strictly between them. From
  a row to the one above it the left border moves to the right by at most 9 columns and the right border to the left
  by at most 10 (outwards they may move by any amount). Then the search returns those borders in all 70 rows, whatever the borders were before.
\<close>

theorem FindMyLine_clean_track:
  assumes "clean_image img T l r" and "clean_track l r"
  shows "\<exists>road'. Camera_FindMyLine img T road = Some road' \<and>
    leftBroder road' = map l [0..69] \<and> rightBroder road' = map r [0..69]"
  using FindMyLine_clean [OF assms, of road] by (elim exE conjE) (intro exI conjI)

definition straight_image :: image where
  "straight_image = replicate 70 (replicate 51 0 @ replicate 89 200 @ replicate 48 0)"

lemma FindMyLine_clean_track_witness:
  "\<exists>road'. Camera_FindMyLine straight_image 128 road_zero = Some road' \<and>
    leftBroder road' = map (\<lambda>_. 50) [0..69] \<and> rightBroder road' = map (\<lambda>_. 140) [0..69]"
  by (rule FindMyLine_clean_track)
    (auto simp: clean_image_def clean_track_def straight_image_def image_ok_def nth_append nat_less_iff)

text \<open>Rows 68 and 69 dark in the first column and bright in all others: what the search does there.\<close>

definition dark_column :: "image \<Rightarrow> int \<Rightarrow> bool" where
  "dark_column img T \<longleftrightarrow> image_ok img \<and>
     (\<forall>i. 68 \<le> i \<longrightarrow> i \<le> 69 \<longrightarrow> img ! i ! 0 < T \<and> (\<forall>j. 1 \<le> j \<longrightarrow> j < 188 \<longrightarrow> img ! i ! j > T))"

lemma dark_column_px:
  assumes "dark_column img T" and "0 \<le> j" and "j < 188" and "i = 68 \<or> i = 69"
  shows "img ! i ! nat j < T \<longleftrightarrow> j = 0" and "img ! i ! nat j > T \<longleftrightarrow> j \<noteq> 0"
proof -
  have row: "img ! i ! 0 < T" "\<forall>j. 1 \<le> j \<longrightarrow> j < 188 \<longrightarrow> img ! i ! j > T" using assms(1,4) by (auto simp: dark_column_def)
  have "j \<noteq> 0 \<Longrightarrow> img ! i ! nat j > T" using row(2) assms(2,3) by (auto simp: nat_less_iff)
  with row(1) show "img ! i ! nat j < T \<longleftrightarrow> j = 0" "img ! i ! nat j > T \<longleftrightarrow> j \<noteq> 0" by (cases "j = 0"; force)+
qed

lemma find_False: "find (\<lambda>j. False) js = None"
  by (induction js) auto

lemma dark_column_69:
  assumes "dark_column img T"
  shows "scan_row img T 69 (scan_start road) = Some (Inr (setR 69 187 1 (setL 69 0 0 (scan_start road))))"
proof -
  let ?s = "scan_start road"
  let ?t = "setR 69 187 1 (setL 69 0 0 ?s)"
  note px = dark_column_px [OF assms]
  have img: "image_ok img" using assms by (simp add: dark_column_def)
  have ok: "scan_ok ?s" "scan_ok (setL 69 0 0 ?s)" "scan_ok ?t"
    using scan_start_ok(1) [of road] setL_ok [of ?s 0 69 0] setR_ok [of "setL 69 0 0 ?s" 187 69 1] by simp_all
  have lim: "Limit_Broder ?s = [0, 0, 0]" by (simp add: scan_start_def)
  have "find_col (\<lambda>j. bright_dark img T 69 j (j - 1)) (downto 93 1) = Some (find (\<lambda>j. j = 1) (downto 93 1))"
    using bright_dark_ok(1) [OF img, of 69] px by (intro find_col_ok) (auto simp del: upto_rec_numeral)
  moreover have "find (\<lambda>j. j = 1) (downto 93 1) = Some 1" by (rule find_unique) (simp_all del: upto_rec_numeral)
  moreover have "find_col (\<lambda>j. dark_bright img T 69 j (j - 1)) [93..187] = Some (find (\<lambda>j. False) [93..187])"
    using bright_dark_ok(2) [OF img, of 69] px by (intro find_col_ok) (auto simp del: upto_rec_numeral)
  ultimately have first: "first_row_white img T 69 ?s = Some ?t"
    using set_ops [OF ok(1), of 69] set_ops [OF ok(2), of 69]
    by (simp add: first_row_white_def MID_COL_def imgCol_def s16_id find_False del: upto_rec_numeral)
  have m: "px img 69 93 = Some (img ! 69 ! 93)" "img ! 69 ! 93 > T"
    using px_ok [OF img, of 69 93] px(2) [of 93 69] by simp_all
  have "set_limits img 69 ?t = Some ?t"
    using part_ops(5,6) [OF ok(3), of 69] scan_lengths [OF ok(1)] lim by (simp add: set_limits_def)
  with first m show ?thesis
    by (simp add: scan_row_def imgRow_def MID_COL_def imgCol_def lim)
qed

lemma dark_column_68:
  assumes "dark_column img T" and "scan_ok s" and "Limit_Broder s = [0, 0, 0]" and "leftBroder (Image_S s) ! 69 = 0"
    and "rightBroder (Image_S s) ! 69 = 187" and "left_add_flag s ! 69 = 0" and "right_add_flag s ! 69 = 1"
  shows "scan_row img T 68 s = None"
proof -
  note px = dark_column_px [OF assms(1)] and len = scan_lengths [OF assms(2)]
  have img: "image_ok img" using assms(1) by (simp add: dark_column_def)
  have "find_col (\<lambda>j. bright_dark img T 68 j (j - 1)) (cols3 10) = Some (find (\<lambda>j. False) (cols3 10))"
    using bright_dark_ok(1) [OF img, of 68] px by (intro find_col_ok) (auto simp: cols3_def simp del: upto_rec_numeral)
  then have left: "row_left img T 68 s = Some (setL 68 0 1 s)"
    using set_ops [OF assms(2), of 68] len assms(3-)
    by (simp add: row_left_def left_scan3_def get_left_def range_line_def imgCol_def find_False)
  have "dark_bright img T 68 0 (- 1) = None"
    using px_ok [OF img, of 68 0] px(1) [of 0 68] img by (simp add: dark_bright_def px_def image_ok_def rd_oob)
  then have "row_right img T 68 (setL 68 0 1 s) = None"
    using len assms(3-)
    by (simp add: row_right_def get_left_def imgCol_def upto_rec1 del: upto_rec_numeral)
  with left show ?thesis by (simp add: scan_row_def imgRow_def assms(3))
qed

text \<open>
  C40: Outside that condition the search can leave the image: when the two lowest rows are dark in the
  first column and bright in all others, the search for the right border of row 68 starts at column 0
  and reads column -1.
\<close>

theorem FindMyLine_overrun:
  assumes "image_ok img" and "\<forall>i. 68 \<le> i \<longrightarrow> i \<le> 69 \<longrightarrow> img ! i ! 0 < T \<and> (\<forall>j. 1 \<le> j \<longrightarrow> j < 188 \<longrightarrow> img ! i ! j > T)"
  shows "Camera_FindMyLine img T road = None"
proof -
  let ?t = "setR 69 187 1 (setL 69 0 0 (scan_start road))"
  have d: "dark_column img T" using assms by (simp add: dark_column_def)
  have "scan_ok ?t" using scan_start_ok(1) [of road] setL_ok [of "scan_start road" 0 69 0] setR_ok by simp
  then have "scan_row img T 68 ?t = None"
    by (rule dark_column_68 [OF d]) (simp_all add: scan_start_def setL_def setR_def)
  with dark_column_69 [OF d, of road] show ?thesis
    by (simp add: Camera_FindMyLine_def imgRow_def upto_rec2 [of 0 69] upto_rec2 [of 0 68] del: upto_rec_numeral)
qed

lemma FindMyLine_overrun_witness:
  "Camera_FindMyLine (replicate 70 (0 # replicate 187 255)) 128 road_zero = None"
  by (rule FindMyLine_overrun) (auto simp: image_ok_def nth_Cons split: nat.splits)

text \<open>
  The roundabout search always leaves its image: it compares each pixel with the one in the row
  below, starting from the lowest of the 70 rows, so its first read is already outside the array.
\<close>

theorem CirFindLine_out_of_bounds:
  assumes "image_ok src"
  shows "Camera_CirFindLine src cir_line = None"
proof -
  have "downto (imgCol - 1) 0 = 187 # downto 186 0" "downto (imgRow - 1) 0 = 69 # downto 68 0"
    by (simp_all add: imgCol_def imgRow_def upto_rec2)
  moreover have "px src (69 + 1) 187 = None" using assms by (simp add: px_def image_ok_def rd_oob)
  ultimately show ?thesis by (simp add: Camera_CirFindLine_def)
qed

lemma CirFindLine_out_of_bounds_witness:
  "Camera_CirFindLine (replicate 70 (replicate 188 0)) (replicate 188 0) = None"
  by (rule CirFindLine_out_of_bounds) (simp add: image_ok_def)

end
