(* ===== verification/Segment.thy ===== *)
theory Segment
  imports UserMath Camera
begin

text \<open>
  Segmentation of a border and its feature points (\<open>code/src/my_vision.c\<close>, lines 159 to 477,
  \<open>code/inc/my_vision.h\<close>).  The struct \<open>F\<close> holds the same four fields once for each side; here one
  side is a record \<open>side\<close> and \<open>LorR\<close> (true for left) says which lost value its border uses.  Rows are
  visited from the lowest one, row 69, upwards to row 1.
\<close>

section \<open>State\<close>

definition LEFT_LOSE_VALUE :: int where [run_simps]: "LEFT_LOSE_VALUE = 0"
definition RIGHT_LOSE_VALUE :: int where [run_simps]: "RIGHT_LOSE_VALUE = 187"
definition NEAR :: int where [run_simps]: "NEAR = 0"

datatype segment_type = NULL_segment | lose_segment | straight_segment | arc_segment | corner_segment

text \<open>\<open>begin\<close> and \<open>end\<close> are \<open>int16\<close>.\<close>

record segment_t =
  seg_begin :: int
  seg_end :: int
  seg_type :: segment_type
  position :: int

record side =
  my_segment :: "segment_t list"
  feature_p :: "point_t list"
  FP_n :: int
  segment_n :: int

record Feature =
  F_L :: side
  F_R :: side

definition IsArcCorner :: "segment_t \<Rightarrow> bool" where
  [run_simps]: "IsArcCorner s \<longleftrightarrow> seg_type s = arc_segment \<or> seg_type s = corner_segment"
definition IsLose :: "segment_t \<Rightarrow> bool" where [run_simps]: "IsLose s \<longleftrightarrow> seg_type s = lose_segment"
definition IsStrai :: "segment_t \<Rightarrow> bool" where [run_simps]: "IsStrai s \<longleftrightarrow> seg_type s = straight_segment"
definition IsNull :: "segment_t \<Rightarrow> bool" where [run_simps]: "IsNull s \<longleftrightarrow> seg_type s = NULL_segment"
definition IsArc :: "segment_t \<Rightarrow> bool" where [run_simps]: "IsArc s \<longleftrightarrow> seg_type s = arc_segment"
definition IsCorner :: "segment_t \<Rightarrow> bool" where [run_simps]: "IsCorner s \<longleftrightarrow> seg_type s = corner_segment"
definition Vision_IsLone :: "segment_t \<Rightarrow> bool" where [run_simps]: "Vision_IsLone s \<longleftrightarrow> seg_begin s - seg_end s \<ge> 15"

definition seg_null :: segment_t where
  "seg_null = \<lparr>seg_begin = 0, seg_end = 0, seg_type = NULL_segment, position = NEAR\<rparr>"

definition side_zero :: side where
  "side_zero = \<lparr>my_segment = replicate 10 seg_null, feature_p = replicate 5 (point 0 0), FP_n = 0, segment_n = 0\<rparr>"

section \<open>Segmentation\<close>

definition lose_value :: "bool \<Rightarrow> int" where
  [run_simps]: "lose_value LorR = (if LorR then LEFT_LOSE_VALUE else RIGHT_LOSE_VALUE)"

text \<open>The tests of one value: at the start of a segment, for the end of a lost one, of a found one.\<close>

definition lost_at_start :: "bool \<Rightarrow> int \<Rightarrow> bool" where
  [run_simps]: "lost_at_start LorR v \<longleftrightarrow> (if LorR then v \<le> 3 else v \<ge> RIGHT_LOSE_VALUE - 5)"
definition found_again :: "bool \<Rightarrow> int \<Rightarrow> bool" where
  [run_simps]: "found_again LorR v \<longleftrightarrow> (if LorR then v > 5 else v < RIGHT_LOSE_VALUE - 5)"
definition lost_again :: "bool \<Rightarrow> int \<Rightarrow> bool" where
  [run_simps]: "lost_again LorR v \<longleftrightarrow> (if LorR then v \<le> 5 else v \<ge> RIGHT_LOSE_VALUE - 5)"

text \<open>A conjunction of tests at several rows reads only up to the first that fails.\<close>

fun all_at :: "(int \<Rightarrow> bool) \<Rightarrow> int list \<Rightarrow> int list \<Rightarrow> bool option" where
  "all_at p b [] = Some True"
| "all_at p b (i # js) = do { v \<leftarrow> rd b i; if p v then all_at p b js else Some False }"

fun put_all :: "int \<Rightarrow> int list \<Rightarrow> int list \<Rightarrow> int list option" where
  "put_all v [] b = Some b"
| "put_all v (i # js) b = do { b \<leftarrow> wr b i v; put_all v js b }"

record seg_scan =
  begin_flag :: int
  seg_index :: int
  segs :: "segment_t list"
  broder :: "int list"

definition set_seg :: "int \<Rightarrow> (segment_t \<Rightarrow> segment_t) \<Rightarrow> segment_t list \<Rightarrow> segment_t list option" where
  "set_seg k f ss = do { s \<leftarrow> rd ss k; wr ss k (f s) }"

definition seg_open :: "bool \<Rightarrow> int \<Rightarrow> seg_scan \<Rightarrow> seg_scan option" where
  "seg_open LorR i s =
    do {
      ss \<leftarrow> set_seg (seg_index s) (seg_begin_update (\<lambda>_. s16 (if i = imgRow - 1 then i else i + 1))) (segs s);
      c \<leftarrow> (if i - 2 \<ge> 0 then all_at (lost_at_start LorR) (broder s) [i, i - 1] else Some False);
      ss \<leftarrow> set_seg (seg_index s) (seg_type_update (\<lambda>_. if c then lose_segment else NULL_segment)) ss;
      b \<leftarrow> (if c then put_all (lose_value LorR) [i, i - 1, i - 2] (broder s) else Some (broder s));
      Some (s\<lparr>begin_flag := 0, segs := ss, broder := b\<rparr>)
    }"

definition seg_finish :: "int \<Rightarrow> seg_scan \<Rightarrow> seg_scan option" where
  "seg_finish i s =
    do {
      ss \<leftarrow> set_seg (seg_index s) (seg_end_update (\<lambda>_. s16 (i + 1))) (segs s);
      Some (s\<lparr>begin_flag := 1, seg_index := seg_index s + 1, segs := ss\<rparr>)
    }"

definition seg_close :: "bool \<Rightarrow> int \<Rightarrow> seg_scan \<Rightarrow> seg_scan option" where
  "seg_close LorR i s =
    do {
      cur \<leftarrow> rd (segs s) (seg_index s);
      if IsLose cur then
        if i \<ge> 3 then
          do {
            c \<leftarrow> all_at (found_again LorR) (broder s) [i, i - 1, i - 2, i - 3];
            if c then seg_finish i s
            else do { b \<leftarrow> wr (broder s) i (lose_value LorR); Some (s\<lparr>broder := b\<rparr>) }
          }
        else Some s
      else if IsNull cur then
        if i \<ge> 2 then
          do {
            c \<leftarrow> all_at (lost_again LorR) (broder s) [i, i - 1, i - 2];
            if c then do { b \<leftarrow> put_all (lose_value LorR) [i, i - 1, i - 2] (broder s); seg_finish i (s\<lparr>broder := b\<rparr>) }
            else
              do {
                v \<leftarrow> rd (broder s) i;
                v \<leftarrow> (if v \<le> LEFT_LOSE_VALUE + 5 \<or> v \<ge> RIGHT_LOSE_VALUE - 5 then rd (broder s) (i + 1) else Some v);
                b \<leftarrow> wr (broder s) i v;
                Some (s\<lparr>broder := b\<rparr>)
              }
          }
        else Some s
      else Some s
    }"

definition seg_row :: "bool \<Rightarrow> int \<Rightarrow> seg_scan \<Rightarrow> seg_scan option" where
  "seg_row LorR i s = do { s \<leftarrow> (if begin_flag s \<noteq> 0 then seg_open LorR i s else Some s); seg_close LorR i s }"

text \<open>A first segment that is too short is merged with the second.\<close>

definition seg_merge :: "seg_scan \<Rightarrow> seg_scan option" where
  "seg_merge s =
    do {
      s0 \<leftarrow> rd (segs s) 0;
      if seg_begin s0 - seg_end s0 \<le> 5 then
        do {
          s1 \<leftarrow> rd (segs s) 1;
          b \<leftarrow> for_each (\<lambda>i b. do { v \<leftarrow> rd b (seg_end s1); wr b i v }) (downto (seg_begin s0) (seg_end s0)) (broder s);
          ss \<leftarrow> wr (segs s) 0 (s0\<lparr>seg_end := seg_end s1, seg_type := seg_type s1\<rparr>);
          ss \<leftarrow> for_each (\<lambda>i ss. do {
              n \<leftarrow> rd ss (i + 1);
              set_seg i (\<lambda>t. t\<lparr>seg_begin := seg_begin n, seg_end := seg_end n, seg_type := seg_type n\<rparr>) ss
            }) [1..seg_index s] ss;
          Some (s\<lparr>broder := b, segs := ss, seg_index := seg_index s - 1\<rparr>)
        }
      else Some s
    }"

text \<open>
  Each unlabelled segment is judged straight, corner (monotonous) or arc; \<open>junk i\<close> is the
  uninitialised local of the call of \<open>Line_IsMonotonous\<close> for segment \<open>i\<close>.
\<close>

definition seg_label :: "(int \<Rightarrow> int) \<Rightarrow> int list \<Rightarrow> int \<Rightarrow> segment_t list \<Rightarrow> segment_t list option" where
  "seg_label junk b i ss =
    do {
      t \<leftarrow> rd ss i;
      if IsNull t then
        do {
          straight \<leftarrow> Line_IsStraight b (seg_begin t) (seg_end t);
          if straight \<noteq> 0 then wr ss i (t\<lparr>seg_type := straight_segment\<rparr>)
          else
            do {
              mono \<leftarrow> Line_IsMonotonous (junk i) b (seg_begin t) (seg_end t);
              wr ss i (t\<lparr>seg_type := if mono \<noteq> 0 then corner_segment else arc_segment\<rparr>)
            }
        }
      else Some ss
    }"

definition seg_labels :: "(int \<Rightarrow> int) \<Rightarrow> int list \<Rightarrow> int \<Rightarrow> segment_t list \<Rightarrow> segment_t list option" where
  "seg_labels junk b n ss = for_each (seg_label junk b) [0..n - 1] ss"

definition Vision_GetSegment :: "(int \<Rightarrow> int) \<Rightarrow> bool \<Rightarrow> int list \<Rightarrow> side \<Rightarrow> (int list \<times> side) option" where
  "Vision_GetSegment junk LorR b t =
    do {
      let t = t\<lparr>segment_n := 0\<rparr>;
      ss \<leftarrow> for_each (\<lambda>i ss. wr ss i seg_null) [0..9] (my_segment t);
      s \<leftarrow> for_each (seg_row LorR) (downto (imgRow - 1) 1) \<lparr>begin_flag = 1, seg_index = 0, segs = ss, broder = b\<rparr>;
      s \<leftarrow> seg_merge s;
      ss \<leftarrow> seg_labels junk (broder s) (seg_index s + 1) (segs s);
      Some (broder s, t\<lparr>segment_n := seg_index s + 1, my_segment := ss\<rparr>)
    }"

section \<open>Feature points\<close>

text \<open>
  The sharpest corner of a stretch of border: the row whose cosine is largest.  Rows holding a lost value are
  smoothed on the way.  The state of the loop is the border, the best row and its cosine.
\<close>

definition at_row :: "int list \<Rightarrow> int \<Rightarrow> point_t option" where
  "at_row b x = do { v \<leftarrow> rd b x; Some (point x v) }"

definition cos_at :: "int list \<Rightarrow> int \<Rightarrow> int \<Rightarrow> int \<Rightarrow> flt option" where
  "cos_at b x1 x2 x3 = do { p1 \<leftarrow> at_row b x1; p2 \<leftarrow> at_row b x2; p3 \<leftarrow> at_row b x3; Vector_AngleGet p1 p2 p3 }"

definition p_th :: flt where "p_th = d2f (dlit (- 3 / 10))"

definition arc_row :: "int \<Rightarrow> int \<Rightarrow> int \<Rightarrow> int list \<times> int \<times> flt \<Rightarrow> (int list \<times> int \<times> flt) option" where
  "arc_row mn mx i s = (case s of (b, final_x, cosvalue) \<Rightarrow>
    do {
      let low_x = (if i - mn \<ge> 5 then i - 5 else mn);
      let high_x = (if mx - i \<ge> 5 then i + 5 else mx);
      v \<leftarrow> rd b i;
      b \<leftarrow> (if v = LEFT_LOSE_VALUE \<or> v = RIGHT_LOSE_VALUE then do { w \<leftarrow> rd b (i - 1); wr b i w } else Some b);
      currentcos \<leftarrow> cos_at b low_x i high_x;
      Some (if flt_gt currentcos cosvalue then (b, i, currentcos) else (b, final_x, cosvalue))
    })"

definition Vision_FindArcFP :: "int list \<Rightarrow> int \<Rightarrow> int \<Rightarrow> (point_t \<times> int list) option" where
  "Vision_FindArcFP b x1 x2 =
    do {
      let mx = Tool_CmpMax x1 x2;
      let mn = Tool_CmpMin x1 x2;
      let how_many = mx - mn + 1;
      let p_distance = 5;
      c \<leftarrow> (if how_many \<ge> p_distance + 2 then cos_at b mx (mx - 1) (mx - p_distance) else cos_at b mx (mx - 1) mn);
      (b, final_x, cosvalue) \<leftarrow> for_each (arc_row mn mx) (downto (mx - 2) (mn + 2)) (b, mx - 1, c);
      if flt_gt cosvalue p_th then do { p \<leftarrow> at_row b final_x; Some (p, b) } else Some (point (-1) (-1), b)
    }"

text \<open>
  \<open>Vision_BroderFindFP\<close> on one side.  \<open>junk1\<close> and \<open>junk2\<close> are the uninitialised locals of the two
  calls of \<open>Line_GetAverage\<close>.
\<close>

definition set_FP :: "int \<Rightarrow> point_t \<Rightarrow> side \<Rightarrow> side option" where
  "set_FP k p t = do { ps \<leftarrow> wr (feature_p t) k p; Some (t\<lparr>feature_p := ps\<rparr>) }"

definition add_FP :: "int \<Rightarrow> point_t \<Rightarrow> side \<Rightarrow> side option" where
  "add_FP k p t = do { t \<leftarrow> set_FP k p t; Some (t\<lparr>FP_n := FP_n t + 1\<rparr>) }"

text \<open>The first corner of a segment, searched in its nearest 15 rows, or its first row.\<close>

definition far_FP :: "int \<Rightarrow> segment_t \<Rightarrow> int list \<times> side \<Rightarrow> (int list \<times> side) option" where
  "far_FP k g s = (case s of (b, t) \<Rightarrow>
    do {
      (pf, b) \<leftarrow> (if seg_begin g - seg_end g \<ge> 15 then Vision_FindArcFP b (seg_begin g) (seg_begin g - 15)
                  else Vision_FindArcFP b (seg_begin g) (seg_end g));
      let x = (if pt_x pf = - 1 then seg_begin g else pt_x pf);
      y \<leftarrow> (if pt_y pf = - 1 then rd b (seg_begin g) else Some (pt_y pf));
      t \<leftarrow> add_FP k \<lparr>pt_x = x, pt_y = y\<rparr> t;
      Some (b, t)
    })"

text \<open>The far side of a lost stretch: dropped when it is more than 80 columns away.\<close>

definition beyond_lost :: "int \<Rightarrow> int \<Rightarrow> int list \<times> side \<Rightarrow> (int list \<times> side) option" where
  "beyond_lost aver1 junk2 s = (case s of (b, t) \<Rightarrow>
    do {
      g2 \<leftarrow> rd (my_segment t) 2;
      if \<not> IsNull g2 then
        do {
          aver2 \<leftarrow> Line_GetAverage junk2 b (seg_begin g2) (seg_end g2);
          if \<bar>aver1 - aver2\<bar> > 80 then
            do { t \<leftarrow> set_FP 0 (point (-1) (-1)) t; Some (b, t\<lparr>FP_n := FP_n t - 1\<rparr>) }
          else far_FP 1 g2 (b, t)
        }
      else Some (b, t)
    })"

definition lost_middle :: "int \<Rightarrow> int \<Rightarrow> int list \<times> side \<Rightarrow> (int list \<times> side) option" where
  "lost_middle junk1 junk2 s = (case s of (b, t) \<Rightarrow>
    do {
      g0 \<leftarrow> rd (my_segment t) 0;
      aver1 \<leftarrow> Line_GetAverage junk1 b (seg_begin g0) (seg_end g0);
      (pf, b) \<leftarrow> Vision_FindArcFP b (seg_begin g0) (seg_end g0);
      if pt_x pf = - 1 \<and> pt_y pf = - 1 then
        do {
          v \<leftarrow> rd b (seg_end g0);
          t \<leftarrow> add_FP 0 \<lparr>pt_x = seg_end g0, pt_y = v\<rparr> t;
          beyond_lost aver1 junk2 (b, t)
        }
      else do { t \<leftarrow> add_FP 0 pf t; beyond_lost aver1 junk2 (b, t) }
    })"

definition Vision_BroderFindFP :: "int \<Rightarrow> int \<Rightarrow> int list \<Rightarrow> side \<Rightarrow> (int list \<times> side) option" where
  "Vision_BroderFindFP junk1 junk2 b t =
    do {
      let t = t\<lparr>FP_n := 0\<rparr>;
      ps \<leftarrow> for_each (\<lambda>i ps. wr ps i (point 0 0)) [0..2] (feature_p t);
      let t = t\<lparr>feature_p := ps\<rparr>;
      g0 \<leftarrow> rd (my_segment t) 0;
      g1 \<leftarrow> rd (my_segment t) 1;
      if IsLose g1 \<and> Vision_IsLone g1 then lost_middle junk1 junk2 (b, t)
      else if IsLose g0 then (if \<not> IsNull g1 then far_FP 0 g1 (b, t) else Some (b, t))
      else if IsArc g0 \<and> segment_n t = 1 then
        do {
          (pf, b) \<leftarrow> Vision_FindArcFP b (seg_begin g0) 25;
          if pt_x pf \<noteq> - 1 \<and> pt_y pf \<noteq> - 1 then do { t \<leftarrow> add_FP 0 pf t; Some (b, t) } else Some (b, t)
        }
      else Some (b, t)
    }"

section \<open>Runs of a border\<close>

text \<open>
  What the segmentation is for: a border is a sequence of runs from the lowest row up, alternately
  lost (every row has the lost value) and found (every row well inside the image), each at least four
  rows long.  \<open>run_segments\<close> is the segment list the runs stand for.
\<close>

definition in_run :: "bool \<Rightarrow> bool \<Rightarrow> int \<Rightarrow> bool" where
  "in_run LorR lost v \<longleftrightarrow> (if lost then v = lose_value LorR else 5 < v \<and> v < 182)"

fun run_layout :: "bool \<Rightarrow> int list \<Rightarrow> int \<Rightarrow> (bool \<times> int) list \<Rightarrow> bool" where
  "run_layout LorR b hi [] \<longleftrightarrow> hi = - 1"
| "run_layout LorR b hi ((lost, n) # rs) \<longleftrightarrow>
     4 \<le> n \<and> n \<le> hi + 1 \<and> list_all (\<lambda>i. in_run LorR lost (b ! nat i)) [hi - n + 1..hi] \<and>
     (rs \<noteq> [] \<longrightarrow> fst (hd rs) \<noteq> lost) \<and> run_layout LorR b (hi - n) rs"

fun run_segments :: "int \<Rightarrow> (bool \<times> int) list \<Rightarrow> segment_t list" where
  "run_segments hi [] = []"
| "run_segments hi ((lost, n) # rs) =
     \<lparr>seg_begin = hi, seg_end = hi - n + 1, seg_type = if lost then lose_segment else NULL_segment, position = NEAR\<rparr> #
     run_segments (hi - n) rs"

lemma length_run_segments [simp]: "length (run_segments hi rs) = length rs"
  by (induction hi rs rule: run_segments.induct) auto

lemma in_run_tests:
  "in_run LorR True v \<Longrightarrow> lost_at_start LorR v \<and> lost_again LorR v \<and> \<not> found_again LorR v"
  "in_run LorR False v \<Longrightarrow> \<not> lost_at_start LorR v \<and> \<not> lost_again LorR v \<and> found_again LorR v"
  by (auto simp: in_run_def run_simps)

lemma put_same: "0 \<le> i \<Longrightarrow> i < int (length b) \<Longrightarrow> b ! nat i = v \<Longrightarrow> wr b i v = Some b"
  by (auto simp: list_update_same_conv)

definition run_type :: "bool \<Rightarrow> segment_type" where
  "run_type lost = (if lost then lose_segment else NULL_segment)"

lemma seg_close_inside:
  assumes "length b = 70" and "1 \<le> i" and "i \<le> 69" and "k < length ss"
    and "seg_type (ss ! k) = run_type lost" and "in_run LorR lost (b ! nat i)"
  shows "seg_close LorR i \<lparr>begin_flag = f, seg_index = int k, segs = ss, broder = b\<rparr> =
    Some \<lparr>begin_flag = f, seg_index = int k, segs = ss, broder = b\<rparr>"
proof (cases lost)
  case True
  with assms have "b ! nat i = lose_value LorR" "\<not> found_again LorR (b ! nat i)"
    using in_run_tests(1) [of LorR "b ! nat i"] by (simp_all add: in_run_def)
  with True assms show ?thesis
    by (auto simp: seg_close_def IsLose_def run_type_def put_same simp del: wr_ok)
next
  case False
  with assms have "\<not> lost_again LorR (b ! nat i)" "5 < b ! nat i" "b ! nat i < 182"
    using in_run_tests(2) [of LorR "b ! nat i"] by (simp_all add: in_run_def)
  with False assms show ?thesis
    by (simp add: seg_close_def IsLose_def IsNull_def run_type_def put_same LEFT_LOSE_VALUE_def RIGHT_LOSE_VALUE_def del: wr_ok)
qed

lemma seg_close_end:
  assumes "length b = 70" and "3 \<le> i" and "i \<le> 69" and "k < length ss"
    and "seg_type (ss ! k) = run_type lost" and "\<forall>j. i - 3 \<le> j \<longrightarrow> j \<le> i \<longrightarrow> in_run LorR (\<not> lost) (b ! nat j)"
  shows "seg_close LorR i \<lparr>begin_flag = 0, seg_index = int k, segs = ss, broder = b\<rparr> =
    Some \<lparr>begin_flag = 1, seg_index = int (Suc k), segs = ss[k := (ss ! k)\<lparr>seg_end := i + 1\<rparr>], broder = b\<rparr>"
proof -
  have r: "in_run LorR (\<not> lost) (b ! nat i)" "in_run LorR (\<not> lost) (b ! nat (i - 1))"
    "in_run LorR (\<not> lost) (b ! nat (i - 2))" "in_run LorR (\<not> lost) (b ! nat (i - 3))"
    using assms by simp_all
  have e: "s16 (i + 1) = i + 1" using assms by (intro s16_id) simp_all
  show ?thesis
  proof (cases lost)
    case True
    with r have "found_again LorR (b ! nat i)" "found_again LorR (b ! nat (i - 1))" "found_again LorR (b ! nat (i - 2))"
      "found_again LorR (b ! nat (i - 3))" using in_run_tests(2) by simp_all
    with True assms e show ?thesis
      by (simp add: seg_close_def IsLose_def run_type_def seg_finish_def set_seg_def)
  next
    case False
    with r have t: "lost_again LorR (b ! nat i)" "lost_again LorR (b ! nat (i - 1))" "lost_again LorR (b ! nat (i - 2))"
      "b ! nat i = lose_value LorR" "b ! nat (i - 1) = lose_value LorR" "b ! nat (i - 2) = lose_value LorR"
      using in_run_tests(1) by (simp_all add: in_run_def)
    then have "put_all (lose_value LorR) [i, i - 1, i - 2] b = Some b" using assms by (simp add: put_same del: wr_ok)
    with False assms e t show ?thesis
      by (simp add: seg_close_def IsLose_def IsNull_def run_type_def seg_finish_def set_seg_def del: put_all.simps)
  qed
qed

lemma seg_open_at:
  assumes "length b = 70" and "2 \<le> i" and "i \<le> 69" and "k < length ss"
    and "\<forall>j. i - 2 \<le> j \<longrightarrow> j \<le> i \<longrightarrow> in_run LorR lost (b ! nat j)"
  shows "seg_open LorR i \<lparr>begin_flag = 1, seg_index = int k, segs = ss, broder = b\<rparr> =
    Some \<lparr>begin_flag = 0, seg_index = int k,
      segs = ss[k := (ss ! k)\<lparr>seg_begin := if i = 69 then 69 else i + 1, seg_type := run_type lost\<rparr>], broder = b\<rparr>"
proof -
  have r: "in_run LorR lost (b ! nat i)" "in_run LorR lost (b ! nat (i - 1))" "in_run LorR lost (b ! nat (i - 2))"
    using assms by simp_all
  have e: "s16 69 = 69" "i < 69 \<Longrightarrow> s16 (i + 1) = i + 1" using assms by (simp_all add: s16_id)
  show ?thesis
  proof (cases lost)
    case True
    with r have t: "lost_at_start LorR (b ! nat i)" "lost_at_start LorR (b ! nat (i - 1))"
      "b ! nat i = lose_value LorR" "b ! nat (i - 1) = lose_value LorR" "b ! nat (i - 2) = lose_value LorR"
      using in_run_tests(1) by (simp_all add: in_run_def)
    then have "put_all (lose_value LorR) [i, i - 1, i - 2] b = Some b" using assms by (simp add: put_same del: wr_ok)
    with True assms e t show ?thesis
      by (auto simp: seg_open_def run_type_def set_seg_def imgRow_def simp del: put_all.simps)
  next
    case False
    with r have "\<not> lost_at_start LorR (b ! nat i)" using in_run_tests(2) by simp
    with False assms e show ?thesis
      by (auto simp: seg_open_def run_type_def set_seg_def imgRow_def)
  qed
qed

lemma for_each_same: "(\<And>i. i \<in> set js \<Longrightarrow> f i s = Some s) \<Longrightarrow> for_each f js s = Some s"
  by (induction js) auto

lemma downto_split:
  assumes "lo \<le> m" and "m \<le> hi + 1"
  shows "downto hi lo = downto hi m @ downto (m - 1) lo"
proof (cases "m = hi + 1")
  case False
  then have "[lo..hi] = [lo..m - 1] @ [m..hi]" using assms by (intro upto_split1) simp_all
  then show ?thesis by simp
qed simp

lemma downto_Cons: "lo \<le> hi \<Longrightarrow> downto hi lo = hi # downto (hi - 1) lo"
  by (simp add: upto_rec2)

text \<open>The first row of a run, and the rows of the run after it.\<close>

lemma run_rows:
  assumes "length b = 70" and "k < length ss" and "ss ! k = seg_null"
    and "hi = 69 \<and> a = 69 \<or> hi < 69 \<and> a = hi - 1" and "3 \<le> hi" and "lo \<le> hi - 3" and "m = max 1 lo"
    and "\<forall>j. lo \<le> j \<longrightarrow> j \<le> hi \<longrightarrow> in_run LorR lost (b ! nat j)" and "0 \<le> lo"
  shows "for_each (seg_row LorR) (downto a m) \<lparr>begin_flag = 1, seg_index = int k, segs = ss, broder = b\<rparr> =
    Some \<lparr>begin_flag = 0, seg_index = int k,
      segs = ss[k := \<lparr>seg_begin = hi, seg_end = 0, seg_type = run_type lost, position = NEAR\<rparr>], broder = b\<rparr>"
proof -
  let ?ss = "ss[k := \<lparr>seg_begin = hi, seg_end = 0, seg_type = run_type lost, position = NEAR\<rparr>]"
  have a: "2 \<le> a" "a \<le> 69" "lo \<le> a - 2" "m \<le> a" "1 \<le> m" using assms by auto
  have "seg_open LorR a \<lparr>begin_flag = 1, seg_index = int k, segs = ss, broder = b\<rparr> =
      Some \<lparr>begin_flag = 0, seg_index = int k, segs = ?ss, broder = b\<rparr>"
    using seg_open_at [of b a k ss LorR lost] assms a by (auto simp: seg_null_def)
  moreover have "seg_close LorR i \<lparr>begin_flag = 0, seg_index = int k, segs = ?ss, broder = b\<rparr> =
      Some \<lparr>begin_flag = 0, seg_index = int k, segs = ?ss, broder = b\<rparr>" if "m \<le> i" "i \<le> a" for i
    using that assms a by (intro seg_close_inside) auto
  ultimately show ?thesis
    using a by (auto simp: downto_Cons seg_row_def intro!: for_each_same)
qed

text \<open>All runs: ten segments fit; the eleventh is written past the array.\<close>

lemma seg_loop_runs:
  assumes "length b = 70" and "length ss = 10" and "\<forall>j. k \<le> j \<longrightarrow> j < 10 \<longrightarrow> ss ! j = seg_null" and "k \<le> 10"
    and "hi = 69 \<and> a = 69 \<or> hi < 69 \<and> a = hi - 1" and "run_layout LorR b hi rs" and "rs \<noteq> []"
  shows "for_each (seg_row LorR) (downto a 1) \<lparr>begin_flag = 1, seg_index = int k, segs = ss, broder = b\<rparr> =
    (if k + length rs \<le> 10
     then Some \<lparr>begin_flag = 0, seg_index = int (k + length rs - 1),
       segs = take k ss @ run_segments hi rs @ drop (k + length rs) ss, broder = b\<rparr>
     else None)"
  using assms
proof (induction rs arbitrary: k hi a ss)
  case Nil
  then show ?case by simp
next
  case (Cons r rs)
  obtain lost n where r: "r = (lost, n)" by (cases r)
  define lo where "lo = hi - n + 1"
  have l: "4 \<le> n" "0 \<le> lo" "hi = lo + n - 1" "run_layout LorR b (lo - 1) rs" "rs \<noteq> [] \<longrightarrow> fst (hd rs) \<noteq> lost"
    "\<forall>j. lo \<le> j \<longrightarrow> j \<le> hi \<longrightarrow> in_run LorR lost (b ! nat j)"
    using Cons.prems(6) r unfolding lo_def by (auto simp: list_all_iff algebra_simps)
  let ?s = "\<lparr>begin_flag = 1, seg_index = int k, segs = ss, broder = b\<rparr>"
  have a1: "1 \<le> a" using Cons.prems(5) l by auto
  show ?case
  proof (cases "k = 10")
    case True
    then have "seg_row LorR a ?s = None" using Cons.prems(2)
      by (simp add: seg_row_def seg_open_def set_seg_def rd_def)
    then show ?thesis using a1 True by (simp add: downto_Cons)
  next
    case False
    let ?ss = "ss[k := \<lparr>seg_begin = hi, seg_end = 0, seg_type = run_type lost, position = NEAR\<rparr>]"
    have k: "k < 10" using False Cons.prems by simp
    have rows: "for_each (seg_row LorR) (downto a (max 1 lo)) ?s =
        Some \<lparr>begin_flag = 0, seg_index = int k, segs = ?ss, broder = b\<rparr>"
      by (rule run_rows [where lo = lo]) (use Cons.prems l k in auto)
    show ?thesis
    proof (cases rs)
      case Nil
      then have "lo = 0" using l by simp
      with rows Nil k Cons.prems(2) l show ?thesis
        by (simp add: r upd_conv_take_nth_drop run_type_def)
    next
      case (Cons r' rs')
      obtain lost' n' where r': "r' = (lost', n')" by (cases r')
      have l': "4 \<le> n'" "n' \<le> lo" "lost' = (\<not> lost)" "\<forall>j. lo - n' \<le> j \<longrightarrow> j < lo \<longrightarrow> in_run LorR (\<not> lost) (b ! nat j)"
        using l(4,5) Cons r' by (auto simp: list_all_iff)
      let ?ss' = "ss[k := \<lparr>seg_begin = hi, seg_end = lo, seg_type = run_type lost, position = NEAR\<rparr>]"
      have hi69: "hi \<le> 69" "lo \<le> a" using Cons.prems l by auto
      have "seg_close LorR (lo - 1) \<lparr>begin_flag = 0, seg_index = int k, segs = ?ss, broder = b\<rparr> =
          Some \<lparr>begin_flag = 1, seg_index = int (Suc k), segs = ?ss', broder = b\<rparr>"
        using seg_close_end [of b "lo - 1" k ?ss lost LorR] Cons.prems(1,2) k l l' hi69 by simp
      then have close: "for_each (seg_row LorR) (downto a (lo - 1)) ?s =
          Some \<lparr>begin_flag = 1, seg_index = int (Suc k), segs = ?ss', broder = b\<rparr>"
        using rows l' hi69 downto_split [of "lo - 1" lo a] by (simp add: for_each_append seg_row_def max_def)
      have "downto a 1 = downto a (lo - 1) @ downto (lo - 2) 1"
        using downto_split [of 1 "lo - 1" a] l' hi69 by simp
      moreover have "for_each (seg_row LorR) (downto (lo - 2) 1) \<lparr>begin_flag = 1, seg_index = int (Suc k), segs = ?ss', broder = b\<rparr> =
          (if Suc k + length rs \<le> 10
           then Some \<lparr>begin_flag = 0, seg_index = int (Suc k + length rs - 1),
             segs = take (Suc k) ?ss' @ run_segments (lo - 1) rs @ drop (Suc k + length rs) ?ss', broder = b\<rparr>
           else None)"
        using Cons.prems k l l' Cons by (intro Cons.IH) auto
      moreover have "run_segments (hi - n) rs = run_segments (lo - 1) rs" "lo + n = 1 + hi" using l(3) by simp_all
      ultimately show ?thesis
        using close k Cons.prems(2)
        by (simp add: for_each_append r run_type_def take_Suc_conv_app_nth drop_update_cancel algebra_simps)
    qed
  qed
qed

section \<open>The segments are the runs\<close>

definition labelled :: "(int \<Rightarrow> int) \<Rightarrow> int list \<Rightarrow> (bool \<times> int) list \<Rightarrow> side \<Rightarrow> (int list \<times> side) option" where
  "labelled junk b rs t =
    do {
      ss \<leftarrow> seg_labels junk b (int (length rs)) (run_segments 69 rs @ replicate (10 - length rs) seg_null);
      Some (b, t\<lparr>segment_n := int (length rs), my_segment := ss\<rparr>)
    }"

lemma clear_segments: "length ss = 10 \<Longrightarrow> for_each (\<lambda>i ss. wr ss i seg_null) [0..9] ss = Some (replicate 10 seg_null)"
  by (auto simp: upto.simps length_Suc_conv numeral_eq_Suc)

lemma GetSegment_layout:
  assumes "length b = 70" and "length (my_segment t) = 10"
    and "run_layout LorR b 69 ((lost, n) # rs)" and "7 \<le> n"
  shows "Vision_GetSegment junk LorR b t =
    (if length ((lost, n) # rs) \<le> 10 then labelled junk b ((lost, n) # rs) t else None)"
proof -
  let ?rs = "(lost, n) # rs"
  have "for_each (seg_row LorR) (downto 69 1) \<lparr>begin_flag = 1, seg_index = int 0, segs = replicate 10 seg_null, broder = b\<rparr> =
      (if 0 + length ?rs \<le> 10
       then Some \<lparr>begin_flag = 0, seg_index = int (0 + length ?rs - 1),
         segs = take 0 (replicate 10 seg_null) @ run_segments 69 ?rs @ drop (0 + length ?rs) (replicate 10 seg_null), broder = b\<rparr>
       else None)"
    using assms by (intro seg_loop_runs) simp_all
  then show ?thesis
    using assms clear_segments [of "my_segment (t\<lparr>segment_n := 0\<rparr>)"]
    by (simp add: Vision_GetSegment_def labelled_def seg_merge_def imgRow_def add.commute del: run_layout.simps)
qed

text \<open>
  C12: The segmentation finds the runs: a border made of lost and found runs of at least four rows
  each, with a lowest run of at least seven, is cut into exactly these runs, from the lowest row up, with
  their first and last rows, lost ones marked lost and found ones labelled by the line tests; the border
  is not changed.  With more than ten runs the segment array is written out of range.
\<close>

theorem GetSegment_runs:
  assumes "length b = 70" and "length (my_segment t) = 10"
    and "run_layout LorR b 69 ((lost, n) # rs)" and "7 \<le> n"
  shows "Vision_GetSegment junk LorR b t =
    (if length ((lost, n) # rs) \<le> 10 then labelled junk b ((lost, n) # rs) t else None)"
  using GetSegment_layout [OF assms] .

theorem GetSegment_runs_witness:
  "Vision_GetSegment (\<lambda>_. 0) True (replicate 20 30 @ replicate 10 0 @ replicate 40 35) side_zero =
     labelled (\<lambda>_. 0) (replicate 20 30 @ replicate 10 0 @ replicate 40 35) [(False, 40), (True, 10), (False, 20)] side_zero \<and>
   Vision_GetSegment (\<lambda>_. 0) False (concat (replicate 7 [9, 9, 9, 9, 187, 187, 187, 187]) @ replicate 14 9) side_zero = None"
proof -
  have 1: "run_layout True (replicate 20 30 @ replicate 10 0 @ replicate 40 35) 69 [(False, 40), (True, 10), (False, 20)]"
    by code_simp
  have 2: "run_layout False (concat (replicate 7 [9, 9, 9, 9, 187, 187, 187, 187]) @ replicate 14 9) 69
      ((False, 14) # concat (replicate 7 [(True, 4), (False, 4)]))"
    by code_simp
  show ?thesis
    using GetSegment_runs [OF _ _ 1, of side_zero "\<lambda>_. 0"] GetSegment_runs [OF _ _ 2, of side_zero "\<lambda>_. 0"]
    by (simp add: side_zero_def numeral_eq_Suc)
qed

section \<open>The sharpest corner\<close>

definition border_ok :: "int list \<Rightarrow> bool" where
  "border_ok b \<longleftrightarrow> length b = 70 \<and> (\<forall>v \<in> set b. 0 \<le> v \<and> v \<le> 187)"

lemma border_ok_nth: "border_ok b \<Longrightarrow> 0 \<le> i \<Longrightarrow> i < 70 \<Longrightarrow> rd b i = Some (b ! nat i) \<and> 0 \<le> b ! nat i \<and> b ! nat i \<le> 187"
  using nth_mem [of "nat i" b] by (auto simp: border_ok_def)

lemma border_ok_upd: "border_ok b \<Longrightarrow> 0 \<le> v \<Longrightarrow> v \<le> 187 \<Longrightarrow> border_ok (b[k := v])"
  by (auto simp: border_ok_def dest!: set_update_subset_insert [THEN subsetD])

lemma at_row_ok:
  assumes "border_ok b" and "0 \<le> x" and "x < 70"
  shows "at_row b x = Some \<lparr>pt_x = x, pt_y = b ! nat x\<rparr>"
  using border_ok_nth [OF assms] assms by (simp add: at_row_def point_def s16_id)

lemma abs_products:
  fixes a b c d :: int
  assumes "\<bar>a\<bar> \<le> 200" and "\<bar>b\<bar> \<le> 200" and "\<bar>c\<bar> \<le> 200" and "\<bar>d\<bar> \<le> 200"
  shows "\<bar>a * b + c * d\<bar> \<le> 80000"
proof -
  have "\<bar>a * b\<bar> \<le> 200 * 200" "\<bar>c * d\<bar> \<le> 200 * 200" unfolding abs_mult using assms by (intro mult_mono; simp)+
  then show ?thesis by linarith
qed

lemma cos_at_ok:
  assumes "border_ok b" and "0 \<le> x1" and "x1 < 70" and "0 \<le> x2" and "x2 < 70" and "0 \<le> x3" and "x3 < 70"
  shows "\<exists>c. cos_at b x1 x2 x3 = Some c"
proof -
  note y = border_ok_nth [OF assms(1)]
  have d: "\<bar>b ! nat x1 - b ! nat x2\<bar> \<le> 200" "\<bar>b ! nat x3 - b ! nat x2\<bar> \<le> 200" "\<bar>x1 - x2\<bar> \<le> 200" "\<bar>x3 - x2\<bar> \<le> 200"
    using y [of x1] y [of x2] y [of x3] assms by auto
  then have "s16 (b ! nat x1 - b ! nat x2) = b ! nat x1 - b ! nat x2" "s16 (b ! nat x3 - b ! nat x2) = b ! nat x3 - b ! nat x2"
    "s16 (x1 - x2) = x1 - x2" "s16 (x3 - x2) = x3 - x2" by (simp_all add: s16_id abs_le_iff)
  moreover have c: "\<bar>n\<bar> \<le> 80000 \<Longrightarrow> chk32 n = Some n" for n by (intro chk32_ok) linarith+
  ultimately show ?thesis
    using c [OF abs_products [OF d(3) d(4) d(1) d(2)]] c [OF abs_products [OF d(3) d(3) d(1) d(1)]]
      c [OF abs_products [OF d(4) d(4) d(2) d(2)]]
    by (simp add: cos_at_def at_row_ok assms Vector_AngleGet_def Vector_Dot_Product_def Vector_Module_def point_def)
qed

text \<open>The cosine the search uses for a row of the stretch \<open>mn\<close> to \<open>mx\<close>.\<close>

definition corner_cos :: "int list \<Rightarrow> int \<Rightarrow> int \<Rightarrow> int \<Rightarrow> flt option" where
  "corner_cos b mn mx i =
    (if i = mx - 1 then cos_at b mx (mx - 1) (if mx - mn + 1 \<ge> 7 then mx - 5 else mn)
     else cos_at b (if i - mn \<ge> 5 then i - 5 else mn) i (if mx - i \<ge> 5 then i + 5 else mx))"

definition corner_row :: "int \<Rightarrow> int \<Rightarrow> int \<Rightarrow> bool" where
  "corner_row mn mx i \<longleftrightarrow> i = mx - 1 \<or> mn + 2 \<le> i \<and> i \<le> mx - 2"

lemma corner_cos_ok:
  assumes "border_ok b" and "0 \<le> mn" and "mn < mx" and "mx < 70" and "corner_row mn mx i"
  shows "\<exists>c. corner_cos b mn mx i = Some c"
  using assms by (auto simp: corner_cos_def corner_row_def intro!: cos_at_ok)

lemma for_each_visited:
  assumes "\<And>V i s. i \<in> set js \<Longrightarrow> P V s \<Longrightarrow> \<exists>s'. f i s = Some s' \<and> P (insert i V) s'" and "P V s"
  shows "\<exists>s'. for_each f js s = Some s' \<and> P (V \<union> set js) s'"
  using assms
proof (induction js arbitrary: V s)
  case (Cons i js)
  obtain t where t: "f i s = Some t" "P (insert i V) t" using Cons.prems(1) [of i V s] Cons.prems(2) by auto
  with Cons.IH [of "insert i V" t] Cons.prems(1) show ?case by auto
qed simp

lemma flt_gt_trans: "flt_gt x y \<Longrightarrow> flt_gt y z \<Longrightarrow> flt_gt x z"
  by (cases x; cases y; cases z; simp)

lemma arc_rows:
  assumes "border_ok b" and "\<forall>v \<in> set b. v \<noteq> 0 \<and> v \<noteq> 187" and "0 \<le> mn" and "mn < mx" and "mx < 70"
    and "corner_cos b mn mx (mx - 1) = Some c0"
  shows "\<exists>x c. for_each (arc_row mn mx) (downto (mx - 2) (mn + 2)) (b, mx - 1, c0) = Some (b, x, c) \<and>
    corner_row mn mx x \<and> corner_cos b mn mx x = Some c \<and>
    (\<forall>i. corner_row mn mx i \<longrightarrow> (\<exists>ci. corner_cos b mn mx i = Some ci \<and> \<not> flt_gt ci c))"
proof -
  let ?P = "\<lambda>V s. \<exists>x c. s = (b, x, c) \<and> corner_row mn mx x \<and> corner_cos b mn mx x = Some c \<and>
    (\<forall>i \<in> V. \<exists>ci. corner_cos b mn mx i = Some ci \<and> \<not> flt_gt ci c)"
  have step: "\<exists>s'. arc_row mn mx i s = Some s' \<and> ?P (insert i V) s'"
    if i: "i \<in> set (downto (mx - 2) (mn + 2))" and P: "?P V s" for V i s
  proof -
    from P obtain x c where s: "s = (b, x, c)" "corner_row mn mx x" "corner_cos b mn mx x = Some c"
      "\<forall>i \<in> V. \<exists>ci. corner_cos b mn mx i = Some ci \<and> \<not> flt_gt ci c" by blast
    have r: "corner_row mn mx i" "i \<noteq> mx - 1" using i by (auto simp: corner_row_def)
    then obtain ci where ci: "corner_cos b mn mx i = Some ci" using corner_cos_ok assms by blast
    have v: "rd b i = Some (b ! nat i)" "b ! nat i \<noteq> 0" "b ! nat i \<noteq> 187"
      using border_ok_nth [OF assms(1), of i] i assms(2-5) nth_mem [of "nat i" b] assms(1) by (auto simp: border_ok_def)
    have "arc_row mn mx i s = Some (if flt_gt ci c then (b, i, ci) else (b, x, c))"
      using v ci r(2) by (simp add: arc_row_def s(1) Let_def LEFT_LOSE_VALUE_def RIGHT_LOSE_VALUE_def corner_cos_def)
    moreover have "\<not> flt_gt ci ci" by (cases ci) simp_all
    moreover have "\<exists>cj. corner_cos b mn mx j = Some cj \<and> \<not> flt_gt cj (if flt_gt ci c then ci else c)" if j: "j \<in> insert i V" for j
    proof (cases "j = i")
      case False
      then obtain cj where cj: "corner_cos b mn mx j = Some cj" "\<not> flt_gt cj c" using j s(4) by blast
      then have "\<not> flt_gt cj (if flt_gt ci c then ci else c)" using flt_gt_trans [where x = cj and y = ci and z = c] by auto
      with cj show ?thesis by blast
    qed (use ci \<open>\<not> flt_gt ci ci\<close> in simp)
    ultimately show ?thesis using s r ci by (cases "flt_gt ci c") auto
  qed
  have "\<not> flt_gt c0 c0" by (cases c0) simp_all
  then have "?P {mx - 1} (b, mx - 1, c0)" using assms(6) by (auto simp: corner_row_def)
  from for_each_visited [where P = ?P and f = "arc_row mn mx" and js = "downto (mx - 2) (mn + 2)", OF step this] obtain x c
    where "for_each (arc_row mn mx) (downto (mx - 2) (mn + 2)) (b, mx - 1, c0) = Some (b, x, c)"
      "corner_row mn mx x" "corner_cos b mn mx x = Some c"
      "\<forall>i \<in> {mx - 1} \<union> set (downto (mx - 2) (mn + 2)). \<exists>ci. corner_cos b mn mx i = Some ci \<and> \<not> flt_gt ci c"
    by blast
  then show ?thesis by (intro exI [of _ x] exI [of _ c]) (auto simp: corner_row_def)
qed

text \<open>
  C35: The corner search returns the sharpest corner: on a border without lost values, over rows
  \<open>mn\<close> to \<open>mx\<close>, it picks a row whose cosine no other inspected row exceeds, and returns its point when that cosine
  is above the threshold -0.3 and (-1, -1) otherwise; the border is unchanged.
\<close>

theorem FindArcFP_sharpest:
  assumes "border_ok b" and "\<forall>v \<in> set b. v \<noteq> 0 \<and> v \<noteq> 187" and "0 \<le> mn" and "mn < mx" and "mx < 70"
  shows "\<exists>x c. corner_row mn mx x \<and> corner_cos b mn mx x = Some c \<and>
    (\<forall>i. corner_row mn mx i \<longrightarrow> (\<exists>ci. corner_cos b mn mx i = Some ci \<and> \<not> flt_gt ci c)) \<and>
    Vision_FindArcFP b mx mn = Some (if flt_gt c p_th then \<lparr>pt_x = x, pt_y = b ! nat x\<rparr> else \<lparr>pt_x = - 1, pt_y = - 1\<rparr>, b)"
proof -
  obtain c0 where c0: "corner_cos b mn mx (mx - 1) = Some c0"
    using corner_cos_ok [OF assms(1,3-5), of "mx - 1"] by (auto simp: corner_row_def)
  from arc_rows [OF assms c0] obtain x c where x: "for_each (arc_row mn mx) (downto (mx - 2) (mn + 2)) (b, mx - 1, c0) = Some (b, x, c)"
    "corner_row mn mx x" "corner_cos b mn mx x = Some c"
    "\<forall>i. corner_row mn mx i \<longrightarrow> (\<exists>ci. corner_cos b mn mx i = Some ci \<and> \<not> flt_gt ci c)" by blast
  have "0 \<le> x" "x < 70" using x(2) assms by (auto simp: corner_row_def)
  then have "at_row b x = Some \<lparr>pt_x = x, pt_y = b ! nat x\<rparr>" using at_row_ok assms(1) by blast
  moreover have "point (- 1) (- 1) = \<lparr>pt_x = - 1, pt_y = - 1\<rparr>" by (simp add: point_def s16_def)
  ultimately have "Vision_FindArcFP b mx mn = Some (if flt_gt c p_th then \<lparr>pt_x = x, pt_y = b ! nat x\<rparr> else \<lparr>pt_x = - 1, pt_y = - 1\<rparr>, b)"
    using c0 x(1) assms(4) by (simp add: Vision_FindArcFP_def Let_def Tool_CmpMax_def Tool_CmpMin_def corner_cos_def split: if_splits)
  with x show ?thesis by blast
qed

theorem FindArcFP_sharpest_witness:
  "\<exists>x c. corner_row 60 69 x \<and> corner_cos (replicate 35 20 @ replicate 35 90) 60 69 x = Some c \<and>
    (\<forall>i. corner_row 60 69 i \<longrightarrow>
      (\<exists>ci. corner_cos (replicate 35 20 @ replicate 35 90) 60 69 i = Some ci \<and> \<not> flt_gt ci c)) \<and>
    Vision_FindArcFP (replicate 35 20 @ replicate 35 90) 69 60 =
      Some (if flt_gt c p_th then \<lparr>pt_x = x, pt_y = (replicate 35 20 @ replicate 35 90) ! nat x\<rparr> else \<lparr>pt_x = - 1, pt_y = - 1\<rparr>,
        replicate 35 20 @ replicate 35 90)"
  by (rule FindArcFP_sharpest) (simp_all add: border_ok_def)

section \<open>Feature points stay in the image\<close>

definition fp_ok :: "point_t \<Rightarrow> bool" where
  "fp_ok p \<longleftrightarrow> 0 \<le> pt_x p \<and> pt_x p \<le> 69 \<and> 0 \<le> pt_y p \<and> pt_y p \<le> 187"

definition seg_ok :: "segment_t \<Rightarrow> bool" where
  "seg_ok g \<longleftrightarrow> IsNull g \<or> 1 \<le> seg_begin g \<and> seg_begin g \<le> 69 \<and> 0 \<le> seg_end g \<and> seg_end g \<le> seg_begin g"

definition side_ok :: "side \<Rightarrow> bool" where
  "side_ok t \<longleftrightarrow> length (my_segment t) = 10 \<and> length (feature_p t) = 5 \<and> (\<forall>g \<in> set (my_segment t). seg_ok g) \<and>
    \<not> IsNull (my_segment t ! 0)"

definition fps_ok :: "side \<Rightarrow> int \<Rightarrow> side \<Rightarrow> bool" where
  "fps_ok t0 n t \<longleftrightarrow> my_segment t = my_segment t0 \<and> segment_n t = segment_n t0 \<and> length (feature_p t) = 5 \<and> FP_n t = n \<and>
    (\<forall>k. 0 \<le> k \<longrightarrow> k < n \<longrightarrow> fp_ok (feature_p t ! nat k))"

lemma point_minus: "point (- 1) (- 1) = \<lparr>pt_x = - 1, pt_y = - 1\<rparr>"
  by (simp add: point_def s16_def)

lemma arc_row_ok:
  assumes "border_ok b" and "0 \<le> x" and "x < 70" and "0 \<le> mn" and "mn + 2 \<le> i" and "i \<le> mx - 2" and "mx < 70"
  shows "\<exists>b' x' c'. arc_row mn mx i (b, x, c) = Some (b', x', c') \<and> border_ok b' \<and> 0 \<le> x' \<and> x' < 70"
proof -
  note v = border_ok_nth [OF assms(1)]
  define b' where "b' = (if b ! nat i = 0 \<or> b ! nat i = 187 then b[nat i := b ! nat (i - 1)] else b)"
  have b': "border_ok b'" using v [of "i - 1"] assms border_ok_upd by (simp add: b'_def)
  obtain ci where "cos_at b' (if i - mn \<ge> 5 then i - 5 else mn) i (if mx - i \<ge> 5 then i + 5 else mx) = Some ci"
    using cos_at_ok [OF b'] assms by fastforce
  moreover have "length b = 70" using assms(1) by (simp add: border_ok_def)
  ultimately show ?thesis
    using v [of i] v [of "i - 1"] assms b'
    by (auto simp: arc_row_def Let_def LEFT_LOSE_VALUE_def RIGHT_LOSE_VALUE_def b'_def split: if_splits)
qed

lemma FindArcFP_ok:
  assumes "border_ok b" and "0 \<le> mn" and "mn \<le> mx" and "1 \<le> mx" and "mx < 70"
  shows "\<exists>p b'. Vision_FindArcFP b mx mn = Some (p, b') \<and> Vision_FindArcFP b mn mx = Some (p, b') \<and> border_ok b' \<and>
    (p = \<lparr>pt_x = - 1, pt_y = - 1\<rparr> \<or> fp_ok p)"
proof -
  obtain c where c: "(if mx - mn + 1 \<ge> 7 then cos_at b mx (mx - 1) (mx - 5) else cos_at b mx (mx - 1) mn) = Some c"
    using cos_at_ok [OF assms(1)] assms by fastforce
  let ?P = "\<lambda>s. \<exists>b (x :: int) (c :: flt). s = (b, x, c) \<and> border_ok b \<and> 0 \<le> x \<and> x < 70"
  have "\<exists>s'. for_each (arc_row mn mx) (downto (mx - 2) (mn + 2)) (b, mx - 1, c) = Some s' \<and> ?P s'"
  proof (rule for_each_inv)
    fix i s assume i: "i \<in> set (downto (mx - 2) (mn + 2))" and "?P s"
    then obtain b1 x c1 where "s = (b1, x, c1)" "border_ok b1" "0 \<le> x" "x < 70" by blast
    with arc_row_ok [of b1 x mn i mx c1] i assms show "\<exists>s'. arc_row mn mx i s = Some s' \<and> ?P s'" by auto
  qed (use assms in auto)
  then obtain b' x c' where r: "for_each (arc_row mn mx) (downto (mx - 2) (mn + 2)) (b, mx - 1, c) = Some (b', x, c')"
    "border_ok b'" "0 \<le> x" "x < 70" by blast
  then have "at_row b' x = Some \<lparr>pt_x = x, pt_y = b' ! nat x\<rparr>" "fp_ok \<lparr>pt_x = x, pt_y = b' ! nat x\<rparr>"
    using at_row_ok border_ok_nth [of b' x] by (auto simp: fp_ok_def)
  then show ?thesis
    using c r assms(3)
    by (auto simp: Vision_FindArcFP_def Let_def Tool_CmpMax_def Tool_CmpMin_def point_minus split: if_splits)
qed

lemma GetAverage_ok:
  assumes "border_ok b" and "0 \<le> lo" and "lo \<le> hi" and "hi < 70" and "\<bar>junk\<bar> \<le> 1073741824"
  shows "\<exists>a. Line_GetAverage junk b hi lo = Some a"
proof -
  have "\<exists>t. for_each (\<lambda>i t. do { v \<leftarrow> rd b i; chk32 (t + v) }) [lo..hi + 1 - 1] junk = Some t \<and>
      \<bar>t\<bar> \<le> 1073741824 + 187 * (hi + 1 - lo)"
  proof (rule for_up_inv)
    fix i t assume i: "lo \<le> i" "i < hi + 1" "\<bar>t\<bar> \<le> 1073741824 + 187 * (i - lo)"
    then have "rd b i = Some (b ! nat i)" "0 \<le> b ! nat i" "b ! nat i \<le> 187" using border_ok_nth assms by auto
    then show "\<exists>t'. (do { v \<leftarrow> rd b i; chk32 (t + v) }) = Some t' \<and> \<bar>t'\<bar> \<le> 1073741824 + 187 * (i + 1 - lo)"
      using i assms by (auto simp: chk32_def)
  qed (use assms in auto)
  then show ?thesis using CmpMinMax(2) [OF assms(3)] by (auto simp: Line_GetAverage_def Let_def)
qed

lemma add_FP_ok:
  assumes "fps_ok t0 n t" and "0 \<le> n" and "n < 5" and "fp_ok p"
  shows "\<exists>t'. add_FP n p t = Some t' \<and> fps_ok t0 (n + 1) t'"
proof -
  have "add_FP n p t = Some (t\<lparr>feature_p := (feature_p t)[nat n := p], FP_n := n + 1\<rparr>)"
    using assms by (simp add: add_FP_def set_FP_def fps_ok_def)
  then show ?thesis using assms by (auto simp: fps_ok_def nth_list_update)
qed

lemma far_FP_ok:
  assumes "border_ok b" and "fps_ok t0 n t" and "0 \<le> n" and "n < 5" and "seg_ok g" and "\<not> IsNull g"
  shows "\<exists>b' t'. far_FP n g (b, t) = Some (b', t') \<and> border_ok b' \<and> fps_ok t0 (n + 1) t'"
proof -
  have g: "1 \<le> seg_begin g" "seg_begin g < 70" "0 \<le> seg_end g" "seg_end g \<le> seg_begin g"
    using assms by (auto simp: seg_ok_def)
  define mn where "mn = (if seg_begin g - seg_end g \<ge> 15 then seg_begin g - 15 else seg_end g)"
  have mn: "0 \<le> mn" "mn \<le> seg_begin g" using g by (auto simp: mn_def)
  from FindArcFP_ok [OF assms(1) mn g(1,2)] obtain pf b' where f: "Vision_FindArcFP b (seg_begin g) mn = Some (pf, b')"
    "border_ok b'" "pf = \<lparr>pt_x = - 1, pt_y = - 1\<rparr> \<or> fp_ok pf" by blast
  have v: "rd b' (seg_begin g) = Some (b' ! nat (seg_begin g))" "0 \<le> b' ! nat (seg_begin g)" "b' ! nat (seg_begin g) \<le> 187"
    using border_ok_nth [OF f(2)] g by auto
  let ?p = "if pf = \<lparr>pt_x = - 1, pt_y = - 1\<rparr> then \<lparr>pt_x = seg_begin g, pt_y = b' ! nat (seg_begin g)\<rparr> else pf"
  have "fp_ok ?p" using f(3) v g by (auto simp: fp_ok_def)
  with add_FP_ok [OF assms(2-4)] obtain t' where "add_FP n ?p t = Some t'" "fps_ok t0 (n + 1) t'" by blast
  with f v show ?thesis by (cases pf) (auto simp: far_FP_def mn_def fp_ok_def split: if_splits)
qed

lemma beyond_lost_ok:
  assumes "border_ok b" and "fps_ok t0 1 t" and "side_ok t0" and "\<bar>junk\<bar> \<le> 1073741824"
  shows "\<exists>b' t' n. beyond_lost a junk (b, t) = Some (b', t') \<and> border_ok b' \<and> fps_ok t0 n t' \<and> n \<in> {0, 1, 2}"
proof -
  define g where "g = my_segment t0 ! 2"
  have g: "rd (my_segment t) 2 = Some g" "seg_ok g"
    using assms(2,3) nth_mem [of 2 "my_segment t0"] by (simp_all add: g_def fps_ok_def side_ok_def)
  show ?thesis
  proof (cases "IsNull g")
    case True
    with g assms show ?thesis by (auto simp: beyond_lost_def)
  next
    case False
    with g(2) have s: "0 \<le> seg_end g" "seg_end g \<le> seg_begin g" "seg_begin g < 70" by (auto simp: seg_ok_def)
    from GetAverage_ok [OF assms(1) s assms(4)] obtain a2 where a2: "Line_GetAverage junk b (seg_begin g) (seg_end g) = Some a2" ..
    have "set_FP 0 p t = Some (t\<lparr>feature_p := (feature_p t)[0 := p]\<rparr>)" for p
      using assms(2) by (simp add: set_FP_def fps_ok_def)
    moreover have "fps_ok t0 0 (t\<lparr>feature_p := (feature_p t)[0 := p], FP_n := FP_n t - 1\<rparr>)" for p
      using assms(2) by (simp add: fps_ok_def)
    ultimately show ?thesis
      using False g(1) a2 far_FP_ok [OF assms(1,2) _ _ g(2) False] assms(1) by (auto simp: beyond_lost_def)
  qed
qed

lemma lost_middle_ok:
  assumes "border_ok b" and "fps_ok t0 0 t" and "side_ok t0" and "\<bar>junk1\<bar> \<le> 1073741824" and "\<bar>junk2\<bar> \<le> 1073741824"
  shows "\<exists>b' t' n. lost_middle junk1 junk2 (b, t) = Some (b', t') \<and> border_ok b' \<and> fps_ok t0 n t' \<and> n \<in> {0, 1, 2}"
proof -
  define g where "g = my_segment t0 ! 0"
  have g: "rd (my_segment t) 0 = Some g" "1 \<le> seg_begin g" "seg_begin g < 70" "0 \<le> seg_end g" "seg_end g \<le> seg_begin g"
    using assms(2,3) nth_mem [of 0 "my_segment t0"] by (auto simp: g_def fps_ok_def side_ok_def seg_ok_def)
  from GetAverage_ok [OF assms(1) g(4,5,3) assms(4)] obtain a where a: "Line_GetAverage junk1 b (seg_begin g) (seg_end g) = Some a" ..
  from FindArcFP_ok [OF assms(1) g(4,5,2,3)] obtain pf b' where f: "Vision_FindArcFP b (seg_begin g) (seg_end g) = Some (pf, b')"
    "border_ok b'" "pf = \<lparr>pt_x = - 1, pt_y = - 1\<rparr> \<or> fp_ok pf" by blast
  let ?p = "if pf = \<lparr>pt_x = - 1, pt_y = - 1\<rparr> then \<lparr>pt_x = seg_end g, pt_y = b' ! nat (seg_end g)\<rparr> else pf"
  have v: "rd b' (seg_end g) = Some (b' ! nat (seg_end g))" "0 \<le> b' ! nat (seg_end g)" "b' ! nat (seg_end g) \<le> 187"
    using border_ok_nth [OF f(2)] g by auto
  then have "fp_ok ?p" using f(3) g by (auto simp: fp_ok_def)
  with add_FP_ok [OF assms(2)] obtain t' where t': "add_FP 0 ?p t = Some t'" "fps_ok t0 1 t'" by force
  from beyond_lost_ok [OF f(2) t'(2) assms(3,5), of a] show ?thesis
    using g(1) a f t'(1) v by (auto simp: lost_middle_def fp_ok_def split: if_splits)
qed

lemma clear_points: "length ps = 5 \<Longrightarrow> \<exists>ps'. for_each (\<lambda>i ps. wr ps i (point 0 0)) [0..2] ps = Some ps' \<and> length ps' = 5"
  by (rule for_each_inv [where P = "\<lambda>ps. length ps = 5"]) auto

text \<open>
  C17: The feature search is memory safe and its points are in the image: for a border of 70 columns in
  range and well formed segments, whatever the uninitialised sums hold (up to 2 ^ 30), it ends with 0,
  1 or 2 points, all inside the image, leaves the segments alone and the border in range.
\<close>

theorem BroderFindFP_points:
  assumes "border_ok b" and "side_ok t" and "\<bar>junk1\<bar> \<le> 1073741824" and "\<bar>junk2\<bar> \<le> 1073741824"
  shows "\<exists>b' t'. Vision_BroderFindFP junk1 junk2 b t = Some (b', t') \<and> border_ok b' \<and> side_ok t' \<and>
    my_segment t' = my_segment t \<and> segment_n t' = segment_n t \<and> FP_n t' \<in> {0, 1, 2} \<and>
    (\<forall>k. 0 \<le> k \<longrightarrow> k < FP_n t' \<longrightarrow> fp_ok (feature_p t' ! nat k))"
proof -
  obtain ps where ps: "for_each (\<lambda>i ps. wr ps i (point 0 0)) [0..2] (feature_p t) = Some ps" "length ps = 5"
    using clear_points [of "feature_p t"] assms(2) by (auto simp: side_ok_def)
  let ?t = "t\<lparr>FP_n := 0, feature_p := ps\<rparr>"
  have start: "fps_ok t 0 ?t" using ps by (simp add: fps_ok_def)
  define g0 g1 where "g0 = my_segment t ! 0" and "g1 = my_segment t ! 1"
  have g: "rd (my_segment t) 0 = Some g0" "rd (my_segment t) 1 = Some g1" "seg_ok g0" "seg_ok g1" "\<not> IsNull g0"
    using assms(2) nth_mem [of 0 "my_segment t"] nth_mem [of 1 "my_segment t"] by (simp_all add: g0_def g1_def side_ok_def)
  have "\<exists>b' t'. Vision_BroderFindFP junk1 junk2 b t = Some (b', t') \<and> border_ok b' \<and>
      (fps_ok t 0 t' \<or> fps_ok t 1 t' \<or> fps_ok t 2 t')"
  proof (cases "IsLose g1 \<and> Vision_IsLone g1")
    case True
    with lost_middle_ok [OF assms(1) start assms(2-4)] ps g show ?thesis by (auto simp: Vision_BroderFindFP_def)
  next
    case mid: False
    have g1: "\<not> IsNull g1 \<Longrightarrow> \<exists>b' t'. far_FP 0 g1 (b, ?t) = Some (b', t') \<and> border_ok b' \<and> fps_ok t 1 t'"
      using far_FP_ok [OF assms(1) start _ _ g(4)] by simp
    have s: "0 \<le> min (seg_begin g0) 25" "min (seg_begin g0) 25 \<le> max (seg_begin g0) 25"
      "1 \<le> max (seg_begin g0) 25" "max (seg_begin g0) 25 < 70" using g(3,5) by (auto simp: seg_ok_def)
    from FindArcFP_ok [OF assms(1) s] obtain pf b' where f: "Vision_FindArcFP b (seg_begin g0) 25 = Some (pf, b')"
      "border_ok b'" "pf = \<lparr>pt_x = - 1, pt_y = - 1\<rparr> \<or> fp_ok pf" by (auto simp: max_def min_def split: if_splits)
    from f(3) add_FP_ok [OF start, of pf] have "fp_ok pf \<Longrightarrow> \<exists>t'. add_FP 0 pf ?t = Some t' \<and> fps_ok t 1 t'" by simp
    then show ?thesis using mid g1 ps g f assms(1) start by (auto simp: Vision_BroderFindFP_def fp_ok_def Let_def)
  qed
  then show ?thesis using assms(2) by (auto simp: fps_ok_def side_ok_def)
qed

theorem BroderFindFP_points_witness:
  "\<exists>b' t'. Vision_BroderFindFP 7 (- 9) (replicate 70 40)
       (side_zero\<lparr>my_segment := \<lparr>seg_begin = 69, seg_end = 0, seg_type = arc_segment, position = 0\<rparr> # replicate 9 seg_null,
          segment_n := 1\<rparr>) = Some (b', t') \<and> border_ok b' \<and> side_ok t' \<and>
    my_segment t' = my_segment (side_zero\<lparr>my_segment := \<lparr>seg_begin = 69, seg_end = 0, seg_type = arc_segment, position = 0\<rparr> # replicate 9 seg_null,
          segment_n := 1\<rparr>) \<and> segment_n t' = segment_n (side_zero\<lparr>my_segment := \<lparr>seg_begin = 69, seg_end = 0, seg_type = arc_segment, position = 0\<rparr> # replicate 9 seg_null,
          segment_n := 1\<rparr>) \<and> FP_n t' \<in> {0, 1, 2} \<and>
    (\<forall>k. 0 \<le> k \<longrightarrow> k < FP_n t' \<longrightarrow> fp_ok (feature_p t' ! nat k))"
  by (rule BroderFindFP_points) (simp_all add: border_ok_def side_ok_def side_zero_def seg_ok_def IsNull_def seg_null_def)

section \<open>The lowest row\<close>

text \<open>
  A value near the side of the image in the lowest row alone makes the segmentation read past the
  border: when row 69 is within 5 columns of a side but the rows above it do not confirm a
  lost stretch, the smoothing copies row 70, which does not exist.
\<close>

theorem GetSegment_reads_past:
  assumes "length b = 70" and "length (my_segment t) = 10" and "b ! 69 \<le> 5 \<or> 182 \<le> b ! 69"
    and "\<not> lost_again LorR (b ! 68)" and "\<not> lost_at_start LorR (b ! 68)"
  shows "Vision_GetSegment junk LorR b t = None"
proof -
  let ?s = "\<lparr>begin_flag = 1, seg_index = 0, segs = replicate 10 seg_null, broder = b\<rparr>"
  let ?ss = "(replicate 10 seg_null)[0 := seg_null\<lparr>seg_begin := 69\<rparr>]"
  have rows: "rd b 69 = Some (b ! 69)" "rd b 68 = Some (b ! 68)" "rd b 70 = None" using assms(1) by (simp_all add: rd_def)
  have "seg_open LorR 69 ?s = Some (?s\<lparr>begin_flag := 0, segs := ?ss\<rparr>)"
    using rows assms(5) by (simp add: seg_open_def set_seg_def imgRow_def s16_id seg_null_def)
  moreover have "seg_close LorR 69 (?s\<lparr>begin_flag := 0, segs := ?ss\<rparr>) = None"
    using rows assms(3,4) by (auto simp: seg_close_def IsLose_def IsNull_def seg_null_def LEFT_LOSE_VALUE_def RIGHT_LOSE_VALUE_def)
  ultimately have "seg_row LorR 69 ?s = None" by (simp add: seg_row_def)
  then show ?thesis
    using clear_segments [of "my_segment (t\<lparr>segment_n := 0\<rparr>)"] assms(2)
    by (simp add: Vision_GetSegment_def imgRow_def downto_Cons)
qed

theorem GetSegment_reads_past_witness:
  "Vision_GetSegment (\<lambda>_. 0) True (replicate 69 20 @ [4]) side_zero = None"
  by (rule GetSegment_reads_past) (simp_all add: side_zero_def lost_again_def lost_at_start_def nth_append)

end
