(* ===== verification/Lines.thy ===== *)
theory Lines
  imports Segment
begin

text \<open>
  The tools of \<open>code/src/my_vision.c\<close> on borders and images: lines drawn into a border (lines 605 to 746),
  the share of lost rows (651), the zebra test (487), the black and symmetry rates of a rectangle (1308 to
  1361), and the two printing functions (517 to 603), whose output is a list of what they print.  A line is
  computed in binary32 and stored in \<open>int16\<close>; the conversion of a value outside that range is undefined.
\<close>

section \<open>Drawing lines into a border\<close>

definition FAR_Extend :: int where "FAR_Extend = 1"
definition NEAR_Extend :: int where "NEAR_Extend = 0"

definition clip :: "int \<Rightarrow> int \<Rightarrow> int" where
  "clip hi v = (let v = (if v < 0 then 0 else v) in if v > hi then hi else v)"

text \<open>One row of a line: \<open>y = broder[x] op\<close> a multiple of the slope; the base is read anew for every row.\<close>

definition extend_far :: "(int \<Rightarrow> int) \<Rightarrow> int \<Rightarrow> flt \<Rightarrow> int \<Rightarrow> int list \<Rightarrow> int list option" where
  "extend_far limit x slope i b = do { y \<leftarrow> rd b x; v \<leftarrow> f2s16 (fsub (i2f y) (fmul slope (i2f (x - i)))); wr b i (limit v) }"

definition extend_near :: "(int \<Rightarrow> int) \<Rightarrow> int \<Rightarrow> flt \<Rightarrow> int \<Rightarrow> int list \<Rightarrow> int list option" where
  "extend_near limit x slope i b = do { y \<leftarrow> rd b x; v \<leftarrow> f2s16 (fadd (i2f y) (fmul slope (i2f i))); wr b (x + i) (limit v) }"

definition Vision_ExtendLineK :: "int list \<Rightarrow> int \<Rightarrow> int \<Rightarrow> flt \<Rightarrow> int list option" where
  "Vision_ExtendLineK b x direction slope =
    (let limit = (\<lambda>v. clip (imgCol - 1) (clip 159 v))
     in if direction \<noteq> 0 then for_each (extend_far limit x slope) (downto (x - 1) 1) b
        else for_each (extend_near limit x slope) [0..imgRow - 1 - x - 1] b)"

definition Vision_ExtendLine :: "int list \<Rightarrow> int \<Rightarrow> int \<Rightarrow> int list option" where
  "Vision_ExtendLine b x direction =
    (if direction \<noteq> 0 then
       do {
         this_K \<leftarrow> (if x + 5 \<le> imgRow - 1
           then do { p \<leftarrow> rd b (x + 5); q \<leftarrow> rd b x; Some (fdiv (i2f (p - q)) (flit 5)) }
           else do { p \<leftarrow> rd b (imgRow - 1); q \<leftarrow> rd b x; Some (fdiv (i2f (p - q)) (i2f (imgRow - 1 - x))) });
         for_each (extend_far (clip (imgCol - 1)) x this_K) (downto (x - 1) 1) b
       }
     else
       do {
         this_K \<leftarrow> (if x - 5 \<ge> 0
           then do { p \<leftarrow> rd b x; q \<leftarrow> rd b (x - 5); Some (fdiv (i2f (p - q)) (flit 5)) }
           else do { p \<leftarrow> rd b x; q \<leftarrow> rd b 0; Some (fdiv (i2f (p - q)) (i2f x)) });
         for_each (extend_near (clip (imgCol - 1)) x this_K) [0..imgRow - 1 - x - 1] b
       })"

definition chord_row :: "int \<Rightarrow> flt \<Rightarrow> int \<Rightarrow> int list \<Rightarrow> int list option" where
  "chord_row pmin slope i b =
    do { y \<leftarrow> rd b pmin; v \<leftarrow> f2s16 (fadd (fmul (i2f (i - pmin)) slope) (i2f y)); wr b i v }"

definition Vision_set_AdditionalLine :: "int \<Rightarrow> int \<Rightarrow> int list \<Rightarrow> int list option" where
  "Vision_set_AdditionalLine p1 p2 b =
    do {
      q1 \<leftarrow> at_row b p1;
      q2 \<leftarrow> at_row b p2;
      let slope = Point_CalSlope q1 q2;
      let pmin = (if p1 > p2 then p2 else p1);
      let pmax = (if p1 > p2 then p1 else p2);
      for_each (chord_row pmin slope) [pmin..pmax] b
    }"

text \<open>\<open>left\<close> is the test \<open>broder == Image_S.leftBroder\<close>.\<close>

definition Vision_SetLose :: "bool \<Rightarrow> int list \<Rightarrow> int \<Rightarrow> int \<Rightarrow> int list option" where
  "Vision_SetLose left b x1 x2 =
    (let mx = Tool_CmpMax x1 x2; mn = Tool_CmpMin x1 x2
     in for_each (\<lambda>i b. wr b i (lose_value left)) [mn..mx - 1] b)"

definition point_row :: "int \<Rightarrow> flt \<Rightarrow> int \<Rightarrow> int list \<Rightarrow> int list option" where
  "point_row seed slope i b =
    do { y \<leftarrow> rd b seed; v \<leftarrow> f2s16 (fadd (i2f y) (fmul (i2f (i - seed)) slope)); wr b i v }"

definition Vision_SetLineWithPointK :: "int list \<Rightarrow> int \<Rightarrow> flt \<Rightarrow> int \<Rightarrow> int \<Rightarrow> int list option" where
  "Vision_SetLineWithPointK b seed slope x1 x2 =
    (let mx = Tool_CmpMax x1 x2; mn = Tool_CmpMin x1 x2 in for_each (point_row seed slope) [mn..mx] b)"

text \<open>\<open>lose_num\<close> is uninitialised: \<open>junk\<close>.\<close>

definition Vision_GetLoseRate :: "int \<Rightarrow> bool \<Rightarrow> int list \<Rightarrow> flt option" where
  "Vision_GetLoseRate junk LorR b =
    do {
      lose_num \<leftarrow> for_each (\<lambda>i n. do { v \<leftarrow> rd b i; if v = lose_value LorR then chk32 (n + 1) else Some n }) [0..IMAGE_ROW - 1] junk;
      Some (fdiv (i2f lose_num) (i2f IMAGE_ROW))
    }"

section \<open>Zebra crossing\<close>

definition Zebra_Y :: int where [run_simps]: "Zebra_Y = 60"
definition Zebra_TH :: int where [run_simps]: "Zebra_TH = 10"
definition Zebra_Range :: int where [run_simps]: "Zebra_Range = 8"

definition zebra_edge :: "image \<Rightarrow> int \<Rightarrow> int \<Rightarrow> bool option" where
  "zebra_edge my_image T i =
    do {
      p \<leftarrow> px my_image Zebra_Y i;
      down \<leftarrow> (if p > T + Zebra_Range then do { q \<leftarrow> px my_image Zebra_Y (i + 1); Some (q < T - Zebra_Range) } else Some False);
      if down then Some True
      else if p < T - Zebra_Range then do { q \<leftarrow> px my_image Zebra_Y (i + 1); Some (q > T + Zebra_Range) }
      else Some False
    }"

definition zebra_count :: "image \<Rightarrow> int \<Rightarrow> int \<Rightarrow> int \<Rightarrow> int option" where
  "zebra_count my_image T i change_num = do { e \<leftarrow> zebra_edge my_image T i; Some (if e then change_num + 1 else change_num) }"

definition Vision_IsZebra :: "image \<Rightarrow> int \<Rightarrow> int option" where
  "Vision_IsZebra my_image T =
    do {
      let mid = imgCol sdiv 2;
      n \<leftarrow> for_each (zebra_count my_image T) [mid..188 - 30 - 1] 0;
      n \<leftarrow> for_each (zebra_count my_image T) (downto mid 31) n;
      Some (if n \<ge> Zebra_TH then 1 else 0)
    }"

section \<open>Rates of a rectangle\<close>

text \<open>The image is a flat array of \<open>width\<close> columns.\<close>

definition Vision_CalBlackRate :: "int list \<Rightarrow> int \<Rightarrow> point_t \<Rightarrow> point_t \<Rightarrow> flt option" where
  "Vision_CalBlackRate img width p1 p2 =
    do {
      let max_x = Tool_CmpMax (pt_x p1) (pt_x p2);
      let min_x = Tool_CmpMin (pt_x p1) (pt_x p2);
      let max_y = Tool_CmpMax (pt_y p1) (pt_y p2);
      let min_y = Tool_CmpMin (pt_y p1) (pt_y p2);
      black \<leftarrow> for_each (\<lambda>i n. for_each (\<lambda>j n. do {
          v \<leftarrow> rd img (j * width + i);
          Some (if v = 0 then n + 1 else n)
        }) [min_y..max_y] n) [min_x..max_x] 0;
      total \<leftarrow> chk32 ((max_x - min_x + 1) * (max_y - min_y + 1));
      Some (fdiv (i2f black) (i2f total))
    }"

definition Vision_CalSymRate :: "int list \<Rightarrow> int \<Rightarrow> int \<Rightarrow> point_t \<Rightarrow> point_t \<Rightarrow> int \<Rightarrow> flt option" where
  "Vision_CalSymRate img width height p1 p2 ud_or_lr =
    do {
      let max_x = u16 (Tool_CmpMax (pt_x p1) (pt_x p2));
      let min_x = u16 (Tool_CmpMin (pt_x p1) (pt_x p2));
      let max_y = u16 (Tool_CmpMax (pt_y p1) (pt_y p2));
      let min_y = u16 (Tool_CmpMin (pt_y p1) (pt_y p2));
      t \<leftarrow> chk32 ((max_x - min_x + 1) * (max_y - min_y + 1));
      let total_n = u16 t;
      sys_p_n \<leftarrow> for_each (\<lambda>i n. for_each (\<lambda>j n. do {
          v \<leftarrow> rd img (j * width + i);
          w \<leftarrow> (if ud_or_lr \<noteq> 0 then rd img (j * width + width - i - 1) else rd img ((height - j - 1) * width + i));
          Some (if v = w then u16 (n + 1) else n)
        }) [min_y..max_y] n) [min_x..max_x] 0;
      Some (fdiv (i2f sys_p_n) (i2f total_n))
    }"

section \<open>Printing\<close>

text \<open>What is printed or shown as text: the words of the format and the values put into it.\<close>

datatype shown = Text string | Num int | Val flt

definition Vision_BroderPrint :: "RoadLine_t \<Rightarrow> shown list option" where
  "Vision_BroderPrint s =
    do {
      l \<leftarrow> for_each (\<lambda>i out. do { v \<leftarrow> rd (leftBroder s) i; Some (out @ [Num v]) }) [0..imgRow - 1 - 1] [Text ''left''];
      for_each (\<lambda>i out. do { v \<leftarrow> rd (rightBroder s) i; Some (out @ [Num v]) }) [0..imgRow - 1 - 1] (l @ [Text ''right''])
    }"

fun segment_name :: "segment_type \<Rightarrow> string" where
  "segment_name NULL_segment = ''NULL_segment''"
| "segment_name straight_segment = ''straight_segment''"
| "segment_name lose_segment = ''lose_segment''"
| "segment_name arc_segment = ''arc_segment''"
| "segment_name corner_segment = ''corner_segment''"

definition show_side :: "side \<Rightarrow> shown list \<Rightarrow> shown list option" where
  "show_side t out =
    for_each (\<lambda>i out. do { s \<leftarrow> rd (my_segment t) i; Some (out @ [Num i, Text (segment_name (seg_type s))]) })
      [0..segment_n t - 1] (out @ [Num (segment_n t)])"

definition Vision_ErrorLogin :: "Feature \<Rightarrow> shown list option" where
  "Vision_ErrorLogin f =
    do {
      out \<leftarrow> show_side (F_L f) [Text ''Judge Error'', Text ''left''];
      show_side (F_R f) (out @ [Text ''right''])
    }"

section \<open>Values of a line\<close>

lemma rnd32_abs_le: "\<bar>x\<bar> \<le> of_int n \<Longrightarrow> \<bar>n\<bar> \<le> 16777216 \<Longrightarrow> \<bar>rnd32 x\<bar> \<le> of_int n"
  using b32.R_abs_le_fix [of "of_int n" x] rnd32_of_int [of n] by simp

lemma rtrunc_near: "\<bar>of_int (rtrunc x) - x\<bar> < 1" "- 1 < x \<Longrightarrow> 0 \<le> rtrunc x" "x < of_int hi + 1 \<Longrightarrow> 0 \<le> hi \<Longrightarrow> rtrunc x \<le> hi"
  by (auto simp: rtrunc_def abs_less_iff floor_less_iff floor_le_iff) linarith+

lemma rnd32_err17: "\<bar>x\<bar> < 256 \<Longrightarrow> \<bar>rnd32 x - x\<bar> \<le> 1 / 131072"
  using rnd_error [of x 8 "- 126" 24] unfolding rnd32_def by (simp add: pow2_def)

lemma small_f32: "\<bar>x\<bar> \<le> 100000 \<Longrightarrow> f32 x = Fin (rnd32 x)"
  by (intro f32_small) simp

text \<open>A row of a chord: within a pixel of the exact line and between its ends.\<close>

lemma chord_value:
  assumes "0 \<le> y" and "y \<le> 187" and "0 \<le> y + dy" and "y + dy \<le> 187" and "0 \<le> k" and "k \<le> dx" and "1 \<le> dx" and "dx \<le> 69"
  shows "\<exists>n. f2s16 (fadd (fmul (i2f k) (fdiv (i2f (- dy)) (i2f (- dx)))) (i2f y)) = Some n \<and> 0 \<le> n \<and> n \<le> 187 \<and>
    \<bar>of_int n - (of_int y + of_int (k * dy) / of_int dx)\<bar> \<le> (101 / 100 :: rat) \<and> (k = 0 \<longrightarrow> n = y)"
proof -
  define e :: rat where "e = of_int dy / of_int dx"
  define s where "s = rnd32 e"
  define m where "m = rnd32 (of_int k * s)"
  define v where "v = rnd32 (m + of_int y)"
  have d: "(1 :: rat) \<le> of_int dx" "\<bar>of_int dy\<bar> \<le> (187 :: rat)" "(0 :: rat) \<le> of_int k" "of_int k \<le> (69 :: rat)"
    "of_int k \<le> (of_int dx :: rat)"
    using assms of_int_le_iff [where 'a = rat] by (force simp flip: of_int_abs)+
  have "\<bar>e\<bar> \<le> 187" using frac_le [of 187 "\<bar>of_int dy\<bar>" 1 "of_int dx :: rat"] d by (simp add: e_def)
  then have s: "\<bar>s - e\<bar> \<le> 1 / 131072" using rnd32_err17 [of e] by (simp add: s_def)
  have "\<bar>of_int k * (s - e)\<bar> \<le> 69 * (1 / 131072)" unfolding abs_mult using s d by (intro mult_mono) auto
  then have ke: "\<bar>of_int k * s - of_int k * e\<bar> \<le> 69 / 131072" by (simp add: right_diff_distrib)
  have "(0 :: rat) \<le> of_int y + of_int k * e \<and> of_int y + of_int k * e \<le> 187"
  proof -
    define u :: rat where "u = of_int k / of_int dx"
    have u: "0 \<le> u" "u \<le> 1" using d by (simp_all add: u_def)
    have "of_int k * e = u * of_int dy" by (simp add: u_def e_def)
    then have "of_int y + of_int k * e = (1 - u) * of_int y + u * of_int (y + dy)" by (simp add: algebra_simps)
    moreover have ends: "(0 :: rat) \<le> of_int y" "of_int y \<le> (187 :: rat)" "(0 :: rat) \<le> of_int (y + dy)" "of_int (y + dy) \<le> (187 :: rat)"
      using assms(1-4) by (metis of_int_0_le_iff of_int_le_iff of_int_numeral)+
    have "0 \<le> 1 - u" using u by simp
    note p = mult_nonneg_nonneg [OF this ends(1)] mult_left_mono [OF ends(2) this]
      mult_nonneg_nonneg [OF u(1) ends(3)] mult_left_mono [OF ends(4) u(1)]
    moreover have "(1 - u) * 187 + u * 187 = 187" by (simp add: algebra_simps)
    ultimately show ?thesis using p by (intro conjI) linarith+
  qed
  then have ex: "0 \<le> of_int y + of_int k * e" "of_int y + of_int k * e \<le> 187" by simp_all
  have y: "(0 :: rat) \<le> of_int y" "of_int y \<le> (187 :: rat)" using assms of_int_le_iff [of y 187, where 'a = rat] by auto
  have ks: "\<bar>of_int k * s\<bar> < 256" using ke ex y by linarith
  then have m: "\<bar>m - of_int k * s\<bar> \<le> 1 / 131072" using rnd32_err17 by (simp add: m_def)
  have my: "\<bar>m + of_int y\<bar> < 256" using m ke ex by linarith
  then have v: "\<bar>v - (m + of_int y)\<bar> \<le> 1 / 131072" using rnd32_err17 by (simp add: v_def)
  have err: "\<bar>v - (of_int y + of_int k * e)\<bar> \<le> 1 / 1000" using v m ke by linarith
  have "i2f (- dy) = Fin (of_int (- dy))" "i2f (- dx) = Fin (of_int (- dx))" "i2f k = Fin (of_int k)" "i2f y = Fin (of_int y)"
    using assms by (intro i2f_exact; simp add: abs_le_iff)+
  moreover have "f32 e = Fin s" "f32 (of_int k * s) = Fin m" "f32 (m + of_int y) = Fin v"
    using \<open>\<bar>e\<bar> \<le> 187\<close> ks my by (simp_all add: small_f32 s_def m_def v_def)
  ultimately have f: "fadd (fmul (i2f k) (fdiv (i2f (- dy)) (i2f (- dx)))) (i2f y) = Fin v"
    using d by (simp add: fdiv_def fmul_def fadd_def e_def)
  have "- 1 < v" "v < 188" using err ex by linarith+
  then have r: "0 \<le> rtrunc v" "rtrunc v \<le> 187" using rtrunc_near(2) [of v] rtrunc_near(3) [of v 187] by simp_all
  have "k = 0 \<Longrightarrow> rtrunc v = y" using assms rnd32_of_int [of y] by (simp add: v_def m_def)
  moreover have "\<bar>of_int (rtrunc v) - (of_int y + of_int k * e)\<bar> \<le> 101 / 100" using err rtrunc_near(1) [of v] by linarith
  ultimately show ?thesis
    using f r by (auto simp: Let_def e_def)
qed

text \<open>The chord of a border between two rows.\<close>

definition near_chord :: "int list \<Rightarrow> int \<Rightarrow> int \<Rightarrow> int \<Rightarrow> int \<Rightarrow> bool" where
  "near_chord b p1 p2 i n \<longleftrightarrow>
    \<bar>of_int n - (of_int (b ! nat p1) + of_int ((i - p1) * (b ! nat p2 - b ! nat p1)) / of_int (p2 - p1))\<bar> \<le> (101 / 100 :: rat)"

lemma chord_row_value:
  assumes "border_ok b" and "0 \<le> p1" and "p1 < p2" and "p2 < 70" and "p1 \<le> i" and "i \<le> p2"
  shows "\<exists>n. f2s16 (fadd (fmul (i2f (i - p1)) (Point_CalSlope \<lparr>pt_x = p1, pt_y = b ! nat p1\<rparr> \<lparr>pt_x = p2, pt_y = b ! nat p2\<rparr>))
      (i2f (b ! nat p1))) = Some n \<and> 0 \<le> n \<and> n \<le> 187 \<and> near_chord b p1 p2 i n \<and> (i = p1 \<longrightarrow> n = b ! nat p1)"
proof -
  have v: "0 \<le> b ! nat p1" "b ! nat p1 \<le> 187" "0 \<le> b ! nat p2" "b ! nat p2 \<le> 187"
    using border_ok_nth [OF assms(1), of p1] border_ok_nth [OF assms(1), of p2] assms by auto
  show ?thesis
    using chord_value [of "b ! nat p1" "b ! nat p2 - b ! nat p1" "i - p1" "p2 - p1"] v assms
    by (simp add: Point_CalSlope_def near_chord_def)
qed

lemma AdditionalLine_chord:
  assumes "border_ok b" and "0 \<le> p1" and "p1 < p2" and "p2 < 70"
  shows "\<exists>b'. Vision_set_AdditionalLine p1 p2 b = Some b' \<and> border_ok b' \<and> b' ! nat p1 = b ! nat p1 \<and>
    (\<forall>i. p1 \<le> i \<longrightarrow> i \<le> p2 \<longrightarrow> near_chord b p1 p2 i (b' ! nat i)) \<and>
    (\<forall>i. 0 \<le> i \<longrightarrow> i < 70 \<longrightarrow> (i < p1 \<or> p2 < i) \<longrightarrow> b' ! nat i = b ! nat i)"
proof -
  define sl where "sl = Point_CalSlope \<lparr>pt_x = p1, pt_y = b ! nat p1\<rparr> \<lparr>pt_x = p2, pt_y = b ! nat p2\<rparr>"
  define P where "P = (\<lambda>k b'. border_ok b' \<and> b' ! nat p1 = b ! nat p1 \<and>
    (\<forall>i. p1 \<le> i \<longrightarrow> i < k \<longrightarrow> near_chord b p1 p2 i (b' ! nat i)) \<and>
    (\<forall>i. 0 \<le> i \<longrightarrow> i < 70 \<longrightarrow> (i < p1 \<or> k \<le> i) \<longrightarrow> b' ! nat i = b ! nat i))"
  have "\<exists>b'. for_each (chord_row p1 sl) [p1..p2 + 1 - 1] b = Some b' \<and> P (p2 + 1) b'"
  proof (rule for_up_inv)
    fix i b' assume i: "p1 \<le> i" "i < p2 + 1" and P: "P i b'"
    obtain n where n: "f2s16 (fadd (fmul (i2f (i - p1)) sl) (i2f (b ! nat p1))) = Some n" "0 \<le> n" "n \<le> 187"
      "near_chord b p1 p2 i n" "i = p1 \<longrightarrow> n = b ! nat p1"
      using chord_row_value [OF assms i(1)] i(2) unfolding sl_def by auto
    have "length b' = 70" using P by (simp add: P_def border_ok_def)
    then have "chord_row p1 sl i b' = Some (b'[nat i := n])"
      using P n(1) i assms by (simp add: chord_row_def P_def)
    moreover have "P (i + 1) (b'[nat i := n])"
      using P n i assms \<open>length b' = 70\<close> by (auto simp: P_def nth_list_update border_ok_upd eq_nat_nat_iff)
    ultimately show "\<exists>s'. chord_row p1 sl i b' = Some s' \<and> P (i + 1) s'" by blast
  qed (use assms in \<open>auto simp: P_def\<close>)
  then show ?thesis
    using assms by (auto simp: Vision_set_AdditionalLine_def at_row_ok sl_def P_def)
qed

text \<open>
  The fill line is the chord: between two different rows of a border in range,
  \<open>Vision_set_AdditionalLine\<close> replaces every row by a value within 1.01 columns of the straight line through the
  two end values and inside the image, and leaves the other rows and the nearer end unchanged.
\<close>

theorem AdditionalLine_on_chord:
  assumes "border_ok b" and "0 \<le> p1" and "p1 < p2" and "p2 < 70"
  shows "\<exists>b'. Vision_set_AdditionalLine p1 p2 b = Some b' \<and> border_ok b' \<and> b' ! nat p1 = b ! nat p1 \<and>
    (\<forall>i. p1 \<le> i \<longrightarrow> i \<le> p2 \<longrightarrow> near_chord b p1 p2 i (b' ! nat i)) \<and>
    (\<forall>i. 0 \<le> i \<longrightarrow> i < 70 \<longrightarrow> (i < p1 \<or> p2 < i) \<longrightarrow> b' ! nat i = b ! nat i)"
  using AdditionalLine_chord [OF assms] .

theorem AdditionalLine_on_chord_witness:
  "\<exists>b'. Vision_set_AdditionalLine 3 60 (replicate 35 0 @ replicate 35 187) = Some b' \<and> border_ok b' \<and>
    b' ! nat 3 = (replicate 35 0 @ replicate 35 187) ! nat 3 \<and>
    (\<forall>i. 3 \<le> i \<longrightarrow> i \<le> 60 \<longrightarrow> near_chord (replicate 35 0 @ replicate 35 187) 3 60 i (b' ! nat i)) \<and>
    (\<forall>i. 0 \<le> i \<longrightarrow> i < 70 \<longrightarrow> (i < 3 \<or> 60 < i) \<longrightarrow> b' ! nat i = (replicate 35 0 @ replicate 35 187) ! nat i)"
  by (rule AdditionalLine_on_chord) (simp_all add: border_ok_def)

lemma SetLose_ok:
  assumes "border_ok b" and "0 \<le> lo" and "lo \<le> hi" and "hi \<le> 70"
  shows "\<exists>b'. Vision_SetLose left b lo hi = Some b' \<and> border_ok b' \<and>
    (\<forall>i. 0 \<le> i \<longrightarrow> i < 70 \<longrightarrow> b' ! nat i = (if lo \<le> i \<and> i < hi then lose_value left else b ! nat i))"
proof -
  have v: "0 \<le> lose_value left" "lose_value left \<le> 187" by (simp_all add: run_simps)
  define P where "P = (\<lambda>k b'. border_ok b' \<and>
    (\<forall>i. 0 \<le> i \<longrightarrow> i < 70 \<longrightarrow> b' ! nat i = (if lo \<le> i \<and> i < k then lose_value left else b ! nat i)))"
  have "\<exists>b'. for_each (\<lambda>i b. wr b i (lose_value left)) [lo..hi - 1] b = Some b' \<and> P hi b'"
  proof (rule for_up_inv)
    fix i b' assume i: "lo \<le> i" "i < hi" and P: "P i b'"
    then have "length b' = 70" by (simp add: P_def border_ok_def)
    with P i assms v show "\<exists>s'. wr b' i (lose_value left) = Some s' \<and> P (i + 1) s'"
      by (auto simp: P_def nth_list_update border_ok_upd eq_nat_nat_iff)
  qed (use assms in \<open>auto simp: P_def\<close>)
  then show ?thesis using assms CmpMinMax(1) [of lo hi] by (auto simp: Vision_SetLose_def P_def)
qed

section \<open>Extended lines\<close>

text \<open>Any value \<open>y + s * k\<close> of a line with a finite slope up to 188 fits \<open>int16\<close>.\<close>

lemma line_value:
  assumes "\<bar>y\<bar> \<le> 187" and "\<bar>s\<bar> \<le> 188" and "\<bar>k\<bar> \<le> 69"
  shows "\<exists>n. f2s16 (fadd (i2f y) (fmul (Fin s) (i2f k))) = Some n \<and> \<bar>n\<bar> \<le> 13159"
    and "\<exists>n. f2s16 (fsub (i2f y) (fmul (Fin s) (i2f k))) = Some n \<and> \<bar>n\<bar> \<le> 13159"
    and "\<exists>n. f2s16 (fadd (i2f y) (fmul (i2f k) (Fin s))) = Some n \<and> \<bar>n\<bar> \<le> 13159"
proof -
  have "\<bar>of_int y\<bar> \<le> (of_int 187 :: rat)" "\<bar>of_int k\<bar> \<le> (of_int 69 :: rat)"
    using assms unfolding of_int_abs [symmetric] by (simp_all only: of_int_le_iff)
  then have yk: "\<bar>of_int y\<bar> \<le> (187 :: rat)" "\<bar>of_int k\<bar> \<le> (69 :: rat)" by simp_all
  have "\<bar>s * of_int k\<bar> \<le> 188 * 69" unfolding abs_mult using assms(2) yk(2) by (intro mult_mono) auto
  then have m: "\<bar>rnd32 (s * of_int k)\<bar> \<le> 12972" "\<bar>s * of_int k\<bar> \<le> 100000" using rnd32_abs_le [of "s * of_int k" 12972] by simp_all
  define v w where "v = rnd32 (of_int y + rnd32 (s * of_int k))" and "w = rnd32 (of_int y - rnd32 (s * of_int k))"
  have "\<bar>of_int y + rnd32 (s * of_int k)\<bar> \<le> of_int 13159" "\<bar>of_int y - rnd32 (s * of_int k)\<bar> \<le> of_int 13159"
    using m(1) yk(1) by (simp_all add: abs_le_iff)
  then have vw: "\<bar>v\<bar> \<le> of_int 13159" "\<bar>w\<bar> \<le> of_int 13159" unfolding v_def w_def by (intro rnd32_abs_le; simp)+
  have i: "i2f y = Fin (of_int y)" "i2f k = Fin (of_int k)" using assms by (intro i2f_exact; simp)+
  have "fadd (i2f y) (fmul (Fin s) (i2f k)) = Fin v" "fadd (i2f y) (fmul (i2f k) (Fin s)) = Fin v"
    "fsub (i2f y) (fmul (Fin s) (i2f k)) = Fin w"
    using i m yk by (simp_all add: fmul_def fadd_def fsub_def fl_sub_def small_f32 v_def w_def mult.commute abs_le_iff)
  moreover have "- 13159 \<le> rtrunc x \<and> rtrunc x \<le> 13159" if "\<bar>x\<bar> \<le> of_int 13159" for x
    using that by (intro rtrunc_bounds) (simp_all add: abs_le_iff)
  ultimately show "\<exists>n. f2s16 (fadd (i2f y) (fmul (Fin s) (i2f k))) = Some n \<and> \<bar>n\<bar> \<le> 13159"
    "\<exists>n. f2s16 (fsub (i2f y) (fmul (Fin s) (i2f k))) = Some n \<and> \<bar>n\<bar> \<le> 13159"
    "\<exists>n. f2s16 (fadd (i2f y) (fmul (i2f k) (Fin s))) = Some n \<and> \<bar>n\<bar> \<le> 13159"
    using vw by (fastforce simp: Let_def abs_le_iff)+
qed

lemma slope_value:
  assumes "\<bar>d\<bar> \<le> 187" and "1 \<le> \<bar>n\<bar>" and "\<bar>n\<bar> \<le> 69"
  obtains s where "fdiv (i2f d) (i2f n) = Fin s" and "\<bar>s\<bar> \<le> 188"
proof -
  have "(of_int 1 :: rat) \<le> of_int \<bar>n\<bar>" "of_int \<bar>d\<bar> \<le> (of_int 187 :: rat)" using assms by (simp_all only: of_int_le_iff)
  then have "\<bar>of_int d / of_int n\<bar> \<le> (187 :: rat)" "(of_int n :: rat) \<noteq> 0"
    using frac_le [of 187 "\<bar>of_int d\<bar>" 1 "\<bar>of_int n\<bar> :: rat"] by (auto simp: abs_divide)
  then have "fdiv (i2f d) (i2f n) = Fin (rnd32 (of_int d / of_int n))" "\<bar>rnd32 (of_int d / of_int n)\<bar> \<le> of_int 187"
    using assms rnd32_abs_le [of "of_int d / of_int n" 187] by (simp_all add: i2f_exact fdiv_def small_f32)
  then show ?thesis using that by force
qed

lemma clip_range: "0 \<le> hi \<Longrightarrow> 0 \<le> clip hi v \<and> clip hi v \<le> hi"
  by (simp add: clip_def Let_def)

definition clips :: "(int \<Rightarrow> int) \<Rightarrow> bool" where
  "clips limit \<longleftrightarrow> (\<forall>v. 0 \<le> limit v \<and> limit v \<le> 187)"

lemma extend_far_ok:
  assumes "border_ok b" and "0 \<le> x" and "x < 70" and "\<bar>s\<bar> \<le> 188" and "clips limit"
  shows "\<exists>b'. for_each (extend_far limit x (Fin s)) (downto (x - 1) 1) b = Some b' \<and> border_ok b' \<and>
    (\<forall>i. x \<le> i \<longrightarrow> b' ! nat i = b ! nat i)"
proof (rule for_each_inv)
  fix i b' assume i: "i \<in> set (downto (x - 1) 1)" and b': "border_ok b' \<and> (\<forall>i. x \<le> i \<longrightarrow> b' ! nat i = b ! nat i)"
  note y = border_ok_nth [OF conjunct1 [OF b'] assms(2,3)]
  obtain n where n: "f2s16 (fsub (i2f (b' ! nat x)) (fmul (Fin s) (i2f (x - i)))) = Some n"
    using line_value(2) [of "b' ! nat x" s "x - i"] y assms i by auto
  have "length b' = 70" using b' by (simp add: border_ok_def)
  then show "\<exists>s'. extend_far limit x (Fin s) i b' = Some s' \<and> border_ok s' \<and> (\<forall>i. x \<le> i \<longrightarrow> s' ! nat i = b ! nat i)"
    using y n i b' assms by (auto simp: extend_far_def clips_def border_ok_upd)
qed (use assms in simp)

lemma extend_near_ok:
  assumes "border_ok b" and "0 \<le> x" and "x < 70" and "\<bar>s\<bar> \<le> 188" and "clips limit"
  shows "\<exists>b'. for_each (extend_near limit x (Fin s)) [0..imgRow - 1 - x - 1] b = Some b' \<and> border_ok b' \<and>
    (\<forall>i. 0 \<le> i \<longrightarrow> i < x \<longrightarrow> b' ! nat i = b ! nat i)"
proof (rule for_each_inv)
  fix i b' assume i: "i \<in> set [0..imgRow - 1 - x - 1]" and b': "border_ok b' \<and> (\<forall>i. 0 \<le> i \<longrightarrow> i < x \<longrightarrow> b' ! nat i = b ! nat i)"
  note y = border_ok_nth [OF conjunct1 [OF b'] assms(2,3)]
  obtain n where n: "f2s16 (fadd (i2f (b' ! nat x)) (fmul (Fin s) (i2f i))) = Some n"
    using line_value(1) [of "b' ! nat x" s i] y assms i by (auto simp: imgRow_def)
  have "length b' = 70" using b' by (simp add: border_ok_def)
  then show "\<exists>s'. extend_near limit x (Fin s) i b' = Some s' \<and> border_ok s' \<and> (\<forall>i. 0 \<le> i \<longrightarrow> i < x \<longrightarrow> s' ! nat i = b ! nat i)"
    using y n i b' assms by (auto simp: extend_near_def clips_def border_ok_upd imgRow_def)
qed (use assms in simp)

lemma flit5: "flit 5 = i2f 5"
  by code_simp

text \<open>
  C33: Extending a border from one of its rows is safe and one-sided: on a border of 70 rows with all values inside the image, from any row between 1 and 68, in
  both directions, with the local slope or a given slope of at most 188, every new value is clipped into the
  image and the rows on the other side keep their values.
\<close>

theorem ExtendLine_safe:
  assumes "border_ok b" and "1 \<le> x" and "x \<le> 68" and "\<bar>s\<bar> \<le> 188"
  shows "\<forall>far. \<exists>b1 b2. Vision_ExtendLine b x (c_bool far) = Some b1 \<and> Vision_ExtendLineK b x (c_bool far) (Fin s) = Some b2 \<and>
    border_ok b1 \<and> border_ok b2 \<and>
    (\<forall>i. (if far then x \<le> i else 0 \<le> i \<and> i < x) \<longrightarrow> b1 ! nat i = b ! nat i \<and> b2 ! nat i = b ! nat i)"
proof
  fix far
  have v: "0 \<le> j \<Longrightarrow> j < 70 \<Longrightarrow> rd b j = Some (b ! nat j) \<and> \<bar>b ! nat j - b ! nat k\<bar> \<le> 187 \<and> \<bar>b ! nat k - b ! nat j\<bar> \<le> 187"
    if "0 \<le> k" "k < 70" for j k
    using border_ok_nth [OF assms(1), of j] border_ok_nth [OF assms(1), of k] that by auto
  have x: "0 \<le> x" "x < 70" and c: "clips (clip (imgCol - 1))" "clips (\<lambda>v. clip (imgCol - 1) (clip 159 v))"
    using assms by (simp_all add: clips_def clip_range imgCol_def)
  show "\<exists>b1 b2. Vision_ExtendLine b x (c_bool far) = Some b1 \<and> Vision_ExtendLineK b x (c_bool far) (Fin s) = Some b2 \<and>
    border_ok b1 \<and> border_ok b2 \<and>
    (\<forall>i. (if far then x \<le> i else 0 \<le> i \<and> i < x) \<longrightarrow> b1 ! nat i = b ! nat i \<and> b2 ! nat i = b ! nat i)"
  proof (cases far)
    case True
    define d n where "d = b ! nat (if x \<le> 64 then x + 5 else 69) - b ! nat x" and "n = (if x \<le> 64 then 5 else 69 - x)"
    have "\<bar>d\<bar> \<le> 187" "1 \<le> \<bar>n\<bar>" "\<bar>n\<bar> \<le> 69"
      using v [of x "if x \<le> 64 then x + 5 else 69"] assms by (simp_all add: d_def n_def)
    from slope_value [OF this] obtain k where k: "fdiv (i2f d) (i2f n) = Fin k" "\<bar>k\<bar> \<le> 188" .
    then show ?thesis
      using extend_far_ok [OF assms(1) x k(2) c(1)] extend_far_ok [OF assms(1) x assms(4) c(2)] v [of x] x True
      by (auto simp: Vision_ExtendLine_def Vision_ExtendLineK_def c_bool_def imgRow_def d_def n_def flit5 Let_def split: if_splits)
  next
    case False
    define d n where "d = b ! nat x - b ! nat (if x \<ge> 5 then x - 5 else 0)" and "n = (if x \<ge> 5 then 5 else x)"
    have "\<bar>d\<bar> \<le> 187" "1 \<le> \<bar>n\<bar>" "\<bar>n\<bar> \<le> 69"
      using v [of x "if x \<ge> 5 then x - 5 else 0"] assms by (simp_all add: d_def n_def)
    from slope_value [OF this] obtain k where k: "fdiv (i2f d) (i2f n) = Fin k" "\<bar>k\<bar> \<le> 188" .
    then show ?thesis
      using extend_near_ok [OF assms(1) x k(2) c(1)] extend_near_ok [OF assms(1) x assms(4) c(2)] v [of x] x False
      by (auto simp: Vision_ExtendLine_def Vision_ExtendLineK_def c_bool_def d_def n_def flit5 Let_def split: if_splits)
  qed
qed

theorem ExtendLine_safe_witness:
  "\<forall>far. \<exists>b1 b2. Vision_ExtendLine (replicate 70 90) 40 (c_bool far) = Some b1 \<and>
    Vision_ExtendLineK (replicate 70 90) 40 (c_bool far) (Fin 2) = Some b2 \<and> border_ok b1 \<and> border_ok b2 \<and>
    (\<forall>i. (if far then 40 \<le> i else 0 \<le> i \<and> i < 40) \<longrightarrow>
      b1 ! nat i = (replicate 70 90 :: int list) ! nat i \<and> b2 ! nat i = (replicate 70 90 :: int list) ! nat i)"
  by (rule ExtendLine_safe) (simp_all add: border_ok_def)

section \<open>A line through one row\<close>

text \<open>\<open>Vision_SetLineWithPointK\<close> does not clip: its values fit \<open>int16\<close>, but not always the image.\<close>

definition wide_ok :: "int list \<Rightarrow> bool" where
  "wide_ok b \<longleftrightarrow> length b = 70 \<and> (\<forall>v \<in> set b. \<bar>v\<bar> \<le> 13159)"

lemma border_wide: "border_ok b \<Longrightarrow> wide_ok b"
  by (fastforce simp: border_ok_def wide_ok_def)

lemma SetLineWithPointK_ok:
  assumes "border_ok b" and "0 \<le> seed" and "seed < 70" and "\<bar>s\<bar> \<le> 188"
  shows "\<exists>b'. Vision_SetLineWithPointK b seed (Fin s) 0 69 = Some b' \<and> wide_ok b' \<and> b' ! nat seed = b ! nat seed"
proof -
  have y: "0 \<le> b ! nat seed" "b ! nat seed \<le> 187" using border_ok_nth [OF assms(1-3)] by auto
  have here: "f2s16 (fadd (i2f (b ! nat seed)) (fmul (i2f 0) (Fin s))) = Some (b ! nat seed)"
    using y rnd32_of_int [of "b ! nat seed"] i2f_exact [of 0] i2f_exact [of "b ! nat seed"]
    by (simp add: fmul_def fadd_def small_f32 Let_def)
  have "\<exists>b'. for_each (point_row seed (Fin s)) [0..69] b = Some b' \<and> wide_ok b' \<and> b' ! nat seed = b ! nat seed"
  proof (rule for_each_inv)
    fix i b' assume i: "i \<in> set [0..69]" and b': "wide_ok b' \<and> b' ! nat seed = b ! nat seed"
    have "\<bar>i - seed\<bar> \<le> 69" "\<bar>b ! nat seed\<bar> \<le> 187" using i y assms by (auto simp: abs_le_iff)
    from line_value(3) [OF this(2) assms(4) this(1)] obtain n
      where n: "f2s16 (fadd (i2f (b ! nat seed)) (fmul (i2f (i - seed)) (Fin s))) = Some n" "\<bar>n\<bar> \<le> 13159" by blast
    have len: "length b' = 70" using b' by (simp add: wide_ok_def)
    have "point_row seed (Fin s) i b' = Some (b'[nat i := n])"
      using len n(1) b' i assms by (simp add: point_row_def)
    moreover have "i = seed \<Longrightarrow> n = b ! nat seed" using n(1) here by simp
    then have "b'[nat i := n] ! nat seed = b ! nat seed"
      using b' i assms len by (auto simp: nth_list_update eq_nat_nat_iff)
    moreover have "wide_ok (b'[nat i := n])"
      using b' n(2) by (auto simp: wide_ok_def dest!: set_update_subset_insert [THEN subsetD])
    ultimately show "\<exists>s'. point_row seed (Fin s) i b' = Some s' \<and> wide_ok s' \<and> s' ! nat seed = b ! nat seed" by blast
  qed (use assms border_wide in simp)
  then show ?thesis by (simp add: Vision_SetLineWithPointK_def Tool_CmpMax_def Tool_CmpMin_def)
qed

section \<open>The zebra test\<close>

definition edge_at :: "image \<Rightarrow> int \<Rightarrow> int \<Rightarrow> bool" where
  "edge_at img T i \<longleftrightarrow> img ! 60 ! nat i > T + 8 \<and> img ! 60 ! nat (i + 1) < T - 8 \<or>
     img ! 60 ! nat i < T - 8 \<and> img ! 60 ! nat (i + 1) > T + 8"

lemma zebra_counts:
  assumes "image_ok img" and "\<forall>i \<in> set js. 0 \<le> i \<and> i < 187"
  shows "for_each (zebra_count img T) js n = Some (n + int (length (filter (edge_at img T) js)))"
  using assms(2)
proof (induction js arbitrary: n)
  case (Cons i js)
  then have "px img 60 i = Some (img ! 60 ! nat i)" "px img 60 (i + 1) = Some (img ! 60 ! nat (i + 1))"
    using px_ok [OF assms(1), of 60] by simp_all
  then have "zebra_count img T i n = Some (if edge_at img T i then n + 1 else n)"
    by (auto simp: zebra_count_def zebra_edge_def edge_at_def Zebra_Y_def Zebra_Range_def)
  with Cons show ?case by simp
qed simp

lemma IsZebra_count:
  assumes "image_ok img"
  shows "Vision_IsZebra img T =
    Some (if length (filter (edge_at img T) [31..157]) + (if edge_at img T 94 then 1 else 0) \<ge> 10 then 1 else 0)"
proof -
  have "[31..157] = [31..94 - 1] @ [94..157]" "[31..94] = [31..94 - 1] @ [94..94]" by (rule upto_split1; simp)+
  then have "length (filter (edge_at img T) [94..157]) + length (filter (edge_at img T) [31..94]) =
      length (filter (edge_at img T) [31..157]) + (if edge_at img T 94 then 1 else 0)"
    by (simp del: upto_rec_numeral add: upto_single)
  then show ?thesis
    using zebra_counts [OF assms, of "[94..157]" T 0] zebra_counts [OF assms, of "downto 94 31" T]
    by (simp add: Vision_IsZebra_def imgCol_def Zebra_TH_def rev_filter [symmetric] del: upto_rec_numeral)
qed

text \<open>
  C32: The zebra test counts strong edges: on row 60 it answers 1 exactly when at least ten neighbouring pixels of
  columns 31 to 158 lie on different sides of the threshold by more than 8, where an edge at the middle column
  94 counts twice, because both scans start there.
\<close>

theorem IsZebra_counts_edges:
  assumes "image_ok img"
  shows "Vision_IsZebra img T =
    Some (if length (filter (edge_at img T) [31..157]) + (if edge_at img T 94 then 1 else 0) \<ge> 10 then 1 else 0)"
  using IsZebra_count [OF assms] .

theorem IsZebra_counts_edges_witness:
  "Vision_IsZebra (replicate 70 (replicate 188 0)) 100 =
    Some (if length (filter (edge_at (replicate 70 (replicate 188 0)) 100) [31..157]) +
      (if edge_at (replicate 70 (replicate 188 0)) 100 94 then 1 else 0) \<ge> 10 then 1 else 0)"
  by (rule IsZebra_counts_edges) (simp add: image_ok_def)

end
