(* ===== verification/Road.thy ===== *)
theory Road
  imports Lines Car Classify
begin

text \<open>
  The road decision of \<open>code/src/my_vision.c\<close>: which road element the two segmented borders show
  (\<open>Vision_SymbolJudge\<close>), and what each element does to the borders and to the car (crossing, roundabout,
  corner, zebra crossing), up to the whole frame \<open>Vision_Handle\<close> of \<open>mdk/camera.c\<close>.  The globals and the
  function-local statics these functions share are one record \<open>vision\<close>.  What is printed or shown as text is
  collected in \<open>prints\<close>, waits and the buzzer in \<open>events\<close>.
\<close>

section \<open>State\<close>

datatype RoadSymbol_type = NormalRoads | LoseRoads | CrossRoads | CirculeRoads | CornerRoads | ZebraRoads

definition LEFT_CIRCULE :: int where [run_simps]: "LEFT_CIRCULE = 0"
definition RIGHT_CIRCULE :: int where [run_simps]: "RIGHT_CIRCULE = 1"
definition LEFT_CROSS :: int where [run_simps]: "LEFT_CROSS = 0"
definition RIGHT_CROSS :: int where [run_simps]: "RIGHT_CROSS = 1"

definition Cross_Begin :: int where [run_simps]: "Cross_Begin = 0"
definition Cross_State_1 :: int where [run_simps]: "Cross_State_1 = 1"

definition Circule_Begin :: int where [run_simps]: "Circule_Begin = 0"
definition Circule_State1 :: int where [run_simps]: "Circule_State1 = 1"
definition Circule_State2 :: int where [run_simps]: "Circule_State2 = 2"
definition Circule_State3 :: int where [run_simps]: "Circule_State3 = 3"
definition Circule_in :: int where [run_simps]: "Circule_in = 4"
definition Circule_Cor :: int where [run_simps]: "Circule_Cor = 5"
definition Circule_out :: int where [run_simps]: "Circule_out = 6"
definition Circule_end :: int where [run_simps]: "Circule_end = 7"

text \<open>
  \<open>Circule_Handle\<close>.  Its ten pointers are set together, to one side for the five \<open>circule_\<close> pointers and to
  the other for the \<open>anti_cir_\<close> pointers: \<open>circule_left\<close>.  \<open>init_angle\<close> and \<open>out_n\<close> are the statics of
  \<open>Vision_Cir_PI_Handle\<close> and \<open>Vision_CirculeHandle\<close>.
\<close>

record Circule_Handle =
  circule_left :: bool
  cir_tick :: int
  cir_state :: int
  Circule_LorR :: int
  init_angle :: flt
  out_n :: int

record vision =
  borders :: RoadLine_t
  feat :: Feature
  Current_Road :: RoadSymbol_type
  circ :: Circule_Handle
  cir_speed_flag :: int
  cross_state :: int
  L_or_R_Cross :: int
  zebra_tick :: int
  Start_Flag :: int
  run_time :: int
  the_car :: car
  class_table :: classes
  prints :: "shown list"
  events :: "io list"

text \<open>One side of the picture: its border and its features; \<open>True\<close> is left.\<close>

definition border_of :: "bool \<Rightarrow> vision \<Rightarrow> int list" where
  "border_of left v = (if left then leftBroder (borders v) else rightBroder (borders v))"

definition set_border :: "bool \<Rightarrow> int list \<Rightarrow> vision \<Rightarrow> vision" where
  "set_border left b v =
    v\<lparr>borders := (if left then (borders v)\<lparr>leftBroder := b\<rparr> else (borders v)\<lparr>rightBroder := b\<rparr>)\<rparr>"

definition side_of :: "bool \<Rightarrow> vision \<Rightarrow> side" where
  "side_of left v = (if left then F_L (feat v) else F_R (feat v))"

definition set_side :: "bool \<Rightarrow> side \<Rightarrow> vision \<Rightarrow> vision" where
  "set_side left t v = v\<lparr>feat := (if left then (feat v)\<lparr>F_L := t\<rparr> else (feat v)\<lparr>F_R := t\<rparr>)\<rparr>"

definition seg_of :: "bool \<Rightarrow> int \<Rightarrow> vision \<Rightarrow> segment_t option" where
  "seg_of left i v = rd (my_segment (side_of left v)) i"

definition fp_of :: "bool \<Rightarrow> int \<Rightarrow> vision \<Rightarrow> point_t option" where
  "fp_of left i v = rd (feature_p (side_of left v)) i"

definition say :: "shown list \<Rightarrow> vision \<Rightarrow> vision" where
  "say xs v = v\<lparr>prints := prints v @ xs\<rparr>"

text \<open>A change of one border by a tool that may fail.\<close>

definition change_border :: "bool \<Rightarrow> (int list \<Rightarrow> int list option) \<Rightarrow> vision \<Rightarrow> vision option" where
  "change_border left f v = do { b \<leftarrow> f (border_of left v); Some (set_border left b v) }"

section \<open>Which element?\<close>

text \<open>
  The tests of the source.  \<open>CornerState1\<close> and \<open>CornerState2\<close> test the left side twice.  \<open>CornerState2\<close> and
  the second half of \<open>CornerState3\<close> compare the arrays \<open>F.my_segment_R\<close> and \<open>F.my_segment_L\<close>, not a count, with
  a small number: \<open>array_is\<close>, false for the address of an object.
\<close>

definition array_is :: "segment_t list \<Rightarrow> int \<Rightarrow> bool" where
  "array_is a n = False"

definition CornerState1 :: "vision \<Rightarrow> bool option" where
  "CornerState1 v = do {
     l0 \<leftarrow> seg_of True 0 v;
     Some (IsArcCorner l0 \<and> IsArcCorner l0 \<and> segment_n (side_of True v) = 1 \<and> segment_n (side_of False v) = 1) }"

definition CornerState2 :: "vision \<Rightarrow> bool option" where
  "CornerState2 v = do {
     l0 \<leftarrow> seg_of True 0 v; l1 \<leftarrow> seg_of True 1 v; r1 \<leftarrow> seg_of False 1 v;
     Some (IsArcCorner l0 \<and> IsArcCorner l0 \<and> IsLose l1 \<and> IsLose r1 \<and> segment_n (side_of True v) = 2 \<and>
       array_is (my_segment (side_of False v)) 2) }"

definition CornerState3 :: "vision \<Rightarrow> bool option" where
  "CornerState3 v = do {
     l0 \<leftarrow> seg_of True 0 v; l1 \<leftarrow> seg_of True 1 v; r0 \<leftarrow> seg_of False 0 v; r1 \<leftarrow> seg_of False 1 v;
     Some (IsArcCorner l0 \<and> IsLose l1 \<and> IsLose r0 \<and> segment_n (side_of False v) = 1 \<or>
       IsArcCorner r0 \<and> IsLose r1 \<and> IsLose l0 \<and> array_is (my_segment (side_of True v)) 1) }"

definition CrossCon1 :: "vision \<Rightarrow> bool" where
  "CrossCon1 v \<longleftrightarrow> FP_n (side_of True v) = 2 \<and> FP_n (side_of False v) = 2"

definition CrossCon2 :: "vision \<Rightarrow> bool" where
  "CrossCon2 v \<longleftrightarrow> FP_n (side_of True v) = 1 \<and> FP_n (side_of False v) = 2 \<or>
     FP_n (side_of False v) = 1 \<and> FP_n (side_of True v) = 2"

definition CrossCon3 :: "vision \<Rightarrow> bool option" where
  "CrossCon3 v = do {
     l0 \<leftarrow> seg_of True 0 v; r0 \<leftarrow> seg_of False 0 v;
     Some (IsLose l0 \<and> segment_n (side_of True v) = 1 \<and> FP_n (side_of True v) = 0 \<and> FP_n (side_of False v) = 2 \<or>
       IsLose r0 \<and> segment_n (side_of False v) = 1 \<and> FP_n (side_of False v) = 0 \<and> FP_n (side_of True v) = 2) }"

text \<open>The second half asks for left feature points where the mirror image of the first would ask for right ones.\<close>

definition CrossCon4 :: "vision \<Rightarrow> bool option" where
  "CrossCon4 v = do {
     l0 \<leftarrow> seg_of True 0 v; l1 \<leftarrow> seg_of True 1 v; r0 \<leftarrow> seg_of False 0 v; r1 \<leftarrow> seg_of False 1 v;
     Some ((IsLose r0 \<and> \<not> IsNull r1) \<and> (segment_n (side_of True v) \<le> 2 \<and> IsArc l0 \<and> FP_n (side_of True v) \<noteq> 0) \<or>
       (IsLose l0 \<and> \<not> IsNull l1) \<and> (segment_n (side_of False v) \<le> 2 \<and> IsArc r0 \<and> FP_n (side_of True v) \<noteq> 0)) }"

definition one_straight_one_lost :: "vision \<Rightarrow> bool option" where
  "one_straight_one_lost v = do {
     l0 \<leftarrow> seg_of True 0 v; l1 \<leftarrow> seg_of True 1 v; r0 \<leftarrow> seg_of False 0 v; r1 \<leftarrow> seg_of False 1 v;
     Some (segment_n (side_of True v) = 1 \<and> IsStrai l0 \<and> IsLose r1 \<and> segment_n (side_of False v) = 2 \<or>
       segment_n (side_of False v) = 1 \<and> IsStrai r0 \<and> IsLose l1 \<and> segment_n (side_of True v) = 2) }"

definition classify_road :: "image \<Rightarrow> int \<Rightarrow> vision \<Rightarrow> RoadSymbol_type option" where
  "classify_road my_image T v =
    do {
      z \<leftarrow> Vision_IsZebra my_image T;
      c \<leftarrow> one_straight_one_lost v;
      k1 \<leftarrow> CornerState1 v; k2 \<leftarrow> CornerState2 v; k3 \<leftarrow> CornerState3 v;
      x3 \<leftarrow> CrossCon3 v; x4 \<leftarrow> CrossCon4 v;
      l0 \<leftarrow> seg_of True 0 v; r0 \<leftarrow> seg_of False 0 v;
      Some (if z \<noteq> 0 then ZebraRoads
        else if c then CirculeRoads
        else if k1 \<or> k2 \<or> k3 then CornerRoads
        else if CrossCon1 v \<or> CrossCon2 v \<or> x3 \<or> x4 then CrossRoads
        else if segment_n (side_of True v) = 1 \<and> segment_n (side_of False v) = 1 \<and> IsLose l0 \<and> IsLose r0 then LoseRoads
        else NormalRoads)
    }"

text \<open>
  The garbage in the uninitialised locals of the line tools: one value for each segment of each side, and
  two for the averages of each side.
\<close>

record garbage =
  mono_junk :: "bool \<Rightarrow> int \<Rightarrow> int"
  aver_junk :: "bool \<Rightarrow> int \<times> int"

definition segment_side :: "garbage \<Rightarrow> bool \<Rightarrow> vision \<Rightarrow> vision option" where
  "segment_side g left v =
    do {
      (b, t) \<leftarrow> Vision_GetSegment (mono_junk g left) left (border_of left v) (side_of left v);
      Some (set_side left t (set_border left b v))
    }"

definition feature_side :: "garbage \<Rightarrow> bool \<Rightarrow> vision \<Rightarrow> vision option" where
  "feature_side g left v =
    do {
      (b, t) \<leftarrow> Vision_BroderFindFP (fst (aver_junk g left)) (snd (aver_junk g left)) (border_of left v) (side_of left v);
      Some (set_side left t (set_border left b v))
    }"

definition Vision_SymbolJudge :: "garbage \<Rightarrow> image \<Rightarrow> int \<Rightarrow> vision \<Rightarrow> vision option" where
  "Vision_SymbolJudge g my_image T v =
    do {
      v \<leftarrow> segment_side g True v;
      v \<leftarrow> segment_side g False v;
      v \<leftarrow> feature_side g True v;
      v \<leftarrow> feature_side g False v;
      let v = say [Text ''left_p'', Num (FP_n (side_of True v)), Text ''right_p'', Num (FP_n (side_of False v))] v;
      if Current_Road v = NormalRoads then
        do { r \<leftarrow> classify_road my_image T v; Some (v\<lparr>Current_Road := r\<rparr>) }
      else Some v
    }"

section \<open>Crossing\<close>

text \<open>\<open>IsLose(!F.my_segment_L[0])\<close> expands to \<open>!F.my_segment_L[0].type == lose_segment\<close>: the type is the null type.\<close>

definition IsLose_not :: "segment_t \<Rightarrow> bool" where
  "IsLose_not s \<longleftrightarrow> seg_type s = NULL_segment"

definition cross_turn :: "vision \<Rightarrow> vision option" where
  "cross_turn v =
    do {
      let v = v\<lparr>the_car := Car_Change_Speed (i2f 0) (i2f 0) (i2f 0) (the_car v)\<rparr>;
      l0 \<leftarrow> rd (border_of True v) 0; r0 \<leftarrow> rd (border_of False v) 0;
      l30 \<leftarrow> rd (border_of True v) 30; r30 \<leftarrow> rd (border_of False v) 30;
      let k = Line_CalK (point 0 ((l0 + r0) sdiv 2)) (point 30 ((l30 + r30) sdiv 2));
      let v = say [Num ((l30 + r30) sdiv 2), Num ((l0 + r0) sdiv 2), Val k] v;
      Some (v\<lparr>L_or_R_Cross := if flt_less k (i2f 0) then RIGHT_CROSS else LEFT_CROSS\<rparr>)
    }"

text \<open>The state switch; \<open>Inl\<close> is the early \<open>return\<close>.\<close>

definition cross_switch :: "vision \<Rightarrow> (vision + vision) option" where
  "cross_switch v =
    do {
      l0 \<leftarrow> seg_of True 0 v; r0 \<leftarrow> seg_of False 0 v;
      if cross_state v = Cross_Begin then
        if FP_n (side_of True v) = 0 \<and> FP_n (side_of False v) = 0 then Some (Inl (v\<lparr>Current_Road := NormalRoads\<rparr>))
        else Some (Inr (if IsLose l0 \<and> IsLose r0 then v\<lparr>cross_state := Cross_State_1\<rparr> else v))
      else if cross_state v = Cross_State_1 then
        if \<not> IsLose_not l0 \<and> \<not> IsLose r0 then
          do {
            v \<leftarrow> (if Start_Flag v \<noteq> 0 then cross_turn v else Some v);
            Some (Inr (v\<lparr>cross_state := Cross_Begin, Current_Road := NormalRoads\<rparr>))
          }
        else Some (Inr v)
      else Some (Inr v)
    }"

definition cross_lines :: "vision \<Rightarrow> vision option" where
  "cross_lines v =
    do {
      c4 \<leftarrow> CrossCon4 v;
      l0 \<leftarrow> seg_of True 0 v; r0 \<leftarrow> seg_of False 0 v;
      pl \<leftarrow> fp_of True 0 v; pr \<leftarrow> fp_of False 0 v;
      if c4 then
        if IsArc l0 \<and> segment_n (side_of True v) = 1 then
          do {
            v \<leftarrow> change_border True (\<lambda>b. Vision_ExtendLine b (pt_x pl) 1) v;
            change_border False (\<lambda>b. Vision_ExtendLine b (pt_x pr) 0) v
          }
        else if IsArc r0 \<and> segment_n (side_of False v) = 1 then
          do {
            v \<leftarrow> change_border True (\<lambda>b. Vision_ExtendLine b (pt_x pl) 0) v;
            change_border False (\<lambda>b. Vision_ExtendLine b (pt_x pr) 1) v
          }
        else Some v
      else Some v
    }"

definition Vision_CrossHandle :: "vision \<Rightarrow> vision option" where
  "Vision_CrossHandle v = do { r \<leftarrow> cross_switch v; (case r of Inl v \<Rightarrow> Some v | Inr v \<Rightarrow> cross_lines v) }"

section \<open>Corner\<close>

definition put_rows :: "bool \<Rightarrow> segment_t \<Rightarrow> vision \<Rightarrow> vision option" where
  "put_rows left s v =
    change_border left (\<lambda>b. for_each (\<lambda>i b. wr b i LEFT_LOSE_VALUE) (downto (seg_begin s) (seg_end s + 1)) b) v"

definition Vision_CornerHandle :: "vision \<Rightarrow> vision option" where
  "Vision_CornerHandle v =
    do {
      k1 \<leftarrow> CornerState1 v; k2 \<leftarrow> CornerState2 v; k3 \<leftarrow> CornerState3 v;
      l0 \<leftarrow> seg_of True 0 v; l1 \<leftarrow> seg_of True 1 v; r0 \<leftarrow> seg_of False 0 v; r1 \<leftarrow> seg_of False 1 v;
      v \<leftarrow> (if k1 then Some v
            else if k2 then
              if seg_end l1 - seg_begin l1 > seg_end r1 - seg_begin r1 then put_rows False r1 v
              else if seg_end l1 - seg_begin l1 < seg_end r1 - seg_begin r1 then put_rows True l1 v
              else Some v
            else if k3 then
              if IsLose l0 then put_rows False r1 v
              else if IsLose r0 then put_rows True l1 v
              else Some v
            else Some v);
      Some (v\<lparr>Current_Road := NormalRoads\<rparr>)
    }"

end
