(* ===== verification/Circule.thy ===== *)
theory Circule
  imports Road
begin

text \<open>
  The roundabout (\<open>code/src/my_vision.c\<close>, lines 889 to 1265), the zebra crossing (1273), the dispatch on the
  road element (16) and the frame (\<open>mdk/camera.c\<close>, 16).  The handlers of the first scheme, lines 937 to 1083,
  are only called from \<open>Vision_Cir_Normal_Handle\<close>, which nothing calls; \<open>Vision_CirculeHandle\<close> uses
  \<open>Vision_Cir_PI_Handle\<close>.
\<close>

section \<open>The roundabout's side and the other side\<close>

definition cir :: "vision \<Rightarrow> bool" where "cir v = circule_left (circ v)"
definition anti :: "vision \<Rightarrow> bool" where "anti v = (\<not> circule_left (circ v))"

definition set_tick :: "int \<Rightarrow> vision \<Rightarrow> vision" where
  "set_tick n v = v\<lparr>circ := (circ v)\<lparr>cir_tick := u8 n\<rparr>\<rparr>"
definition set_state :: "int \<Rightarrow> vision \<Rightarrow> vision" where
  "set_state n v = v\<lparr>circ := (circ v)\<lparr>cir_state := u8 n\<rparr>\<rparr>"

definition is_left :: "vision \<Rightarrow> bool" where "is_left v \<longleftrightarrow> Circule_LorR (circ v) = LEFT_CIRCULE"

text \<open>\<open>tick++; if(tick == n) { state = next; print; tick = 0; }\<close>\<close>

definition tick_to :: "int \<Rightarrow> int \<Rightarrow> string \<Rightarrow> vision \<Rightarrow> vision" where
  "tick_to n next msg v =
    (let v = set_tick (cir_tick (circ v) + 1) v
     in if cir_tick (circ v) = n then set_tick 0 (say [Text msg] (set_state next v)) else v)"

text \<open>The slope of the other side, from row 0 to row 69.\<close>

definition anti_slope :: "vision \<Rightarrow> flt option" where
  "anti_slope v =
    do {
      p \<leftarrow> at_row (border_of (anti v) v) 0;
      q \<leftarrow> at_row (border_of (anti v) v) (imgRow - 1);
      Some (Point_CalSlope p q)
    }"

definition line_through :: "int \<Rightarrow> flt \<Rightarrow> vision \<Rightarrow> vision option" where
  "line_through seed slope v =
    change_border (cir v) (\<lambda>b. Vision_SetLineWithPointK b seed (fl_neg slope) 0 (imgRow - 1)) v"

definition Vision_CirculeState1_Handle :: "vision \<Rightarrow> vision option" where
  "Vision_CirculeState1_Handle v =
    do {
      s0 \<leftarrow> seg_of (cir v) 0 v;
      v \<leftarrow> (if FP_n (side_of (cir v) v) \<noteq> 0 \<and> \<not> IsLose s0 then
              do { slope \<leftarrow> anti_slope v; fp \<leftarrow> fp_of (cir v) 0 v; line_through (pt_x fp) slope v }
            else Some v);
      Some (if IsLose s0 then tick_to 5 Circule_State2 ''RS:Cir State2'' v else set_tick 0 v)
    }"

text \<open>The extreme row of a segment of the roundabout's border.\<close>

definition extreme_row :: "segment_t \<Rightarrow> vision \<Rightarrow> int option" where
  "extreme_row s v =
    (if is_left v then Line_FindMaxPoint (border_of (cir v) v) (seg_begin s) (seg_end s)
     else Line_FindMinPoint (border_of (cir v) v) (seg_begin s) (seg_end s))"

definition Vision_CirculeState2_Handle :: "vision \<Rightarrow> vision option" where
  "Vision_CirculeState2_Handle v =
    do {
      s0 \<leftarrow> seg_of (cir v) 0 v;
      s1 \<leftarrow> seg_of (cir v) 1 v;
      if IsLose s0 then
        do { slope \<leftarrow> anti_slope v; seed \<leftarrow> extreme_row s1 v; line_through seed slope v }
      else Some (tick_to 1 Circule_State3 ''RS:Cir State3'' v)
    }"

definition Vision_CirculeState3_Handle :: "vision \<Rightarrow> vision option" where
  "Vision_CirculeState3_Handle v =
    do {
      s0 \<leftarrow> seg_of (cir v) 0 v;
      if \<not> IsLose s0 then
        do {
          slope \<leftarrow> anti_slope v;
          if IsArc s0 then do { seed \<leftarrow> extreme_row s0 v; line_through seed slope v }
          else if IsCorner s0 then line_through (seg_begin s0) slope v
          else Some v
        }
      else Some (tick_to 2 Circule_in ''RS:Cir in'' v)
    }"

text \<open>Two end values on the other side, a straight line between them, and the roundabout's side lost.\<close>

definition straight_across :: "int \<Rightarrow> int \<Rightarrow> vision \<Rightarrow> vision option" where
  "straight_across y0 y69 v =
    do {
      v \<leftarrow> change_border (anti v) (\<lambda>b. do { b \<leftarrow> wr b 0 y0; wr b 69 y69 }) v;
      v \<leftarrow> change_border (anti v) (Vision_set_AdditionalLine 0 (imgRow - 1)) v;
      change_border (cir v) (\<lambda>b. Vision_SetLose (cir v) b 0 (imgRow - 1)) v
    }"

definition Vision_CirculeIn_Handle :: "vision \<Rightarrow> vision option" where
  "Vision_CirculeIn_Handle v =
    do {
      v \<leftarrow> straight_across (if is_left v then 15 else 187) (if is_left v then 187 else 20) v;
      a0 \<leftarrow> seg_of (anti v) 0 v;
      Some (if IsArcCorner a0 then tick_to 4 Circule_Cor ''RS:Cir State5'' v else v)
    }"

definition Vision_CirculeCor_Handle :: "vision \<Rightarrow> vision option" where
  "Vision_CirculeCor_Handle v =
    do {
      a0 \<leftarrow> seg_of (anti v) 0 v;
      Some (if IsArc a0 then tick_to 5 Circule_out ''RS:Cir Out'' v else set_tick 0 v)
    }"

text \<open>The \<open>while\<close> loop computes the same slope in every round (\<open>i\<close> stays 0): fuel.\<close>

definition leaning :: "bool \<Rightarrow> flt \<Rightarrow> bool" where
  "leaning right slope \<longleftrightarrow> (if right then flt_gt slope (i2f 0) else flt_less slope (i2f 0))"

fun slope_while :: "nat \<Rightarrow> bool \<Rightarrow> (unit \<Rightarrow> flt option) \<Rightarrow> flt \<Rightarrow> flt option" where
  "slope_while 0 right again slope = None"
| "slope_while (Suc fuel) right again slope =
     (if leaning right slope then do { s \<leftarrow> again (); slope_while fuel right again s } else Some slope)"

definition Vision_CirculeOut_Handle :: "nat \<Rightarrow> vision \<Rightarrow> vision option" where
  "Vision_CirculeOut_Handle fuel v =
    do {
      v \<leftarrow> straight_across (if is_left v then 7 else 180) (if is_left v then 180 else 10) v;
      fp \<leftarrow> fp_of (anti v) 0 v;
      let b = border_of (anti v) v;
      q \<leftarrow> at_row b (pt_x fp + 3);
      slope \<leftarrow> slope_while fuel (Circule_LorR (circ v) \<noteq> 0)
        (\<lambda>_. do { p \<leftarrow> at_row b (pt_x fp); Some (Point_CalSlope p q) }) (Point_CalSlope fp q);
      v \<leftarrow> change_border (anti v) (\<lambda>b. Vision_SetLineWithPointK b (pt_x fp) slope (pt_x fp) 0) v;
      a0 \<leftarrow> seg_of (anti v) 0 v;
      Some (if IsStrai a0 then tick_to 2 Circule_end ''RS:Cir end'' v else v)
    }"

definition Vision_CirculeEnd_Handle :: "vision \<Rightarrow> vision option" where
  "Vision_CirculeEnd_Handle v =
    do {
      s0 \<leftarrow> seg_of (cir v) 0 v;
      s1 \<leftarrow> seg_of (cir v) 1 v;
      v \<leftarrow> (if IsLose s0 \<and> \<not> IsLose s1 then
              do {
                fp \<leftarrow> fp_of (cir v) 0 v;
                slope \<leftarrow> Line_GetAverK (border_of (cir v) v) (pt_x fp) (seg_end s1);
                change_border (cir v) (\<lambda>b. Vision_SetLineWithPointK b (pt_x fp) slope 0 (imgRow - 1)) v
              }
            else Some v);
      if \<not> IsLose s0 \<and> segment_n (side_of (cir v) v) = 1 then
        do {
          let v = say [Text ''RS:out of cir''] (set_state Circule_Begin (v\<lparr>Current_Road := NormalRoads\<rparr>));
          let v = v\<lparr>the_car := Car_Change_Speed (i2f 0) (i2f 0) (i2f 0) (the_car v)\<rparr>;
          (es, c) \<leftarrow> Car_Stop (the_car v);
          Some (v\<lparr>the_car := c, events := events v @ Delay 200 # es\<rparr>)
        }
      else Some v
    }"

definition Vision_Cir_Normal_Handle :: "nat \<Rightarrow> vision \<Rightarrow> vision option" where
  "Vision_Cir_Normal_Handle fuel v =
    (let s = cir_state (circ v)
     in if s = Circule_State1 then Vision_CirculeState1_Handle v
        else if s = Circule_State2 then Vision_CirculeState2_Handle v
        else if s = Circule_State3 then Vision_CirculeState3_Handle v
        else if s = Circule_in then Vision_CirculeIn_Handle v
        else if s = Circule_Cor then Vision_CirculeCor_Handle v
        else if s = Circule_out then Vision_CirculeOut_Handle fuel v
        else if s = Circule_end then Vision_CirculeEnd_Handle v
        else Some v)"

section \<open>The scheme in use: by the yaw\<close>

definition Att_CurrentYaw :: "vision \<Rightarrow> flt" where
  "Att_CurrentYaw v = yaw (Att (att (the_car v)))"

definition set_angle :: "vision \<Rightarrow> vision" where
  "set_angle v = v\<lparr>circ := (circ v)\<lparr>init_angle := Att_CurrentYaw v\<rparr>\<rparr>"

definition give_right :: "vision \<Rightarrow> vision" where
  "give_right v = v\<lparr>the_car := (the_car v)\<lparr>Car_Speed_ConRight := Con_By_TraceLine\<rparr>\<rparr>"

definition turned :: "flt \<Rightarrow> flt \<Rightarrow> flt \<Rightarrow> bool" where
  "turned a b limit \<longleftrightarrow> flt_gt (fl_abs (fsub a b)) limit"

definition pi_state2 :: "vision \<Rightarrow> vision" where
  "pi_state2 v = set_tick 0 (set_state Circule_State3 (say [Text ''RS:Cir State3, yaw'', Val (Att_CurrentYaw v)] (set_angle v)))"

definition pi_state3 :: "vision \<Rightarrow> vision option" where
  "pi_state3 v =
    do {
      v \<leftarrow> straight_across (if is_left v then 0 else 187) (if is_left v then 187 else 10) v;
      Some (if turned (Att_CurrentYaw v) (init_angle (circ v)) (flit 65)
            then set_state Circule_Cor (say [Text ''RS:Cir init, init yaw'', Val (Att_CurrentYaw v)] (set_angle (give_right v))) else v)
    }"

definition pi_cor :: "vision \<Rightarrow> vision" where
  "pi_cor v =
    (let v = say [Text ''yaw'', Val (Att_CurrentYaw v)] v
     in if turned (Att_CurrentYaw v) (init_angle (circ v)) (i2f 170)
        then say [Text ''RS:Cir Out, init yaw'', Val (Att_CurrentYaw v)] (set_state Circule_out (set_angle v)) else v)"

definition pi_out :: "vision \<Rightarrow> vision option" where
  "pi_out v =
    do {
      v \<leftarrow> straight_across (if is_left v then 0 else 186) (if is_left v then 180 else 20) v;
      Some (if turned (init_angle (circ v)) (Att_CurrentYaw v) (flit 50)
            then (set_state Circule_Begin (say [Text ''RS:Out of Circule''] (give_right v)))\<lparr>Current_Road := NormalRoads\<rparr> else v)
    }"

definition Vision_Cir_PI_Handle :: "vision \<Rightarrow> vision option" where
  "Vision_Cir_PI_Handle v =
    (let s = cir_state (circ v);
         v = v\<lparr>cir_speed_flag := if s = Circule_State3 \<or> s = Circule_out then 1 else 0\<rparr>
     in if s = Circule_State1 then Vision_CirculeState1_Handle v
        else if s = Circule_State2 then Some (pi_state2 v)
        else if s = Circule_State3 then pi_state3 v
        else if s = Circule_Cor then Some (pi_cor v)
        else if s = Circule_out then pi_out v
        else Some v)"

text \<open>Entry: the side is the one opposite a single straight border; if neither is, the side of the last time.\<close>

definition cir_enter :: "vision \<Rightarrow> vision option" where
  "cir_enter v =
    do {
      let v = say [Text ''RS:Circule''] v;
      l0 \<leftarrow> seg_of True 0 v; r0 \<leftarrow> seg_of False 0 v;
      let lr = (if IsStrai l0 \<and> segment_n (side_of True v) = 1 then RIGHT_CIRCULE
                else if IsStrai r0 \<and> segment_n (side_of False v) = 1 then LEFT_CIRCULE
                else Circule_LorR (circ v));
      Some (v\<lparr>circ := (circ v)\<lparr>Circule_LorR := lr, circule_left := (lr = LEFT_CIRCULE), cir_tick := 0,
        cir_state := Circule_State1\<rparr>\<rparr>)
    }"

definition Vision_GetSegLenghth :: "segment_t \<Rightarrow> int" where
  "Vision_GetSegLenghth s = \<bar>seg_begin s - seg_end s + 1\<bar>"

definition cir_guard :: "vision \<Rightarrow> vision option" where
  "cir_guard v =
    (if cir_state (circ v) = Circule_State1 \<or> cir_state (circ v) = Circule_State2 then
       do {
         a0 \<leftarrow> seg_of (anti v) 0 v;
         n \<leftarrow> (if \<not> (IsStrai a0 \<and> Vision_GetSegLenghth a0 \<ge> 20 \<or> IsStrai a0) then chk32 (out_n (circ v) + 1) else Some 0);
         Some (if n = 3
               then say [Text ''RS:error detection'']
                 ((v\<lparr>Current_Road := NormalRoads\<rparr>)\<lparr>circ := (circ v)\<lparr>cir_state := Circule_Begin, out_n := 0\<rparr>\<rparr>)
               else v\<lparr>circ := (circ v)\<lparr>out_n := n\<rparr>\<rparr>)
       }
     else Some v)"

definition Vision_CirculeHandle :: "vision \<Rightarrow> vision option" where
  "Vision_CirculeHandle v =
    do {
      v \<leftarrow> (if cir_state (circ v) = 0 then cir_enter v else Some v);
      v \<leftarrow> cir_guard v;
      Vision_Cir_PI_Handle v
    }"

section \<open>Zebra crossing\<close>

text \<open>
  The finish does not return: \<open>Inl\<close> is the state in which the result screen is shown for ever, with one round
  of it drawn.  \<open>between\<close> is what the motion thread does to the car during the waits; \<open>now\<close> and \<open>now2\<close> are the
  ticks of the two calls.
\<close>

definition zebra_finish :: "(car \<Rightarrow> car) \<Rightarrow> int \<Rightarrow> vision \<Rightarrow> (vision \<times> drawn list) option" where
  "zebra_finish between now2 v =
    do {
      let c = Car_Change_Speed (i2f 0) (i2f 0) (i2f 0) (the_car v);
      (es, c) \<leftarrow> Car_DistanceMotion between (i2f 0) (i2f 50) (d2f (dlit (1 / 2))) (between c);
      let v = say [Text ''Task Finished''] (v\<lparr>the_car := c, events := events v @ Delay 10 # es\<rparr>);
      let v = v\<lparr>run_time := u32 (now2 - run_time v)\<rparr>;
      ds \<leftarrow> result_diaplay (Class_Number (class_table v)) (Class_Info (class_table v));
      d \<leftarrow> ips200_show_float 240 210 (fdiv (i2f (run_time v)) (flit 1000)) 4 3;
      Some (v, Cleared # ds @ [d])
    }"

definition Vision_ZebraHandle :: "(car \<Rightarrow> car) \<Rightarrow> int \<Rightarrow> int \<Rightarrow> vision \<Rightarrow> ((vision \<times> drawn list) + vision) option" where
  "Vision_ZebraHandle between now now2 v =
    (if Start_Flag v \<noteq> 0 \<and> u32 (now - zebra_tick v) > 5000 then map_option Inl (zebra_finish between now2 v)
     else
       let v = (if Start_Flag v = 0 then v\<lparr>events := events v @ [BUZZER_SPEAK], Start_Flag := 1, zebra_tick := s32 now\<rparr> else v)
       in Some (Inr (v\<lparr>Current_Road := NormalRoads\<rparr>)))"

section \<open>Dispatch and frame\<close>

definition Vision_RSHandle :: "(car \<Rightarrow> car) \<Rightarrow> int \<Rightarrow> int \<Rightarrow> vision \<Rightarrow> ((vision \<times> drawn list) + vision) option" where
  "Vision_RSHandle between now now2 v =
    (case Current_Road v of
      LoseRoads \<Rightarrow> Some (Inr (v\<lparr>Current_Road := NormalRoads\<rparr>))
    | NormalRoads \<Rightarrow> Some (Inr (say [Text ''Nor''] v))
    | CrossRoads \<Rightarrow> do { v \<leftarrow> Vision_CrossHandle v; Some (Inr (say [Text ''Cro''] v)) }
    | CirculeRoads \<Rightarrow> do { v \<leftarrow> Vision_CirculeHandle v; Some (Inr (say [Text ''Cir''] v)) }
    | CornerRoads \<Rightarrow> do { v \<leftarrow> Vision_CornerHandle v; Some (Inr (say [Text ''Cor''] v)) }
    | ZebraRoads \<Rightarrow> do {
        r \<leftarrow> Vision_ZebraHandle between now now2 v;
        Some (case r of Inl x \<Rightarrow> Inl x | Inr v \<Rightarrow> Inr (say [Text ''Zeb''] v))
      })"

definition mid_table :: "RoadLine_t \<Rightarrow> RoadLine_t option" where
  "mid_table s =
    do {
      m \<leftarrow> for_each (\<lambda>i m. do {
          r \<leftarrow> rd (rightBroder s) i;
          l \<leftarrow> rd (leftBroder s) i;
          wr m i (s16 ((r + l) sdiv 2))
        }) (downto (imgRow - 1) 0) (MID_Table s);
      Some (s\<lparr>MID_Table := m\<rparr>)
    }"

definition vision_frame :: "garbage \<Rightarrow> (car \<Rightarrow> car) \<Rightarrow> int \<Rightarrow> int \<Rightarrow> image \<Rightarrow> image \<Rightarrow> int \<Rightarrow> vision \<Rightarrow>
    ((vision \<times> drawn list) + vision \<times> pixel list) option" where
  "vision_frame g between now now2 bw my_image T v =
    do {
      road \<leftarrow> Camera_FindMyLine my_image T (borders v);
      v \<leftarrow> Vision_SymbolJudge g my_image T (v\<lparr>borders := road\<rparr>);
      r \<leftarrow> Vision_RSHandle between now now2 v;
      (case r of
        Inl x \<Rightarrow> Some (Inl x)
      | Inr v \<Rightarrow> do { s \<leftarrow> mid_table (borders v); ds \<leftarrow> Vision_Draw my_image bw s; Some (Inr (v\<lparr>borders := s\<rparr>, ds)) })
    }"

text \<open>The whole frame, from the sensor image.\<close>

definition Vision_Handle :: "garbage \<Rightarrow> (car \<Rightarrow> car) \<Rightarrow> int \<Rightarrow> int \<Rightarrow> image \<Rightarrow> vision \<Rightarrow>
    ((vision \<times> drawn list) + vision \<times> pixel list) option" where
  "Vision_Handle g between now now2 mt9v03x_image v =
    do {
      (T, bw, my_image) \<leftarrow> Camera_PreProcess mt9v03x_image;
      vision_frame g between now now2 bw my_image T v
    }"

section \<open>Lines across the picture\<close>

definition picture_ok :: "vision \<Rightarrow> bool" where
  "picture_ok v \<longleftrightarrow> (\<forall>left. border_ok (border_of left v) \<and> side_ok (side_of left v) \<and> 0 \<le> FP_n (side_of left v) \<and>
     (\<forall>k. 0 \<le> k \<longrightarrow> k < FP_n (side_of left v) \<longrightarrow> fp_ok (feature_p (side_of left v) ! nat k)))"

lemma border_simps [simp]:
  "border_of left (set_border left b v) = b" "border_of left (set_border (\<not> left) b v) = border_of left v"
  "border_of (\<not> left) (set_border left b v) = border_of (\<not> left) v"
  "side_of l (set_border left b v) = side_of l v" "circ (set_border left b v) = circ v"
  "the_car (set_border left b v) = the_car v" "Current_Road (set_border left b v) = Current_Road v"
  "set_border left b (set_border left b' v) = set_border left b v"
  by (simp_all add: border_of_def set_border_def side_of_def)

lemma side_frames [simp]:
  "anti (set_border left b v) = anti v" "cir (set_border left b v) = cir v" "is_left (set_border left b v) = is_left v"
  "anti v = (\<not> cir v)"
  by (simp_all add: anti_def cir_def is_left_def)

text \<open>What \<open>straight_across\<close> leaves: the chord on the other side and a lost side, all but the lowest row.\<close>

definition across :: "int \<Rightarrow> int \<Rightarrow> vision \<Rightarrow> vision \<Rightarrow> bool" where
  "across y0 y69 v v' \<longleftrightarrow> (\<exists>b. length b = 70 \<and> b ! 0 = y0 \<and> b ! 69 = y69 \<and>
     (\<forall>i. 0 \<le> i \<longrightarrow> i \<le> 69 \<longrightarrow> near_chord b 0 69 i (border_of (anti v) v' ! nat i))) \<and>
   (\<forall>i. 0 \<le> i \<longrightarrow> i < 69 \<longrightarrow> border_of (cir v) v' ! nat i = lose_value (cir v)) \<and>
   border_of (cir v) v' ! 69 = border_of (cir v) v ! 69"

lemma straight_across_ok:
  assumes "\<forall>left. border_ok (border_of left v)" and "0 \<le> y0" and "y0 \<le> 187" and "0 \<le> y69" and "y69 \<le> 187"
  shows "\<exists>v'. straight_across y0 y69 v = Some v' \<and> across y0 y69 v v' \<and> (\<forall>left. border_ok (border_of left v')) \<and>
    (\<exists>b1 b2. v' = set_border (cir v) b2 (set_border (anti v) b1 v))"
proof -
  let ?b = "(border_of (anti v) v)[0 := y0, 69 := y69]"
  have len: "length (border_of l v) = 70" for l using assms(1) by (simp add: border_ok_def)
  have b: "border_ok ?b" using assms by (intro border_ok_upd) auto
  have ends: "?b ! 0 = y0" "?b ! 69 = y69" "length ?b = 70" using len by simp_all
  from AdditionalLine_chord [OF b, of 0 69] obtain b1
    where b1: "Vision_set_AdditionalLine 0 69 ?b = Some b1" "border_ok b1"
      "\<forall>i. 0 \<le> i \<longrightarrow> i \<le> 69 \<longrightarrow> near_chord ?b 0 69 i (b1 ! nat i)" by auto
  from SetLose_ok [of "border_of (cir v) v" 0 69 "cir v"] assms(1) obtain b2
    where b2: "Vision_SetLose (cir v) (border_of (cir v) v) 0 69 = Some b2" "border_ok b2"
      "\<forall>i. 0 \<le> i \<longrightarrow> i < 70 \<longrightarrow> b2 ! nat i = (if 0 \<le> i \<and> i < 69 then lose_value (cir v) else border_of (cir v) v ! nat i)"
    by auto
  let ?v = "set_border (cir v) b2 (set_border (anti v) b1 v)"
  have "straight_across y0 y69 v = Some ?v"
    using len b1 b2 by (simp add: straight_across_def change_border_def imgRow_def)
  moreover have "across y0 y69 v ?v"
    unfolding across_def using ends b1(3) b2(3) b2(3) [rule_format, of 69] by (intro conjI exI [of _ ?b]) auto
  moreover have "border_ok (border_of left ?v)" for left
    using b1(2) b2(2) by (cases "left = cir v") auto
  ultimately show ?thesis by blast
qed

section \<open>Every frame of the roundabout is defined\<close>

definition circ_zero :: Circule_Handle where
  "circ_zero = \<lparr>circule_left = False, cir_tick = 0, cir_state = 0, Circule_LorR = 0, init_angle = Fin 0, out_n = 0\<rparr>"

text \<open>
  Runs: between two roundabout frames the rest of the program may change everything but \<open>Circule_Handle\<close> and
  the statics.
\<close>

inductive cir_reach :: "vision \<Rightarrow> bool" where
  start: "circ v = circ_zero \<Longrightarrow> cir_reach v"
| other: "cir_reach v \<Longrightarrow> circ v' = circ v \<Longrightarrow> cir_reach v'"
| frame: "cir_reach v \<Longrightarrow> Vision_CirculeHandle v = Some v' \<Longrightarrow> cir_reach v'"

definition circ_ok :: "Circule_Handle \<Rightarrow> bool" where
  "circ_ok c \<longleftrightarrow> cir_state c \<in> {0, 1, 2, 3, 5, 6} \<and> 0 \<le> cir_tick c \<and> cir_tick c \<le> 4 \<and> 0 \<le> out_n c \<and> out_n c \<le> 2 \<and>
    (cir_state c \<noteq> 0 \<longrightarrow> circule_left c = (Circule_LorR c = LEFT_CIRCULE))"

lemmas cir_states = Circule_Begin_def Circule_State1_def Circule_State2_def Circule_State3_def Circule_in_def
  Circule_Cor_def Circule_out_def Circule_end_def

lemma say_simps [simp]:
  "circ (say xs v) = circ v" "border_of l (say xs v) = border_of l v" "side_of l (say xs v) = side_of l v"
  "the_car (say xs v) = the_car v" "Current_Road (say xs v) = Current_Road v"
  by (simp_all add: say_def border_of_def side_of_def)

lemma circ_upd_simps [simp]:
  "border_of l (v\<lparr>circ := c\<rparr>) = border_of l v" "side_of l (v\<lparr>circ := c\<rparr>) = side_of l v"
  "border_of l (v\<lparr>cir_speed_flag := n\<rparr>) = border_of l v" "side_of l (v\<lparr>cir_speed_flag := n\<rparr>) = side_of l v"
  "border_of l (v\<lparr>Current_Road := r\<rparr>) = border_of l v" "side_of l (v\<lparr>Current_Road := r\<rparr>) = side_of l v"
  "border_of l (v\<lparr>the_car := k\<rparr>) = border_of l v" "side_of l (v\<lparr>the_car := k\<rparr>) = side_of l v"
  "border_of l (set_tick n v) = border_of l v" "side_of l (set_tick n v) = side_of l v"
  "border_of l (set_state n v) = border_of l v" "side_of l (set_state n v) = side_of l v"
  "the_car (set_tick n v) = the_car v" "the_car (set_state n v) = the_car v"
  "Current_Road (set_tick n v) = Current_Road v" "Current_Road (set_state n v) = Current_Road v"
  "circ (set_tick n v) = (circ v)\<lparr>cir_tick := u8 n\<rparr>" "circ (set_state n v) = (circ v)\<lparr>cir_state := u8 n\<rparr>"
  by (simp add: border_of_def side_of_def set_tick_def set_state_def)+

lemma tick_to_circ:
  assumes "0 \<le> cir_tick (circ v)" and "cir_tick (circ v) < 255" and "0 \<le> next" and "next < 256"
  shows "circ (tick_to n next msg v) =
    (if cir_tick (circ v) + 1 = n then (circ v)\<lparr>cir_tick := 0, cir_state := next\<rparr>
     else (circ v)\<lparr>cir_tick := cir_tick (circ v) + 1\<rparr>)"
  using assms by (simp add: tick_to_def Let_def u8_id)

lemma line_through_circ: "line_through seed slope v = Some v' \<Longrightarrow> circ v' = circ v"
  by (auto simp: line_through_def change_border_def split: Option.bind_splits)

lemma state1_parts:
  assumes "Vision_CirculeState1_Handle v = Some v'"
  obtains s0 v1 where "seg_of (cir v) 0 v = Some s0" and "circ v1 = circ v"
    and "v' = (if IsLose s0 then tick_to 5 Circule_State2 ''RS:Cir State2'' v1 else set_tick 0 v1)"
proof -
  from assms obtain s0 v1 where s: "seg_of (cir v) 0 v = Some s0"
    "(if FP_n (side_of (cir v) v) \<noteq> 0 \<and> \<not> IsLose s0
      then do { slope \<leftarrow> anti_slope v; fp \<leftarrow> fp_of (cir v) 0 v; line_through (pt_x fp) slope v } else Some v) = Some v1"
    "Some (if IsLose s0 then tick_to 5 Circule_State2 ''RS:Cir State2'' v1 else set_tick 0 v1) = Some v'"
    unfolding Vision_CirculeState1_Handle_def bind_eq_Some_conv by blast
  from s(2) have "circ v1 = circ v"
    by (cases "FP_n (side_of (cir v) v) \<noteq> 0 \<and> \<not> IsLose s0") (auto simp: bind_eq_Some_conv dest: line_through_circ)
  with s that show ?thesis by blast
qed

lemma state1_circ:
  assumes "Vision_CirculeState1_Handle v = Some v'" and "circ_ok (circ v)"
  shows "\<exists>s0. seg_of (cir v) 0 v = Some s0 \<and> circ v' =
    (if IsLose s0 then if cir_tick (circ v) = 4 then (circ v)\<lparr>cir_tick := 0, cir_state := 2\<rparr>
                       else (circ v)\<lparr>cir_tick := cir_tick (circ v) + 1\<rparr>
     else (circ v)\<lparr>cir_tick := 0\<rparr>)"
proof -
  have k: "0 \<le> cir_tick (circ v)" "cir_tick (circ v) < 255" using assms(2) by (simp_all add: circ_ok_def)
  from state1_parts [OF assms(1)] obtain s0 v1 where s: "seg_of (cir v) 0 v = Some s0" "circ v1 = circ v"
    "v' = (if IsLose s0 then tick_to 5 Circule_State2 ''RS:Cir State2'' v1 else set_tick 0 v1)" .
  have "circ v' = (if IsLose s0 then circ (tick_to 5 Circule_State2 ''RS:Cir State2'' v1) else circ (set_tick 0 v1))"
    using s(3) by simp
  also have "circ (tick_to 5 Circule_State2 ''RS:Cir State2'' v1) =
      (if cir_tick (circ v) = 4 then (circ v)\<lparr>cir_tick := 0, cir_state := 2\<rparr> else (circ v)\<lparr>cir_tick := cir_tick (circ v) + 1\<rparr>)"
    using tick_to_circ [of v1 2 5 "''RS:Cir State2''"] k s(2) by (simp add: Circule_State2_def)
  finally show ?thesis using s(1,2) by (auto simp: u8_id)
qed

lemma across_circ: "straight_across y0 y69 v = Some v' \<Longrightarrow> circ v' = circ v \<and> the_car v' = the_car v \<and> Current_Road v' = Current_Road v"
  by (auto simp: straight_across_def change_border_def split: Option.bind_splits)

text \<open>The state after each pass of the scheme, by the state before it.\<close>

lemma pi_state2_circ:
  "circ (pi_state2 v) = (circ v)\<lparr>init_angle := Att_CurrentYaw v, cir_state := 3, cir_tick := 0\<rparr>"
  by (simp add: pi_state2_def set_angle_def Circule_State3_def u8_id)

lemma pi_state3_circ:
  assumes "pi_state3 v = Some v'"
  shows "circ v' = (if turned (Att_CurrentYaw v) (init_angle (circ v)) (flit 65)
    then (circ v)\<lparr>init_angle := Att_CurrentYaw v, cir_state := 5\<rparr> else circ v)"
proof -
  from assms obtain y0 y1 w where w: "straight_across y0 y1 v = Some w"
    "v' = (if turned (Att_CurrentYaw w) (init_angle (circ w)) (flit 65)
      then set_state Circule_Cor (say [Text ''RS:Cir init, init yaw'', Val (Att_CurrentYaw w)] (set_angle (give_right w))) else w)"
    unfolding pi_state3_def bind_eq_Some_conv by blast
  have "circ w = circ v" "Att_CurrentYaw w = Att_CurrentYaw v" using across_circ [OF w(1)] by (simp_all add: Att_CurrentYaw_def)
  then show ?thesis
    by (simp add: w(2) set_angle_def give_right_def Att_CurrentYaw_def Circule_Cor_def u8_id)
qed

lemma pi_cor_circ:
  "circ (pi_cor v) = (if turned (Att_CurrentYaw v) (init_angle (circ v)) (i2f 170)
    then (circ v)\<lparr>init_angle := Att_CurrentYaw v, cir_state := 6\<rparr> else circ v)"
  by (simp add: pi_cor_def Let_def set_angle_def Att_CurrentYaw_def Circule_out_def u8_id)

lemma pi_out_circ:
  assumes "pi_out v = Some v'"
  shows "circ v' = (if turned (init_angle (circ v)) (Att_CurrentYaw v) (flit 50) then (circ v)\<lparr>cir_state := 0\<rparr> else circ v) \<and>
    Current_Road v' = (if turned (init_angle (circ v)) (Att_CurrentYaw v) (flit 50) then NormalRoads else Current_Road v)"
proof -
  from assms obtain y0 y1 w where w: "straight_across y0 y1 v = Some w"
    "v' = (if turned (init_angle (circ w)) (Att_CurrentYaw w) (flit 50)
      then (set_state Circule_Begin (say [Text ''RS:Out of Circule''] (give_right w)))\<lparr>Current_Road := NormalRoads\<rparr> else w)"
    unfolding pi_out_def bind_eq_Some_conv by blast
  have "circ w = circ v" "Att_CurrentYaw w = Att_CurrentYaw v" "Current_Road w = Current_Road v"
    using across_circ [OF w(1)] by (simp_all add: Att_CurrentYaw_def)
  then show ?thesis by (simp add: w(2) give_right_def Circule_Begin_def u8_id)
qed

lemma PI_cases:
  assumes "cir_speed_flag w = (if cir_state (circ v) = 3 \<or> cir_state (circ v) = 6 then 1 else 0)"
    and "w = v\<lparr>cir_speed_flag := cir_speed_flag w\<rparr>"
  shows "cir_state (circ v) = 0 \<Longrightarrow> Vision_Cir_PI_Handle v = Some w"
    and "cir_state (circ v) = 1 \<Longrightarrow> Vision_Cir_PI_Handle v = Vision_CirculeState1_Handle w"
    and "cir_state (circ v) = 2 \<Longrightarrow> Vision_Cir_PI_Handle v = Some (pi_state2 w)"
    and "cir_state (circ v) = 3 \<Longrightarrow> Vision_Cir_PI_Handle v = pi_state3 w"
    and "cir_state (circ v) = 5 \<Longrightarrow> Vision_Cir_PI_Handle v = Some (pi_cor w)"
    and "cir_state (circ v) = 6 \<Longrightarrow> Vision_Cir_PI_Handle v = pi_out w"
  using assms by (auto simp: Vision_Cir_PI_Handle_def cir_states Let_def)

lemma PI_circ_ok:
  assumes "Vision_Cir_PI_Handle v = Some v'" and "circ_ok (circ v)"
  shows "circ_ok (circ v')"
proof -
  define w where "w = v\<lparr>cir_speed_flag := if cir_state (circ v) = 3 \<or> cir_state (circ v) = 6 then 1 else 0\<rparr>"
  have c: "circ w = circ v" by (simp add: w_def)
  note pi = PI_cases [of w v]
  have w: "cir_speed_flag w = (if cir_state (circ v) = 3 \<or> cir_state (circ v) = 6 then 1 else 0)" "w = v\<lparr>cir_speed_flag := cir_speed_flag w\<rparr>"
    by (simp_all add: w_def)
  consider "cir_state (circ v) = 0" | "cir_state (circ v) = 1" | "cir_state (circ v) = 2" | "cir_state (circ v) = 3"
    | "cir_state (circ v) = 5" | "cir_state (circ v) = 6"
    using assms(2) by (auto simp: circ_ok_def)
  then show ?thesis
  proof cases
    case 1
    then show ?thesis using pi(1) [OF w] assms c by simp
  next
    case 2
    then have "Vision_CirculeState1_Handle w = Some v'" using pi(2) [OF w] assms(1) by simp
    from state1_circ [OF this] assms(2) 2 c show ?thesis by (auto simp: circ_ok_def split: if_splits)
  next
    case 3
    then have "circ v' = (circ v)\<lparr>init_angle := Att_CurrentYaw w, cir_state := 3, cir_tick := 0\<rparr>"
      using pi(3) [OF w] assms(1) pi_state2_circ [of w] c by simp
    then show ?thesis using assms(2) 3 by (simp add: circ_ok_def)
  next
    case 4
    then have "pi_state3 w = Some v'" using pi(4) [OF w] assms(1) by simp
    from pi_state3_circ [OF this] assms(2) 4 c show ?thesis by (simp add: circ_ok_def)
  next
    case 5
    then have "v' = pi_cor w" using pi(5) [OF w] assms(1) by simp
    then show ?thesis using pi_cor_circ [of w] assms(2) 5 c by (simp add: circ_ok_def)
  next
    case 6
    then have "pi_out w = Some v'" using pi(6) [OF w] assms(1) by simp
    from pi_out_circ [OF this] assms(2) 6 c show ?thesis by (simp add: circ_ok_def)
  qed
qed

lemma enter_circ:
  "cir_enter v = Some v' \<Longrightarrow> cir_state (circ v') = 1 \<and> cir_tick (circ v') = 0 \<and> out_n (circ v') = out_n (circ v) \<and>
     circule_left (circ v') = (Circule_LorR (circ v') = LEFT_CIRCULE)"
  by (auto simp: cir_enter_def cir_states Let_def split: Option.bind_splits)

text \<open>The guard counts frames whose other side is not straight; the length test in it has no effect.\<close>

lemma guard_circ:
  assumes "cir_guard v = Some v'" and "circ_ok (circ v)"
  shows "circ v' = (if cir_state (circ v) = 1 \<or> cir_state (circ v) = 2 then
      if IsStrai (my_segment (side_of (anti v) v) ! 0) then (circ v)\<lparr>out_n := 0\<rparr>
      else if out_n (circ v) = 2 then (circ v)\<lparr>cir_state := 0, out_n := 0\<rparr>
      else (circ v)\<lparr>out_n := out_n (circ v) + 1\<rparr>
    else circ v)"
proof (cases "cir_state (circ v) = 1 \<or> cir_state (circ v) = 2")
  case True
  let ?a = "my_segment (side_of (anti v) v) ! 0"
  let ?n = "if IsStrai ?a then 0 else out_n (circ v) + 1"
  have "0 \<le> out_n (circ v)" "out_n (circ v) \<le> 2" using assms(2) by (simp_all add: circ_ok_def)
  then have "chk32 (out_n (circ v) + 1) = Some (out_n (circ v) + 1)" by (intro chk32_ok) linarith+
  then have n: "(if \<not> (IsStrai ?a \<and> Vision_GetSegLenghth ?a \<ge> 20 \<or> IsStrai ?a) then chk32 (out_n (circ v) + 1) else Some 0) = Some ?n"
    by simp
  have "\<exists>a. seg_of (anti v) 0 v = Some a"
    using assms(1) True by (auto simp: cir_guard_def cir_states bind_eq_Some_conv)
  then have a: "seg_of (anti v) 0 v = Some ?a" by (auto simp: seg_of_def rd_Some_iff)
  have "cir_guard v = Some (if ?n = 3
      then say [Text ''RS:error detection''] ((v\<lparr>Current_Road := NormalRoads\<rparr>)\<lparr>circ := (circ v)\<lparr>cir_state := 0, out_n := 0\<rparr>\<rparr>)
      else v\<lparr>circ := (circ v)\<lparr>out_n := ?n\<rparr>\<rparr>)"
    using True n by (simp add: cir_guard_def a [unfolded side_frames(4)] cir_states)
  then have "v' = (if ?n = 3
      then say [Text ''RS:error detection''] ((v\<lparr>Current_Road := NormalRoads\<rparr>)\<lparr>circ := (circ v)\<lparr>cir_state := 0, out_n := 0\<rparr>\<rparr>)
      else v\<lparr>circ := (circ v)\<lparr>out_n := ?n\<rparr>\<rparr>)"
    using assms(1) by simp
  then show ?thesis using True by (simp add: cir_states)
qed (use assms in \<open>simp add: cir_guard_def cir_states\<close>)

lemma guard_circ_ok: "cir_guard v = Some v' \<Longrightarrow> circ_ok (circ v) \<Longrightarrow> circ_ok (circ v')"
  by (frule (1) guard_circ) (auto simp: circ_ok_def split: if_splits)

lemma handle_circ_ok:
  assumes "Vision_CirculeHandle v = Some v'" and "circ_ok (circ v)"
  shows "circ_ok (circ v')"
proof -
  from assms(1) obtain v1 v2 where s: "(if cir_state (circ v) = 0 then cir_enter v else Some v) = Some v1"
    "cir_guard v1 = Some v2" "Vision_Cir_PI_Handle v2 = Some v'"
    by (auto simp: Vision_CirculeHandle_def split: Option.bind_splits)
  have "circ_ok (circ v1)"
    using s(1) assms(2) enter_circ [of v v1] by (auto simp: circ_ok_def split: if_splits)
  then show ?thesis using s(2,3) guard_circ_ok PI_circ_ok by blast
qed

lemma reach_circ_ok: "cir_reach v \<Longrightarrow> circ_ok (circ v)"
proof (induction rule: cir_reach.induct)
  case (start v)
  then show ?case by (simp add: circ_ok_def circ_zero_def)
next
  case (frame v v')
  then show ?case using handle_circ_ok by blast
qed simp

lemma picture_seg: "picture_ok v \<Longrightarrow> 0 \<le> i \<Longrightarrow> i < 10 \<Longrightarrow> seg_of l i v = Some (my_segment (side_of l v) ! nat i)"
  by (simp add: seg_of_def picture_ok_def side_ok_def)

lemma picture_fp:
  assumes "picture_ok v" and "FP_n (side_of l v) \<noteq> 0"
  shows "fp_of l 0 v = Some (feature_p (side_of l v) ! 0) \<and> fp_ok (feature_p (side_of l v) ! 0)"
proof -
  have "0 \<le> FP_n (side_of l v)" using assms(1) unfolding picture_ok_def by blast
  then have "0 < FP_n (side_of l v)" using assms(2) by simp
  then have "fp_ok (feature_p (side_of l v) ! nat 0)" using assms(1) unfolding picture_ok_def by blast
  then show ?thesis using assms(1) by (simp add: picture_ok_def side_ok_def fp_of_def)
qed

lemma picture_frame: "picture_ok v \<Longrightarrow> (\<And>l. border_of l v' = border_of l v) \<Longrightarrow> (\<And>l. side_of l v' = side_of l v) \<Longrightarrow> picture_ok v'"
  by (simp add: picture_ok_def)

lemma anti_slope_ok:
  assumes "picture_ok v"
  obtains s where "anti_slope v = Some (Fin s)" and "\<bar>s\<bar> \<le> 188"
proof -
  let ?b = "border_of (anti v) v"
  have b: "border_ok ?b" using assms by (simp add: picture_ok_def)
  have "\<bar>?b ! 0 - ?b ! 69\<bar> \<le> 187"
    using border_ok_nth [OF b, of 0] border_ok_nth [OF b, of 69] by (auto simp del: side_frames)
  then obtain s where "fdiv (i2f (?b ! 0 - ?b ! 69)) (i2f (- 69)) = Fin s" "\<bar>s\<bar> \<le> 188"
    using slope_value [of "?b ! 0 - ?b ! 69" "- 69"] by (auto simp del: side_frames)
  then have "anti_slope v = Some (Fin s)"
    using at_row_ok [OF b, of 0] at_row_ok [OF b, of 69]
    by (simp add: anti_slope_def imgRow_def Point_CalSlope_def del: side_frames)
  then show ?thesis using that \<open>\<bar>s\<bar> \<le> 188\<close> by blast
qed

lemma state1_total:
  assumes "picture_ok v"
  shows "\<exists>v'. Vision_CirculeState1_Handle v = Some v'"
proof -
  obtain s where s: "anti_slope v = Some (Fin s)" "\<bar>s\<bar> \<le> 188" using anti_slope_ok [OF assms] .
  have "\<exists>v1. (if FP_n (side_of (cir v) v) \<noteq> 0 \<and> \<not> IsLose (my_segment (side_of (cir v) v) ! 0)
      then do { slope \<leftarrow> anti_slope v; fp \<leftarrow> fp_of (cir v) 0 v; line_through (pt_x fp) slope v } else Some v) = Some v1"
  proof (cases "FP_n (side_of (cir v) v) \<noteq> 0 \<and> \<not> IsLose (my_segment (side_of (cir v) v) ! 0)")
    case True
    let ?p = "feature_p (side_of (cir v) v) ! 0"
    have p: "fp_ok ?p" "fp_of (cir v) 0 v = Some ?p" "border_ok (border_of (cir v) v)"
      using picture_fp [OF assms] True assms by (auto simp: picture_ok_def)
    have "\<bar>- s\<bar> \<le> 188" using s(2) by simp
    from SetLineWithPointK_ok [OF p(3) _ _ this, of "pt_x ?p"] p(1) obtain b
      where "Vision_SetLineWithPointK (border_of (cir v) v) (pt_x ?p) (Fin (- s)) 0 69 = Some b"
      by (auto simp: fp_ok_def)
    then show ?thesis using True s(1) p(2) by (simp add: line_through_def change_border_def imgRow_def)
  qed auto
  then obtain v1 where "(if FP_n (side_of (cir v) v) \<noteq> 0 \<and> \<not> IsLose (my_segment (side_of (cir v) v) ! 0)
      then do { slope \<leftarrow> anti_slope v; fp \<leftarrow> fp_of (cir v) 0 v; line_through (pt_x fp) slope v } else Some v) = Some v1" ..
  then show ?thesis by (simp add: Vision_CirculeState1_Handle_def picture_seg [OF assms])
qed

lemma pi_state3_total: "picture_ok v \<Longrightarrow> \<exists>v'. pi_state3 v = Some v'"
  using straight_across_ok [of v "if is_left v then 0 else 187" "if is_left v then 187 else 10"]
  by (auto simp: pi_state3_def picture_ok_def)

lemma pi_out_total: "picture_ok v \<Longrightarrow> \<exists>v'. pi_out v = Some v'"
  using straight_across_ok [of v "if is_left v then 0 else 186" "if is_left v then 180 else 20"]
  by (auto simp: pi_out_def picture_ok_def)

lemma PI_total:
  assumes "picture_ok v" and "circ_ok (circ v)"
  shows "\<exists>v'. Vision_Cir_PI_Handle v = Some v'"
proof -
  define w where "w = v\<lparr>cir_speed_flag := if cir_state (circ v) = 3 \<or> cir_state (circ v) = 6 then 1 else 0\<rparr>"
  have w: "cir_speed_flag w = (if cir_state (circ v) = 3 \<or> cir_state (circ v) = 6 then 1 else 0)" "w = v\<lparr>cir_speed_flag := cir_speed_flag w\<rparr>"
    by (simp_all add: w_def)
  have "picture_ok w" by (rule picture_frame [OF assms(1)]) (simp_all add: w_def)
  then show ?thesis
    using assms(2) PI_cases [OF w] state1_total [of w] pi_state3_total [of w] pi_out_total [of w] by (auto simp: circ_ok_def)
qed

lemma handle_total:
  assumes "picture_ok v" and "circ_ok (circ v)"
  shows "\<exists>v'. Vision_CirculeHandle v = Some v'"
proof -
  have "\<exists>v1. (if cir_state (circ v) = 0 then cir_enter v else Some v) = Some v1 \<and> circ_ok (circ v1) \<and> picture_ok v1"
  proof (cases "cir_state (circ v) = 0")
    case True
    obtain v1 where v1: "cir_enter v = Some v1" "\<And>l. border_of l v1 = border_of l v" "\<And>l. side_of l v1 = side_of l v"
      using picture_seg [OF picture_frame [OF assms(1)], of "say [Text ''RS:Circule''] v" 0] by (force simp: cir_enter_def Let_def)
    have "circ_ok (circ v1)" using enter_circ [OF v1(1)] assms(2) by (simp add: circ_ok_def)
    then show ?thesis using v1 picture_frame [OF assms(1) v1(2,3)] True by simp
  qed (use assms in simp)
  then obtain v1 where v1: "(if cir_state (circ v) = 0 then cir_enter v else Some v) = Some v1" "circ_ok (circ v1)" "picture_ok v1"
    by blast
  have "chk32 (out_n (circ v1) + 1) = Some (out_n (circ v1) + 1)" using v1(2) by (intro chk32_ok) (simp_all add: circ_ok_def)
  then have "\<exists>v2. cir_guard v1 = Some v2 \<and> (\<forall>l. border_of l v2 = border_of l v1) \<and> (\<forall>l. side_of l v2 = side_of l v1)"
    by (cases "IsStrai (my_segment (side_of (\<not> cir v1) v1) ! 0)") (simp_all add: cir_guard_def picture_seg [OF v1(3)])
  then obtain v2 where v2: "cir_guard v1 = Some v2" "\<And>l. border_of l v2 = border_of l v1" "\<And>l. side_of l v2 = side_of l v1"
    by blast
  have "picture_ok v2" "circ_ok (circ v2)"
    using picture_frame [OF v1(3) v2(2,3)] guard_circ_ok [OF v2(1) v1(2)] by blast+
  from PI_total [OF this] show ?thesis using v1(1) v2(1) by (simp add: Vision_CirculeHandle_def)
qed

text \<open>A picture with a left border seen straight and the right one lost.\<close>

definition picture_zero :: vision where
  "picture_zero = \<lparr>borders = \<lparr>MID_Table = replicate 70 0, leftBroder = replicate 70 40, rightBroder = replicate 70 187\<rparr>,
     feat = \<lparr>F_L = side_zero\<lparr>my_segment := \<lparr>seg_begin = 69, seg_end = 0, seg_type = straight_segment, position = 0\<rparr> # replicate 9 seg_null,
               segment_n := 1\<rparr>,
             F_R = side_zero\<lparr>my_segment := \<lparr>seg_begin = 69, seg_end = 0, seg_type = lose_segment, position = 0\<rparr> # replicate 9 seg_null,
               segment_n := 1\<rparr>\<rparr>,
     Current_Road = CirculeRoads, circ = circ_zero, cir_speed_flag = 0, cross_state = 0, L_or_R_Cross = 0, zebra_tick = 0,
     Start_Flag = 0, run_time = 0, the_car = car_zero, class_table = classes_zero, prints = [], events = []\<rparr>"

text \<open>
  C6: The roundabout never gets stuck in an undefined state: in every run that starts with the cleared
  \<open>Circule_Handle\<close>, whatever the rest of the program does between the frames, the state is one of begin, 1, 2, 3,
  in the ring, out (never the two states of the unused scheme), the filter is at most 4 and the error counter
  at most 2, and a frame on a picture in range is defined.
\<close>

theorem roundabout_safe:
  assumes "cir_reach v"
  shows "cir_state (circ v) \<in> {Circule_Begin, Circule_State1, Circule_State2, Circule_State3, Circule_Cor, Circule_out} \<and>
    0 \<le> cir_tick (circ v) \<and> cir_tick (circ v) \<le> 4 \<and> 0 \<le> out_n (circ v) \<and> out_n (circ v) \<le> 2 \<and>
    (picture_ok v \<longrightarrow> (\<exists>v'. Vision_CirculeHandle v = Some v'))"
  using reach_circ_ok [OF assms] handle_total [of v] by (auto simp: circ_ok_def cir_states)

theorem roundabout_safe_witness:
  "\<exists>v. cir_state (circ v) = Circule_State1 \<and> cir_state (circ v) \<in>
      {Circule_Begin, Circule_State1, Circule_State2, Circule_State3, Circule_Cor, Circule_out} \<and>
    0 \<le> cir_tick (circ v) \<and> cir_tick (circ v) \<le> 4 \<and> 0 \<le> out_n (circ v) \<and> out_n (circ v) \<le> 2 \<and>
    (picture_ok v \<longrightarrow> (\<exists>v'. Vision_CirculeHandle v = Some v'))"
proof -
  define v where "v = picture_zero"
  have s: "circ v = circ_zero" by (simp add: v_def picture_zero_def)
  have "map_option (\<lambda>v. cir_state (circ v)) (Vision_CirculeHandle v) = Some Circule_State1"
    unfolding v_def by code_simp
  then obtain v' where v': "Vision_CirculeHandle v = Some v'" "cir_state (circ v') = Circule_State1" by blast
  then have "cir_reach v'" using cir_reach.start [OF s] cir_reach.frame by blast
  from roundabout_safe [OF this] v'(2) show ?thesis by blast
qed

section \<open>A roundabout is driven to its end\<close>

text \<open>Frames of a run: each first puts a new picture (and a new yaw) in place.\<close>

fun cir_run :: "(vision \<Rightarrow> vision) list \<Rightarrow> vision \<Rightarrow> vision option" where
  "cir_run [] v = Some v"
| "cir_run (f # fs) v = do { v \<leftarrow> Vision_CirculeHandle (f v); cir_run fs v }"

definition new_picture :: "(vision \<Rightarrow> vision) \<Rightarrow> bool" where
  "new_picture f \<longleftrightarrow> (\<forall>v. circ (f v) = circ v \<and> picture_ok (f v))"

text \<open>The roundabout is on side \<open>left\<close>: that side is lost near the car, the other is one straight segment.\<close>

definition shows_entry :: "bool \<Rightarrow> vision \<Rightarrow> bool" where
  "shows_entry left v \<longleftrightarrow> IsLose (my_segment (side_of left v) ! 0) \<and> IsStrai (my_segment (side_of (\<not> left) v) ! 0) \<and>
     segment_n (side_of (\<not> left) v) = 1"

lemma cir_run_append: "cir_run (fs @ gs) v = Option.bind (cir_run fs v) (cir_run gs)"
  by (induction fs arbitrary: v) (auto split: Option.bind_splits)

lemma lose_not_strai: "IsLose s \<Longrightarrow> \<not> IsStrai s"
  by (simp add: IsLose_def IsStrai_def)

lemma guard_frame:
  assumes "cir_guard v = Some w"
  shows "(\<forall>l. border_of l w = border_of l v \<and> side_of l w = side_of l v) \<and> the_car w = the_car v"
proof (cases "cir_state (circ v) = 1 \<or> cir_state (circ v) = 2")
  case True
  then have "\<exists>n. w = (if n = 3
        then say [Text ''RS:error detection''] ((v\<lparr>Current_Road := NormalRoads\<rparr>)\<lparr>circ := (circ v)\<lparr>cir_state := Circule_Begin, out_n := 0\<rparr>\<rparr>)
        else v\<lparr>circ := (circ v)\<lparr>out_n := n\<rparr>\<rparr>)"
    using assms unfolding cir_guard_def Circule_State1_def Circule_State2_def bind_eq_Some_conv if_P [OF True] by blast
  then show ?thesis by (elim exE) simp
qed (use assms in \<open>simp add: cir_guard_def cir_states\<close>)

text \<open>One frame, from the state after entry and guard.\<close>

lemma handle_cases:
  assumes "Vision_CirculeHandle v = Some v'" and "circ_ok (circ v)" and "cir_state (circ v) \<noteq> 0"
    and "IsStrai (my_segment (side_of (anti v) v) ! 0) \<or> cir_state (circ v) \<notin> {1, 2}"
  obtains w where "Vision_Cir_PI_Handle w = Some v'" and "\<forall>l. border_of l w = border_of l v" and "\<forall>l. side_of l w = side_of l v"
    and "the_car w = the_car v" and "circ w = (if cir_state (circ v) \<in> {1, 2} then (circ v)\<lparr>out_n := 0\<rparr> else circ v)"
proof -
  from assms(1,3) obtain w where w: "cir_guard v = Some w" "Vision_Cir_PI_Handle w = Some v'"
    by (auto simp: Vision_CirculeHandle_def split: Option.bind_splits)
  have "circ w = (if cir_state (circ v) \<in> {1, 2} then (circ v)\<lparr>out_n := 0\<rparr> else circ v)"
    using guard_circ [OF w(1) assms(2)] assms(4) by (auto simp del: side_frames(4))
  moreover have "(\<forall>l. border_of l w = border_of l v) \<and> (\<forall>l. side_of l w = side_of l v) \<and> the_car w = the_car v"
    using guard_frame [OF w(1)] by auto
  ultimately show ?thesis using w(2) that by blast
qed

lemma yaw_frame: "the_car w = the_car v \<Longrightarrow> Att_CurrentYaw w = Att_CurrentYaw v"
  by (simp add: Att_CurrentYaw_def)

lemma handle_defined:
  "new_picture f \<Longrightarrow> circ_ok (circ v) \<Longrightarrow> \<exists>v'. Vision_CirculeHandle (f v) = Some v' \<and> circ_ok (circ v')"
  using handle_total [of "f v"] handle_circ_ok [of "f v"] by (auto simp: new_picture_def)

text \<open>\<open>at_phase left st k c\<close>: on side \<open>left\<close>, in state \<open>st\<close> with filter \<open>k\<close>, no error counted.\<close>

definition at_phase :: "bool \<Rightarrow> int \<Rightarrow> int \<Rightarrow> Circule_Handle \<Rightarrow> bool" where
  "at_phase left st k c \<longleftrightarrow> cir_state c = st \<and> circule_left c = left \<and> (Circule_LorR c = LEFT_CIRCULE) = left \<and>
     cir_tick c = k \<and> out_n c = 0"

lemma at_phase_ok: "at_phase left st k c \<Longrightarrow> st \<in> {1, 2, 3, 5, 6} \<Longrightarrow> 0 \<le> k \<Longrightarrow> k \<le> 4 \<Longrightarrow> circ_ok c"
  by (auto simp: at_phase_def circ_ok_def)

lemma approach_state1:
  assumes "at_phase left 1 k (circ v)" and "0 \<le> k" and "k \<le> 4" and "shows_entry left v" and "Vision_CirculeHandle v = Some v'"
  shows "if k < 4 then at_phase left 1 (k + 1) (circ v') else at_phase left 2 0 (circ v')"
proof -
  have c: "circ_ok (circ v)" using at_phase_ok [OF assms(1)] assms by simp
  have sides: "cir v = left" "anti v = (\<not> left)" using assms(1) by (simp_all add: at_phase_def cir_def)
  have st: "cir_state (circ v) \<noteq> 0" "IsStrai (my_segment (side_of (anti v) v) ! 0) \<or> cir_state (circ v) \<notin> {1, 2}"
    using assms(1,4) sides by (simp_all add: at_phase_def shows_entry_def)
  from handle_cases [OF assms(5) c st] obtain w where h: "Vision_Cir_PI_Handle w = Some v'"
    "\<forall>l. border_of l w = border_of l v" "\<forall>l. side_of l w = side_of l v" "the_car w = the_car v"
    "circ w = (if cir_state (circ v) \<in> {1, 2} then (circ v)\<lparr>out_n := 0\<rparr> else circ v)" .
  note w = h(1,3,5)
  have cw: "circ w = (circ v)\<lparr>out_n := 0\<rparr>" using h(5) assms(1) by (simp add: at_phase_def)
  define u where "u = w\<lparr>cir_speed_flag := 0\<rparr>"
  have u: "circ u = (circ v)\<lparr>out_n := 0\<rparr>" "\<And>l. side_of l u = side_of l v" "cir u = left"
    using w(2) cw sides by (simp_all add: u_def cir_def)
  have "Vision_CirculeState1_Handle u = Some v'"
    using PI_cases(2) [of u w] w(1) cw assms(1) by (simp add: u_def at_phase_def)
  moreover have "circ_ok (circ u)" using c by (simp add: u(1) circ_ok_def)
  ultimately obtain s0 where s0: "seg_of (cir u) 0 u = Some s0" "circ v' =
    (if IsLose s0 then if cir_tick (circ u) = 4 then (circ u)\<lparr>cir_tick := 0, cir_state := 2\<rparr>
                       else (circ u)\<lparr>cir_tick := cir_tick (circ u) + 1\<rparr>
     else (circ u)\<lparr>cir_tick := 0\<rparr>)" using state1_circ by blast
  moreover have "IsLose s0" using s0(1) u assms(4) by (simp add: seg_of_def shows_entry_def rd_Some_iff)
  ultimately show ?thesis using assms(1-3) u(1) by (simp add: at_phase_def)
qed

lemma approach_enter:
  assumes "cir_state (circ v) = 0" and "out_n (circ v) = 0" and "circ_ok (circ v)" and "shows_entry left v"
    and "Vision_CirculeHandle v = Some v'"
  shows "at_phase left 1 1 (circ v')"
proof -
  from assms(1,5) obtain v1 where v1: "cir_enter v = Some v1" by (auto simp: Vision_CirculeHandle_def split: Option.bind_splits)
  let ?lr = "if left then LEFT_CIRCULE else RIGHT_CIRCULE"
  from v1 obtain l0 r0 where s: "seg_of True 0 v = Some l0" "seg_of False 0 v = Some r0"
    "v1 = (say [Text ''RS:Circule''] v)\<lparr>circ := (circ v)\<lparr>
      Circule_LorR := (if IsStrai l0 \<and> segment_n (side_of True v) = 1 then RIGHT_CIRCULE
        else if IsStrai r0 \<and> segment_n (side_of False v) = 1 then LEFT_CIRCULE else Circule_LorR (circ v)),
      circule_left := ((if IsStrai l0 \<and> segment_n (side_of True v) = 1 then RIGHT_CIRCULE
        else if IsStrai r0 \<and> segment_n (side_of False v) = 1 then LEFT_CIRCULE else Circule_LorR (circ v)) = LEFT_CIRCULE),
      cir_tick := 0, cir_state := Circule_State1\<rparr>\<rparr>"
    unfolding cir_enter_def Let_def bind_eq_Some_conv seg_of_def say_simps by auto
  have "l0 = my_segment (side_of True v) ! 0" "r0 = my_segment (side_of False v) ! 0"
    using s(1,2) by (simp_all add: seg_of_def rd_Some_iff)
  then have "IsStrai (if left then r0 else l0)" "\<not> IsStrai (if left then l0 else r0)" "segment_n (side_of (\<not> left) v) = 1"
    using assms(4) lose_not_strai by (auto simp: shows_entry_def)
  then have "v1 = (say [Text ''RS:Circule''] v)\<lparr>circ := (circ v)\<lparr>Circule_LorR := ?lr, circule_left := left, cir_tick := 0, cir_state := 1\<rparr>\<rparr>"
    unfolding s(3) by (cases left) (simp_all add: cir_states LEFT_CIRCULE_def RIGHT_CIRCULE_def)
  then have p: "at_phase left 1 0 (circ v1)" "shows_entry left v1"
    using assms(2,4) by (auto simp: at_phase_def LEFT_CIRCULE_def RIGHT_CIRCULE_def shows_entry_def)
  have "Vision_CirculeHandle v1 = Some v'"
    using assms(1,5) v1 p(1) by (simp add: Vision_CirculeHandle_def at_phase_def)
  from approach_state1 [OF p(1) _ _ p(2) this] show ?thesis by simp
qed

lemma approach_run:
  assumes "\<forall>f \<in> set fs. new_picture f \<and> (\<forall>v. shows_entry left (f v))" and "at_phase left 1 k (circ v)"
    and "1 \<le> k" and "k + int (length fs) = 5"
  shows "\<exists>v'. cir_run fs v = Some v' \<and> at_phase left (if fs = [] then 1 else 2) (if fs = [] then k else 0) (circ v')"
  using assms
proof (induction fs arbitrary: v k)
  case (Cons f fs)
  have k: "0 \<le> k" "k \<le> 4" using Cons.prems by auto
  have f: "new_picture f" "shows_entry left (f v)" "circ (f v) = circ v" using Cons.prems(1) by (auto simp: new_picture_def)
  have "circ_ok (circ v)" using at_phase_ok [OF Cons.prems(2)] k by simp
  from handle_defined [OF f(1) this] obtain v' where v': "Vision_CirculeHandle (f v) = Some v'" by blast
  have p: "if k < 4 then at_phase left 1 (k + 1) (circ v') else at_phase left 2 0 (circ v')"
    using approach_state1 [of left k "f v" v'] Cons.prems(2) k f v' by simp
  show ?case
  proof (cases fs)
    case Nil
    then show ?thesis using p v' Cons.prems(4) by simp
  next
    case (Cons g gs)
    then have "k < 4" using Cons.prems(4) by simp
    then have "\<exists>w. cir_run fs v' = Some w \<and> at_phase left (if fs = [] then 1 else 2) (if fs = [] then k + 1 else 0) (circ w)"
      using p Cons.prems by (intro Cons.IH) auto
    then show ?thesis using v' Cons by simp
  qed
qed simp

text \<open>The later states.\<close>

lemma later_state:
  assumes "at_phase left st 0 (circ v)" and "st \<in> {2, 3, 5, 6}" and "st = 2 \<longrightarrow> IsStrai (my_segment (side_of (\<not> left) v) ! 0)"
    and "Vision_CirculeHandle v = Some v'"
  obtains w where "w = w\<lparr>cir_speed_flag := if st = 3 \<or> st = 6 then 1 else 0\<rparr>" and "Att_CurrentYaw w = Att_CurrentYaw v"
    and "circ w = circ v" and "(if st = 2 then Some (pi_state2 w) else if st = 3 then pi_state3 w else if st = 5 then Some (pi_cor w) else pi_out w) = Some v'"
proof -
  have c: "circ_ok (circ v)" using at_phase_ok [OF assms(1)] assms(2) by auto
  have st: "cir_state (circ v) = st" "anti v = (\<not> left)" "out_n (circ v) = 0" using assms(1) by (simp_all add: at_phase_def cir_def)
  have "cir_state (circ v) \<noteq> 0" "IsStrai (my_segment (side_of (anti v) v) ! 0) \<or> cir_state (circ v) \<notin> {1, 2}"
    using st assms(2,3) by auto
  from handle_cases [OF assms(4) c this] obtain u where h: "Vision_Cir_PI_Handle u = Some v'"
    "\<forall>l. border_of l u = border_of l v" "\<forall>l. side_of l u = side_of l v" "the_car u = the_car v"
    "circ u = (if cir_state (circ v) \<in> {1, 2} then (circ v)\<lparr>out_n := 0\<rparr> else circ v)" .
  note u = h(1,4,5)
  have cu: "circ u = circ v" using u(3) st(3) by (cases "circ v") auto
  define w where "w = u\<lparr>cir_speed_flag := if st = 3 \<or> st = 6 then 1 else 0\<rparr>"
  have w: "cir_speed_flag w = (if cir_state (circ u) = 3 \<or> cir_state (circ u) = 6 then 1 else 0)" "w = u\<lparr>cir_speed_flag := cir_speed_flag w\<rparr>"
    using cu st by (simp_all add: w_def)
  have "(if st = 2 then Some (pi_state2 w) else if st = 3 then pi_state3 w else if st = 5 then Some (pi_cor w) else pi_out w) = Some v'"
    using PI_cases [OF w] u(1) cu st assms(2) by auto
  moreover have "Att_CurrentYaw w = Att_CurrentYaw v" using u(2) by (simp add: w_def Att_CurrentYaw_def)
  ultimately show ?thesis using that [of w] cu by (simp add: w_def)
qed

lemma later_step:
  assumes "at_phase left st 0 (circ v)" and "st \<in> {2, 3, 5, 6}" and "new_picture f"
    and "st = 2 \<longrightarrow> IsStrai (my_segment (side_of (\<not> left) (f v)) ! 0)"
    and "st = 3 \<longrightarrow> turned (Att_CurrentYaw (f v)) (init_angle (circ v)) (flit 65)"
    and "st = 5 \<longrightarrow> turned (Att_CurrentYaw (f v)) (init_angle (circ v)) (i2f 170)"
    and "st = 6 \<longrightarrow> turned (init_angle (circ v)) (Att_CurrentYaw (f v)) (flit 50)"
  shows "\<exists>v'. Vision_CirculeHandle (f v) = Some v' \<and>
    (if st = 6 then cir_state (circ v') = 0 \<and> Current_Road v' = NormalRoads
     else at_phase left (if st = 2 then 3 else if st = 3 then 5 else 6) 0 (circ v') \<and>
       init_angle (circ v') = Att_CurrentYaw (f v))"
proof -
  have c: "circ (f v) = circ v" using assms(3) by (simp add: new_picture_def)
  have "circ_ok (circ v)" using at_phase_ok [OF assms(1)] assms(2) by auto
  from handle_defined [OF assms(3) this] obtain v' where v': "Vision_CirculeHandle (f v) = Some v'" by blast
  have "at_phase left st 0 (circ (f v))" using assms(1) c by simp
  from later_state [OF this assms(2,4) v'] obtain w where "w = w\<lparr>cir_speed_flag := if st = 3 \<or> st = 6 then 1 else 0\<rparr>"
    and y: "Att_CurrentYaw w = Att_CurrentYaw (f v)" and cw: "circ w = circ (f v)"
    and r: "(if st = 2 then Some (pi_state2 w) else if st = 3 then pi_state3 w else if st = 5 then Some (pi_cor w) else pi_out w) = Some v'" .
  have a: "at_phase left st 0 (circ w)" "circ w = circ v" using assms(1) cw c by simp_all
  consider "st = 2" | "st = 3" | "st = 5" | "st = 6" using assms(2) by auto
  then show ?thesis
  proof cases
    case 1
    then have "v' = pi_state2 w" using r by simp
    then show ?thesis using v' pi_state2_circ [of w] a y 1 by (simp add: at_phase_def)
  next
    case 2
    then have "pi_state3 w = Some v'" using r by simp
    from pi_state3_circ [OF this] show ?thesis using v' a y assms(5) 2 by (simp add: at_phase_def)
  next
    case 3
    then have "v' = pi_cor w" using r by simp
    then show ?thesis using v' pi_cor_circ [of w] a y assms(6) 3 by (simp add: at_phase_def)
  next
    case 4
    then have "pi_out w = Some v'" using r by simp
    from pi_out_circ [OF this] show ?thesis using v' a y assms(7) 4 by (simp add: at_phase_def)
  qed
qed

text \<open>
  C5: A roundabout is driven to its end: from the beginning, with a well-formed \<open>Circule_Handle\<close> whose error counter is zero, when
  five frames with pictures in range show the side of the roundabout lost and the other side straight, and four further frames
  follow, of which the first still shows this, at yaws each of which differs by more than 65, 170 and
  50 degrees from the one before, the handler goes through its states and is back at the beginning, and the
  road is normal again; no frame is undefined on the way.
\<close>

theorem roundabout_completes:
  assumes "cir_state (circ v) = Circule_Begin" and "out_n (circ v) = 0" and "circ_ok (circ v)"
    and "length fs = 5" and "\<forall>f \<in> set fs. new_picture f \<and> (\<forall>v. shows_entry left (f v))"
    and "\<forall>f \<in> {a, b, c, d}. new_picture f"
    and "\<forall>v. shows_entry left (a v)"
    and "\<forall>v. Att_CurrentYaw (a v) = ya" and "\<forall>v. Att_CurrentYaw (b v) = yb"
    and "\<forall>v. Att_CurrentYaw (c v) = yc" and "\<forall>v. Att_CurrentYaw (d v) = yd"
    and "turned yb ya (flit 65)" and "turned yc yb (i2f 170)" and "turned yc yd (flit 50)"
  shows "\<exists>v'. cir_run (fs @ [a, b, c, d]) v = Some v' \<and> cir_state (circ v') = Circule_Begin \<and> Current_Road v' = NormalRoads"
proof -
  obtain f gs where fs: "fs = f # gs" using assms(4) by (cases fs) auto
  have f: "new_picture f" "shows_entry left (f v)" "circ (f v) = circ v" using assms(5) fs by (auto simp: new_picture_def)
  from handle_defined [OF f(1) assms(3)] obtain v1 where v1: "Vision_CirculeHandle (f v) = Some v1" by blast
  have p1: "at_phase left 1 1 (circ v1)"
    using approach_enter [of "f v" left v1] f v1 assms(1-3) by (simp add: Circule_Begin_def)
  have "\<exists>v2. cir_run gs v1 = Some v2 \<and> at_phase left (if gs = [] then 1 else 2) (if gs = [] then 1 else 0) (circ v2)"
    using approach_run [of gs left 1 v1] p1 assms(4,5) fs by simp
  then obtain v2 where v2: "cir_run gs v1 = Some v2" "at_phase left 2 0 (circ v2)" using assms(4) fs by (cases gs) auto
  from later_step [OF v2(2), of a] obtain v3 where v3: "Vision_CirculeHandle (a v2) = Some v3" "at_phase left 3 0 (circ v3)"
    "init_angle (circ v3) = ya" using assms(6-8) by (auto simp: shows_entry_def)
  from later_step [OF v3(2), of b] obtain v4 where v4: "Vision_CirculeHandle (b v3) = Some v4" "at_phase left 5 0 (circ v4)"
    "init_angle (circ v4) = yb" using assms(6,9,12) v3(3) by auto
  from later_step [OF v4(2), of c] obtain v5 where v5: "Vision_CirculeHandle (c v4) = Some v5" "at_phase left 6 0 (circ v5)"
    "init_angle (circ v5) = yc" using assms(6,10,13) v4(3) by auto
  from later_step [OF v5(2), of d] obtain v6 where v6: "Vision_CirculeHandle (d v5) = Some v6" "cir_state (circ v6) = 0"
    "Current_Road v6 = NormalRoads" using assms(6,11,14) v5(3) by auto
  show ?thesis
    using fs v1 v2(1) v3(1) v4(1) v5(1) v6 by (simp add: cir_run_append Circule_Begin_def)
qed

text \<open>A frame that shows the start picture with a given yaw.\<close>

definition show_at :: "flt \<Rightarrow> vision \<Rightarrow> vision" where
  "show_at y v = v\<lparr>borders := borders picture_zero, feat := feat picture_zero,
     the_car := car_zero\<lparr>att := (att car_zero)\<lparr>Att := State.yaw_update (\<lambda>_. y) (Att (att car_zero))\<rparr>\<rparr>\<rparr>"

lemma show_at_ok: "new_picture (show_at y)" "shows_entry False (show_at y v)" "Att_CurrentYaw (show_at y v) = y"
  by (auto simp: show_at_def new_picture_def shows_entry_def Att_CurrentYaw_def picture_ok_def border_of_def side_of_def
      picture_zero_def side_zero_def side_ok_def seg_ok_def border_ok_def seg_null_def IsNull_def IsLose_def IsStrai_def)

theorem roundabout_completes_witness:
  "\<exists>v'. cir_run (replicate 5 (show_at (Fin 0)) @ [show_at (Fin 0), show_at (Fin (- 90)), show_at (Fin (- 300)), show_at (Fin (- 360))])
       picture_zero = Some v' \<and> cir_state (circ v') = Circule_Begin \<and> Current_Road v' = NormalRoads"
proof (rule roundabout_completes [where left = False])
  show "turned (Fin (- 90)) (Fin 0) (flit 65)" "turned (Fin (- 300)) (Fin (- 90)) (i2f 170)"
    "turned (Fin (- 300)) (Fin (- 360)) (flit 50)" by code_simp+
qed (auto simp: show_at_ok picture_zero_def circ_zero_def circ_ok_def Circule_Begin_def)

text \<open>What the passes at states 3 and out leave in the picture.\<close>

lemma pi_lines:
  assumes "picture_ok v"
  shows "\<exists>v'. pi_state3 v = Some v' \<and> across (if is_left v then 0 else 187) (if is_left v then 187 else 10) v v'"
    and "\<exists>v'. pi_out v = Some v' \<and> across (if is_left v then 0 else 186) (if is_left v then 180 else 20) v v'"
proof -
  have b: "\<forall>left. border_ok (border_of left v)" using assms by (simp add: picture_ok_def)
  have k: "across y0 y1 v (set_state n (say xs (set_angle (give_right w)))) = across y0 y1 v w"
    "across y0 y1 v ((set_state n (say xs (give_right w)))\<lparr>Current_Road := r\<rparr>) = across y0 y1 v w" for y0 y1 n xs w r
    by (simp_all add: across_def set_angle_def give_right_def)
  from straight_across_ok [OF b, of "if is_left v then 0 else 187" "if is_left v then 187 else 10"]
  show "\<exists>v'. pi_state3 v = Some v' \<and> across (if is_left v then 0 else 187) (if is_left v then 187 else 10) v v'"
    by (auto simp: pi_state3_def k simp del: side_frames(4))
  from straight_across_ok [OF b, of "if is_left v then 0 else 186" "if is_left v then 180 else 20"]
  show "\<exists>v'. pi_out v = Some v' \<and> across (if is_left v then 0 else 186) (if is_left v then 180 else 20) v v'"
    by (auto simp: pi_out_def k simp del: side_frames(4))
qed

end
