(* ===== verification/Frame.thy ===== *)
theory Frame
  imports Circule
begin

text \<open>
  The parts of a frame together: what \<open>Vision_SymbolJudge\<close> makes of a straight road, and what the frame
  then hands to the line tracer; and the corner handler.
\<close>

section \<open>A straight border\<close>

text \<open>Every row within four columns of the line through the ends.\<close>

definition straight_rows :: "(int \<Rightarrow> int) \<Rightarrow> bool" where
  "straight_rows f \<longleftrightarrow> (\<forall>i. 0 \<le> i \<longrightarrow> i < 70 \<longrightarrow> \<bar>69 * (f i - f 0) - i * (f 69 - f 0)\<bar> \<le> 275)"

lemma IsStraight_rows:
  assumes "border_ok b" and "straight_rows (\<lambda>i. b ! nat i)"
  shows "Line_IsStraight b 69 0 = Some 1"
proof -
  have len: "length b = 70" and v: "0 \<le> b ! 0" "b ! 0 \<le> 187" "0 \<le> b ! 69" "b ! 69 \<le> 187"
    using border_ok_nth [OF assms(1), of 0] border_ok_nth [OF assms(1), of 69] assms(1) by (simp_all add: border_ok_def)
  let ?K = "Line_CalK (point 69 (b ! 69)) (point 0 (b ! 0))"
  have K: "Point_CalSlope \<lparr>pt_x = 0, pt_y = b ! 0\<rparr> \<lparr>pt_x = 69, pt_y = b ! 69\<rparr> = ?K"
    using slope_back [of "b ! 69 - b ! 0" 69] v by (simp add: Point_CalSlope_def Line_CalK_def point_def s16_id)
  have "for_break (\<lambda>i _. do {
          b0 \<leftarrow> rd b 0;
          target_value \<leftarrow> f2s16 (fadd (i2f b0) (fmul ?K (i2f i)));
          bi \<leftarrow> rd b i;
          Some (if flt_gt (fl_abs (i2f (bi - target_value))) (i2f Math_StraightJudgeValue) then Inl NOTSTRAIGHT else Inr ())
        }) [0..68] () = Some (Inr ())"
  proof (rule for_break_Inr)
    fix i s assume "i \<in> set [0..68]"
    then have i: "0 \<le> i" "i \<le> 69" "i < 70" by auto
    obtain n where n: "f2s16 (fadd (i2f (b ! 0)) (fmul ?K (i2f i))) = Some n" "0 \<le> n" "n \<le> 187" "near_chord b 0 69 i n"
      using chord_row_value [OF assms(1), of 0 69 i] i K by (auto simp: fadd_comm fmul_comm)
    have bi: "0 \<le> b ! nat i" "b ! nat i \<le> 187" using border_ok_nth [OF assms(1) i(1,3)] by simp_all
    have "\<bar>69 * (b ! nat i - b ! 0) - i * (b ! 69 - b ! 0)\<bar> \<le> 275" using assms(2) i by (simp add: straight_rows_def)
    then have "\<bar>of_int (69 * (b ! nat i - b ! 0) - i * (b ! 69 - b ! 0))\<bar> \<le> (of_int 275 :: rat)"
      unfolding of_int_abs [symmetric] by (simp only: of_int_le_iff)
    moreover have "\<bar>69 * of_int n - (69 * of_int (b ! 0) + of_int i * (of_int (b ! 69) - of_int (b ! 0)))\<bar> \<le> (69 * (101 / 100) :: rat)"
      using n(4) by (simp add: near_chord_def abs_le_iff field_simps)
    ultimately have "\<bar>69 * (of_int (b ! nat i) - of_int n)\<bar> < (69 * 6 :: rat)"
      unfolding abs_le_iff abs_less_iff by (auto simp: algebra_simps)
    then have "\<bar>of_int (b ! nat i - n)\<bar> < (of_int 6 :: rat)" by (simp add: abs_less_iff)
    then have d: "\<bar>b ! nat i - n\<bar> \<le> 5" unfolding of_int_abs [symmetric] by (simp only: of_int_less_iff)
    then have "i2f (b ! nat i - n) = Fin (of_int (b ! nat i - n))" by (intro i2f_exact) simp
    moreover have "\<bar>of_int (b ! nat i - n)\<bar> \<le> (of_int 5 :: rat)"
      using d unfolding of_int_abs [symmetric] by (simp only: of_int_le_iff)
    ultimately show "do {
          b0 \<leftarrow> rd b 0;
          target_value \<leftarrow> f2s16 (fadd (i2f b0) (fmul ?K (i2f i)));
          bi \<leftarrow> rd b i;
          Some (if flt_gt (fl_abs (i2f (bi - target_value))) (i2f Math_StraightJudgeValue) then Inl NOTSTRAIGHT else Inr ())
        } = Some (Inr s)"
      using n(1) len i by (simp add: Math_StraightJudgeValue_def i2f_exact)
  qed
  then show ?thesis
    using len by (simp add: Line_IsStraight_def Tool_CmpMax_def Tool_CmpMin_def s16_id ISSTRAIGHT_def del: upto_rec_numeral)
qed

text \<open>The feature tables of a side whose border is one straight segment.\<close>

definition straight_side :: "side \<Rightarrow> bool" where
  "straight_side t \<longleftrightarrow> segment_n t = 1 \<and> FP_n t = 0 \<and>
     my_segment t = \<lparr>seg_begin = 69, seg_end = 0, seg_type = straight_segment, position = NEAR\<rparr> # replicate 9 seg_null"

definition free_rows :: "(int \<Rightarrow> int) \<Rightarrow> bool" where
  "free_rows f \<longleftrightarrow> (\<forall>i. 0 \<le> i \<longrightarrow> i < 70 \<longrightarrow> 5 < f i \<and> f i < 182)"

lemma GetSegment_straight:
  assumes "free_rows (\<lambda>i. b ! nat i)" and "straight_rows (\<lambda>i. b ! nat i)" and "border_ok b" and "length (my_segment t) = 10"
  shows "Vision_GetSegment junk LorR b t =
    Some (b, t\<lparr>segment_n := 1, my_segment := \<lparr>seg_begin = 69, seg_end = 0, seg_type = straight_segment, position = NEAR\<rparr> # replicate 9 seg_null\<rparr>)"
proof -
  have len: "length b = 70" using assms(3) by (simp add: border_ok_def)
  have "run_layout LorR b 69 [(False, 70)]"
    using assms(1) by (auto simp: free_rows_def in_run_def list_all_iff simp del: upto_rec_numeral)
  from GetSegment_layout [OF len assms(4) this] show ?thesis
    using IsStraight_rows [OF assms(3,2)] by (simp add: labelled_def seg_labels_def seg_label_def IsNull_def)
qed

lemma BroderFindFP_straight:
  assumes "length (feature_p t) = 5" and "segment_n t = 1"
    and "my_segment t = \<lparr>seg_begin = 69, seg_end = 0, seg_type = straight_segment, position = NEAR\<rparr> # replicate 9 seg_null"
  shows "\<exists>ps. Vision_BroderFindFP j1 j2 b t = Some (b, t\<lparr>FP_n := 0, feature_p := ps\<rparr>)"
  using clear_points [of "feature_p t"] assms
  by (auto simp: Vision_BroderFindFP_def IsLose_def IsArc_def seg_null_def)

section \<open>The frame of a straight road\<close>

lemma few_edges:
  assumes "clean_image img T l r"
  shows "Vision_IsZebra img T = Some 0"
proof -
  have ok: "image_ok img" using assms by (simp add: clean_image_def)
  have "i = l 60 \<or> i = r 60 - 1" if "edge_at img T i" "31 \<le> i" "i \<le> 157" for i
  proof (rule ccontr)
    assume "\<not> ?thesis"
    then have "(l 60 < i \<and> i < r 60) = (l 60 < i + 1 \<and> i + 1 < r 60)" by auto
    moreover have "if l 60 < j \<and> j < r 60 then img ! 60 ! nat j > T else img ! 60 ! nat j < T" if "0 \<le> j" "j < 188" for j
      using assms that by (force simp: clean_image_def dest: spec [of _ 60])
    from this [of i] this [of "i + 1"] that(2,3)
    have "if l 60 < i \<and> i < r 60 then img ! 60 ! nat i > T else img ! 60 ! nat i < T"
      "if l 60 < i + 1 \<and> i + 1 < r 60 then img ! 60 ! nat (i + 1) > T else img ! 60 ! nat (i + 1) < T" by simp_all
    ultimately show False using that(1) by (auto simp: edge_at_def split: if_splits)
  qed
  then have "set (filter (edge_at img T) [31..157]) \<subseteq> {l 60, r 60 - 1}" by (auto simp del: upto_rec_numeral)
  then have "card (set (filter (edge_at img T) [31..157])) \<le> card {l 60, r 60 - 1}" by (intro card_mono) simp_all
  also have "\<dots> \<le> 2" using card_insert_le_m1 [of 2 "{r 60 - 1}" "l 60"] by simp
  also have "card (set (filter (edge_at img T) [31..157])) = length (filter (edge_at img T) [31..157])"
    by (intro distinct_card distinct_filter) (rule distinct_upto)
  finally show ?thesis using IsZebra_count [OF ok, of T] by (simp del: upto_rec_numeral split: if_splits)
qed

lemma same_border [simp]: "set_border s (border_of s v) v = v"
  by (simp add: set_border_def border_of_def)

lemma segment_side_straight:
  assumes "free_rows (\<lambda>i. border_of s v ! nat i)" and "straight_rows (\<lambda>i. border_of s v ! nat i)"
    and "border_ok (border_of s v)" and "length (my_segment (side_of s v)) = 10"
  shows "\<exists>t. segment_side g s v = Some (set_side s t v) \<and> segment_n t = 1 \<and> feature_p t = feature_p (side_of s v) \<and>
    my_segment t = \<lparr>seg_begin = 69, seg_end = 0, seg_type = straight_segment, position = NEAR\<rparr> # replicate 9 seg_null"
  by (rule exI [of _ "(side_of s v)\<lparr>segment_n := 1, my_segment := \<lparr>seg_begin = 69, seg_end = 0, seg_type = straight_segment,
    position = NEAR\<rparr> # replicate 9 seg_null\<rparr>"]) (simp add: segment_side_def GetSegment_straight [OF assms])

lemma feature_side_straight:
  assumes "length (feature_p (side_of s v)) = 5" and "segment_n (side_of s v) = 1"
    and "my_segment (side_of s v) = \<lparr>seg_begin = 69, seg_end = 0, seg_type = straight_segment, position = NEAR\<rparr> # replicate 9 seg_null"
  shows "\<exists>t. feature_side g s v = Some (set_side s t v) \<and> straight_side t"
  using BroderFindFP_straight [OF assms, of "fst (aver_junk g s)" "snd (aver_junk g s)" "border_of s v"] assms
  by (auto simp: feature_side_def straight_side_def)

lemma classify_straight:
  assumes "straight_side (side_of True v)" and "straight_side (side_of False v)" and "Vision_IsZebra img T = Some 0"
  shows "classify_road img T v = Some NormalRoads"
  using assms by (simp add: classify_road_def straight_side_def one_straight_one_lost_def CornerState1_def CornerState2_def
      CornerState3_def CrossCon1_def CrossCon2_def CrossCon3_def CrossCon4_def seg_of_def IsLose_def IsStrai_def IsArcCorner_def
      IsArc_def seg_null_def)

lemma set_side_simps [simp]:
  "side_of s (set_side s t v) = t" "side_of True (set_side False t v) = side_of True v"
  "side_of False (set_side True t v) = side_of False v" "border_of s (set_side s' t v) = border_of s v"
  "Current_Road (set_side s t v) = Current_Road v" "the_car (set_side s t v) = the_car v" "circ (set_side s t v) = circ v"
  "borders (set_side s t v) = borders v" "borders (say xs v) = borders v"
  by (auto simp: side_of_def set_side_def border_of_def say_def)

lemma borders_upd: "side_of s (v\<lparr>borders := x\<rparr>) = side_of s v"
  by (simp add: side_of_def)

lemma SymbolJudge_straight:
  assumes "\<forall>s. free_rows (\<lambda>i. border_of s v ! nat i) \<and> straight_rows (\<lambda>i. border_of s v ! nat i) \<and> border_ok (border_of s v)"
    and "\<forall>s. length (my_segment (side_of s v)) = 10 \<and> length (feature_p (side_of s v)) = 5"
    and "Vision_IsZebra img T = Some 0" and "Current_Road v = NormalRoads"
  shows "\<exists>v'. Vision_SymbolJudge g img T v = Some v' \<and> borders v' = borders v \<and> Current_Road v' = NormalRoads \<and>
    the_car v' = the_car v \<and> circ v' = circ v \<and> straight_side (side_of True v') \<and> straight_side (side_of False v')"
proof -
  obtain t1 where 1: "segment_side g True v = Some (set_side True t1 v)" "segment_n t1 = 1"
      "feature_p t1 = feature_p (side_of True v)"
      "my_segment t1 = \<lparr>seg_begin = 69, seg_end = 0, seg_type = straight_segment, position = NEAR\<rparr> # replicate 9 seg_null"
    using segment_side_straight [of True v g] assms(1,2) by metis
  let ?v1 = "set_side True t1 v"
  obtain t2 where 2: "segment_side g False ?v1 = Some (set_side False t2 ?v1)" "segment_n t2 = 1"
      "feature_p t2 = feature_p (side_of False ?v1)"
      "my_segment t2 = \<lparr>seg_begin = 69, seg_end = 0, seg_type = straight_segment, position = NEAR\<rparr> # replicate 9 seg_null"
    using segment_side_straight [of False ?v1 g] assms(1,2) by (simp only: set_side_simps) metis
  let ?v2 = "set_side False t2 ?v1"
  obtain t3 where 3: "feature_side g True ?v2 = Some (set_side True t3 ?v2)" "straight_side t3"
    using feature_side_straight [of True ?v2 g] assms(2) 1 by (simp only: set_side_simps) metis
  let ?v3 = "set_side True t3 ?v2"
  obtain t4 where 4: "feature_side g False ?v3 = Some (set_side False t4 ?v3)" "straight_side t4"
    using feature_side_straight [of False ?v3 g] assms(2) 2 by (simp only: set_side_simps) metis
  let ?v4 = "set_side False t4 ?v3"
  have c: "classify_road img T (say xs ?v4) = Some NormalRoads" for xs
    by (rule classify_straight [OF _ _ assms(3)]) (simp_all add: 3 4)
  show ?thesis
    using 3(2) 4(2) assms(4) by (simp add: Vision_SymbolJudge_def 1(1) 2(1) 3(1) 4(1) c Let_def)
qed

lemma mid_table_value:
  assumes "length (leftBroder s) = 70" and "length (rightBroder s) = 70" and "length (MID_Table s) = 70"
    and "\<forall>i. 0 \<le> i \<longrightarrow> i < 70 \<longrightarrow> 0 \<le> leftBroder s ! nat i \<and> leftBroder s ! nat i \<le> 187 \<and>
      0 \<le> rightBroder s ! nat i \<and> rightBroder s ! nat i \<le> 187"
  shows "mid_table s = Some (s\<lparr>MID_Table := map (\<lambda>i. (leftBroder s ! nat i + rightBroder s ! nat i) div 2) [0..69]\<rparr>)"
proof -
  have "for_each (\<lambda>i m. do { r \<leftarrow> rd (rightBroder s) i; l \<leftarrow> rd (leftBroder s) i; wr m i (s16 ((r + l) sdiv 2)) })
      (downto 69 0) (MID_Table s) =
    for_each (\<lambda>i m. wr m i ((leftBroder s ! nat i + rightBroder s ! nat i) div 2)) (downto 69 0) (MID_Table s)"
  proof (rule for_each_cong)
    fix i :: int and m :: "int list" assume "i \<in> set (downto 69 0)"
    then have i: "0 \<le> i" "i < 70" by auto
    let ?l = "leftBroder s ! nat i" and ?r = "rightBroder s ! nat i"
    have v: "0 \<le> ?l" "?l \<le> 187" "0 \<le> ?r" "?r \<le> 187" using assms(4) i by auto
    then have "s16 ((?r + ?l) sdiv 2) = (?l + ?r) div 2" by (simp add: sdiv_nonneg s16_id add.commute)
    with i assms(1,2) show "do { r \<leftarrow> rd (rightBroder s) i; l \<leftarrow> rd (leftBroder s) i; wr m i (s16 ((r + l) sdiv 2)) } =
      wr m i ((?l + ?r) div 2)" by simp
  qed
  then show ?thesis
    using fill_down [OF assms(3), of "\<lambda>i. (leftBroder s ! nat i + rightBroder s ! nat i) div 2"]
    by (simp add: mid_table_def imgRow_def del: upto_rec_numeral)
qed

lemma copy_table_ok: "length tab = 70 \<Longrightarrow> copy_table tab = Some (map (\<lambda>i. tab ! nat i) [0..69])"
  using those_map_Some [of "[0..69]" "rd tab" "\<lambda>i. tab ! nat i"] by (simp add: copy_table_def imgRow_def del: upto_rec_numeral)

lemma draw_tables_total:
  assumes "length (leftBroder s) = 70" and "length (rightBroder s) = 70" and "length (MID_Table s) = 70"
  shows "\<exists>ds. draw_tables s = Some ds"
proof -
  let ?l = "map (\<lambda>i. leftBroder s ! nat i) [0..69]" and ?r = "map (\<lambda>i. rightBroder s ! nat i) [0..69]"
    and ?m = "map (\<lambda>i. MID_Table s ! nat i) [0..69]"
  have p1: "\<exists>p. ips200_draw_point (draw_clip v) i c = Some p" if "0 \<le> i" "i < 70" for v i c
    using that draw_point_ok [of "draw_clip v" i c] by (auto simp: draw_clip_def)
  have p2: "\<exists>p. ips200_draw_point 94 i c = Some p" if "0 \<le> i" "i < 70" for i c
    using that draw_point_ok [of 94 i c] by simp
  have "\<exists>ds. for_each (\<lambda>i out. do {
        m \<leftarrow> rd ?m i; l \<leftarrow> rd ?l i; r \<leftarrow> rd ?r i;
        a \<leftarrow> ips200_draw_point (draw_clip m) i RGB565_RED;
        b \<leftarrow> ips200_draw_point (draw_clip l) i RGB565_BLUE;
        c \<leftarrow> ips200_draw_point (draw_clip r) i RGB565_BROWN;
        d \<leftarrow> ips200_draw_point 94 i RGB565_GREEN;
        Some (out @ [a, b, c, d]) }) (downto (imgRow - 1) 1) [] = Some ds \<and> True"
  proof (rule for_each_inv)
    fix i and out :: "pixel list"
    assume "i \<in> set (downto (imgRow - 1) 1)"
    then have i: "0 \<le> i" "i < 70" by (auto simp: imgRow_def)
    obtain a b c d where "ips200_draw_point (draw_clip (MID_Table s ! nat i)) i RGB565_RED = Some a"
      "ips200_draw_point (draw_clip (leftBroder s ! nat i)) i RGB565_BLUE = Some b"
      "ips200_draw_point (draw_clip (rightBroder s ! nat i)) i RGB565_BROWN = Some c"
      "ips200_draw_point 94 i RGB565_GREEN = Some d" using p1 [OF i] p2 [OF i] by metis
    then show "\<exists>out'. do {
        m \<leftarrow> rd ?m i; l \<leftarrow> rd ?l i; r \<leftarrow> rd ?r i;
        a \<leftarrow> ips200_draw_point (draw_clip m) i RGB565_RED;
        b \<leftarrow> ips200_draw_point (draw_clip l) i RGB565_BLUE;
        c \<leftarrow> ips200_draw_point (draw_clip r) i RGB565_BROWN;
        d \<leftarrow> ips200_draw_point 94 i RGB565_GREEN;
        Some (out @ [a, b, c, d]) } = Some out' \<and> True" using i by (simp del: upto_rec_numeral)
  qed simp
  then show ?thesis
    using assms by (simp add: draw_tables_def copy_table_ok del: upto_rec_numeral)
qed

lemma line_total:
  "0 \<le> x0 \<Longrightarrow> x0 < 320 \<Longrightarrow> 0 \<le> y0 \<Longrightarrow> y0 < 240 \<Longrightarrow> 0 \<le> x1 \<Longrightarrow> x1 < 320 \<Longrightarrow> 0 \<le> y1 \<Longrightarrow> y1 < 240 \<Longrightarrow>
    \<exists>ps. ips200_draw_line x0 y0 x1 y1 c = Some ps"
  using draw_line_near [of x0 y0 x1 y1 c] by blast

lemma bind_total: "\<exists>x. m = Some x \<Longrightarrow> (\<And>x. \<exists>y. f x = Some y) \<Longrightarrow> \<exists>y. Option.bind m f = Some y"
  by auto

lemma flat_image: "image_ok img \<Longrightarrow> length (concat img) = 70 * 188"
  using length_concat_const [of img 188] by (simp add: image_ok_def)

lemma Vision_Draw_total:
  assumes "image_ok img" and "image_ok bw"
    and "length (leftBroder s) = 70" and "length (rightBroder s) = 70" and "length (MID_Table s) = 70"
  shows "\<exists>ds. Vision_Draw img bw s = Some ds"
proof -
  have gray: "\<exists>ps. ips200_show_gray_image 0 y (concat i) imgCol imgRow 188 70 0 = Some ps" if "image_ok i" "0 \<le> y" "y \<le> 170" for i y
    using gray_image_own_size [of 0 188 y 70 "concat i" 0] that flat_image [of i] by (simp add: imgRow_def imgCol_def del: upto_rec_numeral)
  show ?thesis
    unfolding Vision_Draw_def
    by (intro bind_total gray line_total draw_tables_total exI refl) (use assms in simp_all)
qed

lemma straight_road:
  assumes "clean_image img T l r" and "clean_track l r" and "free_rows l" and "free_rows r" and "straight_rows l" and "straight_rows r"
    and "\<forall>s. length (my_segment (side_of s v)) = 10 \<and> length (feature_p (side_of s v)) = 5"
    and "Current_Road v = NormalRoads" and "image_ok bw"
  shows "\<exists>v' ds. vision_frame g between now now2 bw img T v = Some (Inr (v', ds)) \<and>
    leftBroder (borders v') = map l [0..69] \<and> rightBroder (borders v') = map r [0..69] \<and>
    MID_Table (borders v') = map (\<lambda>i. (l i + r i) div 2) [0..69] \<and>
    Current_Road v' = NormalRoads \<and> the_car v' = the_car v \<and> circ v' = circ v"
proof -
  obtain road where road: "Camera_FindMyLine img T (borders v) = Some road" "leftBroder road = map l [0..69]"
      "rightBroder road = map r [0..69]" "length (MID_Table road) = 70"
    using FindMyLine_clean [OF assms(1,2)] by blast
  let ?v = "v\<lparr>borders := road\<rparr>"
  have rows: "map f [0..69] ! nat i = f i" if "0 \<le> i" "i < 70" for f :: "int \<Rightarrow> int" and i
    using that by (simp del: upto_rec_numeral)
  have ok: "free_rows (\<lambda>i. map f [0..69] ! nat i) \<and> straight_rows (\<lambda>i. map f [0..69] ! nat i) \<and> border_ok (map f [0..69])"
    if "free_rows f" "straight_rows f" for f
    using that rows [of _ f] by (auto simp: free_rows_def straight_rows_def border_ok_def simp del: upto_rec_numeral)
  have "\<forall>s. free_rows (\<lambda>i. border_of s ?v ! nat i) \<and> straight_rows (\<lambda>i. border_of s ?v ! nat i) \<and> border_ok (border_of s ?v)"
    using ok [OF assms(3,5)] ok [OF assms(4,6)] by (simp add: border_of_def road)
  moreover have "\<forall>s. length (my_segment (side_of s ?v)) = 10 \<and> length (feature_p (side_of s ?v)) = 5"
    using assms(7) by (simp add: borders_upd)
  ultimately obtain v' where v': "Vision_SymbolJudge g img T ?v = Some v'" "borders v' = road" "Current_Road v' = NormalRoads"
      "the_car v' = the_car v" "circ v' = circ v"
    using SymbolJudge_straight [OF _ _ few_edges [OF assms(1)], of ?v g] assms(8) by auto
  let ?m = "map (\<lambda>i. (leftBroder road ! nat i + rightBroder road ! nat i) div 2) [0..69]"
  have "mid_table road = Some (road\<lparr>MID_Table := ?m\<rparr>)"
    using assms(3,4) rows by (intro mid_table_value) (auto simp: road free_rows_def simp del: upto_rec_numeral)
  moreover have "?m = map (\<lambda>i. (l i + r i) div 2) [0..69]" by (simp add: road rows del: upto_rec_numeral)
  moreover have "image_ok img" using assms(1) by (simp add: clean_image_def)
  then obtain ds where "Vision_Draw img bw (road\<lparr>MID_Table := ?m\<rparr>) = Some ds"
    using Vision_Draw_total [OF _ assms(9), of img "road\<lparr>MID_Table := ?m\<rparr>"] by (auto simp: road simp del: upto_rec_numeral)
  ultimately show ?thesis
    using v' by (simp add: vision_frame_def road Vision_RSHandle_def say_def del: upto_rec_numeral)
qed


text \<open>
  The frame of a straight road: for a binary picture with a clean track whose borders are straight to within
  four columns and stay six columns away from the sides of the image, whatever the state of the road tables,
  the frame runs through without an error, finds the borders, calls the road normal, hands the middle of the
  track to the line tracer row by row, and changes neither the car nor the roundabout.
\<close>

theorem straight_road_frame:
  assumes "clean_image img T l r" and "clean_track l r" and "free_rows l" and "free_rows r" and "straight_rows l" and "straight_rows r"
    and "\<forall>s. length (my_segment (side_of s v)) = 10 \<and> length (feature_p (side_of s v)) = 5"
    and "Current_Road v = NormalRoads" and "image_ok bw"
  shows "\<exists>v' ds. vision_frame g between now now2 bw img T v = Some (Inr (v', ds)) \<and>
    leftBroder (borders v') = map l [0..69] \<and> rightBroder (borders v') = map r [0..69] \<and>
    MID_Table (borders v') = map (\<lambda>i. (l i + r i) div 2) [0..69] \<and>
    Current_Road v' = NormalRoads \<and> the_car v' = the_car v \<and> circ v' = circ v"
  using straight_road [OF assms] .

theorem straight_road_frame_witness:
  "\<exists>v' ds. vision_frame \<lparr>mono_junk = \<lambda>_ _. 0, aver_junk = \<lambda>_. (0, 0)\<rparr> (\<lambda>c. c) 0 0 straight_image straight_image 128 (picture_zero\<lparr>Current_Road := NormalRoads\<rparr>) = Some (Inr (v', ds)) \<and>
    leftBroder (borders v') = map (\<lambda>_. 50) [0..69] \<and> rightBroder (borders v') = map (\<lambda>_. 140) [0..69] \<and>
    MID_Table (borders v') = map (\<lambda>i. (50 + 140) div 2) [0..69] \<and>
    Current_Road v' = NormalRoads \<and> the_car v' = the_car (picture_zero\<lparr>Current_Road := NormalRoads\<rparr>) \<and>
    circ v' = circ (picture_zero\<lparr>Current_Road := NormalRoads\<rparr>)"
  by (rule straight_road_frame)
    (auto simp: clean_image_def clean_track_def straight_image_def image_ok_def nth_append nat_less_iff free_rows_def straight_rows_def
      picture_zero_def side_of_def side_zero_def)

section \<open>The corner handler\<close>

lemma change_border_same: "f (border_of s v) = Some (border_of s v) \<Longrightarrow> change_border s f v = Some v"
  by (simp add: change_border_def)

text \<open>
  The corner handler does nothing but call the road normal: on every picture whose left side, where its
  second segment is lost, already holds the lost value (as the segmentation leaves it), no border is changed.  The right
  side is never written, because the tests that would lead there compare an array with a number.
\<close>

theorem corner_has_no_effect:
  assumes "picture_ok v" and "seg_of True 1 v = Some l1"
    and "IsLose l1 \<longrightarrow> (\<forall>i. seg_end l1 < i \<and> i \<le> seg_begin l1 \<longrightarrow> 0 \<le> i \<and> i < 70 \<and> border_of True v ! nat i = LEFT_LOSE_VALUE)"
  shows "Vision_CornerHandle v = Some (v\<lparr>Current_Road := NormalRoads\<rparr>)"
proof -
  have len: "length (my_segment (side_of s v)) = 10" "length (border_of s v) = 70" for s
    using assms(1) by (simp_all add: picture_ok_def side_ok_def border_ok_def)
  have "put_rows True l1 v = Some v" if "IsLose l1"
    unfolding put_rows_def
    by (intro change_border_same for_each_same put_same) (use assms(3) that len in \<open>auto simp del: upto_rec_numeral\<close>)
  moreover obtain l0 r0 r1 where s: "seg_of True 0 v = Some l0" "seg_of False 0 v = Some r0" "seg_of False 1 v = Some r1"
    using len by (simp add: seg_of_def)
  ultimately show ?thesis
    using assms(2) len by (auto simp: Vision_CornerHandle_def CornerState1_def CornerState2_def CornerState3_def array_is_def IsLose_def IsArcCorner_def)
qed

theorem corner_has_no_effect_witness:
  "Vision_CornerHandle picture_zero = Some (picture_zero\<lparr>Current_Road := NormalRoads\<rparr>)"
  by (rule corner_has_no_effect [where ?l1.0 = seg_null])
    (auto simp: picture_ok_def picture_zero_def border_of_def side_of_def seg_of_def side_ok_def border_ok_def side_zero_def seg_ok_def
      seg_null_def IsLose_def IsNull_def fp_ok_def point_def)

end
