(* ===== verification/TraceLine.thy ===== *)
theory TraceLine
  imports Frame Uart
begin

text \<open>
  The line tracer (\<open>code/src/trace_line.c\<close>): the weighted offset of the middle line from the middle of the
  image, the two controllers that turn it into a sideways speed and a turn rate, and the thread that runs
  the frame, hands the car over when a box was detected and later asks for the next detection.
\<close>

section \<open>State\<close>

text \<open>\<open>tl_tick\<close> and \<open>push_flag\<close> are the statics of \<open>trace_line_entry\<close>.\<close>

record trace =
  TraceLine_Yaw_Con :: Pos_PID_t
  TraceLine_Vx_Con :: Pos_PID_t
  TraceLine_Normal_Con :: Pos_PID_t
  TraceLine_Aver_Offset :: flt
  quan :: flt
  tl_tick :: int
  push_flag :: int

definition trace_zero :: trace where
  "trace_zero = \<lparr>TraceLine_Yaw_Con = Pos_PID_zero, TraceLine_Vx_Con = Pos_PID_zero, TraceLine_Normal_Con = Pos_PID_zero,
     TraceLine_Aver_Offset = Fin 0, quan = Fin 0, tl_tick = 0, push_flag = 0\<rparr>"

text \<open>The threads' common state: what the camera sees and does, the tracer, the link to the box camera.\<close>

record robot =
  sight :: vision
  trc :: trace
  mcx_link :: mcx
  mt9v03x_finish_flag :: int

definition BASIC_SPEED :: int where "BASIC_SPEED = 400"
definition Cir_SPEED :: int where "Cir_SPEED = 100"

section \<open>Steering\<close>

text \<open>
  The function has no \<open>return\<close> after the loop: \<open>None\<close> as its value.  \<open>0.3*imgRow\<close> is a \<open>double\<close>.
\<close>

definition speed_decision_mark :: "RoadLine_t \<Rightarrow> trace \<Rightarrow> (int option \<times> trace) option" where
  "speed_decision_mark s t =
    do {
      (lose_seq, t) \<leftarrow> for_each (\<lambda>i (n, t). do {
          l \<leftarrow> rd (leftBroder s) i;
          both \<leftarrow> (if l = LEFT_LOSE_VALUE then do { r \<leftarrow> rd (rightBroder s) i; Some (r = RIGHT_LOSE_VALUE) } else Some False);
          if both then Some (u8 (n + 1), t)
          else
            do {
              m \<leftarrow> rd (MID_Table s) i;
              Some (n, t\<lparr>TraceLine_Aver_Offset := fadd (TraceLine_Aver_Offset t)
                (i2f ((imgCol sdiv 2 - m) * (i + 1) * (i + 1) sdiv imgRow sdiv imgRow))\<rparr>)
            }
        }) (downto (imgRow - 1) 0) (0, t);
      Some (if flt_ge (i2d lose_seq) (dmul (dlit (3 / 10)) (i2d imgRow)) then Some 250 else None, t)
    }"

text \<open>The weight of a row, \<open>1 - ((i + 1) / imgRow - 1) ^ 2\<close>.\<close>

definition row_weight :: "int \<Rightarrow> flt" where
  "row_weight i =
    (let d = fsub (fdiv (i2f (i + 1)) (i2f imgRow)) (i2f 1) in fsub (i2f 1) (fmul d d))"

definition offset_row :: "RoadLine_t \<Rightarrow> int \<Rightarrow> trace \<times> int \<Rightarrow> (trace \<times> int) option" where
  "offset_row s i q = (case q of (t, valid_line) \<Rightarrow>
    do {
      l \<leftarrow> rd (leftBroder s) i;
      seen \<leftarrow> (if l \<noteq> LEFT_LOSE_VALUE then Some True else do { r \<leftarrow> rd (rightBroder s) i; Some (r \<noteq> RIGHT_LOSE_VALUE) });
      if seen then
        do {
          let t = t\<lparr>quan := row_weight i\<rparr>;
          m \<leftarrow> rd (MID_Table s) i;
          Some (t\<lparr>TraceLine_Aver_Offset := fadd (TraceLine_Aver_Offset t) (fmul (i2f (imgCol sdiv 2 - m)) (quan t))\<rparr>,
                u16 (valid_line + 1))
        }
      else Some (t, valid_line)
    })"

definition mean_offset :: "RoadLine_t \<Rightarrow> trace \<Rightarrow> trace option" where
  "mean_offset s t =
    do {
      let row_begin = 20;
      (t, valid_line) \<leftarrow> for_each (offset_row s) (downto (imgRow - 1) row_begin) (t, 0);
      Some (t\<lparr>TraceLine_Aver_Offset := if valid_line \<noteq> 0 then fdiv (TraceLine_Aver_Offset t) (i2f valid_line) else i2f 0\<rparr>)
    }"

text \<open>\<open>icm20602_gyro_z/100\<close> is a division of integers.\<close>

definition steer :: "vision \<Rightarrow> trace \<Rightarrow> vision \<times> trace" where
  "steer v t =
    (let (yaw_now, p) = Pos_PID_Controller (TraceLine_Normal_Con t)
           (fsub (TraceLine_Aver_Offset t) (i2f (gyro_z (icm20602 (att (the_car v))) sdiv 100)));
         t = t\<lparr>TraceLine_Normal_Con := p\<rparr>;
         (vx, p) = Pos_PID_Controller (TraceLine_Vx_Con t) (TraceLine_Aver_Offset t);
         t = t\<lparr>TraceLine_Vx_Con := p\<rparr>;
         speed_now = i2f (if Current_Road v = CirculeRoads \<and> cir_speed_flag v \<noteq> 0 then Cir_SPEED else BASIC_SPEED);
         speed_now = (if flt_less speed_now (i2f 0) then i2f 0 else speed_now)
     in (v\<lparr>the_car := Car_Change_Speed vx speed_now yaw_now (the_car v)\<rparr>, t\<lparr>TraceLine_Aver_Offset := i2f 0\<rparr>))"

definition trace_line_method :: "vision \<Rightarrow> trace \<Rightarrow> (vision \<times> trace) option" where
  "trace_line_method v t =
    (if Car_Speed_ConRight (the_car v) = Con_By_TraceLine then
       do { t \<leftarrow> mean_offset (borders v) t; Some (steer v t) }
     else Some (v, t))"

section \<open>Start and thread\<close>

definition trace_pid :: "Pos_PID_t \<Rightarrow> flt \<Rightarrow> flt \<Rightarrow> int \<Rightarrow> Pos_PID_t" where
  "trace_pid p kp kd out =
    (Pos_PID_Init p kp (i2f 0) kd)\<lparr>Output_Max := i2f out, Output_Min := i2f (- out), Value_I := i2f 200, Ref := i2f 0\<rparr>"

text \<open>
  \<open>sem\<close> and \<open>thread\<close> tell whether the kernel could create the semaphore and the thread: without the
  semaphore the function does not return (\<open>Inl\<close>); the answer is whether the thread was started.
\<close>

definition trace_line_init :: "bool \<Rightarrow> bool \<Rightarrow> trace \<Rightarrow> trace + trace \<times> bool" where
  "trace_line_init sem thread t =
    (let t = t\<lparr>TraceLine_Yaw_Con := trace_pid (TraceLine_Yaw_Con t) (i2f (- 2)) (i2f 0) 150\<rparr>;
         t = t\<lparr>TraceLine_Vx_Con := trace_pid (TraceLine_Vx_Con t) (d2f (dlit (11 / 2))) (i2f 1) 200\<rparr>;
         t = t\<lparr>TraceLine_Normal_Con := trace_pid (TraceLine_Normal_Con t) (d2f (dlit (- 8))) (i2f (- 2)) 300\<rparr>
     in if sem then Inr (t, thread) else Inl t)"

text \<open>
  One pass of \<open>trace_line_entry\<close>: a finished camera frame is processed (\<open>frame\<close> is \<open>Vision_Handle\<close> at its
  ticks, \<open>Inl\<close> when it does not return); a detected box stops the car and hands it to the box thread, which
  acts (\<open>locate\<close>, \<open>None\<close> if it does not come to its end) until it gives back the semaphore; 2000 ticks later the next detection is asked for.
\<close>

definition frame_step :: "(vision \<Rightarrow> ((vision \<times> drawn list) + vision \<times> pixel list) option) \<Rightarrow>
    'a robot_scheme \<Rightarrow> ((vision \<times> drawn list) + 'a robot_scheme) option" where
  "frame_step frame b =
    (if mt9v03x_finish_flag b \<noteq> 0 then
       do {
         r \<leftarrow> frame (sight b);
         (case r of
           Inl x \<Rightarrow> Some (Inl x)
         | Inr (v, ds) \<Rightarrow> do { (v, t) \<leftarrow> trace_line_method v (trc b); Some (Inr (b\<lparr>sight := v, trc := t, mt9v03x_finish_flag := 0\<rparr>)) })
       }
     else Some (Inr b))"

definition pause :: "int \<Rightarrow> 'a robot_scheme \<Rightarrow> 'a robot_scheme" where
  "pause ms b = b\<lparr>sight := (sight b)\<lparr>events := events (sight b) @ [Delay ms]\<rparr>\<rparr>"

definition hand_over :: "('a robot_scheme \<Rightarrow> 'a robot_scheme option) \<Rightarrow> int \<Rightarrow> 'a robot_scheme \<Rightarrow> 'a robot_scheme option" where
  "hand_over locate now b =
    (if MCX_Detection_Flag (mcx_link b) \<noteq> 0 then
       do {
         let b = b\<lparr>sight := (sight b)\<lparr>the_car := Car_Change_Speed (i2f 0) (i2f 0) (i2f 0) (the_car (sight b))\<rparr>\<rparr>;
         b \<leftarrow> locate (pause 100 b);
         let b = b\<lparr>trc := (trc b)\<lparr>tl_tick := s32 now, push_flag := 1\<rparr>\<rparr>;
         Some (b\<lparr>mcx_link := (mcx_link b)\<lparr>MCX_Detection_Flag := 0\<rparr>\<rparr>)
       }
     else Some b)"

definition rearm :: "int \<Rightarrow> 'a robot_scheme \<Rightarrow> 'a robot_scheme" where
  "rearm now b =
    (if push_flag (trc b) \<noteq> 0 \<and> u32 (now - tl_tick (trc b)) > 2000
     then b\<lparr>mcx_link := MCX_Change_Mode 68 (mcx_link b), trc := (trc b)\<lparr>push_flag := 0\<rparr>\<rparr> else b)"

definition trace_line_pass :: "(vision \<Rightarrow> ((vision \<times> drawn list) + vision \<times> pixel list) option) \<Rightarrow>
    ('a robot_scheme \<Rightarrow> 'a robot_scheme option) \<Rightarrow> int \<Rightarrow> int \<Rightarrow> 'a robot_scheme \<Rightarrow> ((vision \<times> drawn list) + 'a robot_scheme) option" where
  "trace_line_pass frame locate now now2 b =
    do {
      r \<leftarrow> frame_step frame b;
      (case r of Inl x \<Rightarrow> Some (Inl x)
       | Inr b \<Rightarrow> do { b \<leftarrow> hand_over locate now (pause 1 b); Some (Inr (rearm now2 b)) })
    }"

section \<open>The mean offset\<close>

lemma rnd32_dyadic: "\<bar>m\<bar> < 2 ^ 24 \<Longrightarrow> k \<le> 126 \<Longrightarrow> rnd32 (of_int m / 2 ^ k) = of_int m / 2 ^ k"
  unfolding rnd32_def
  by (rule rnd_multiple_less [where m = m and e = "- int k"]) (simp_all add: pow2_def)

lemma f32_between:
  assumes "lo \<le> x" and "x \<le> hi" and "rnd32 lo = lo" and "rnd32 hi = hi" and "- 1000000 \<le> lo" and "hi \<le> 1000000"
  shows "\<exists>y. f32 x = Fin y \<and> lo \<le> y \<and> y \<le> hi"
proof -
  have "\<bar>x\<bar> \<le> 100000000000000000000000000000000000000" using assms by (simp add: abs_le_iff)
  then show ?thesis
    using f32_small [of x] b32.R_le_fix [OF assms(4,2)] b32.R_ge_fix [OF assms(3,1)] by simp
qed

lemma row_weight_range:
  assumes "20 \<le> i" and "i \<le> 69"
  shows "\<exists>q. row_weight i = Fin q \<and> 1 / 2 \<le> q \<and> q \<le> 1"
proof -
  have f: "i2f (i + 1) = Fin (of_int (i + 1))" "i2f imgRow = Fin 70" "i2f 1 = Fin 1"
    using assms by (simp_all add: i2f_exact imgRow_def)
  have i: "(20 :: rat) \<le> of_int i" "of_int i \<le> (69 :: rat)" using assms by simp_all
  note d = rnd32_dyadic [of 19 6, simplified] rnd32_dyadic [of "- 45" 6, simplified] rnd32_dyadic [of 2025 12, simplified]
    rnd32_dyadic [of 2071 12, simplified]
  obtain e where e: "f32 (of_int (i + 1) / 70) = Fin e" "19 / 64 \<le> e" "e \<le> 1"
    using f32_between [of "19 / 64" "of_int (i + 1) / 70" 1] i d by (auto simp: field_simps)
  obtain t where t: "f32 (e - 1) = Fin t" "- 45 / 64 \<le> t" "t \<le> 0"
    using f32_between [of "- 45 / 64" "e - 1" 0] e d by auto
  have "t * t \<le> 45 / 64 * (45 / 64)" using mult_mono [of "- t" "45 / 64" "- t" "45 / 64"] t by simp
  then obtain m where m: "f32 (t * t) = Fin m" "0 \<le> m" "m \<le> 2025 / 4096"
    using f32_between [of 0 "t * t" "2025 / 4096"] d by auto
  obtain q where "f32 (1 - m) = Fin q" "2071 / 4096 \<le> q" "q \<le> 1"
    using f32_between [of "2071 / 4096" "1 - m" 1] m d by auto
  then show ?thesis using e t m by (auto simp: row_weight_def f Let_def fadd_def fsub_def fmul_def fdiv_def fl_sub_def)
qed

definition row_seen :: "RoadLine_t \<Rightarrow> int \<Rightarrow> bool" where
  "row_seen s i \<longleftrightarrow> leftBroder s ! nat i \<noteq> LEFT_LOSE_VALUE \<or> rightBroder s ! nat i \<noteq> RIGHT_LOSE_VALUE"

definition road_rows :: "RoadLine_t \<Rightarrow> bool" where
  "road_rows s \<longleftrightarrow> length (leftBroder s) = 70 \<and> length (rightBroder s) = 70 \<and> length (MID_Table s) = 70"

text \<open>One term of the sum: between half the least and the whole greatest offset.\<close>

definition low_of :: "int \<Rightarrow> rat" where "low_of lo = (if 0 \<le> lo then of_int lo / 2 else of_int lo)"
definition high_of :: "int \<Rightarrow> rat" where "high_of hi = (if 0 \<le> hi then of_int hi else of_int hi / 2)"

lemma half_fixed:
  assumes "\<bar>k\<bar> \<le> 1000" and "0 \<le> n" and "n \<le> 60"
  shows "rnd32 (of_int n * low_of k) = of_int n * low_of k" and "rnd32 (of_int n * high_of k) = of_int n * high_of k"
    and "\<bar>of_int n * low_of k\<bar> \<le> 60000" and "\<bar>of_int n * high_of k\<bar> \<le> 60000"
proof -
  have nk: "\<bar>n * k\<bar> \<le> 60 * 1000" unfolding abs_mult using assms by (intro mult_mono) auto
  have "rnd32 (of_int (n * k) / 2) = of_int (n * k) / 2" using rnd32_dyadic [of "n * k" 1] nk by simp
  moreover have "rnd32 (of_int (n * k)) = of_int (n * k)" using nk by (intro rnd32_of_int) simp
  ultimately show "rnd32 (of_int n * low_of k) = of_int n * low_of k" "rnd32 (of_int n * high_of k) = of_int n * high_of k"
    by (simp_all add: low_of_def high_of_def)
  have "\<bar>of_int (n * k)\<bar> \<le> (of_int 60000 :: rat)" unfolding of_int_abs [symmetric] of_int_le_iff using nk by simp
  then show "\<bar>of_int n * low_of k\<bar> \<le> 60000" "\<bar>of_int n * high_of k\<bar> \<le> 60000"
    by (auto simp: low_of_def high_of_def)
qed

lemma term_range:
  assumes "lo \<le> k" and "k \<le> hi" and "\<bar>lo\<bar> \<le> 1000" and "\<bar>hi\<bar> \<le> 1000" and "1 / 2 \<le> q" and "q \<le> 1"
  shows "\<exists>y. fmul (i2f k) (Fin q) = Fin y \<and> low_of lo \<le> y \<and> y \<le> high_of hi"
proof -
  have k: "(of_int lo :: rat) \<le> of_int k" "(of_int k :: rat) \<le> of_int hi" using assms by simp_all
  have "low_of lo \<le> of_int k * q"
  proof (cases "0 \<le> lo")
    case True
    then have "of_int lo * (1 / 2) \<le> of_int k * q" using k assms(5) by (intro mult_mono) auto
    with True show ?thesis by (simp add: low_of_def)
  next
    case False
    have "of_int lo * q \<le> of_int k * q" using k assms(5) by (intro mult_right_mono) auto
    moreover have "of_int lo * 1 \<le> of_int lo * q" using False assms(6) by (intro mult_left_mono_neg) auto
    ultimately have "of_int lo \<le> of_int k * q" by linarith
    with False show ?thesis by (simp add: low_of_def)
  qed
  moreover have "of_int k * q \<le> high_of hi"
  proof (cases "0 \<le> hi")
    case True
    have "of_int k * q \<le> of_int hi * q" using k assms(5) by (intro mult_right_mono) auto
    moreover have "of_int hi * q \<le> of_int hi * 1" using True assms(6) by (intro mult_left_mono) auto
    ultimately show ?thesis using True by (simp add: high_of_def)
  next
    case False
    have "of_int k * q \<le> of_int hi * q" using k assms(5) by (intro mult_right_mono) auto
    moreover have "of_int hi * q \<le> of_int hi * (1 / 2)" using False assms(5) by (intro mult_left_mono_neg) auto
    ultimately have "of_int k * q \<le> of_int hi * (1 / 2)" by linarith
    with False show ?thesis by (simp add: high_of_def)
  qed
  moreover have "i2f k = Fin (of_int k)" using assms by (intro i2f_exact) auto
  ultimately show ?thesis
    using f32_between [of "low_of lo" "of_int k * q" "high_of hi"] half_fixed [of lo 1] half_fixed [of hi 1] assms(3,4)
    by (auto simp: fmul_def abs_le_iff)
qed

lemma add_range:
  assumes "of_int n * low_of lo \<le> x" and "x \<le> of_int n * high_of hi" and "low_of lo \<le> y" and "y \<le> high_of hi"
    and "0 \<le> n" and "n < 60" and "\<bar>lo\<bar> \<le> 1000" and "\<bar>hi\<bar> \<le> 1000"
  shows "\<exists>z. fadd (Fin x) (Fin y) = Fin z \<and> of_int (n + 1) * low_of lo \<le> z \<and> z \<le> of_int (n + 1) * high_of hi"
  using f32_between [of "of_int (n + 1) * low_of lo" "x + y" "of_int (n + 1) * high_of hi"] assms
    half_fixed [of lo "n + 1"] half_fixed [of hi "n + 1"]
  by (auto simp: fadd_def algebra_simps abs_le_iff)

lemma mean_range:
  assumes "of_int n * low_of lo \<le> x" and "x \<le> of_int n * high_of hi" and "1 \<le> n" and "n < 60"
    and "\<bar>lo\<bar> \<le> 1000" and "\<bar>hi\<bar> \<le> 1000"
  shows "\<exists>z. fdiv (Fin x) (i2f n) = Fin z \<and> low_of lo \<le> z \<and> z \<le> high_of hi"
proof -
  have n: "(0 :: rat) < of_int n" "i2f n = Fin (of_int n)" using assms(3,4) by (simp_all add: i2f_exact)
  then have "low_of lo \<le> x / of_int n" "x / of_int n \<le> high_of hi" using assms(1,2) by (simp_all add: field_simps)
  then show ?thesis
    using f32_between [of "low_of lo" "x / of_int n" "high_of hi"] half_fixed [of lo 1] half_fixed [of hi 1] assms(5,6) n
    by (auto simp: fdiv_def abs_le_iff)
qed


lemma offset_row_step:
  assumes "road_rows s" and "20 \<le> i" and "i \<le> 69" and "\<bar>lo\<bar> \<le> 1000" and "\<bar>hi\<bar> \<le> 1000"
    and "row_seen s i \<longrightarrow> lo \<le> 94 - MID_Table s ! nat i \<and> 94 - MID_Table s ! nat i \<le> hi"
    and "of_int n * low_of lo \<le> x" and "x \<le> of_int n * high_of hi" and "0 \<le> n" and "n \<le> 69 - i"
  shows "\<exists>x' q' n'. offset_row s i (t\<lparr>TraceLine_Aver_Offset := Fin x, quan := q\<rparr>, n) =
      Some (t\<lparr>TraceLine_Aver_Offset := Fin x', quan := q'\<rparr>, n') \<and>
    of_int n' * low_of lo \<le> x' \<and> x' \<le> of_int n' * high_of hi \<and> n' = (if row_seen s i then n + 1 else n)"
proof (cases "row_seen s i")
  case False
  then show ?thesis
    using assms by (intro exI [of _ x] exI [of _ q] exI [of _ n]) (simp add: offset_row_def row_seen_def road_rows_def)
next
  case True
  obtain w where w: "row_weight i = Fin w" "1 / 2 \<le> w" "w \<le> 1" using row_weight_range [OF assms(2,3)] by blast
  obtain y where y: "fmul (i2f (94 - MID_Table s ! nat i)) (Fin w) = Fin y" "low_of lo \<le> y" "y \<le> high_of hi"
    using term_range [OF _ _ assms(4,5) w(2,3)] assms(6) True by blast
  obtain z where z: "fadd (Fin x) (Fin y) = Fin z" "of_int (n + 1) * low_of lo \<le> z" "z \<le> of_int (n + 1) * high_of hi"
    using add_range [OF assms(7,8) y(2,3) assms(9) _ assms(4,5)] assms(2,10) by auto
  have "u16 (n + 1) = n + 1" using assms(2,9,10) by (simp add: u16_id)
  then have "offset_row s i (t\<lparr>TraceLine_Aver_Offset := Fin x, quan := q\<rparr>, n) =
      Some (t\<lparr>TraceLine_Aver_Offset := Fin z, quan := Fin w\<rparr>, n + 1)"
    using True assms(1-3) w(1) y(1) z(1) by (auto simp: offset_row_def row_seen_def road_rows_def imgCol_def)
  with z True show ?thesis by (intro exI [of _ z] exI [of _ "Fin w"] exI [of _ "n + 1"]) simp
qed

lemma below_split: "(\<exists>j. i - 1 < j \<and> j < n \<and> p j) \<longleftrightarrow> i < n \<and> p i \<or> (\<exists>j. i < j \<and> j < (n :: int) \<and> p j)"
proof (rule iffI)
  assume "\<exists>j. i - 1 < j \<and> j < n \<and> p j"
  then obtain j where "i - 1 < j" "j < n" "p j" by blast
  then show "i < n \<and> p i \<or> (\<exists>j. i < j \<and> j < n \<and> p j)" by (cases "j = i") force+
qed force

lemma mean_offset_range:
  assumes "road_rows s" and "\<bar>lo\<bar> \<le> 1000" and "\<bar>hi\<bar> \<le> 1000" and "TraceLine_Aver_Offset t = Fin 0"
    and "\<forall>i. 20 \<le> i \<longrightarrow> i < 70 \<longrightarrow> row_seen s i \<longrightarrow> lo \<le> 94 - MID_Table s ! nat i \<and> 94 - MID_Table s ! nat i \<le> hi"
  shows "\<exists>x q. mean_offset s t = Some (t\<lparr>TraceLine_Aver_Offset := Fin x, quan := q\<rparr>) \<and>
    (if \<exists>i. 20 \<le> i \<and> i < 70 \<and> row_seen s i then low_of lo \<le> x \<and> x \<le> high_of hi else x = 0)"
proof -
  define Q where "Q = (\<lambda>i (t', n). \<exists>x q. t' = t\<lparr>TraceLine_Aver_Offset := Fin x, quan := q\<rparr> \<and> 0 \<le> n \<and> n \<le> 69 - i \<and>
    of_int n * low_of lo \<le> x \<and> x \<le> of_int n * high_of hi \<and> (n = 0 \<longleftrightarrow> \<not> (\<exists>j. i < j \<and> j < 70 \<and> row_seen s j)))"
  have "\<exists>p. for_each (offset_row s) (downto 69 20) (t, 0) = Some p \<and> Q (20 - 1) p"
  proof (rule for_down_inv)
    have "t = t\<lparr>TraceLine_Aver_Offset := Fin 0, quan := quan t\<rparr>" using assms(4) by simp
    then show "Q 69 (t, 0)" unfolding Q_def by fastforce
  next
    fix i p assume i: "20 \<le> i" "i \<le> 69" and p: "Q i p"
    obtain t' n where p': "p = (t', n)" by (cases p)
    obtain x q where x: "t' = t\<lparr>TraceLine_Aver_Offset := Fin x, quan := q\<rparr>" "0 \<le> n" "n \<le> 69 - i"
      "of_int n * low_of lo \<le> x" "x \<le> of_int n * high_of hi" "n = 0 \<longleftrightarrow> \<not> (\<exists>j. i < j \<and> j < 70 \<and> row_seen s j)"
      using p by (auto simp: Q_def p')
    have r: "row_seen s i \<longrightarrow> lo \<le> 94 - MID_Table s ! nat i \<and> 94 - MID_Table s ! nat i \<le> hi" using assms(5) i by simp
    obtain x' q' n' where x': "offset_row s i p = Some (t\<lparr>TraceLine_Aver_Offset := Fin x', quan := q'\<rparr>, n')"
      "of_int n' * low_of lo \<le> x'" "x' \<le> of_int n' * high_of hi" "n' = (if row_seen s i then n + 1 else n)"
      using offset_row_step [OF assms(1) i assms(2,3) r x(4,5,2,3), where t = t and q = q] unfolding p' x(1) by blast
    have "(\<exists>j. i - 1 < j \<and> j < 70 \<and> row_seen s j) \<longleftrightarrow> row_seen s i \<or> (\<exists>j. i < j \<and> j < 70 \<and> row_seen s j)"
      using below_split [of i 70 "row_seen s"] i by simp
    then have "Q (i - 1) (t\<lparr>TraceLine_Aver_Offset := Fin x', quan := q'\<rparr>, n')"
      using x(2,3,6) x'(2-) unfolding Q_def by (auto split: if_splits)
    with x'(1) show "\<exists>p'. offset_row s i p = Some p' \<and> Q (i - 1) p'" by blast
  qed simp
  then obtain x q n where r: "for_each (offset_row s) (downto 69 20) (t, 0) = Some (t\<lparr>TraceLine_Aver_Offset := Fin x, quan := q\<rparr>, n)"
    "0 \<le> n" "n \<le> 50" "of_int n * low_of lo \<le> x" "x \<le> of_int n * high_of hi"
    "n = 0 \<longleftrightarrow> \<not> (\<exists>j. 19 < j \<and> j < 70 \<and> row_seen s j)"
    unfolding Q_def by auto
  have e: "(19 :: int) < j \<longleftrightarrow> 20 \<le> j" for j by auto
  show ?thesis
  proof (cases "n = 0")
    case True
    with r show ?thesis unfolding e
      by (intro exI [of _ 0] exI [of _ q]) (auto simp: mean_offset_def imgRow_def i2f_exact simp del: upto_rec_numeral)
  next
    case False
    obtain z where "fdiv (Fin x) (i2f n) = Fin z" "low_of lo \<le> z" "z \<le> high_of hi"
      using mean_range [OF r(4,5) _ _ assms(2,3)] r(2,3) False by auto
    with r False show ?thesis unfolding e
      by (intro exI [of _ z] exI [of _ q]) (auto simp: mean_offset_def imgRow_def simp del: upto_rec_numeral)
  qed
qed


section \<open>The controllers\<close>

lemma rnd32_err15: "\<bar>x\<bar> < 32768 \<Longrightarrow> \<bar>rnd32 x - x\<bar> \<le> 1 / 1024"
  using rnd_error [of x 15 "- 126" 24] unfolding rnd32_def by (simp add: pow2_def)

lemma sum_err:
  fixes m M n w W u S D :: rat
  assumes "\<bar>m - M\<bar> \<le> 1 / 1024" and "\<bar>n - m\<bar> \<le> 1 / 1024" and "\<bar>w - W\<bar> \<le> 1 / 1024" and "\<bar>u - (n - w)\<bar> \<le> 1 / 1024"
    and "\<bar>M - S\<bar> \<le> 8 / 1024" and "\<bar>W - D\<bar> \<le> 4 / 1024"
  shows "\<bar>u - (S - D)\<bar> \<le> 1 / 32"
  using assms unfolding abs_le_iff by linarith

lemma shift_err:
  fixes w c y A B :: rat
  assumes "\<bar>A - B\<bar> \<le> 1 / 1024" and "\<bar>w - (8 * c + 2 * A)\<bar> \<le> 1 / 32" and "\<bar>c - y\<bar> \<le> 1 / 1024"
  shows "\<bar>w - (8 * y + 2 * B)\<bar> \<le> 1 / 16"
  using assms unfolding abs_le_iff by linarith

text \<open>The output of a position controller without an integral part, to within rounding.\<close>

lemma pid_terms_value:
  assumes "Kp p = Fin a" and "Ki p = Fin 0" and "Kd p = Fin d" and "Ref p = Fin 0" and "Past_Error p = Fin e0" and "Value_I p = Fin v"
    and "\<bar>a\<bar> \<le> 8" and "\<bar>d\<bar> \<le> 2" and "\<bar>e0\<bar> \<le> 500" and "\<bar>v\<bar> \<le> 200" and "\<bar>x\<bar> \<le> 500"
  shows "\<exists>y. Output (pid_terms p (Fin x)) = Fin y \<and> \<bar>y - (- a * x - d * \<bar>x + e0\<bar>)\<bar> \<le> 1 / 32"
    and "\<exists>e v. Error (pid_terms p (Fin x)) = Fin e \<and> \<bar>e\<bar> \<le> 500 \<and> Past_Error (pid_terms p (Fin x)) = Fin e \<and>
      Value_I (pid_terms p (Fin x)) = Fin v"
proof -
  have small: "\<bar>y\<bar> < 32768 \<Longrightarrow> f32 y = Fin (rnd32 y)" for y by (rule f32_small) simp
  define e where "e = rnd32 (0 - x)"
  have e: "\<bar>e + x\<bar> \<le> 1 / 1024" "f32 (0 - x) = Fin e" "\<bar>e\<bar> \<le> 500"
    using rnd32_err15 [of "0 - x"] small [of "0 - x"] rnd32_abs_le [of "0 - x" 500] assms(11) by (simp_all add: e_def)
  define i where "i = rnd32 (v + e)"
  have i: "f32 (v + e) = Fin i" using small [of "v + e"] assms(10) e(3) by (simp add: i_def)
  define de where "de = rnd32 (e - e0)"
  have de: "\<bar>de - (e - e0)\<bar> \<le> 1 / 1024" "f32 (e - e0) = Fin de"
    using rnd32_err15 [of "e - e0"] small [of "e - e0"] assms(9) e(3) by (simp_all add: de_def)
  have "\<bar>de\<bar> \<le> 1002" using de(1) e(3) assms(9) by linarith
  then have ae: "\<bar>a * e\<bar> \<le> 8 * 500" "\<bar>\<bar>de\<bar> * d\<bar> \<le> 1002 * 2"
    unfolding abs_mult using assms(7,8) e(3) by (intro mult_mono; simp)+
  define m where "m = rnd32 (a * e)"
  have m: "\<bar>m - a * e\<bar> \<le> 1 / 1024" "f32 (a * e) = Fin m"
    using rnd32_err15 [of "a * e"] small [of "a * e"] ae by (simp_all add: m_def)
  then have m3: "\<bar>m\<bar> \<le> 4001" using ae by linarith
  define w where "w = rnd32 (\<bar>de\<bar> * d)"
  have w: "\<bar>w - \<bar>de\<bar> * d\<bar> \<le> 1 / 1024" "f32 (\<bar>de\<bar> * d) = Fin w"
    using rnd32_err15 [of "\<bar>de\<bar> * d"] small [of "\<bar>de\<bar> * d"] ae by (simp_all add: w_def)
  then have w3: "\<bar>w\<bar> \<le> 2005" using ae by linarith
  define n where "n = rnd32 (m + 0)"
  have n: "\<bar>n - m\<bar> \<le> 1 / 1024" "f32 (m + 0) = Fin n"
    using rnd32_err15 [of m] small [of m] m3 by (simp_all add: n_def)
  then have n3: "\<bar>n\<bar> \<le> 4002" using m3 by linarith
  have nw: "\<bar>n - w\<bar> < 32768" using n3 w3 by linarith
  define u where "u = rnd32 (n - w)"
  have u: "\<bar>u - (n - w)\<bar> \<le> 1 / 1024" "f32 (n - w) = Fin u"
    using rnd32_err15 [of "n - w"] small [of "n - w"] nw by (simp_all add: u_def)
  have "\<bar>a * (e + x)\<bar> \<le> 8 * (1 / 1024)" unfolding abs_mult using assms(7) e(1) by (intro mult_mono) auto
  then have 1: "\<bar>a * e - - a * x\<bar> \<le> 8 / 1024" by (simp add: algebra_simps)
  have "\<bar>\<bar>de\<bar> - \<bar>x + e0\<bar>\<bar> \<le> 2 / 1024" using de(1) e(1) by linarith
  then have "\<bar>(\<bar>de\<bar> - \<bar>x + e0\<bar>) * d\<bar> \<le> 2 / 1024 * 2" unfolding abs_mult using assms(8) by (intro mult_mono) auto
  then have 2: "\<bar>\<bar>de\<bar> * d - d * \<bar>x + e0\<bar>\<bar> \<le> 4 / 1024" by (simp add: algebra_simps)
  have "\<bar>u - (- a * x - d * \<bar>x + e0\<bar>)\<bar> \<le> 1 / 32"
    by (rule sum_err [OF m(1) n(1) w(1) u(1) 1 2])
  moreover have t: "pid_terms p (Fin x) = p\<lparr>Error := Fin e, Value_I := Fin i, Value_D := Fin \<bar>de\<bar>, Output := Fin u, Past_Error := Fin e\<rparr>"
    using assms(1-6) e(2) i de(2) m(2) w(2) n(2) u(2) small [of 0]
    by (simp add: pid_terms_def fadd_def fsub_def fmul_def fl_sub_def Let_def)
  ultimately show "\<exists>y. Output (pid_terms p (Fin x)) = Fin y \<and> \<bar>y - (- a * x - d * \<bar>x + e0\<bar>)\<bar> \<le> 1 / 32"
    by simp
  show "\<exists>e v. Error (pid_terms p (Fin x)) = Fin e \<and> \<bar>e\<bar> \<le> 500 \<and> Past_Error (pid_terms p (Fin x)) = Fin e \<and>
      Value_I (pid_terms p (Fin x)) = Fin v"
    using e(3) by (simp add: t)
qed


text \<open>The state of a controller of the tracer, from its initialisation on.\<close>

definition trace_pid_ok :: "rat \<Rightarrow> rat \<Rightarrow> rat \<Rightarrow> Pos_PID_t \<Rightarrow> bool" where
  "trace_pid_ok a d out p \<longleftrightarrow> Kp p = Fin a \<and> Ki p = Fin 0 \<and> Kd p = Fin d \<and> Ref p = Fin 0 \<and> Value_I_Max p = Fin 0 \<and>
     Output_Max p = Fin out \<and> Output_Min p = Fin (- out) \<and> in_range (- 500) 500 (Past_Error p) \<and> in_range (- 200) 200 (Value_I p)"

lemma trace_pid_step:
  assumes "trace_pid_ok a d out p" and "\<bar>a\<bar> \<le> 8" and "\<bar>d\<bar> \<le> 2" and "0 < out" and "Past_Error p = Fin e0" and "\<bar>x\<bar> \<le> 500"
  shows "\<exists>y y' p'. Pos_PID_Controller p (Fin x) = (Fin y, p') \<and> trace_pid_ok a d out p' \<and> - out \<le> y \<and> y \<le> out \<and>
    \<bar>y' - (- a * x - d * \<bar>x + e0\<bar>)\<bar> \<le> 1 / 32 \<and> y = max (- out) (min out y')"
proof -
  note ok = assms(1) [unfolded trace_pid_ok_def]
  obtain v where v: "Value_I p = Fin v" "\<bar>v\<bar> \<le> 200" using ok by (auto simp: in_range_iff abs_le_iff)
  have e0: "\<bar>e0\<bar> \<le> 500" using ok assms(5) by (auto simp: abs_le_iff)
  let ?q = "pid_terms p (Fin x)"
  obtain y where y: "Output ?q = Fin y" "\<bar>y - (- a * x - d * \<bar>x + e0\<bar>)\<bar> \<le> 1 / 32"
    using pid_terms_value(1) [of p a d e0 v x] ok v e0 assms by auto
  obtain e w where e: "\<bar>e\<bar> \<le> 500" "Past_Error ?q = Fin e" "Value_I ?q = Fin w"
    using pid_terms_value(2) [of p a d e0 v x] ok v e0 assms by auto
  have keep: "Kp ?q = Kp p" "Ki ?q = Ki p" "Kd ?q = Kd p" "Ref ?q = Ref p" "Value_I_Max ?q = Value_I_Max p"
    "Output_Max ?q = Output_Max p" "Output_Min ?q = Output_Min p" by (simp_all add: pid_terms_def Let_def)
  have "trace_pid_ok a d out (pid_limit_I ?q)"
    using ok e by (auto simp: trace_pid_ok_def pid_limit_I_def keep abs_le_iff Let_def)
  moreover have "pid_return (pid_limit_I ?q) = Fin (max (- out) (min out y))"
    using ok y(1) assms(4) by (simp add: pid_return_def pid_limit_I_def keep Let_def)
  ultimately show ?thesis
    using y(2) assms(4) by (auto simp: Pos_PID_Controller_def)
qed

definition trace_ok :: "trace \<Rightarrow> bool" where
  "trace_ok t \<longleftrightarrow> trace_pid_ok (- 8) (- 2) 300 (TraceLine_Normal_Con t) \<and> trace_pid_ok (11 / 2) 1 200 (TraceLine_Vx_Con t) \<and>
     TraceLine_Aver_Offset t = Fin 0"

lemma trace_ok_init: "trace_line_init True th trace_zero = Inr (t, th) \<Longrightarrow> trace_ok t"
proof -
  have "d2f (dlit (11 / 2)) = Fin (11 / 2)" "d2f (dlit (- 8)) = Fin (- 8)" by code_simp+
  then show "trace_line_init True th trace_zero = Inr (t, th) \<Longrightarrow> trace_ok t"
    by (auto simp: trace_line_init_def trace_zero_def Pos_PID_zero_def Pos_PID_Init_def trace_pid_def trace_ok_def trace_pid_ok_def
        i2f_exact Let_def)
qed

text \<open>
  One steering decision from the mean offset \<open>x\<close>, the turn rate \<open>g\<close> the gyro reports and the last errors: the
  controllers' laws, to within rounding and cut to the limits.
\<close>

definition steering :: "rat \<Rightarrow> int \<Rightarrow> rat \<Rightarrow> rat \<Rightarrow> rat \<Rightarrow> rat \<Rightarrow> bool" where
  "steering x g ex en vx w \<longleftrightarrow> \<bar>vx\<bar> \<le> 200 \<and> \<bar>w\<bar> \<le> 300 \<and>
     (\<exists>u. vx = max (- 200) (min 200 u) \<and> \<bar>u - (- (11 / 2) * x - \<bar>x + ex\<bar>)\<bar> \<le> 1 / 32) \<and>
     (\<exists>u. w = max (- 300) (min 300 u) \<and> \<bar>u - (8 * (x - of_int g) + 2 * \<bar>x - of_int g + en\<bar>)\<bar> \<le> 1 / 16)"

lemma clamp_sign: "(0 :: rat) < m \<Longrightarrow> u < 0 \<Longrightarrow> max (- m) (min m u) < 0" "(0 :: rat) < m \<Longrightarrow> 0 < u \<Longrightarrow> 0 < max (- m) (min m u)"
  by (auto simp: max_def min_def)

lemma steering_left:
  assumes "steering x g ex en vx w" and "1 / 2 \<le> x"
  shows "vx < 0" and "g \<le> 0 \<Longrightarrow> 0 < w"
proof -
  obtain u where u: "vx = max (- 200) (min 200 u)" "\<bar>u - (- (11 / 2) * x - \<bar>x + ex\<bar>)\<bar> \<le> 1 / 32"
    using assms(1) by (auto simp: steering_def)
  have "u < 0" using u(2) assms(2) unfolding abs_le_iff by linarith
  then show "vx < 0" using clamp_sign(1) [of 200] u(1) by simp
  assume "g \<le> 0"
  then have y: "1 / 2 \<le> x - of_int g" using assms(2) of_int_le_0_iff [of g, where 'a = rat] by linarith
  obtain u where u: "w = max (- 300) (min 300 u)" "\<bar>u - (8 * (x - of_int g) + 2 * \<bar>x - of_int g + en\<bar>)\<bar> \<le> 1 / 16"
    using assms(1) by (auto simp: steering_def)
  have "0 < u" if "0 \<le> A" "\<bar>u - (8 * y + 2 * A)\<bar> \<le> 1 / 16" "1 / 2 \<le> y" for A y :: rat
    using that unfolding abs_le_iff by linarith
  from this [OF _ u(2) y] have "0 < u" by simp
  then show "0 < w" using clamp_sign(2) [of 300] u(1) by simp
qed

lemma steering_right:
  assumes "steering x g 0 0 vx w" and "x \<le> - (1 / 2)"
  shows "0 < vx" and "0 \<le> g \<Longrightarrow> w < 0"
proof -
  obtain u where u: "vx = max (- 200) (min 200 u)" "\<bar>u - (- (11 / 2) * x - \<bar>x\<bar>)\<bar> \<le> 1 / 32"
    using assms(1) by (auto simp: steering_def)
  have "0 < u" using u(2) assms(2) unfolding abs_le_iff by linarith
  then show "0 < vx" using clamp_sign(2) [of 200] u(1) by simp
  assume "0 \<le> g"
  then have y: "x - of_int g \<le> - (1 / 2)" using assms(2) of_int_0_le_iff [of g, where 'a = rat] by linarith
  obtain u where u: "w = max (- 300) (min 300 u)" "\<bar>u - (8 * (x - of_int g) + 2 * \<bar>x - of_int g\<bar>)\<bar> \<le> 1 / 16"
    using assms(1) by (auto simp: steering_def)
  have "u < 0" if "\<bar>u - (8 * y + 2 * \<bar>y\<bar>)\<bar> \<le> 1 / 16" "y \<le> - (1 / 2)" for y :: rat
    using that unfolding abs_le_iff by linarith
  from this [OF u(2) y] show "w < 0" using clamp_sign(1) [of 300] u(1) by simp
qed

lemma steering_reversed:
  assumes "steering x 0 e e vx w" and "- 10 \<le> x" and "x \<le> 0" and "e \<le> - 50"
  shows "vx < 0" and "0 < w"
proof -
  obtain u where u: "vx = max (- 200) (min 200 u)" "\<bar>u - (- (11 / 2) * x - \<bar>x + e\<bar>)\<bar> \<le> 1 / 32"
    using assms(1) by (auto simp: steering_def)
  have "u < 0" using u(2) assms(2-) unfolding abs_le_iff by linarith
  then show "vx < 0" using clamp_sign(1) [of 200] u(1) by simp
  obtain u where u: "w = max (- 300) (min 300 u)" "\<bar>u - (8 * x + 2 * \<bar>x + e\<bar>)\<bar> \<le> 1 / 16"
    using assms(1) by (auto simp: steering_def)
  have "0 < u" if "50 \<le> A" "\<bar>u - (8 * x + 2 * A)\<bar> \<le> 1 / 16" for A
    using that assms(2) unfolding abs_le_iff by linarith
  from this [OF _ u(2)] have "0 < u" using assms(3,4) by simp
  then show "0 < w" using clamp_sign(2) [of 300] u(1) by simp
qed

lemma steer_ok:
  assumes "trace_pid_ok (- 8) (- 2) 300 (TraceLine_Normal_Con t)" and "trace_pid_ok (11 / 2) 1 200 (TraceLine_Vx_Con t)"
    and "TraceLine_Aver_Offset t = Fin x" and "\<bar>x\<bar> \<le> 94" and "\<bar>gyro_z (icm20602 (att (the_car v)))\<bar> \<le> 32768"
    and "Past_Error (TraceLine_Vx_Con t) = Fin ex" and "Past_Error (TraceLine_Normal_Con t) = Fin en"
  shows "\<exists>vx w t'. steer v t = (v\<lparr>the_car := Car_Change_Speed (Fin vx)
       (Fin (if Current_Road v = CirculeRoads \<and> cir_speed_flag v \<noteq> 0 then 100 else 400)) (Fin w) (the_car v)\<rparr>, t') \<and>
    trace_ok t' \<and> steering x (gyro_z (icm20602 (att (the_car v))) sdiv 100) ex en vx w"
proof -
  define g where "g = gyro_z (icm20602 (att (the_car v))) sdiv 100"
  have gb: "\<bar>g\<bar> \<le> 327"
    using assms(5) unfolding g_def by (auto simp: signed_divide_int_def sgn_if)
  then have gr: "\<bar>of_int g\<bar> \<le> (327 :: rat)" "i2f g = Fin (of_int g)" by (simp_all add: i2f_exact flip: of_int_abs)
  define c where "c = rnd32 (x - of_int g)"
  have c: "fsub (Fin x) (i2f g) = Fin c" "\<bar>c - (x - of_int g)\<bar> \<le> 1 / 1024"
    using gr assms(4) rnd32_err15 [of "x - of_int g"] by (simp_all add: c_def fsub_def fl_sub_def f32_small)
  then have cb: "\<bar>c\<bar> \<le> 500" using gr assms(4) by linarith
  obtain w w' pn where n: "Pos_PID_Controller (TraceLine_Normal_Con t) (Fin c) = (Fin w, pn)" "trace_pid_ok (- 8) (- 2) 300 pn"
    "- 300 \<le> w" "w \<le> 300" "\<bar>w' - (8 * c + 2 * \<bar>c + en\<bar>)\<bar> \<le> 1 / 32" "w = max (- 300) (min 300 w')"
    using trace_pid_step [OF assms(1) _ _ _ assms(7) cb] by auto
  obtain vx vx' pv where p: "Pos_PID_Controller (TraceLine_Vx_Con t) (Fin x) = (Fin vx, pv)" "trace_pid_ok (11 / 2) 1 200 pv"
    "- 200 \<le> vx" "vx \<le> 200" "\<bar>vx' - (- (11 / 2) * x - \<bar>x + ex\<bar>)\<bar> \<le> 1 / 32" "vx = max (- 200) (min 200 vx')"
    using trace_pid_step [OF assms(2) _ _ _ assms(6), of x] assms(4) by auto
  have "\<bar>w' - (8 * (x - of_int g) + 2 * \<bar>x - of_int g + en\<bar>)\<bar> \<le> 1 / 16"
    by (rule shift_err [OF _ n(5) c(2)]) (use c(2) in linarith)
  moreover have "\<bar>vx\<bar> \<le> 200" "\<bar>w\<bar> \<le> 300" using n(3,4) p(3,4) by (simp_all add: abs_le_iff)
  ultimately have 1: "steering x g ex en vx w"
    unfolding steering_def using n(6) p(5,6) by blast
  let ?t = "t\<lparr>TraceLine_Normal_Con := pn, TraceLine_Vx_Con := pv, TraceLine_Aver_Offset := Fin 0\<rparr>"
  have 2: "trace_ok ?t" using n(2) p(2) by (simp add: trace_ok_def)
  have 3: "steer v t = (v\<lparr>the_car := Car_Change_Speed (Fin vx)
       (Fin (if Current_Road v = CirculeRoads \<and> cir_speed_flag v \<noteq> 0 then 100 else 400)) (Fin w) (the_car v)\<rparr>, ?t)"
    using n(1) p(1) c(1) by (simp add: steer_def assms(3) g_def [symmetric] Cir_SPEED_def BASIC_SPEED_def i2f_exact)
  show ?thesis unfolding g_def [symmetric]
    by (rule exI [of _ vx], rule exI [of _ w], rule exI [of _ ?t]) (intro conjI 1 2 3)
qed

section \<open>Commands to the car\<close>

text \<open>What the frame leaves for the tracer: 70 rows, the middle inside the image, a 16 bit gyro reading.\<close>

definition traceable :: "vision \<Rightarrow> bool" where
  "traceable v \<longleftrightarrow> road_rows (borders v) \<and> (\<forall>i. 0 \<le> i \<longrightarrow> i < 70 \<longrightarrow> 0 \<le> MID_Table (borders v) ! nat i \<and> MID_Table (borders v) ! nat i \<le> 187) \<and>
     \<bar>gyro_z (icm20602 (att (the_car v)))\<bar> \<le> 32768"

definition some_row_seen :: "RoadLine_t \<Rightarrow> bool" where
  "some_row_seen s \<longleftrightarrow> (\<exists>i. 20 \<le> i \<and> i < 70 \<and> row_seen s i)"

definition middle_between :: "int \<Rightarrow> int \<Rightarrow> RoadLine_t \<Rightarrow> bool" where
  "middle_between a b s \<longleftrightarrow> (\<forall>i. 20 \<le> i \<longrightarrow> i < 70 \<longrightarrow> row_seen s i \<longrightarrow> a \<le> MID_Table s ! nat i \<and> MID_Table s ! nat i \<le> b)"

lemma method_commands:
  assumes "trace_ok t" and "traceable v" and "middle_between a b (borders v)" and "0 \<le> a" and "b \<le> 187" and "a \<le> b"
    and "Car_Speed_ConRight (the_car v) = Con_By_TraceLine"
    and "Past_Error (TraceLine_Vx_Con t) = Fin ex" and "Past_Error (TraceLine_Normal_Con t) = Fin en"
  shows "\<exists>vx w x t'. trace_line_method v t = Some (v\<lparr>the_car := Car_Change_Speed (Fin vx)
       (Fin (if Current_Road v = CirculeRoads \<and> cir_speed_flag v \<noteq> 0 then 100 else 400)) (Fin w) (the_car v)\<rparr>, t') \<and> trace_ok t' \<and>
    (if some_row_seen (borders v) then low_of (94 - b) \<le> x \<and> x \<le> high_of (94 - a) else x = 0) \<and>
    steering x (gyro_z (icm20602 (att (the_car v))) sdiv 100) ex en vx w"
proof -
  note v = assms(2) [unfolded traceable_def] and t = assms(1) [unfolded trace_ok_def]
  have rows: "\<forall>i. 20 \<le> i \<longrightarrow> i < 70 \<longrightarrow> row_seen (borders v) i \<longrightarrow>
      94 - b \<le> 94 - MID_Table (borders v) ! nat i \<and> 94 - MID_Table (borders v) ! nat i \<le> 94 - a"
    using assms(3) by (auto simp: middle_between_def)
  have ab1: "\<bar>94 - b\<bar> \<le> 1000" "\<bar>94 - a\<bar> \<le> 1000" using assms(4-6) by auto
  obtain x q where x: "mean_offset (borders v) t = Some (t\<lparr>TraceLine_Aver_Offset := Fin x, quan := q\<rparr>)"
    "if some_row_seen (borders v) then low_of (94 - b) \<le> x \<and> x \<le> high_of (94 - a) else x = 0"
    using mean_offset_range [of "borders v" "94 - b" "94 - a" t] rows v t ab1 unfolding some_row_seen_def by blast
  have ab: "(0 :: rat) \<le> of_int a" "of_int b \<le> (187 :: rat)" "of_int a \<le> (of_int b :: rat)" using assms(4-6) by simp_all
  then have xb: "\<bar>x\<bar> \<le> 94"
    using x(2) by (auto simp: low_of_def high_of_def abs_le_iff split: if_splits)
  let ?t = "t\<lparr>TraceLine_Aver_Offset := Fin x, quan := q\<rparr>"
  have "trace_pid_ok (- 8) (- 2) 300 (TraceLine_Normal_Con ?t)" "trace_pid_ok (11 / 2) 1 200 (TraceLine_Vx_Con ?t)"
    "TraceLine_Aver_Offset ?t = Fin x" "Past_Error (TraceLine_Vx_Con ?t) = Fin ex" "Past_Error (TraceLine_Normal_Con ?t) = Fin en"
    using t assms(8,9) by simp_all
  note s = steer_ok [OF this(1-3) xb _ this(4,5), of v]
  obtain vx w t' where r: "steer v ?t = (v\<lparr>the_car := Car_Change_Speed (Fin vx)
       (Fin (if Current_Road v = CirculeRoads \<and> cir_speed_flag v \<noteq> 0 then 100 else 400)) (Fin w) (the_car v)\<rparr>, t')" "trace_ok t'"
      "steering x (gyro_z (icm20602 (att (the_car v))) sdiv 100) ex en vx w"
    using s v by blast
  have m: "trace_line_method v t = Some (v\<lparr>the_car := Car_Change_Speed (Fin vx)
       (Fin (if Current_Road v = CirculeRoads \<and> cir_speed_flag v \<noteq> 0 then 100 else 400)) (Fin w) (the_car v)\<rparr>, t')"
    using x(1) r(1) assms(7) by (simp add: trace_line_method_def)
  show ?thesis
    by (rule exI [of _ vx], rule exI [of _ w], rule exI [of _ x], rule exI [of _ t']) (intro conjI m r(2,3) x(2))
qed

text \<open>What becomes of a command: it is the set point when the car is switched on, and is ignored otherwise.\<close>

lemma command_given:
  assumes "Car_Speed_ConRight c = Con_By_TraceLine"
  shows "Car_Change_Speed vx vy w c = (if Car_BootSwitch c \<noteq> 0 then c\<lparr>Car_Speed := \<lparr>Vx = vx, Vy = vy, Omega = w\<rparr>\<rparr> else c)"
  using assms by (simp add: Car_Change_Speed_def Let_def)

lemma method_steers:
  assumes "trace_ok t" and "traceable v" and "middle_between a b (borders v)" and "0 \<le> a" and "b \<le> 187" and "a \<le> b"
    and "Car_Speed_ConRight (the_car v) = Con_By_TraceLine" and "Car_BootSwitch (the_car v) \<noteq> 0"
    and "Past_Error (TraceLine_Vx_Con t) = Fin ex" and "Past_Error (TraceLine_Normal_Con t) = Fin en"
  shows "\<exists>vx w x t'. trace_line_method v t = Some (v\<lparr>the_car := (the_car v)\<lparr>Car_Speed := \<lparr>Vx = Fin vx,
       Vy = Fin (if Current_Road v = CirculeRoads \<and> cir_speed_flag v \<noteq> 0 then 100 else 400), Omega = Fin w\<rparr>\<rparr>\<rparr>, t') \<and> trace_ok t' \<and>
    (if some_row_seen (borders v) then low_of (94 - b) \<le> x \<and> x \<le> high_of (94 - a) else x = 0) \<and>
    steering x (gyro_z (icm20602 (att (the_car v))) sdiv 100) ex en vx w"
  using method_commands [OF assms(1-7,9,10)] assms(8) unfolding command_given [OF assms(7)] by simp

lemma trace_ok_past:
  assumes "trace_ok t"
  obtains ex en where "Past_Error (TraceLine_Vx_Con t) = Fin ex" "Past_Error (TraceLine_Normal_Con t) = Fin en"
  using assms by (auto simp: trace_ok_def trace_pid_ok_def in_range_iff)

text \<open>The tracer from its initialisation on, whatever pictures follow.\<close>

inductive trace_reach :: "trace \<Rightarrow> bool" where
  start: "trace_line_init True th trace_zero = Inr (t, th) \<Longrightarrow> trace_reach t"
| pass: "trace_reach t \<Longrightarrow> traceable v \<Longrightarrow> trace_line_method v t = Some (v', t') \<Longrightarrow> trace_reach t'"

lemma all_middles: "traceable v \<Longrightarrow> middle_between 0 187 (borders v)"
  by (simp add: traceable_def middle_between_def)

lemma method_limited:
  assumes "trace_ok t" and "traceable v" and "Car_Speed_ConRight (the_car v) = Con_By_TraceLine"
  obtains vx w t' where "trace_line_method v t = Some (v\<lparr>the_car := Car_Change_Speed (Fin vx)
       (Fin (if Current_Road v = CirculeRoads \<and> cir_speed_flag v \<noteq> 0 then 100 else 400)) (Fin w) (the_car v)\<rparr>, t')"
    "trace_ok t'" "\<bar>vx\<bar> \<le> 200" "\<bar>w\<bar> \<le> 300"
proof -
  from trace_ok_past [OF assms(1)] obtain ex en
    where p: "Past_Error (TraceLine_Vx_Con t) = Fin ex" "Past_Error (TraceLine_Normal_Con t) = Fin en" .
  from method_commands [OF assms(1,2) all_middles [OF assms(2)] _ _ _ assms(3) p] that
  show thesis unfolding steering_def by simp blast
qed

lemma trace_reach_ok: "trace_reach t \<Longrightarrow> trace_ok t"
proof (induction rule: trace_reach.induct)
  case (start th t)
  then show ?case by (rule trace_ok_init)
next
  case (pass t v v' t')
  show ?case
  proof (cases "Car_Speed_ConRight (the_car v) = Con_By_TraceLine")
    case True
    from method_limited [OF pass.IH pass.hyps(2) True] pass.hyps(3) show ?thesis by (metis option.inject prod.inject)
  next
    case False
    with pass show ?thesis by (simp add: trace_line_method_def)
  qed
qed

text \<open>
  C11: The tracer's commands are limited and finite: after initialisation, whatever pictures of 70 rows with a middle line
  inside the image and 16 bit gyro readings came before, with the car switched on or off and given to the tracer or not, every
  further call on such a picture succeeds. If the tracer has the car and it is switched on, the call sets a sideways speed
  within 200, a turn rate within 300, and the forward speed 400, or 100 in the narrow parts of a roundabout, and changes
  nothing else of the car; otherwise the picture's record and the car are left as they were.
\<close>

theorem trace_commands_limited:
  assumes "trace_reach t" and "traceable v"
  shows "\<exists>v' t'. trace_line_method v t = Some (v', t') \<and> trace_reach t' \<and>
    (if Car_Speed_ConRight (the_car v) = Con_By_TraceLine \<and> Car_BootSwitch (the_car v) \<noteq> 0
     then \<exists>vx w. the_car v' = (the_car v)\<lparr>Car_Speed := \<lparr>Vx = Fin vx,
         Vy = Fin (if Current_Road v = CirculeRoads \<and> cir_speed_flag v \<noteq> 0 then 100 else 400), Omega = Fin w\<rparr>\<rparr> \<and> \<bar>vx\<bar> \<le> 200 \<and> \<bar>w\<bar> \<le> 300
     else v' = v)"
proof (cases "Car_Speed_ConRight (the_car v) = Con_By_TraceLine")
  case True
  obtain vx w t' where
    m: "trace_line_method v t = Some (v\<lparr>the_car := Car_Change_Speed (Fin vx)
       (Fin (if Current_Road v = CirculeRoads \<and> cir_speed_flag v \<noteq> 0 then 100 else 400)) (Fin w) (the_car v)\<rparr>, t')"
      "\<bar>vx\<bar> \<le> 200" "\<bar>w\<bar> \<le> 300"
    using method_limited [OF trace_reach_ok [OF assms(1)] assms(2) True] .
  have "trace_reach t'" by (rule trace_reach.pass [OF assms m(1)])
  with m True show ?thesis unfolding command_given [OF True] by (cases "Car_BootSwitch (the_car v) = 0") auto
next
  case False
  then have "trace_line_method v t = Some (v, t)" by (simp add: trace_line_method_def)
  with assms(1) False show ?thesis by auto
qed

text \<open>The truncated division of the gyro reading keeps its sign and drops what is below 100.\<close>

lemma sdiv_sign: "g < 100 \<Longrightarrow> g sdiv 100 \<le> (0 :: int)" "- 100 < g \<Longrightarrow> 0 \<le> g sdiv (100 :: int)"
  by (auto simp: signed_divide_int_def sgn_if abs_if)

text \<open>
  C23: The steering is towards the line. Let the car be switched on and given to the tracer, the picture have 70 rows with a middle line
  inside the image, the gyro reading 16 bits, and at least one row between 20 and 69 be seen. When all of these rows that are seen have their middle left of the image's
  middle by at least one column, the car moves left, whatever such pictures were seen since the initialisation, and turns left unless the gyro reading is 100 or
  more (which the controller reads as a turn to the left already going on). When all have it right of the middle and the
  last error of both controllers was zero, it moves right, and turns right unless the gyro reading is -100 or less.
\<close>

theorem steers_towards_line:
  assumes "trace_reach t" and "traceable v" and "Car_BootSwitch (the_car v) \<noteq> 0" and "Car_Speed_ConRight (the_car v) = Con_By_TraceLine"
    and "some_row_seen (borders v)"
    and "middle_between 0 93 (borders v) \<or> middle_between 95 187 (borders v) \<and>
      Past_Error (TraceLine_Vx_Con t) = Fin 0 \<and> Past_Error (TraceLine_Normal_Con t) = Fin 0"
  shows "\<exists>v' t' vx w. trace_line_method v t = Some (v', t') \<and> Vx (Car_Speed (the_car v')) = Fin vx \<and> Omega (Car_Speed (the_car v')) = Fin w \<and>
    (if middle_between 0 93 (borders v) then vx < 0 \<and> (gyro_z (icm20602 (att (the_car v))) < 100 \<longrightarrow> 0 < w)
     else 0 < vx \<and> (- 100 < gyro_z (icm20602 (att (the_car v))) \<longrightarrow> w < 0))"
proof -
  note ok = trace_reach_ok [OF assms(1)]
  let ?g = "gyro_z (icm20602 (att (the_car v)))"
  from trace_ok_past [OF ok] obtain ex en
    where p: "Past_Error (TraceLine_Vx_Con t) = Fin ex" "Past_Error (TraceLine_Normal_Con t) = Fin en" .
  show ?thesis
  proof (cases "middle_between 0 93 (borders v)")
    case True
    from method_steers [OF ok assms(2) True _ _ _ assms(4,3) p] assms(5) obtain vx w x v' t' where
      m: "trace_line_method v t = Some (v', t')" "Vx (Car_Speed (the_car v')) = Fin vx" "Omega (Car_Speed (the_car v')) = Fin w"
        "low_of 1 \<le> x" "steering x (?g sdiv 100) ex en vx w"
      by simp fastforce
    with steering_left [OF m(5)] sdiv_sign(1) [of ?g] True show ?thesis by (auto simp: low_of_def)
  next
    case False
    with assms(6) p have r: "middle_between 95 187 (borders v)" "ex = 0" "en = 0" by auto
    from method_steers [OF ok assms(2) r(1) _ _ _ assms(4,3) p] assms(5) obtain vx w x v' t' where
      m: "trace_line_method v t = Some (v', t')" "Vx (Car_Speed (the_car v')) = Fin vx" "Omega (Car_Speed (the_car v')) = Fin w"
        "x \<le> high_of (- 1)" "steering x (?g sdiv 100) 0 0 vx w"
      by (simp add: r) fastforce
    with steering_right [OF m(5)] sdiv_sign(2) [of ?g] False show ?thesis by (auto simp: high_of_def)
  qed
qed


text \<open>A road in the middle of the image, seen in every row, with its middle in column \<open>m\<close>.\<close>

definition road_at :: "int \<Rightarrow> vision" where
  "road_at m = picture_zero\<lparr>borders := \<lparr>MID_Table = replicate 70 m, leftBroder = replicate 70 (m - 40), rightBroder = replicate 70 (m + 40)\<rparr>\<rparr>"

definition trace_start :: trace where
  "trace_start = (case trace_line_init True True trace_zero of Inl t \<Rightarrow> t | Inr (t, _) \<Rightarrow> t)"

lemma road_at_ok:
  assumes "45 \<le> m" and "m \<le> 140"
  shows "traceable (road_at m)" and "some_row_seen (borders (road_at m))" and "middle_between m m (borders (road_at m))"
    and "Car_BootSwitch (the_car (road_at m)) \<noteq> 0" and "Car_Speed_ConRight (the_car (road_at m)) = Con_By_TraceLine"
    and "gyro_z (icm20602 (att (the_car (road_at m)))) = 0"
  using assms by (auto simp: road_at_def picture_zero_def traceable_def road_rows_def some_row_seen_def middle_between_def row_seen_def
      LEFT_LOSE_VALUE_def car_zero_def attitude_zero_def imu_zero_def intro!: exI [of _ 20])

lemma trace_start_reach:
  "trace_reach trace_start" "Past_Error (TraceLine_Vx_Con trace_start) = Fin 0" "Past_Error (TraceLine_Normal_Con trace_start) = Fin 0"
proof -
  show "trace_reach trace_start" by (rule trace_reach.start [of True]) (simp add: trace_start_def trace_line_init_def Let_def)
  show "Past_Error (TraceLine_Vx_Con trace_start) = Fin 0" "Past_Error (TraceLine_Normal_Con trace_start) = Fin 0"
    by (simp_all add: trace_start_def trace_line_init_def trace_pid_def Pos_PID_Init_def trace_zero_def Pos_PID_zero_def Let_def)
qed

theorem trace_commands_limited_witness:
  "\<exists>v' t'. trace_line_method (road_at 50) trace_start = Some (v', t') \<and> trace_reach t' \<and>
    (if Car_Speed_ConRight (the_car (road_at 50)) = Con_By_TraceLine \<and> Car_BootSwitch (the_car (road_at 50)) \<noteq> 0
     then \<exists>vx w. the_car v' = (the_car (road_at 50))\<lparr>Car_Speed := \<lparr>Vx = Fin vx,
         Vy = Fin (if Current_Road (road_at 50) = CirculeRoads \<and> cir_speed_flag (road_at 50) \<noteq> 0 then 100 else 400), Omega = Fin w\<rparr>\<rparr> \<and>
         \<bar>vx\<bar> \<le> 200 \<and> \<bar>w\<bar> \<le> 300
     else v' = road_at 50)"
  by (rule trace_commands_limited) (simp_all add: trace_start_reach road_at_ok)

lemma middle_between_mono: "middle_between a b s \<Longrightarrow> a' \<le> a \<Longrightarrow> b \<le> b' \<Longrightarrow> middle_between a' b' s"
  by (fastforce simp: middle_between_def)

theorem steers_towards_line_witness:
  "(\<exists>v' t' vx w. trace_line_method (road_at 60) trace_start = Some (v', t') \<and> Vx (Car_Speed (the_car v')) = Fin vx \<and>
     Omega (Car_Speed (the_car v')) = Fin w \<and> vx < 0 \<and> 0 < w) \<and>
   (\<exists>v' t' vx w. trace_line_method (road_at 120) trace_start = Some (v', t') \<and> Vx (Car_Speed (the_car v')) = Fin vx \<and>
     Omega (Car_Speed (the_car v')) = Fin w \<and> 0 < vx \<and> w < 0)"
proof -
  have l: "middle_between 0 93 (borders (road_at 60))" using middle_between_mono [OF road_at_ok(3) [of 60]] by simp
  have r: "middle_between 95 187 (borders (road_at 120))" using middle_between_mono [OF road_at_ok(3) [of 120]] by simp
  have n: "\<not> middle_between 0 93 (borders (road_at 120))"
    by (auto simp: middle_between_def road_at_def row_seen_def LEFT_LOSE_VALUE_def intro!: exI [of _ 20])
  show ?thesis
    using steers_towards_line [of trace_start "road_at 60"] steers_towards_line [of trace_start "road_at 120"] l r n
      road_at_ok [of 60] road_at_ok [of 120] trace_start_reach by simp
qed

text \<open>
  A correction to the right can come out reversed: the derivative term has lost its sign, so when the last offset was
  50 or more to the left and the line is now a little right of the middle, the car still moves and turns left.
\<close>

theorem right_correction_reversed:
  assumes "trace_reach t" and "traceable v" and "Car_BootSwitch (the_car v) \<noteq> 0" and "Car_Speed_ConRight (the_car v) = Con_By_TraceLine"
    and "some_row_seen (borders v)" and "\<bar>gyro_z (icm20602 (att (the_car v)))\<bar> < 100" and "middle_between 95 104 (borders v)"
    and "Past_Error (TraceLine_Vx_Con t) = Fin e" and "Past_Error (TraceLine_Normal_Con t) = Fin e" and "e \<le> - 50"
  shows "\<exists>v' t' vx w. trace_line_method v t = Some (v', t') \<and> Vx (Car_Speed (the_car v')) = Fin vx \<and> Omega (Car_Speed (the_car v')) = Fin w \<and>
    vx < 0 \<and> 0 < w"
proof -
  have g: "gyro_z (icm20602 (att (the_car v))) sdiv 100 = 0" using assms(6) by (simp add: signed_divide_int_def abs_less_iff)
  from method_steers [OF trace_reach_ok [OF assms(1)] assms(2,7) _ _ _ assms(4,3,8,9)] assms(5) obtain vx w x v' t' where
    m: "trace_line_method v t = Some (v', t')" "Vx (Car_Speed (the_car v')) = Fin vx" "Omega (Car_Speed (the_car v')) = Fin w"
      "low_of (- 10) \<le> x" "x \<le> high_of (- 1)" "steering x 0 e e vx w"
    by (simp add: g) fastforce
  with steering_reversed [OF m(6) _ _ assms(10)] show ?thesis by (auto simp: low_of_def high_of_def)
qed


text \<open>A picture in which only the lowest row is seen, with its middle in column 10.\<close>

definition road_left :: vision where
  "road_left = picture_zero\<lparr>borders := \<lparr>MID_Table = replicate 70 10, leftBroder = replicate 70 0, rightBroder = replicate 69 187 @ [20]\<rparr>\<rparr>"

theorem right_correction_reversed_witness:
  "\<exists>t v' t' vx w. trace_reach t \<and> trace_line_method (road_at 99) t = Some (v', t') \<and> Vx (Car_Speed (the_car v')) = Fin vx \<and>
    Omega (Car_Speed (the_car v')) = Fin w \<and> vx < 0 \<and> 0 < w"
proof -
  have ok: "traceable road_left"
    by (auto simp: road_left_def picture_zero_def traceable_def road_rows_def car_zero_def attitude_zero_def imu_zero_def)
  have "map_option (\<lambda>(v', t'). (Past_Error (TraceLine_Vx_Con t'), Past_Error (TraceLine_Normal_Con t')))
      (trace_line_method road_left trace_start) = Some (Fin (- 84), Fin (- 84))" by code_simp
  then obtain v' t where t: "trace_line_method road_left trace_start = Some (v', t)" "Past_Error (TraceLine_Vx_Con t) = Fin (- 84)"
    "Past_Error (TraceLine_Normal_Con t) = Fin (- 84)" by auto
  have r: "trace_reach t" by (rule trace_reach.pass [OF trace_start_reach(1) ok t(1)])
  have "middle_between 95 104 (borders (road_at 99))" using middle_between_mono [OF road_at_ok(3) [of 99]] by simp
  then show ?thesis
    using right_correction_reversed [OF r road_at_ok(1) [of 99] _ _ _ _ _ t(2,3)] road_at_ok [of 99] r by simp blast
qed

section \<open>From the picture to the wheels' set point\<close>

lemma pid_rest:
  assumes "trace_pid_ok a d out p" and "0 < out" and "Past_Error p = Fin 0"
  shows "\<exists>p'. Pos_PID_Controller p (Fin 0) = (Fin 0, p') \<and> Past_Error p' = Fin 0"
proof -
  obtain v where v: "Value_I p = Fin v" "\<bar>v\<bar> \<le> 200" using assms(1) by (auto simp: trace_pid_ok_def in_range_iff abs_le_iff)
  then have "f32 v = Fin (rnd32 v)" "f32 0 = Fin 0" by (simp_all add: f32_small)
  then have "Output (pid_terms p (Fin 0)) = Fin 0" "Past_Error (pid_terms p (Fin 0)) = Fin 0"
    "Output_Max (pid_terms p (Fin 0)) = Fin out" "Output_Min (pid_terms p (Fin 0)) = Fin (- out)"
    using assms(1,3) v by (simp_all add: trace_pid_ok_def pid_terms_def fadd_def fsub_def fmul_def fl_sub_def Let_def)
  then show ?thesis
    using assms(2) by (simp add: Pos_PID_Controller_def pid_limit_I_def pid_return_def Let_def)
qed

lemma method_rest:
  assumes "trace_ok t" and "traceable v" and "middle_between 94 94 (borders v)" and "Car_Speed_ConRight (the_car v) = Con_By_TraceLine"
    and "Car_BootSwitch (the_car v) \<noteq> 0" and "\<bar>gyro_z (icm20602 (att (the_car v)))\<bar> < 100"
    and "Past_Error (TraceLine_Vx_Con t) = Fin 0" and "Past_Error (TraceLine_Normal_Con t) = Fin 0" and "Current_Road v = NormalRoads"
  shows "\<exists>t'. trace_line_method v t =
    Some (v\<lparr>the_car := (the_car v)\<lparr>Car_Speed := \<lparr>Vx = Fin 0, Vy = Fin 400, Omega = Fin 0\<rparr>\<rparr>\<rparr>, t')"
proof -
  note t = assms(1) [unfolded trace_ok_def]
  have "\<forall>i. 20 \<le> i \<longrightarrow> i < 70 \<longrightarrow> row_seen (borders v) i \<longrightarrow>
      0 \<le> 94 - MID_Table (borders v) ! nat i \<and> 94 - MID_Table (borders v) ! nat i \<le> 0"
    using assms(3) by (auto simp: middle_between_def)
  with mean_offset_range [of "borders v" 0 0 t] assms(2) t
  obtain q where q: "mean_offset (borders v) t = Some (t\<lparr>TraceLine_Aver_Offset := Fin 0, quan := q\<rparr>)"
    by (auto simp: traceable_def low_of_def high_of_def split: if_splits)
  have g: "gyro_z (icm20602 (att (the_car v))) sdiv 100 = 0" using assms(6) by (simp add: signed_divide_int_def abs_less_iff)
  have z: "i2f 0 = Fin 0" "fsub (Fin 0) (Fin 0) = Fin 0" by (simp_all add: i2f_exact fsub_def fl_sub_def f32_small)
  from pid_rest [of _ _ _ "TraceLine_Normal_Con t"] pid_rest [of _ _ _ "TraceLine_Vx_Con t"] t assms(7,8)
  obtain pn pv where "Pos_PID_Controller (TraceLine_Normal_Con t) (Fin 0) = (Fin 0, pn)"
    "Pos_PID_Controller (TraceLine_Vx_Con t) (Fin 0) = (Fin 0, pv)" by fastforce
  then show ?thesis
    using q assms(4,5,9) by (simp add: trace_line_method_def steer_def g z BASIC_SPEED_def i2f_exact Car_Change_Speed_def Let_def)
qed

text \<open>
  C10: On the middle of a straight road the car drives straight ahead. The picture is a clean one (as in C3) of a straight road whose
  middle is column 94 in every row: both borders stay in columns 6 to 181 and within 275/69 columns (about 4) of their chord. The
  road state is normal, the feature tables have their sizes, the car is switched on and given to the tracer, the gyro reads
  less than 100 either way, and the tracer is in a state it reaches after initialisation in which the last error of both
  controllers is zero. Then the picture, once its flag is set, goes through border search, segmentation, feature search, road
  decision, middle line and both controllers without an undefined step, its flag is cleared, and the car is told to drive at
  speed 400 with no sideways speed and no turn.
\<close>

theorem straight_road_drive:
  assumes "clean_image img T l r" and "clean_track l r" and "free_rows l" and "free_rows r" and "straight_rows l" and "straight_rows r"
    and "\<forall>i. 0 \<le> i \<longrightarrow> i < 70 \<longrightarrow> (l i + r i) div 2 = 94"
    and "\<forall>s. length (my_segment (side_of s v)) = 10 \<and> length (feature_p (side_of s v)) = 5"
    and "Current_Road v = NormalRoads" and "Car_Speed_ConRight (the_car v) = Con_By_TraceLine" and "Car_BootSwitch (the_car v) \<noteq> 0"
    and "\<bar>gyro_z (icm20602 (att (the_car v)))\<bar> < 100"
    and "trace_reach t" and "Past_Error (TraceLine_Vx_Con t) = Fin 0" and "Past_Error (TraceLine_Normal_Con t) = Fin 0"
    and "image_ok bw"
  shows "\<exists>b. frame_step (vision_frame g between now now2 bw img T)
      \<lparr>sight = v, trc = t, mcx_link = m, mt9v03x_finish_flag = 1\<rparr> = Some (Inr b) \<and>
    Car_Speed (the_car (sight b)) = \<lparr>Vx = Fin 0, Vy = Fin 400, Omega = Fin 0\<rparr> \<and> mt9v03x_finish_flag b = 0"
proof -
  obtain v' ds where v': "vision_frame g between now now2 bw img T v = Some (Inr (v', ds))" "leftBroder (borders v') = map l [0..69]"
      "rightBroder (borders v') = map r [0..69]" "MID_Table (borders v') = map (\<lambda>i. (l i + r i) div 2) [0..69]"
      "Current_Road v' = NormalRoads" "the_car v' = the_car v"
    using straight_road [OF assms(1-6,8,9,16), of g between now now2] by (elim exE conjE)
  have mid: "MID_Table (borders v') ! nat i = 94" if "0 \<le> i" "i < 70" for i
    using that assms(7) by (simp add: v' del: upto_rec_numeral)
  have "traceable v'"
    using assms(12) mid by (simp add: traceable_def road_rows_def v' del: upto_rec_numeral)
  moreover have "middle_between 94 94 (borders v')" using mid by (simp add: middle_between_def)
  ultimately obtain t' where "trace_line_method v' t =
      Some (v'\<lparr>the_car := (the_car v')\<lparr>Car_Speed := \<lparr>Vx = Fin 0, Vy = Fin 400, Omega = Fin 0\<rparr>\<rparr>\<rparr>, t')"
    using method_rest [OF trace_reach_ok [OF assms(13)], of v'] assms(10-12,14,15) v'(5,6) by auto
  with v'(1) show ?thesis by (simp add: frame_step_def)
qed

theorem straight_road_drive_witness:
  "\<exists>b. frame_step (vision_frame \<lparr>mono_junk = \<lambda>_ _. 0, aver_junk = \<lambda>_. (0, 0)\<rparr> (\<lambda>c. c) 0 0
        (replicate 70 (replicate 51 0 @ replicate 87 255 @ replicate 50 0))
        (replicate 70 (replicate 51 0 @ replicate 87 200 @ replicate 50 0)) 128)
      \<lparr>sight = picture_zero\<lparr>Current_Road := NormalRoads\<rparr>, trc = trace_start, mcx_link = mcx_zero, mt9v03x_finish_flag = 1\<rparr> = Some (Inr b) \<and>
    Car_Speed (the_car (sight b)) = \<lparr>Vx = Fin 0, Vy = Fin 400, Omega = Fin 0\<rparr> \<and> mt9v03x_finish_flag b = 0"
  by (rule straight_road_drive [where l = "\<lambda>_. 50" and r = "\<lambda>_. 138"])
    (auto simp: clean_image_def clean_track_def image_ok_def nth_append nat_less_iff free_rows_def straight_rows_def
      picture_zero_def side_of_def side_zero_def car_zero_def attitude_zero_def imu_zero_def trace_start_reach)

section \<open>Asking for the next box\<close>

fun trace_run :: "(vision \<Rightarrow> ((vision \<times> drawn list) + vision \<times> pixel list) option) \<Rightarrow>
    ('a robot_scheme \<Rightarrow> 'a robot_scheme option) \<Rightarrow> (int \<times> int) list \<Rightarrow> 'a robot_scheme \<Rightarrow> ((vision \<times> drawn list) + 'a robot_scheme) option" where
  "trace_run frame locate [] b = Some (Inr b)"
| "trace_run frame locate ((now, now2) # ns) b =
     do {
       r \<leftarrow> trace_line_pass frame locate now now2 b;
       (case r of Inl x \<Rightarrow> Some (Inl x) | Inr b \<Rightarrow> trace_run frame locate ns b)
     }"

text \<open>No frame is finished and no box detected.\<close>

definition quiet :: "'a robot_scheme \<Rightarrow> bool" where
  "quiet b \<longleftrightarrow> mt9v03x_finish_flag b = 0 \<and> MCX_Detection_Flag (mcx_link b) = 0"

lemma rearm_simps [simp]:
  "mt9v03x_finish_flag (rearm n b) = mt9v03x_finish_flag b"
  "MCX_Detection_Flag (mcx_link (rearm n b)) = MCX_Detection_Flag (mcx_link b)" "tl_tick (trc (rearm n b)) = tl_tick (trc b)"
  "push_flag (trc b) = 0 \<Longrightarrow> rearm n b = b"
  "mcx_link (pause ms b) = mcx_link b" "trc (pause ms b) = trc b" "mt9v03x_finish_flag (pause ms b) = mt9v03x_finish_flag b"
  by (simp_all add: rearm_def MCX_Change_Mode_def pause_def Let_def)

lemma quiet_pass:
  "quiet b \<Longrightarrow> trace_line_pass frame locate now now2 b = Some (Inr (rearm now2 (pause 1 b)))"
  by (simp add: quiet_def trace_line_pass_def frame_step_def hand_over_def)

lemma quiet_run:
  assumes "quiet b"
  shows "\<exists>b'. trace_run frame locate ns b = Some (Inr b') \<and> quiet b' \<and>
    MCX_sent (mcx_link b') = MCX_sent (mcx_link b) @
      (if push_flag (trc b) \<noteq> 0 \<and> (\<exists>p \<in> set ns. u32 (snd p - tl_tick (trc b)) > 2000) then [68] else [])"
  using assms
proof (induction ns arbitrary: b)
  case (Cons p ns)
  obtain now n where p: "p = (now, n)" by (cases p)
  let ?b = "rearm n (pause 1 b)"
  have q: "quiet ?b" using Cons.prems by (simp add: quiet_def)
  have "push_flag (trc ?b) \<noteq> 0 \<longleftrightarrow> push_flag (trc b) \<noteq> 0 \<and> \<not> u32 (n - tl_tick (trc b)) > 2000"
    "MCX_sent (mcx_link ?b) = MCX_sent (mcx_link b) @ (if push_flag (trc b) \<noteq> 0 \<and> u32 (n - tl_tick (trc b)) > 2000 then [68] else [])"
    by (simp_all add: rearm_def MCX_Change_Mode_def Let_def)
  with Cons.IH [OF q] Cons.prems show ?case
    by (cases "push_flag (trc b) \<noteq> 0"; cases "u32 (n - tl_tick (trc b)) > 2000") (simp_all add: p quiet_pass)
qed simp

text \<open>
  What the tracer relies on when it hands the car over: from the states the box task is ready for, it comes to its end and leaves no
  finished picture behind; stopping the car and waiting keep it ready.
\<close>

locale box_service =
  fixes locate :: "'a robot_scheme \<Rightarrow> 'a robot_scheme option" and ready :: "'a robot_scheme \<Rightarrow> bool"
  assumes returns: "ready b \<Longrightarrow> \<exists>b'. locate b = Some b' \<and> mt9v03x_finish_flag b' = 0"
    and ready_car: "ready b \<Longrightarrow> ready (b\<lparr>sight := (sight b)\<lparr>the_car := c\<rparr>\<rparr>)"
    and ready_pause: "ready b \<Longrightarrow> ready (pause ms b)"

context box_service
begin

lemma hand_over_returns:
  assumes "ready b" and "mt9v03x_finish_flag b = 0"
  shows "\<exists>b'. hand_over locate now b = Some b' \<and> quiet b'"
proof (cases "MCX_Detection_Flag (mcx_link b) = 0")
  case False
  obtain s where "locate (pause 100 (b\<lparr>sight := (sight b)\<lparr>the_car := Car_Change_Speed (i2f 0) (i2f 0) (i2f 0) (the_car (sight b))\<rparr>\<rparr>)) = Some s"
    "mt9v03x_finish_flag s = 0"
    using returns [OF ready_pause [OF ready_car [OF assms(1)]]] by blast
  then show ?thesis using False by (simp add: hand_over_def quiet_def Let_def)
qed (use assms(2) in \<open>simp add: hand_over_def quiet_def\<close>)

text \<open>So every pass without a new picture returns, and so does every run of such passes; no box is left unhandled.\<close>

lemma pass_returns:
  assumes "ready b" and "mt9v03x_finish_flag b = 0"
  shows "\<exists>b'. trace_line_pass frame locate now n b = Some (Inr b') \<and> quiet b'"
proof -
  obtain b' where "hand_over locate now (pause 1 b) = Some b'" "quiet b'"
    using hand_over_returns [OF ready_pause [OF assms(1), of 1], of now] assms(2) by auto
  then show ?thesis using assms(2) by (simp add: trace_line_pass_def frame_step_def) (simp add: quiet_def)
qed

lemma run_returns:
  assumes "ready b" and "mt9v03x_finish_flag b = 0"
  shows "\<exists>b'. trace_run frame locate ((now, n) # ns) b = Some (Inr b') \<and> quiet b'"
proof -
  obtain b1 where b1: "trace_line_pass frame locate now n b = Some (Inr b1)" "quiet b1" using pass_returns [OF assms] by blast
  from quiet_run [OF b1(2), of frame locate ns] b1(1) show ?thesis by auto
qed

end

text \<open>
  C22: After a box the next detection is asked for exactly once: a pass that finds the detection flag set and no finished frame stops the
  car, waits 100 ms, lets the box task run, which comes to its end without a new frame being finished, and clears the flag; in this pass and
  the ones that follow, as long as no frame and no box
  comes, the letter D is sent once, in the first pass more than 2000 ticks after the hand-over, and never before.
\<close>

theorem box_handled_once:
  assumes "mt9v03x_finish_flag b = 0" and "MCX_Detection_Flag (mcx_link b) \<noteq> 0"
    and "locate (pause 100 (pause 1 b\<lparr>sight := (sight (pause 1 b))\<lparr>the_car :=
      Car_Change_Speed (i2f 0) (i2f 0) (i2f 0) (the_car (sight b))\<rparr>\<rparr>)) = Some stopped" and "mt9v03x_finish_flag stopped = 0"
  shows "\<exists>b'. trace_run frame locate ((now, n) # ns) b = Some (Inr b') \<and> MCX_Detection_Flag (mcx_link b') = 0 \<and>
    MCX_sent (mcx_link b') = MCX_sent (mcx_link stopped) @
      (if \<exists>p \<in> set ((now, n) # ns). u32 (snd p - s32 now) > 2000 then [68] else [])"
proof -
  define c where "c = stopped\<lparr>trc := (trc stopped)\<lparr>tl_tick := s32 now, push_flag := 1\<rparr>, mcx_link := (mcx_link stopped)\<lparr>MCX_Detection_Flag := 0\<rparr>\<rparr>"
  have "the_car (sight (pause 1 b)) = the_car (sight b)" by (simp add: pause_def)
  then have h: "hand_over locate now (pause 1 b) = Some c"
    using assms(2,3) by (simp add: hand_over_def c_def Let_def)
  have "quiet (rearm n c)" using assms(4) by (simp add: quiet_def c_def)
  from quiet_run [OF this, of frame locate ns] obtain b' where b': "trace_run frame locate ns (rearm n c) = Some (Inr b')" "quiet b'"
    "MCX_sent (mcx_link b') = MCX_sent (mcx_link (rearm n c)) @
      (if push_flag (trc (rearm n c)) \<noteq> 0 \<and> (\<exists>p \<in> set ns. u32 (snd p - tl_tick (trc (rearm n c))) > 2000) then [68] else [])"
    by blast
  have "trace_run frame locate ((now, n) # ns) b = Some (Inr b')"
    using b'(1) h assms(1) by (simp add: trace_line_pass_def frame_step_def)
  moreover have "MCX_sent (mcx_link b') = MCX_sent (mcx_link stopped) @
      (if \<exists>p \<in> set ((now, n) # ns). u32 (snd p - s32 now) > 2000 then [68] else [])"
    unfolding b'(3) by (auto simp: rearm_def c_def MCX_Change_Mode_def Let_def)
  ultimately show ?thesis using b'(2) by (auto simp: quiet_def)
qed

theorem box_handled_once_witness:
  "\<exists>b'. trace_run (\<lambda>_. None) Some [(10, 20), (30, 1500), (1600, 2011), (2020, 2030)]
      \<lparr>sight = picture_zero, trc = trace_zero, mcx_link = mcx_zero\<lparr>MCX_Detection_Flag := 1\<rparr>, mt9v03x_finish_flag = 0\<rparr> = Some (Inr b') \<and>
    MCX_Detection_Flag (mcx_link b') = 0 \<and> MCX_sent (mcx_link b') = [68]"
  using box_handled_once [of "\<lparr>sight = picture_zero, trc = trace_zero, mcx_link = mcx_zero\<lparr>MCX_Detection_Flag := 1\<rparr>, mt9v03x_finish_flag = 0\<rparr>"
      Some, OF _ _ refl, of "\<lambda>_. None" 10 20 "[(30, 1500), (1600, 2011), (2020, 2030)]"]
  by (simp add: mcx_zero_def u32_def s32_def pause_def)

end
