(* ===== verification/LocateBox.thy ===== *)
theory LocateBox
  imports TraceLine
begin

text \<open>
  The box task (\<open>code/src/locate_box.c\<close>): turn to the box, drive up to it, read its class from the Art camera,
  circle it until the camera sees its side, push it off the track and give the car back to the line tracer.
  The task is a loop over the frames of two cameras: one round is \<open>correct_step\<close>, whose inputs are what the
  interrupts and the pins deliver during the round.
\<close>

section \<open>State and inputs\<close>

definition AREA_CON_REF :: int where [run_simps]: "AREA_CON_REF = 120"
definition X_CON_REF :: int where [run_simps]: "X_CON_REF = 160"
definition PUSH_RIGHT :: int where [run_simps]: "PUSH_RIGHT = 1"

definition Angle_Correct_State :: int where [run_simps]: "Angle_Correct_State = 1"
definition Location_Correct_State :: int where [run_simps]: "Location_Correct_State = 2"
definition Push_Box_State :: int where [run_simps]: "Push_Box_State = 3"

definition MT9V03X_H :: int where "MT9V03X_H = 120"
definition MT9V03X_W :: int where "MT9V03X_W = 188"

record locate_box_data =
  Transverse_pid :: Pos_PID_t
  Longitudinal_pid :: Pos_PID_t
  Dir_Cen_pid :: Pos_PID_t
  Dir_pid :: Pos_PID_t
  locate_debug_flag :: int

record box = robot +
  art_link :: art
  locate :: locate_box_data
  push_img_bw :: image

text \<open>The locals of \<open>direction_correction_test1\<close>.\<close>

record correction =
  angle_state :: int
  start_angle :: flt
  finish_flag :: int
  l_or_r :: int

section \<open>The side of the box\<close>

definition bw_image :: "image \<Rightarrow> image option" where
  "bw_image img =
    do {
      T \<leftarrow> Camera_My_Adapt_Threshold (concat img) IMAGE_COL IMAGE_ROW;
      those (map (\<lambda>i. those (map (\<lambda>j. map_option (binarize (s16 T)) (px img i j)) [0..MT9V03X_W - 1])) [0..MT9V03X_H - 1])
    }"

definition PushBox_IsDirectionCorrect :: "image \<Rightarrow> int option" where
  "PushBox_IsDirectionCorrect bw =
    do {
      sys_rate \<leftarrow> Vision_CalSymRate (concat bw) 188 120 (point 0 30) (point 25 119) 1;
      left_black_rate \<leftarrow> Vision_CalBlackRate (concat bw) 188 (point 0 30) (point 25 119);
      _ \<leftarrow> ips200_draw_line 20 (119 + 100) 20 (0 + 100) RGB565_RED;
      _ \<leftarrow> ips200_draw_line (188 - 20) (119 + 100) (187 - 20) (0 + 100) RGB565_RED;
      Some (c_bool (flt_gt sys_rate (flit (82 / 100)) \<and> flt_less left_black_rate (flit (65 / 100))))
    }"

text \<open>A finished camera frame is binarised and judged; without one the answer of the round is 0.\<close>

definition judge_frame :: "image \<Rightarrow> box \<Rightarrow> (int \<times> box) option" where
  "judge_frame img b =
    (if mt9v03x_finish_flag b \<noteq> 0 then
       do {
         bw \<leftarrow> bw_image img;
         _ \<leftarrow> ips200_show_gray_image 0 100 (concat bw) 188 120 188 120 0;
         should \<leftarrow> PushBox_IsDirectionCorrect bw;
         Some (should, b\<lparr>push_img_bw := bw, mt9v03x_finish_flag := 0\<rparr>)
       }
     else Some (0, b))"

section \<open>The class of the box\<close>

text \<open>
  The Art camera's interrupt may change \<open>Art_Data\<close> between any two reads: \<open>arrivals\<close> gives, for each read in turn,
  the class that arrives just before it, if one does.  A read with no entry left is \<open>None\<close>: the input ends before
  the loop does.
\<close>

fun read_art :: "int option list \<times> art \<Rightarrow> (int \<times> int option list \<times> art) option" where
  "read_art ([], a) = None"
| "read_art (x # xs, a) = (let a = (case x of None \<Rightarrow> a | Some d \<Rightarrow> a\<lparr>Art_Data := d\<rparr>) in Some (Art_GetData a, xs, a))"

lemma read_art_shorter: "read_art (xs, a) = Some (d, ys, a') \<Longrightarrow> length ys < length xs"
  by (cases xs) (auto simp: Let_def)

text \<open>\<open>while(Art_GetData());\<close>\<close>

fun wait_clear :: "int option list \<Rightarrow> art \<Rightarrow> (int option list \<times> art) option" where
  "wait_clear [] a = None"
| "wait_clear (x # xs) a =
     (let a = (case x of None \<Rightarrow> a | Some d \<Rightarrow> a\<lparr>Art_Data := d\<rparr>) in if Art_GetData a \<noteq> 0 then wait_clear xs a else Some (xs, a))"

text \<open>One round of the voting loop: the class and the count after it.\<close>

definition vote_round :: "int \<times> int \<times> int option list \<times> art \<Rightarrow> (int \<times> int \<times> int option list \<times> art) option" where
  "vote_round s = (case s of (cls, tick, q) \<Rightarrow>
    do {
      (d, q) \<leftarrow> read_art q;
      if d \<noteq> 0 then
        do {
          (d, q) \<leftarrow> read_art q;
          (cls, tick, q) \<leftarrow> (if cls = d then Some (cls, u8 (tick + 1), q)
                              else do { (d, q) \<leftarrow> read_art q; Some (d, 0, q) });
          Some (cls, tick, if tick < 3 then (fst q, Art_DataClear (snd q)) else q)
        }
      else Some (cls, tick, q)
    })"

lemma vote_round_shorter: "vote_round (cls, tick, xs, a) = Some (cls', tick', ys, a') \<Longrightarrow> length ys < length xs"
  by (auto simp: vote_round_def bind_eq_Some_conv split: if_splits dest!: read_art_shorter)

function vote_loop :: "int \<times> int \<times> int option list \<times> art \<Rightarrow> (int option list \<times> art) option" where
  "vote_loop (cls, tick, xs, a) =
     (if tick < 3 then (case vote_round (cls, tick, xs, a) of None \<Rightarrow> None | Some s \<Rightarrow> vote_loop s) else Some (xs, a))"
  by pat_completeness auto
termination
  by (relation "measure (\<lambda>(cls, tick, xs, a). length xs)") (auto dest: vote_round_shorter)

text \<open>The class that is entered is read once more after the vote.\<close>

definition vote :: "int option list \<Rightarrow> art \<Rightarrow> (int \<times> art) option" where
  "vote xs a =
    do {
      let a = Art_DataClear a;
      q \<leftarrow> wait_clear xs a;
      (cls, q) \<leftarrow> read_art q;
      q \<leftarrow> vote_loop (cls, 0, fst q, Art_DataClear (snd q));
      (d, q) \<leftarrow> read_art q;
      Some (d, Art_DataClear (snd q))
    }"

section \<open>Pushing\<close>

text \<open>\<open>while(tick <= 10) tick = (gpio_get_level(C6) == v) ? tick + 1 : 0;\<close> over the levels read, and the levels left.\<close>

fun steady :: "bool \<Rightarrow> int \<Rightarrow> bool list \<Rightarrow> bool list option" where
  "steady v tick ls =
     (if tick \<le> 10 then (case ls of [] \<Rightarrow> None | l # ls \<Rightarrow> steady v (if l = v then tick + 1 else 0) ls) else Some ls)"

declare steady.simps [simp del]

definition push_box :: "(car \<Rightarrow> car) \<Rightarrow> bool list \<Rightarrow> int \<Rightarrow> car \<Rightarrow> (io list \<times> car) option" where
  "push_box between levels side c =
    do {
      let c = Car_Change_Speed (i2f 0) (i2f 300) (i2f 0) c;
      levels \<leftarrow> steady False 0 levels;
      levels \<leftarrow> steady True 0 levels;
      let c = Car_Change_Speed (i2f 0) (i2f 0) (i2f 0) (between c);
      (es, c) \<leftarrow> Car_DistanceMotion between (i2f 0) (i2f (- 30)) (d2f (dlit (7 / 10))) (between c);
      Some (Delay 200 # es @ [Delay 250], Car_Rotate (i2f (if side = PUSH_RIGHT then 90 else - 90)) c)
    }"

section \<open>The task\<close>

text \<open>
  What a round takes from outside: the box centre the MCX camera reports, if it does, whether a camera frame was
  finished, the sensor image, the arrivals of the Art camera, the levels of pin C6, and what the other threads do to the
  car during a wait.  The interrupts of a round are taken at its start (those of the Art camera between its reads).
\<close>

record outside =
  seen :: "(int \<times> int) option"
  framed :: bool
  sensor :: image
  arrivals :: "int option list"
  levels :: "bool list"
  meanwhile :: "car \<Rightarrow> car"

definition on_car :: "(car \<Rightarrow> car) \<Rightarrow> box \<Rightarrow> box" where
  "on_car f b = b\<lparr>sight := (sight b)\<lparr>the_car := f (the_car (sight b))\<rparr>\<rparr>"

definition drive :: "flt \<Rightarrow> flt \<Rightarrow> flt \<Rightarrow> box \<Rightarrow> box" where
  "drive x y w b = on_car (Car_Change_Speed x y w) b"

definition halt :: "outside \<Rightarrow> box \<Rightarrow> box" where
  "halt inp b = on_car (meanwhile inp) (drive (i2f 0) (i2f 0) (i2f 0) b)"

definition use_long :: "box \<Rightarrow> flt \<times> box" where
  "use_long b = (let (y, p) = Pos_PID_Controller (Longitudinal_pid (locate b)) (i2f (center_y (mcx_link b)))
     in (y, b\<lparr>locate := (locate b)\<lparr>Longitudinal_pid := p\<rparr>\<rparr>))"

definition use_dir :: "box \<Rightarrow> flt \<times> box" where
  "use_dir b = (let (y, p) = Pos_PID_Controller (Dir_Cen_pid (locate b)) (i2f (center_x (mcx_link b)))
     in (y, b\<lparr>locate := (locate b)\<lparr>Dir_Cen_pid := p\<rparr>\<rparr>))"

definition use_trans :: "box \<Rightarrow> flt \<times> box" where
  "use_trans b = (let (y, p) = Pos_PID_Controller (Transverse_pid (locate b)) (i2f (center_x (mcx_link b)))
     in (y, b\<lparr>locate := (locate b)\<lparr>Transverse_pid := p\<rparr>\<rparr>))"

definition off_x :: "box \<Rightarrow> int" where "off_x b = \<bar>center_x (mcx_link b) - X_CON_REF\<bar>"
definition off_y :: "box \<Rightarrow> int" where "off_y b = \<bar>center_y (mcx_link b) - AREA_CON_REF\<bar>"

text \<open>Towards the box; when it is in reach, the class is voted and entered.\<close>

definition approach :: "outside \<Rightarrow> correction \<times> box \<Rightarrow> (correction \<times> box) option" where
  "approach inp s = (case s of (k, b) \<Rightarrow>
    do {
      let (vy, b) = use_long b;
      let (w, b) = use_dir b;
      let b = drive (i2f 0) vy w b;
      if off_x b \<le> 10 \<and> off_y b \<le> 15 then
        do {
          let b = halt inp b;
          let k = k\<lparr>start_angle := Att_CurrentYaw (sight b), angle_state := Location_Correct_State\<rparr>;
          (d, a) \<leftarrow> vote (arrivals inp) (art_link b);
          (side, tab) \<leftarrow> Class_Add d (class_table (sight b));
          side \<leftarrow> side;
          Some (k\<lparr>l_or_r := side\<rparr>, b\<lparr>art_link := a, sight := (sight b)\<lparr>class_table := tab\<rparr>\<rparr>)
        }
      else Some (k, b)
    })"

definition circle :: "outside \<Rightarrow> int \<Rightarrow> correction \<times> box \<Rightarrow> correction \<times> box" where
  "circle inp should s = (case s of (k, b) \<Rightarrow>
     let (vy, b) = use_long b;
         (w, b) = use_dir b;
         b = drive (i2f (if l_or_r k = PUSH_RIGHT then - 250 else 250)) vy w b
     in if should \<noteq> 0
        then (k\<lparr>angle_state := Push_Box_State\<rparr>, on_car (Car_Rotate (i2f 0)) (halt inp b))
        else (k, b))"

definition push :: "outside \<Rightarrow> correction \<times> box \<Rightarrow> (correction \<times> box) option" where
  "push inp s = (case s of (k, b) \<Rightarrow>
    do {
      let (vx, b) = use_trans b;
      let (vy, b) = use_long b;
      let b = drive vx vy (i2f 0) b;
      if off_x b \<le> 10 then
        do {
          (es, c) \<leftarrow> push_box (meanwhile inp) (levels inp) (l_or_r k) (the_car (sight b));
          let b = on_car (\<lambda>_. meanwhile inp c) b;
          let b = b\<lparr>mcx_link := MCX_Change_Mode 82 (mcx_link b)\<rparr>;
          Some (k\<lparr>finish_flag := 1\<rparr>, on_car (Car_Speed_ConRight_update (\<lambda>_. Con_By_TraceLine)) b)
        }
      else Some (k, b)
    })"

definition search :: "correction \<times> box \<Rightarrow> correction \<times> box" where
  "search s = (case s of (k, b) \<Rightarrow>
     let (w, b) = use_dir b;
         b = drive (i2f 0) (i2f 0) w b
     in (if off_x b \<le> 20 then k\<lparr>angle_state := Angle_Correct_State\<rparr> else k, b))"

definition correct_step :: "outside \<Rightarrow> correction \<times> box \<Rightarrow> (correction \<times> box) option" where
  "correct_step inp s = (case s of (k, b) \<Rightarrow>
    do {
      (should, b) \<leftarrow> judge_frame (sensor inp) b;
      if MCX_rx_flag (mcx_link b) \<noteq> 0 then
        do {
          (k, b) \<leftarrow> (if angle_state k = Angle_Correct_State then approach inp (k, b)
                     else if angle_state k = Location_Correct_State then Some (circle inp should (k, b))
                     else if angle_state k = Push_Box_State then push inp (k, b)
                     else Some (search (k, b)));
          Some (k, b\<lparr>mcx_link := (mcx_link b)\<lparr>MCX_rx_flag := 0\<rparr>\<rparr>)
        }
      else Some (k, b)
    })"

definition interrupts :: "outside \<Rightarrow> box \<Rightarrow> box" where
  "interrupts inp b =
    (let b = (case seen inp of None \<Rightarrow> b
              | Some (x, y) \<Rightarrow> b\<lparr>mcx_link := (mcx_link b)\<lparr>center_x := x, center_y := y, MCX_rx_flag := 1\<rparr>\<rparr>);
         b = (if framed inp then b\<lparr>mt9v03x_finish_flag := 1\<rparr> else b)
     in on_car (meanwhile inp) b)"

text \<open>
  The loop over the rounds; \<open>None\<close> when the inputs end first.  The locals \<open>init_angle\<close> and \<open>l_or_r\<close> are
  uninitialised at the start (\<open>junk\<close>).
\<close>

fun correct_loop :: "outside list \<Rightarrow> correction \<times> box \<Rightarrow> (correction \<times> box) option" where
  "correct_loop rs (k, b) =
     (if finish_flag k = 0 then
        (case rs of [] \<Rightarrow> None | inp # rs \<Rightarrow> do { s \<leftarrow> correct_step inp (k, interrupts inp b); correct_loop rs s })
      else Some (k, b))"

declare correct_loop.simps [simp del]

definition direction_correction_test1 :: "flt \<times> int \<Rightarrow> outside list \<Rightarrow> box \<Rightarrow> (correction \<times> box) option" where
  "direction_correction_test1 junk rs b =
    (let b = on_car (\<lambda>c. (Car_Start c)\<lparr>Car_Speed_ConRight := Con_By_TraceLine\<rparr>) b
     in correct_loop rs (\<lparr>angle_state = 0, start_angle = fst junk, finish_flag = 0, l_or_r = snd junk\<rparr>, b))"

text \<open>\<open>locate_box_pull\<close> is empty; one pass of \<open>locate_box_entry\<close> between taking and giving the semaphores.\<close>

definition locate_box_debug :: "flt \<times> int \<Rightarrow> outside list \<Rightarrow> box \<Rightarrow> box option" where
  "locate_box_debug junk rs b = map_option snd (direction_correction_test1 junk rs b)"

definition locate_box_pull :: "box \<Rightarrow> box" where "locate_box_pull b = b"

definition locate_box_pass :: "flt \<times> int \<Rightarrow> outside list \<Rightarrow> box \<Rightarrow> box option" where
  "locate_box_pass junk rs b =
    (if locate_debug_flag (locate b) = 1 then locate_box_debug junk rs b else Some (locate_box_pull b))"

definition box_pid :: "Pos_PID_t \<Rightarrow> flt \<Rightarrow> flt \<Rightarrow> int \<Rightarrow> int \<Rightarrow> Pos_PID_t" where
  "box_pid p kp kd out target =
    (Pos_PID_Init p kp (i2f 0) kd)\<lparr>Output_Max := i2f out, Output_Min := i2f (- out), Value_I_Max := i2f 500, Ref := i2f target\<rparr>"

text \<open>Without the semaphore the function does not return (\<open>Inl\<close>).\<close>

definition locate_box_init :: "bool \<Rightarrow> locate_box_data \<Rightarrow> locate_box_data + locate_box_data" where
  "locate_box_init sem t =
    (let t = t\<lparr>locate_debug_flag := 1\<rparr>
     in if \<not> sem then Inl t
        else
          let t = t\<lparr>Longitudinal_pid := box_pid (Longitudinal_pid t) (i2f 3) (d2f (dlit (1 / 2))) 500 AREA_CON_REF\<rparr>;
              t = t\<lparr>Transverse_pid := box_pid (Transverse_pid t) (d2f (dlit (13 / 10))) (i2f 0) 500 X_CON_REF\<rparr>;
              t = t\<lparr>Dir_Cen_pid := box_pid (Dir_Cen_pid t) (d2f (dlit (- 1))) (i2f 0) 1000 X_CON_REF\<rparr>
          in Inr (t\<lparr>Dir_pid := box_pid (Dir_pid t) (i2f 2) (i2f 0) 1000 0\<rparr>))"

section \<open>The test functions\<close>

text \<open>
  One pass of each of the endless test loops \<open>sorronding_test\<close>, \<open>test_RotateTo_Cor\<close> and \<open>test_midK_Cor\<close>; the
  first two call \<open>Car_Start\<close> before the loop.  \<open>atan\<close> is the function of \<open>math.h\<close>.
\<close>

definition sorronding_pass :: "box \<Rightarrow> box" where
  "sorronding_pass b =
    (if MCX_rx_flag (mcx_link b) \<noteq> 0 then
       let (vy, b) = use_long b;
           (w, b) = use_dir b;
           b = drive (i2f 250) vy w b
       in b\<lparr>mcx_link := (mcx_link b)\<lparr>MCX_rx_flag := 0\<rparr>\<rparr>
     else b)"

definition rotate_pass :: "image \<Rightarrow> box \<Rightarrow> box option" where
  "rotate_pass img b =
    do {
      b \<leftarrow> (if mt9v03x_finish_flag b \<noteq> 0
            then do {
                bw \<leftarrow> bw_image img;
                _ \<leftarrow> ips200_show_gray_image 0 100 (concat bw) 188 120 188 120 0;
                should \<leftarrow> PushBox_IsDirectionCorrect bw;
                Some (b\<lparr>push_img_bw := bw\<rparr>)
              }
            else Some b);
      Some (if MCX_rx_flag (mcx_link b) \<noteq> 0 then
              let (vy, b) = use_long b;
                  (w, b) = use_dir b;
                  b = drive (i2f 200) vy w b
              in b\<lparr>mcx_link := (mcx_link b)\<lparr>MCX_rx_flag := 0\<rparr>\<rparr>
            else b)
    }"

text \<open>The mean slope of the found segments of a side, 0 if there is none.\<close>

definition side_slope :: "bool \<Rightarrow> vision \<Rightarrow> flt option" where
  "side_slope left v =
    do {
      (k, n) \<leftarrow> for_each (\<lambda>i (k, n). do {
          g \<leftarrow> seg_of left (i - 1) v;
          if \<not> IsLose g then
            do { a \<leftarrow> Line_GetAverK (border_of left v) (seg_begin g) (seg_end g); Some (fadd k a, n + 1) }
          else Some (k, n)
        }) (downto (segment_n (side_of left v)) 1) (Fin 0, 0 :: int);
      Some (if n = 0 then i2f 0 else fdiv k (i2f n))
    }"

text \<open>One round of \<open>test_midK_Cor\<close>; the angle of a finished frame is printed.\<close>

definition midK_pass :: "(flt \<Rightarrow> flt) \<Rightarrow> garbage \<Rightarrow> image \<Rightarrow> box \<Rightarrow> (flt option \<times> box) option" where
  "midK_pass atan g img b =
    (if mt9v03x_finish_flag b \<noteq> 0 then
       do {
         (T, bw, my_image) \<leftarrow> Camera_PreProcess img;
         road \<leftarrow> Camera_FindMyLine my_image T (borders (sight b));
         v \<leftarrow> segment_side g True ((sight b)\<lparr>borders := road\<rparr>);
         v \<leftarrow> segment_side g False v;
         s \<leftarrow> mid_table (borders v);
         ds \<leftarrow> Vision_Draw my_image bw s;
         let v = v\<lparr>borders := s\<rparr>;
         k_Left \<leftarrow> side_slope True v;
         k_Right \<leftarrow> side_slope False v;
         let n = (if flt_eq k_Left (i2d 0) \<or> flt_eq k_Right (i2d 0) then 1 else 2);
         let theta = d2f (ddiv (dmul (atan (fdiv (fadd k_Right k_Left) (i2f n))) (i2d 180)) PI);
         Some (Some theta, b\<lparr>sight := v, mt9v03x_finish_flag := 0\<rparr>)
       }
     else Some (None, b))"

section \<open>What the judgement draws\<close>

lemma bw_image_size: "bw_image img = Some bw \<Longrightarrow> length (concat bw) = 188 * 120"
proof -
  assume "bw_image img = Some bw"
  then obtain T where "those (map (\<lambda>i. those (map (\<lambda>j. map_option (binarize (s16 T)) (px img i j)) [0..MT9V03X_W - 1])) [0..MT9V03X_H - 1]) = Some bw"
    by (auto simp: bw_image_def bind_eq_Some_conv)
  then have rows: "list_all2 (\<lambda>i row. those (map (\<lambda>j. map_option (binarize (s16 T)) (px img i j)) [0..MT9V03X_W - 1]) = Some row) [0..MT9V03X_H - 1] bw"
    by (rule those_map_all2)
  then have "length bw = 120" by (simp add: list_all2_lengthD [symmetric] MT9V03X_H_def)
  moreover have "\<forall>row \<in> set bw. length row = 188"
  proof
    fix row assume "row \<in> set bw"
    with rows obtain i where "those (map (\<lambda>j. map_option (binarize (s16 T)) (px img i j)) [0..MT9V03X_W - 1]) = Some row"
      by (auto simp: list_all2_conv_all_nth in_set_conv_nth)
    from those_map_all2 [OF this] show "length row = 188" by (simp add: list_all2_lengthD [symmetric] MT9V03X_W_def)
  qed
  ultimately show ?thesis using length_concat_const [of bw 188] by simp
qed

lemma bind_dropped: "\<exists>x. m = Some x \<Longrightarrow> Option.bind m (\<lambda>_. k) = k"
  by auto

lemma show_bw:
  "bw_image img = Some bw \<Longrightarrow> Option.bind (ips200_show_gray_image 0 100 (concat bw) 188 120 188 120 0) (\<lambda>_. k) = k"
  using gray_image_own_size [of 0 188 100 120 "concat bw" 0] bw_image_size [of img bw] by (intro bind_dropped) simp

lemma side_marks:
  "Option.bind (ips200_draw_line 20 219 20 100 c) (\<lambda>_. k) = k" "Option.bind (ips200_draw_line 168 219 167 100 c) (\<lambda>_. k) = k"
  by (rule bind_dropped, rule line_total; simp)+

section \<open>Reading the pin\<close>

lemma steady_simps:
  "10 < t \<Longrightarrow> steady v t ls = Some ls" "t \<le> 10 \<Longrightarrow> steady v t [] = None"
  "t \<le> 10 \<Longrightarrow> steady v t (l # ls) = steady v (if l = v then t + 1 else 0) ls"
  by (simp_all add: steady.simps [of v t])

lemma steady_ends:
  "steady v t ls = Some rest \<Longrightarrow> 0 \<le> t \<Longrightarrow> t \<le> 11 \<Longrightarrow> \<exists>pre. replicate (nat t) v @ ls = pre @ replicate 11 v @ rest"
proof (induction ls arbitrary: t)
  case Nil
  then have "t = 11" "rest = []" by (cases "t \<le> 10"; simp add: steady_simps)+
  then show ?case by simp
next
  case (Cons l ls)
  show ?case
  proof (cases "t = 11")
    case True
    then have "rest = l # ls" using Cons.prems(1) by (simp add: steady_simps)
    with True show ?thesis by (intro exI [of _ "[]"]) simp
  next
    case False
    with Cons.prems have r: "steady v (if l = v then t + 1 else 0) ls = Some rest" by (simp add: steady_simps)
    show ?thesis
    proof (cases "l = v")
      case True
      with Cons.IH [of "t + 1"] r Cons.prems False have "\<exists>pre. replicate (nat (t + 1)) v @ ls = pre @ replicate 11 v @ rest" by auto
      moreover have "replicate (nat (t + 1)) v @ ls = replicate (nat t) v @ l # ls"
        using Cons.prems(2) True by (simp add: nat_add_distrib replicate_app_Cons_same)
      ultimately show ?thesis by simp
    next
      case False
      with Cons.IH [of 0] r obtain pre where "ls = pre @ replicate 11 v @ rest" by auto
      then show ?thesis by (intro exI [of _ "replicate (nat t) v @ l # pre"]) simp
    qed
  qed
qed

lemma steady_enough:
  "t + int n = 11 \<Longrightarrow> 0 \<le> t \<Longrightarrow> steady v t (replicate n v @ post) = Some post"
  by (induction n arbitrary: t) (simp_all add: steady_simps)

lemma steady_returns:
  "0 \<le> t \<Longrightarrow> t \<le> 11 \<Longrightarrow> \<exists>mid. steady v t (pre @ replicate 11 v @ post) = Some (mid @ post)"
proof (induction pre arbitrary: t)
  case Nil
  have "replicate 11 v = replicate (nat (11 - t)) v @ replicate (nat t) v" using Nil by (simp flip: replicate_add nat_add_distrib)
  then show ?case using steady_enough [of t "nat (11 - t)" v "replicate (nat t) v @ post"] Nil by (intro exI [of _ "replicate (nat t) v"]) simp
next
  case (Cons l pre)
  show ?case
  proof (cases "t = 11")
    case True
    then show ?thesis by (intro exI [of _ "l # pre @ replicate 11 v"]) (simp add: steady_simps)
  next
    case False
    with Cons.IH [of "if l = v then t + 1 else 0"] Cons.prems show ?thesis by (simp add: steady_simps)
  qed
qed

section \<open>The vote\<close>

text \<open>
  Classes that arrive one at a time, each while the loop waits for one: after some reads that find nothing comes the class, and
  nothing more until the round is over.
\<close>

fun deliver :: "int \<Rightarrow> (nat \<times> int) list \<Rightarrow> int option list" where
  "deliver cls [] = []"
| "deliver cls ((n, d) # ds) = replicate n None @ [Some d, None] @ (if d = cls then [] else [None]) @ deliver d ds"

lemma vote_idle: "tick < 3 \<Longrightarrow> Art_Data a = 0 \<Longrightarrow> vote_loop (cls, tick, replicate n None @ ys, a) = vote_loop (cls, tick, ys, a)"
  by (induction n) (simp_all add: vote_round_def Art_GetData_def)

declare vote_loop.simps [simp del]

lemma vote_done: "3 \<le> tick \<Longrightarrow> vote_loop (cls, tick, xs, a) = Some (xs, a)"
  by (simp add: vote_loop.simps)

lemma cleared: "Art_Data a = 0 \<Longrightarrow> Art_DataClear (a\<lparr>Art_Data := d\<rparr>) = a"
  by (simp add: Art_DataClear_def)

lemma vote_class:
  assumes "0 \<le> tick" and "tick < 3" and "Art_Data a = 0" and "d \<noteq> 0"
  shows "vote_loop (cls, tick, deliver cls ((n, d) # ds) @ ys, a) =
    (if d = cls then (if tick = 2 then Some (deliver d ds @ ys, a\<lparr>Art_Data := d\<rparr>)
                      else vote_loop (d, tick + 1, deliver d ds @ ys, a))
     else vote_loop (d, 0, deliver d ds @ ys, a))"
proof -
  let ?m = "if d = cls then [] else [None]"
  have "vote_loop (cls, tick, deliver cls ((n, d) # ds) @ ys, a) = vote_loop (cls, tick, Some d # None # ?m @ deliver d ds @ ys, a)"
    using vote_idle [OF assms(2,3), of cls n] by simp
  also have "\<dots> = (if d = cls then (if tick = 2 then Some (deliver d ds @ ys, a\<lparr>Art_Data := d\<rparr>)
                      else vote_loop (d, tick + 1, deliver d ds @ ys, a))
     else vote_loop (d, 0, deliver d ds @ ys, a))"
    using assms by (simp add: vote_done vote_loop.simps [of cls tick] vote_round_def Art_GetData_def u8_id cleared)
  finally show ?thesis .
qed

text \<open>Classes of which no two neighbours are equal never add up.\<close>

lemma vote_noise:
  "Art_Data a = 0 \<Longrightarrow> distinct_adj (cls # map snd ds) \<Longrightarrow> 0 \<notin> set (map snd ds) \<Longrightarrow>
   vote_loop (cls, 0, deliver cls ds @ ys, a) = vote_loop (last (cls # map snd ds), 0, ys, a)"
proof (induction ds arbitrary: cls)
  case (Cons p ds)
  obtain n d where p: "p = (n, d)" by (cases p)
  from Cons show ?case by (auto simp: p vote_class simp del: deliver.simps)
qed simp

lemma deliver_append: "deliver cls (xs @ ys) = deliver cls xs @ deliver (last (cls # map snd xs)) ys"
  by (induction cls xs rule: deliver.induct) auto

lemma vote_four:
  assumes "Art_Data a = 0" and "c \<noteq> 0" and "c \<noteq> cls"
  shows "vote_loop (cls, 0, deliver cls [(n1, c), (n2, c), (n3, c), (n4, c)] @ ys, a) = Some (ys, a\<lparr>Art_Data := c\<rparr>)"
  using assms by (simp add: vote_class del: deliver.simps(2))

text \<open>
  C24: The vote takes four frames that agree, and one race is left: when classes other than 0 arrive one at a time while the loop waits, no
  two neighbours equal and the last not c, and then c (not 0) arrives four times, the vote ends and the class entered is c, but
  only if no further class arrives between the end of the vote and the last read; otherwise it is that class.
\<close>

theorem vote_result:
  assumes "c \<noteq> 0" and "distinct_adj (0 # map snd noise @ [c])" and "0 \<notin> set (map snd noise)"
  shows "vote ([None, None] @ deliver 0 (noise @ [(n1, c), (n2, c), (n3, c), (n4, c)]) @ [late]) a =
    Some (case late of None \<Rightarrow> c | Some e \<Rightarrow> e, a\<lparr>Art_Data := 0\<rparr>)"
proof -
  let ?a = "a\<lparr>Art_Data := 0\<rparr>" and ?l = "last (0 # map snd noise)" and ?four = "[(n1, c), (n2, c), (n3, c), (n4, c)]"
  have d: "distinct_adj (0 # map snd noise)" "c \<noteq> ?l"
    using assms(2) distinct_adj_append_iff [of "0 # map snd noise" "[c]"] by auto
  have "vote_loop (0, 0, deliver 0 (noise @ ?four) @ [late], ?a) = vote_loop (?l, 0, deliver ?l ?four @ [late], ?a)"
    using vote_noise [OF _ d(1) assms(3), of ?a "deliver ?l ?four @ [late]"] by (simp only: deliver_append append_assoc) simp
  also have "\<dots> = Some ([late], ?a\<lparr>Art_Data := c\<rparr>)" using vote_four [of ?a c ?l] assms(1) d(2) by simp
  finally show ?thesis
    by (cases late) (simp_all add: vote_def Art_DataClear_def Art_GetData_def)
qed

theorem vote_result_witness:
  "vote ([None, None] @ deliver 0 ([(2, 7)] @ [(0, 5), (1, 5), (0, 5), (3, 5)]) @ [None]) art_zero = Some (5, art_zero\<lparr>Art_Data := 0\<rparr>) \<and>
   vote ([None, None] @ deliver 0 ([(2, 7)] @ [(0, 5), (1, 5), (0, 5), (3, 5)]) @ [Some 9]) art_zero = Some (9, art_zero\<lparr>Art_Data := 0\<rparr>)"
  using vote_result [of 5 "[(2, 7)]" 0 1 0 3 None art_zero] vote_result [of 5 "[(2, 7)]" 0 1 0 3 "Some 9" art_zero] by simp

end
