(* ===== verification/BoxTask.thy ===== *)
theory BoxTask
  imports LocateBox
begin

text \<open>
  The box task as a whole (\<open>direction_correction_test1\<close> of \<open>code/src/locate_box.c\<close>): its four states one round at a time,
  the rounds in which nothing is reported, and the run from the first sight of a box to the car given back to the line tracer.
\<close>

section \<open>A uniform picture\<close>

text \<open>Of a uniform picture the threshold is 0, and the side of the box is symmetric without black pixels.\<close>

lemma concat_uniform: "concat (replicate n (replicate m v)) = replicate (n * m) v"
  by (induction n) (simp_all add: replicate_add)

lemma even_lengths: "length (filter even [0..69::int]) = 35" "length (filter even [0..187::int]) = 94"
  by code_simp+

lemma gray_count_uniform:
  "gray_count (replicate 22560 200) 188 70 = Some ((replicate 256 0)[200 := 3290], 658000)"
proof -
  let ?h = "\<lambda>n. ((replicate 256 0)[200 := n :: int], 200 * n)"
  let ?f = "\<lambda>i j (cnt, gray_sum). do { g \<leftarrow> rd (replicate 22560 (200 :: int)) (i * 188 + j); c \<leftarrow> rd cnt g; cnt \<leftarrow> wr cnt g (c + 1);
        Some (cnt, u32 (gray_sum + g)) }"
  have row: "for_each (?f i) (filter even [0..187]) (?h n) = Some (?h (n + 94))" if "0 \<le> i" "i \<le> 69" "0 \<le> n" "n \<le> 3290" for i n
  proof -
    have "for_each (?f i) (filter even [0..187]) (?h n) = Some (?h (n + 1 * int (length (filter even [0..187::int]))))"
    proof (rule for_each_count)
      fix j m :: int
      assume "j \<in> set (filter even [0..187])" "n \<le> m" "m + 1 \<le> n + 1 * int (length (filter even [0..187::int]))"
      then have j: "0 \<le> j" "j \<le> 187" "n \<le> m" "m < n + 94" by (simp_all only: even_lengths set_filter) auto
      have "i * 188 + j < 22560" "0 \<le> i * 188 + j" using that j by linarith+
      then show "?f i j (?h m) = Some (?h (m + 1))"
        using that j by (simp add: nat_less_iff u32_id)
    qed simp
    then show ?thesis by (simp only: even_lengths) simp
  qed
  have "for_each (\<lambda>i. for_each (?f i) (filter even [0..187])) (filter even [0..69]) (?h 0) = Some (?h (0 + 94 * int (length (filter even [0..69::int]))))"
  proof (rule for_each_count)
    fix i n :: int
    assume "i \<in> set (filter even [0..69])" "0 \<le> n" "n + 94 \<le> 0 + 94 * int (length (filter even [0..69::int]))"
    then show "for_each (?f i) (filter even [0..187]) (?h n) = Some (?h (n + 94))"
      by (intro row) (auto simp only: even_lengths set_filter, auto)
  qed simp
  moreover have "(replicate 256 (0 :: int))[200 := 0] = replicate 256 0"
    by (simp add: list_eq_iff_nth_eq nth_list_update)
  ultimately show ?thesis by (simp only: even_lengths gray_count_def) (simp del: upto_rec_numeral)
qed

lemma threshold_uniform: "Camera_My_Adapt_Threshold (replicate 22560 200) 188 70 = Some 0"
proof -
  let ?pro = "map (\<lambda>c. fdiv (i2f c) (i2f 3290)) ((replicate 256 0)[200 := 3290])"
  let ?s = "\<lparr>w0 = Fin 0, u0tmp = Fin 0, deltaMax = Fin 0, threshold = 0\<rparr>"
  have e: "(188 * 70 :: int) sdiv 4 = 3290" by (simp add: signed_divide_int_def)
  have pro: "?pro ! nat j = (if j = 200 then Fin 1 else Fin 0)" if "0 \<le> j" "j \<le> 255" for j
  proof -
    have "fdiv (i2f 3290) (i2f 3290) = Fin 1" "fdiv (i2f 0) (i2f 3290) = Fin 0" by code_simp+
    moreover have "((replicate 256 0)[200 := 3290]) ! nat j = (if j = 200 then 3290 else (0 :: int))"
      using that by (simp add: nth_list_update nat_eq_iff)
    ultimately show ?thesis using that by (simp add: nat_less_iff)
  qed
  have zero: "fadd w (Fin 0) = w" if "w \<in> {Fin 0, Fin 1}" for w
    using that f32_of_int [of 1] f32_of_int [of 0] by (auto simp: fadd_def)
  have idle: "for_break (otsu_level ?pro 658000 3290) js s = Some (Inr s)"
    if "\<forall>j \<in> set js. 0 \<le> j \<and> j \<le> 255 \<and> j \<noteq> 200" "w0 s \<in> {Fin 0, Fin 1}" for js s
    using that
  proof (induction js)
    case (Cons j js)
    then have "rd ?pro j = Some (Fin 0)" using pro [of j] by (simp del: nth_map)
    then have "otsu_level ?pro 658000 3290 j s = Some (Inr s)"
      using zero [of "w0 s"] Cons.prems by (simp add: otsu_level_def)
    with Cons show ?case by simp
  qed simp
  have l: "[0..255] = [0..199] @ 200 # [201..255 :: int]"
    using upto_split3 [of 0 200 255] by (simp del: upto_rec_numeral)
  have peak: "otsu_level ?pro 658000 3290 200 ?s = Some (Inr \<lparr>w0 = Fin 1, u0tmp = Fin 200, deltaMax = Fin 0, threshold = 0\<rparr>)"
  proof -
    have "rd ?pro 200 = Some (Fin 1)" using pro [of 200] by (simp del: nth_map)
    moreover have "fadd (Fin 0) (Fin 1) = Fin 1" "fadd (Fin 0) (fmul (i2f 200) (Fin 1)) = Fin 200" "fsub (Fin 1) (Fin 1) = Fin 0"
      "fsub (i2f 200) (Fin 200) = Fin 0" "fdiv (Fin 200) (Fin 1) = Fin 200" "fdiv (Fin 0) (Fin 0) = NaN" "fadd (Fin 200) (Fin 0) = Fin 200"
      "fsub (Fin 200) (Fin 200) = Fin 0" "dmul (Fin 0) (Fin 0) = Fin 0" "dmul (Fin 1) (Fin 0) = Fin 0"
      by code_simp+
    moreover have "fsub NaN v = NaN" "dmul NaN v = NaN" "dmul (Fin 0) NaN = NaN" "dadd (Fin 0) NaN = NaN" for v
      by (simp_all add: fsub_def fl_sub_def dmul_def dadd_def)
    ultimately show ?thesis by (simp add: otsu_level_def Let_def)
  qed
  have "for_break (otsu_level ?pro 658000 3290) [0..255] ?s = Some (Inr \<lparr>w0 = Fin 1, u0tmp = Fin 200, deltaMax = Fin 0, threshold = 0\<rparr>)"
    using idle [of "[0..199]" ?s] idle [of "[201..255]" "\<lparr>w0 = Fin 1, u0tmp = Fin 200, deltaMax = Fin 0, threshold = 0\<rparr>"]
    by (simp add: l for_break_append peak del: upto_rec_numeral)
  then show ?thesis by (simp add: Camera_My_Adapt_Threshold_def gray_count_uniform e del: upto_rec_numeral)
qed


lemma bw_image_uniform: "bw_image (replicate 120 (replicate 188 200)) = Some (replicate 120 (replicate 188 255))"
proof -
  have row: "those (map (\<lambda>j. map_option (binarize (s16 0)) (px (replicate 120 (replicate 188 200)) i j)) [0..MT9V03X_W - 1]) =
      Some (replicate 188 255)" if "0 \<le> i" "i < 120" for i
  proof -
    have "those (map (\<lambda>j. map_option (binarize (s16 0)) (px (replicate 120 (replicate 188 200)) i j)) [0..MT9V03X_W - 1]) =
        Some (map (\<lambda>_. 255) [0..MT9V03X_W - 1])"
      using that by (intro those_map_Some) (auto simp: px_def MT9V03X_W_def nat_less_iff binarize_def s16_id)
    then show ?thesis by (simp add: map_replicate_const MT9V03X_W_def del: upto_rec_numeral)
  qed
  have "those (map (\<lambda>i. those (map (\<lambda>j. map_option (binarize (s16 0)) (px (replicate 120 (replicate 188 200)) i j)) [0..MT9V03X_W - 1]))
      [0..MT9V03X_H - 1]) = Some (map (\<lambda>_. replicate 188 255) [0..MT9V03X_H - 1])"
    by (intro those_map_Some row) (auto simp: MT9V03X_H_def)
  moreover have "map (\<lambda>_. replicate 188 255) [0..MT9V03X_H - 1] = replicate 120 (replicate 188 (255 :: int))"
    by (simp add: map_replicate_const MT9V03X_H_def del: upto_rec_numeral)
  ultimately show ?thesis
    using threshold_uniform by (simp add: bw_image_def concat_uniform IMAGE_COL_def IMAGE_ROW_def)
qed

lemma direction_uniform: "PushBox_IsDirectionCorrect (replicate 120 (replicate 188 255)) = Some 1"
proof -
  let ?img = "replicate 22560 (255 :: int)"
  let ?b = "\<lambda>i j (n :: int). do { v \<leftarrow> rd ?img (j * 188 + i); Some (if v = 0 then n + 1 else n) }"
  let ?s = "\<lambda>i j (n :: int). do { v \<leftarrow> rd ?img (j * 188 + i); w \<leftarrow> rd ?img (j * 188 + 188 - i - 1); Some (if v = w then u16 (n + 1) else n) }"
  have l: "length [0..25::int] = 26" "length [30..119::int] = 90" by (simp_all del: upto_rec_numeral)
  have pix: "rd ?img (j * 188 + i) = Some 255" "rd ?img (j * 188 + 188 - i - 1) = Some 255"
    if "i \<in> set [0..25]" "j \<in> set [30..119]" for i j
  proof -
    have "0 \<le> i" "i \<le> 25" "30 \<le> j" "j \<le> 119" using that by (simp_all del: upto_rec_numeral)
    then have "0 \<le> j * 188 + i" "j * 188 + i < 22560" "0 \<le> j * 188 + 188 - i - 1" "j * 188 + 188 - i - 1 < 22560" by linarith+
    then show "rd ?img (j * 188 + i) = Some 255" "rd ?img (j * 188 + 188 - i - 1) = Some 255" by (simp_all add: nat_less_iff)
  qed
  have "for_each (\<lambda>i n. for_each (?b i) [30..119] n) [0..25] (id 0) = Some (id (0 + 0 * int (length [0..25])))"
  proof (rule for_each_count)
    fix i n :: int assume i: "i \<in> set [0..25]"
    have "for_each (?b i) [30..119] (id n) = Some (id (n + 0 * int (length [30..119])))"
      by (rule for_each_count) (simp_all add: pix(1) [OF i] del: upto_rec_numeral)
    then show "for_each (?b i) [30..119] (id n) = Some (id (n + 0))" by (simp del: upto_rec_numeral)
  qed simp
  then have black: "for_each (\<lambda>i n. for_each (?b i) [30..119] n) [0..25] 0 = Some 0" by (simp del: upto_rec_numeral)
  have "for_each (\<lambda>i n. for_each (?s i) [30..119] n) [0..25] (id 0) = Some (id (0 + 90 * int (length [0..25])))"
  proof (rule for_each_count)
    fix i n :: int assume i: "i \<in> set [0..25]" "0 \<le> n" "n + 90 \<le> 0 + 90 * int (length [0..25])"
    have "for_each (?s i) [30..119] (id n) = Some (id (n + 1 * int (length [30..119])))"
    proof (rule for_each_count)
      fix j m :: int assume j: "j \<in> set [30..119]" "n \<le> m" "m + 1 \<le> n + 1 * int (length [30..119])"
      then have "u16 (m + 1) = m + 1" using i(2,3) by (simp add: l u16_id del: upto_rec_numeral)
      then show "?s i j (id m) = Some (id (m + 1))" by (simp only: pix [OF i(1) j(1)]) simp
    qed simp
    then show "for_each (?s i) [30..119] (id n) = Some (id (n + 90))" by (simp add: l del: upto_rec_numeral)
  qed simp
  then have sym: "for_each (\<lambda>i n. for_each (?s i) [30..119] n) [0..25] 0 = Some 2340" by (simp add: l del: upto_rec_numeral)
  have f: "flt_gt (fdiv (i2f 2340) (i2f 2340)) (flit (82 / 100)) \<and> flt_less (fdiv (i2f 0) (i2f 2340)) (flit (65 / 100))" by code_simp
  show ?thesis
    using f sym by (simp add: PushBox_IsDirectionCorrect_def Vision_CalSymRate_def Vision_CalBlackRate_def point_def Tool_CmpMax_def Tool_CmpMin_def
      s16_id u16_id Let_def concat_uniform black c_bool_def side_marks del: upto_rec_numeral)
qed

section \<open>A whole task\<close>

text \<open>What the rounds share: the class table, the Art link, what was sent to the MCX camera, the finished frame.\<close>

definition links :: "box \<Rightarrow> classes \<times> art \<times> int list \<times> int" where
  "links b = (class_table (sight b), art_link b, MCX_sent (mcx_link b), mt9v03x_finish_flag b)"

lemma links_simps [simp]:
  "links (on_car f b) = links b" "links (drive x y w b) = links b" "links (halt inp b) = links b"
  "links (snd (use_long b)) = links b" "links (snd (use_dir b)) = links b" "links (snd (use_trans b)) = links b"
  "mcx_link (on_car f b) = mcx_link b" "mcx_link (drive x y w b) = mcx_link b" "mcx_link (halt inp b) = mcx_link b"
  "mcx_link (snd (use_long b)) = mcx_link b" "mcx_link (snd (use_dir b)) = mcx_link b" "mcx_link (snd (use_trans b)) = mcx_link b"
  by (simp_all add: links_def on_car_def drive_def halt_def use_long_def use_dir_def use_trans_def split: prod.split)

lemma off_simps [simp]:
  "off_x (on_car f b) = off_x b" "off_x (drive x y w b) = off_x b" "off_x (halt inp b) = off_x b" "off_y (drive x y w b) = off_y b"
  "off_x (snd (use_long b)) = off_x b" "off_x (snd (use_dir b)) = off_x b" "off_x (snd (use_trans b)) = off_x b"
  "off_y (snd (use_long b)) = off_y b" "off_y (snd (use_dir b)) = off_y b"
  by (simp_all add: off_x_def off_y_def)

lemma interrupts_links:
  "links (interrupts inp b) = (class_table (sight b), art_link b, MCX_sent (mcx_link b), if framed inp then 1 else mt9v03x_finish_flag b)"
  "seen inp = Some (x, y) \<Longrightarrow> off_x (interrupts inp b) = \<bar>x - 160\<bar> \<and> off_y (interrupts inp b) = \<bar>y - 120\<bar> \<and>
     MCX_rx_flag (mcx_link (interrupts inp b)) = 1"
  "seen inp = None \<Longrightarrow> mcx_link (interrupts inp b) = mcx_link b"
  by (auto simp: interrupts_def links_def on_car_def off_x_def off_y_def X_CON_REF_def AREA_CON_REF_def Let_def split: option.splits)

lemma rx_links: "mcx_link b = m \<Longrightarrow> links (b\<lparr>mcx_link := m\<lparr>MCX_rx_flag := n\<rparr>\<rparr>) = links b"
  by (auto simp: links_def)

text \<open>The rounds of the four states.\<close>

lemma round_idle:
  assumes "seen inp = None" and "\<not> framed inp" and "MCX_rx_flag (mcx_link b) = 0" and "links b = (tab, a, sent, 0)"
  shows "\<exists>b'. correct_step inp (k, interrupts inp b) = Some (k, b') \<and> links b' = (tab, a, sent, 0) \<and> MCX_rx_flag (mcx_link b') = 0"
  using assms interrupts_links(1) [of inp b] interrupts_links(3) [of inp b]
  by (auto simp: correct_step_def judge_frame_def links_def)

lemma round_search:
  assumes "seen inp = Some (x, y)" and "\<bar>x - 160\<bar> \<le> 20" and "\<not> framed inp" and "links b = (tab, a, sent, 0)" and "angle_state k = 0"
  shows "\<exists>b'. correct_step inp (k, interrupts inp b) = Some (k\<lparr>angle_state := 1\<rparr>, b') \<and> links b' = (tab, a, sent, 0) \<and>
    MCX_rx_flag (mcx_link b') = 0"
proof -
  let ?b = "interrupts inp b"
  have l: "links ?b = (tab, a, sent, 0)" "mt9v03x_finish_flag ?b = 0"
    using interrupts_links(1) [of inp b] assms(3,4) by (simp_all add: links_def)
  obtain w b1 where u: "use_dir ?b = (w, b1)" by (cases "use_dir ?b")
  then have b1: "links b1 = (tab, a, sent, 0)" "off_x b1 \<le> 20"
    using links_simps(5) [of ?b] off_simps(6) [of ?b] l(1) interrupts_links(2) [OF assms(1), of b] assms(2) by simp_all
  then have "search (k, ?b) = (k\<lparr>angle_state := 1\<rparr>, drive (i2f 0) (i2f 0) w b1)"
    by (simp add: search_def u Angle_Correct_State_def)
  then show ?thesis
    using interrupts_links(2) [OF assms(1), of b] l(2) assms(5) b1(1)
    by (simp add: correct_step_def judge_frame_def run_simps rx_links)
qed

lemma round_approach:
  assumes "seen inp = Some (x, y)" and "\<bar>x - 160\<bar> \<le> 10" and "\<bar>y - 120\<bar> \<le> 15" and "\<not> framed inp" and "links b = (tab, a, sent, 0)"
    and "angle_state k = 1" and "vote (arrivals inp) a = Some (d, a')" and "Class_Add d tab = Some (Some side, tab')"
  shows "\<exists>yaw b'. correct_step inp (k, interrupts inp b) = Some (k\<lparr>start_angle := yaw, angle_state := 2, l_or_r := side\<rparr>, b') \<and>
    links b' = (tab', a', sent, 0) \<and> MCX_rx_flag (mcx_link b') = 0"
proof -
  let ?b = "interrupts inp b"
  have l: "links ?b = (tab, a, sent, 0)" "mt9v03x_finish_flag ?b = 0"
    using interrupts_links(1) [of inp b] assms(4,5) by (simp_all add: links_def)
  obtain vy b1 where u1: "use_long ?b = (vy, b1)" by (cases "use_long ?b")
  obtain w b2 where u2: "use_dir b1 = (w, b2)" by (cases "use_dir b1")
  let ?h = "halt inp (drive (i2f 0) vy w b2)"
  have o: "off_x b2 \<le> 10" "off_y b2 \<le> 15" "links b2 = (tab, a, sent, 0)"
    using off_simps(5,8) [of ?b] off_simps(6,9) [of b1] links_simps(4) [of ?b] links_simps(5) [of b1] u1 u2 l(1)
      interrupts_links(2) [OF assms(1), of b] assms(2,3) by simp_all
  then have h: "links ?h = (tab, a, sent, 0)" by simp
  then have "approach inp (k, ?b) = Some (k\<lparr>start_angle := Att_CurrentYaw (sight ?h), angle_state := 2, l_or_r := side\<rparr>,
      ?h\<lparr>art_link := a', sight := (sight ?h)\<lparr>class_table := tab'\<rparr>\<rparr>)"
    using o assms(7,8) by (simp add: approach_def u1 u2 links_def Location_Correct_State_def Let_def)
  with h show ?thesis
    using interrupts_links(2) [OF assms(1), of b] l(2) assms(6)
    by (intro exI [of _ "Att_CurrentYaw (sight ?h)"]) (simp add: correct_step_def judge_frame_def run_simps links_def)
qed

lemma round_circle:
  assumes "seen inp = Some (x, y)" and "framed inp" and "links b = (tab, a, sent, 0)" and "angle_state k = 2"
    and "bw_image (sensor inp) = Some bw" and "PushBox_IsDirectionCorrect bw = Some 1"
  shows "\<exists>b'. correct_step inp (k, interrupts inp b) = Some (k\<lparr>angle_state := 3\<rparr>, b') \<and>
    links b' = (tab, a, sent, 0) \<and> MCX_rx_flag (mcx_link b') = 0"
proof -
  let ?b = "(interrupts inp b)\<lparr>push_img_bw := bw, mt9v03x_finish_flag := 0\<rparr>"
  have l: "links ?b = (tab, a, sent, 0)" "mt9v03x_finish_flag (interrupts inp b) = 1"
    using interrupts_links(1) [of inp b] assms(2,3) by (simp_all add: links_def)
  obtain vy b1 where u1: "use_long ?b = (vy, b1)" by (cases "use_long ?b")
  obtain w b2 where u2: "use_dir b1 = (w, b2)" by (cases "use_dir b1")
  have "links b2 = (tab, a, sent, 0)"
    using links_simps(4) [of ?b] links_simps(5) [of b1] u1 u2 l(1) by simp
  then show ?thesis
    using interrupts_links(2) [OF assms(1), of b] l(2) assms(4-)
    by (simp add: correct_step_def judge_frame_def run_simps circle_def u1 u2 rx_links show_bw)
qed

lemma push_box_returns:
  assumes "ls = p1 @ replicate 11 False @ p2 @ replicate 11 True @ p3"
  shows "\<exists>es c'. push_box between ls side c = Some (es, c')"
proof -
  obtain m1 where 1: "steady False 0 ls = Some (m1 @ p2 @ replicate 11 True @ p3)"
    using steady_returns [of 0 False p1 "p2 @ replicate 11 True @ p3"] assms by auto
  obtain m2 where 2: "steady True 0 (m1 @ p2 @ replicate 11 True @ p3) = Some (m2 @ p3)"
    using steady_returns [of 0 True "m1 @ p2" p3] by auto
  have "f2s32 (fmul (d2f (dlit (7 / 10))) (i2f 1000)) = Some 699 \<or> f2s32 (fmul (d2f (dlit (7 / 10))) (i2f 1000)) = Some 700" by code_simp
  then show ?thesis
    by (auto simp: push_box_def 1 2 Car_DistanceMotion_def Car_DistanceMotion_start_def Let_def split: prod.splits)
qed

lemma round_push:
  assumes "seen inp = Some (x, y)" and "\<bar>x - 160\<bar> \<le> 10" and "\<not> framed inp" and "links b = (tab, a, sent, 0)" and "angle_state k = 3"
    and "levels inp = p1 @ replicate 11 False @ p2 @ replicate 11 True @ p3"
  shows "\<exists>b'. correct_step inp (k, interrupts inp b) = Some (k\<lparr>finish_flag := 1\<rparr>, b') \<and>
    links b' = (tab, a, sent @ [82], 0) \<and> Car_Speed_ConRight (the_car (sight b')) = Con_By_TraceLine"
proof -
  let ?b = "interrupts inp b"
  have l: "links ?b = (tab, a, sent, 0)" "mt9v03x_finish_flag ?b = 0"
    using interrupts_links(1) [of inp b] assms(3,4) by (simp_all add: links_def)
  obtain vx b1 where u1: "use_trans ?b = (vx, b1)" by (cases "use_trans ?b")
  obtain vy b2 where u2: "use_long b1 = (vy, b2)" by (cases "use_long b1")
  have o: "off_x b2 \<le> 10" "links b2 = (tab, a, sent, 0)"
    using off_simps(7) [of ?b] off_simps(5) [of b1] links_simps(6) [of ?b] links_simps(4) [of b1] u1 u2 l(1)
      interrupts_links(2) [OF assms(1), of b] assms(2) by simp_all
  let ?d = "drive vx vy (i2f 0) b2"
  obtain es c where p: "push_box (meanwhile inp) (levels inp) (l_or_r k) (the_car (sight ?d)) = Some (es, c)"
    using push_box_returns [OF assms(6)] by blast
  have "links ?d = (tab, a, sent, 0)" using o by simp
  then show ?thesis
    using interrupts_links(2) [OF assms(1), of b] l(2) assms(5) o(1) p
    by (simp add: correct_step_def judge_frame_def run_simps push_def u1 u2 links_def on_car_def MCX_Change_Mode_def Let_def)
qed


text \<open>Rounds in which nothing is reported change nothing but the car.\<close>

definition nothing :: "outside \<Rightarrow> bool" where
  "nothing inp \<longleftrightarrow> seen inp = None \<and> \<not> framed inp"

lemma idle_rounds:
  assumes "list_all nothing ws" and "links b = (tab, a, sent, 0)" and "MCX_rx_flag (mcx_link b) = 0"
  shows "\<exists>b'. correct_loop (ws @ rs) (k, b) = correct_loop rs (k, b') \<and> links b' = (tab, a, sent, 0) \<and> MCX_rx_flag (mcx_link b') = 0 \<or>
    finish_flag k \<noteq> 0"
  using assms
proof (induction ws arbitrary: b)
  case (Cons w ws)
  show ?case
  proof (cases "finish_flag k = 0")
    case True
    from Cons.prems obtain b1 where b1: "correct_step w (k, interrupts w b) = Some (k, b1)" "links b1 = (tab, a, sent, 0)"
        "MCX_rx_flag (mcx_link b1) = 0"
      using round_idle [of w b tab a sent k] by (auto simp: nothing_def)
    with Cons.IH [of b1] Cons.prems(1) True show ?thesis by (auto simp: correct_loop.simps [of "w # ws @ rs"])
  qed simp
qed auto

lemma loop_step:
  "finish_flag k = 0 \<Longrightarrow> correct_step r (k, interrupts r b) = Some s \<Longrightarrow> correct_loop (r # rs) (k, b) = correct_loop rs s"
  by (simp add: correct_loop.simps [of "r # rs"])

lemma phase:
  assumes "finish_flag k = 0" and "list_all nothing ws" and "links b = (tab, a, sent, 0)" and "MCX_rx_flag (mcx_link b) = 0"
    and "\<And>b. links b = (tab, a, sent, 0) \<Longrightarrow> \<exists>k' b'. correct_step r (k, interrupts r b) = Some (k', b') \<and> Q k' b'"
  shows "\<exists>k' b'. correct_loop (ws @ r # rs) (k, b) = correct_loop rs (k', b') \<and> Q k' b'"
proof -
  obtain b1 where b1: "correct_loop (ws @ r # rs) (k, b) = correct_loop (r # rs) (k, b1)" "links b1 = (tab, a, sent, 0)"
    using idle_rounds [OF assms(2-4), of "r # rs" k] assms(1) by blast
  with assms(5) [OF b1(2)] loop_step [OF assms(1)] show ?thesis by metis
qed

lemma task_ends:
  assumes "list_all nothing (w1 @ w2 @ w3 @ w4)" and "links b = (tab, a, sent, 0)" and "MCX_rx_flag (mcx_link b) = 0"
    and "seen r1 = Some (x1, y1)" and "\<bar>x1 - 160\<bar> \<le> 20" and "\<not> framed r1"
    and "seen r2 = Some (x2, y2)" and "\<bar>x2 - 160\<bar> \<le> 10" and "\<bar>y2 - 120\<bar> \<le> 15" and "\<not> framed r2"
    and "vote (arrivals r2) a = Some (d, a')" and "Class_Add d tab = Some (Some side, tab')"
    and "seen r3 = Some p3" and "framed r3" and "bw_image (sensor r3) = Some bw" and "PushBox_IsDirectionCorrect bw = Some 1"
    and "seen r4 = Some (x4, y4)" and "\<bar>x4 - 160\<bar> \<le> 10" and "\<not> framed r4"
    and "levels r4 = p @ replicate 11 False @ q @ replicate 11 True @ r"
  shows "\<exists>k b'. direction_correction_test1 junk (w1 @ r1 # w2 @ r2 # w3 @ r3 # w4 @ [r4]) b = Some (k, b') \<and>
    l_or_r k = side \<and> links b' = (tab', a', sent @ [82], 0) \<and> Car_Speed_ConRight (the_car (sight b')) = Con_By_TraceLine"
proof -
  have w: "list_all nothing w1" "list_all nothing w2" "list_all nothing w3" "list_all nothing w4" using assms(1) by simp_all
  define k0 where "k0 = \<lparr>angle_state = 0, start_angle = fst junk, finish_flag = 0, l_or_r = snd junk\<rparr>"
  have f: "finish_flag k0 = 0" "angle_state k0 = 0" by (simp_all add: k0_def)
  let ?b = "on_car (\<lambda>c. (Car_Start c)\<lparr>Car_Speed_ConRight := Con_By_TraceLine\<rparr>) b"
  have b0: "links ?b = (tab, a, sent, 0)" "MCX_rx_flag (mcx_link ?b) = 0" using assms(2,3) by simp_all
  let ?Q = "\<lambda>st tab a fin k b. angle_state k = st \<and> finish_flag k = 0 \<and> fin k \<and> links b = (tab, a, sent, 0) \<and> MCX_rx_flag (mcx_link b) = 0"
  have "\<exists>k1 b1. correct_loop (w1 @ r1 # w2 @ r2 # w3 @ r3 # w4 @ [r4]) (k0, ?b) = correct_loop (w2 @ r2 # w3 @ r3 # w4 @ [r4]) (k1, b1) \<and>
      ?Q 1 tab a (\<lambda>k. True) k1 b1"
    by (rule phase [OF f(1) w(1) b0]) (use round_search [OF assms(4-6) _ f(2)] f(1) in fastforce)
  then obtain k1 b1 where 1: "correct_loop (w1 @ r1 # w2 @ r2 # w3 @ r3 # w4 @ [r4]) (k0, ?b) =
      correct_loop (w2 @ r2 # w3 @ r3 # w4 @ [r4]) (k1, b1)" "angle_state k1 = 1" "finish_flag k1 = 0" "links b1 = (tab, a, sent, 0)"
      "MCX_rx_flag (mcx_link b1) = 0" by blast
  have "\<exists>k2 b2. correct_loop (w2 @ r2 # w3 @ r3 # w4 @ [r4]) (k1, b1) = correct_loop (w3 @ r3 # w4 @ [r4]) (k2, b2) \<and>
      ?Q 2 tab' a' (\<lambda>k. l_or_r k = side) k2 b2"
    by (rule phase [OF 1(3) w(2) 1(4,5)]) (use round_approach [OF assms(7-10) _ 1(2) assms(11,12)] 1(3) in fastforce)
  then obtain k2 b2 where 2: "correct_loop (w2 @ r2 # w3 @ r3 # w4 @ [r4]) (k1, b1) = correct_loop (w3 @ r3 # w4 @ [r4]) (k2, b2)"
      "angle_state k2 = 2" "finish_flag k2 = 0" "l_or_r k2 = side" "links b2 = (tab', a', sent, 0)" "MCX_rx_flag (mcx_link b2) = 0" by blast
  obtain x3 y3 where "seen r3 = Some (x3, y3)" using assms(13) by (cases p3) auto
  note c = round_circle [OF this assms(14) _ 2(2) assms(15,16)]
  have "\<exists>k3 b3. correct_loop (w3 @ r3 # w4 @ [r4]) (k2, b2) = correct_loop (w4 @ [r4]) (k3, b3) \<and>
      ?Q 3 tab' a' (\<lambda>k. l_or_r k = side) k3 b3"
    by (rule phase [OF 2(3) w(3) 2(5,6)]) (use c 2(3,4) in fastforce)
  then obtain k3 b3 where 3: "correct_loop (w3 @ r3 # w4 @ [r4]) (k2, b2) = correct_loop (w4 @ [r4]) (k3, b3)"
      "angle_state k3 = 3" "finish_flag k3 = 0" "l_or_r k3 = side" "links b3 = (tab', a', sent, 0)" "MCX_rx_flag (mcx_link b3) = 0" by blast
  have "\<exists>k4 b4. correct_loop (w4 @ [r4]) (k3, b3) = correct_loop [] (k4, b4) \<and> finish_flag k4 = 1 \<and> l_or_r k4 = side \<and>
      links b4 = (tab', a', sent @ [82], 0) \<and> Car_Speed_ConRight (the_car (sight b4)) = Con_By_TraceLine"
    by (rule phase [OF 3(3) w(4) 3(5,6)]) (use round_push [OF assms(17-19) _ 3(2) assms(20)] 3(4) in fastforce)
  then show ?thesis
    using 1(1) 2(1) 3(1) by (auto simp: direction_correction_test1_def k0_def [symmetric] correct_loop.simps [of "[]"])
qed

text \<open>
  C7: The box task comes to its end: started with no report pending, whatever the controllers do, when the camera sees the box ahead (within 20
  columns of column 160), then in reach (within 10 columns and 15 rows of the centre) while the Art camera's vote ends with a class that has
  a side, then its side, with a camera picture the side test answers with 1 (the other three bring no picture), then ahead
  again (within 10 columns) while pin C6 is low for eleven samples and later high for eleven, with any number of rounds in
  between in which nothing is reported, the task returns with the class entered in the
  table, the MCX camera reset (letter R) and the car given back to the line tracer.
\<close>

theorem box_task_completes:
  assumes "list_all nothing (w1 @ w2 @ w3 @ w4)" and "links b = (tab, a, sent, 0)" and "MCX_rx_flag (mcx_link b) = 0"
    and "seen r1 = Some (x1, y1)" and "\<bar>x1 - 160\<bar> \<le> 20" and "\<not> framed r1"
    and "seen r2 = Some (x2, y2)" and "\<bar>x2 - 160\<bar> \<le> 10" and "\<bar>y2 - 120\<bar> \<le> 15" and "\<not> framed r2"
    and "vote (arrivals r2) a = Some (d, a')" and "Class_Add d tab = Some (Some side, tab')"
    and "seen r3 = Some p3" and "framed r3" and "bw_image (sensor r3) = Some bw" and "PushBox_IsDirectionCorrect bw = Some 1"
    and "seen r4 = Some (x4, y4)" and "\<bar>x4 - 160\<bar> \<le> 10" and "\<not> framed r4"
    and "levels r4 = p @ replicate 11 False @ q @ replicate 11 True @ r"
  shows "\<exists>k b'. direction_correction_test1 junk (w1 @ r1 # w2 @ r2 # w3 @ r3 # w4 @ [r4]) b = Some (k, b') \<and>
    l_or_r k = side \<and> links b' = (tab', a', sent @ [82], 0) \<and> Car_Speed_ConRight (the_car (sight b')) = Con_By_TraceLine"
  using assms by (rule task_ends)

definition nothing_seen :: outside where
  "nothing_seen = \<lparr>seen = None, framed = False, sensor = [], arrivals = [], levels = [], meanwhile = id\<rparr>"

definition locate_zero :: locate_box_data where
  "locate_zero = \<lparr>Transverse_pid = Pos_PID_zero, Longitudinal_pid = Pos_PID_zero, Dir_Cen_pid = Pos_PID_zero, Dir_pid = Pos_PID_zero,
     locate_debug_flag = 0\<rparr>"

definition box_start :: box where
  "box_start = \<lparr>sight = picture_zero, trc = trace_zero, mcx_link = mcx_zero, mt9v03x_finish_flag = 0, art_link = art_zero, locate = locate_zero,
     push_img_bw = replicate 120 (replicate 188 0)\<rparr>"

text \<open>Four arrivals of class 3, which is new to the empty table.\<close>

definition box_code :: "int option list" where
  "box_code = [None, None, None, Some 3, None, None, Some 3, None, Some 3, None, Some 3, None, None]"

lemma box_code_vote: "vote box_code art_zero = Some (3, art_zero)" "Class_Add 3 classes_zero = Some (Some 1, the (class_store Class_Num 2 classes_zero))"
  by code_simp+

theorem box_task_completes_witness:
  "\<exists>k b'. direction_correction_test1 (Fin 0, 7)
      ([] @ nothing_seen\<lparr>seen := Some (150, 60)\<rparr> # [nothing_seen] @
        nothing_seen\<lparr>seen := Some (165, 110), arrivals := box_code\<rparr> #
        [nothing_seen, nothing_seen] @ nothing_seen\<lparr>seen := Some (100, 130), framed := True, sensor := replicate 120 (replicate 188 200)\<rparr> #
        [] @ [nothing_seen\<lparr>seen := Some (160, 119), levels := [True] @ replicate 11 False @ [True, False] @ replicate 11 True @ []\<rparr>]) box_start =
      Some (k, b') \<and> l_or_r k = 1 \<and> links b' = (the (class_store Class_Num 2 classes_zero), art_zero, [] @ [82], 0) \<and>
    Car_Speed_ConRight (the_car (sight b')) = Con_By_TraceLine"
proof (rule box_task_completes [where tab = classes_zero and a = art_zero and d = 3 and ?p3.0 = "(100, 130)" and bw = "replicate 120 (replicate 188 255)"
    and ?x1.0 = 150 and ?y1.0 = 60 and ?x2.0 = 165 and ?y2.0 = 110 and ?x4.0 = 160 and ?y4.0 = 119 and p = "[True]" and q = "[True, False]" and r = "[]"])
qed (simp_all add: box_code_vote nothing_def nothing_seen_def box_start_def links_def picture_zero_def mcx_zero_def bw_image_uniform direction_uniform)

end
