(* ===== verification/Fifo.thy ===== *)
theory Fifo
  imports Prelude
begin

text \<open>
  The ring buffer of the serial drivers (\<open>libraries/zf_common/zf_common_fifo.c\<close>) and the debug port's use of it
  (\<open>zf_common_debug.c\<close>).  The buffer is the list of its elements, each as wide as \<open>data_type\<close> says; copying from or to a
  place outside an array is \<open>None\<close>.  Each operation returns the result code, what it copied to the caller, and the FIFO.
\<close>

section \<open>State\<close>

datatype fifo_state_enum = FIFO_SUCCESS | FIFO_RESET_UNDO | FIFO_CLEAR_UNDO | FIFO_BUFFER_NULL
  | FIFO_WRITE_UNDO | FIFO_SPACE_NO_ENOUGH | FIFO_READ_UNDO | FIFO_DATA_NO_ENOUGH

datatype fifo_operation_enum = FIFO_READ_AND_CLEAN | FIFO_READ_ONLY

datatype fifo_data_type_enum = FIFO_DATA_8BIT | FIFO_DATA_16BIT | FIFO_DATA_32BIT

definition FIFO_IDLE :: int where [run_simps]: "FIFO_IDLE = 0"
definition FIFO_RESET :: int where [run_simps]: "FIFO_RESET = 1"
definition FIFO_CLEAR :: int where [run_simps]: "FIFO_CLEAR = 2"
definition FIFO_WRITE :: int where [run_simps]: "FIFO_WRITE = 4"
definition FIFO_READ :: int where [run_simps]: "FIFO_READ = 8"

record fifo_struct =
  execution :: int
  data_type :: fifo_data_type_enum
  buf :: "int list"
  f_head :: int
  f_end :: int
  f_size :: int
  f_max :: int

text \<open>The conversion of a stored element.\<close>

fun to_type :: "fifo_data_type_enum \<Rightarrow> int \<Rightarrow> int" where
  "to_type FIFO_DATA_8BIT v = u8 v"
| "to_type FIFO_DATA_16BIT v = u16 v"
| "to_type FIFO_DATA_32BIT v = u32 v"

text \<open>\<open>memcpy\<close> between arrays of elements: the block read, and the array after a block is written.  A copy of no elements
  touches nothing.\<close>

definition block :: "int list \<Rightarrow> int \<Rightarrow> int \<Rightarrow> int list option" where
  "block xs k n =
    (if n = 0 then Some []
     else if 0 \<le> k \<and> 0 \<le> n \<and> k + n \<le> int (length xs) then Some (take (nat n) (drop (nat k) xs)) else None)"

definition put_block :: "int list \<Rightarrow> int \<Rightarrow> int list \<Rightarrow> int list option" where
  "put_block xs k ys =
    (if 0 \<le> k \<and> k + int (length ys) \<le> int (length xs)
     then Some (take (nat k) xs @ ys @ drop (nat k + length ys) xs) else None)"

section \<open>Operations\<close>

text \<open>\<open>while(max <= h) h -= max;\<close> does not end for \<open>max = 0\<close>.\<close>

partial_function (option) fifo_wrap :: "int \<Rightarrow> int \<Rightarrow> int option" where
  "fifo_wrap mx h = (if mx \<le> h then fifo_wrap mx (u32 (h - mx)) else Some h)"

declare fifo_wrap.simps [code]

definition fifo_head_offset :: "int \<Rightarrow> fifo_struct \<Rightarrow> fifo_struct option" where
  "fifo_head_offset offset f = do { h \<leftarrow> fifo_wrap (f_max f) (u32 (f_head f + offset)); Some (f\<lparr>f_head := h\<rparr>) }"

definition fifo_end_offset :: "int \<Rightarrow> fifo_struct \<Rightarrow> fifo_struct option" where
  "fifo_end_offset offset f = do { e \<leftarrow> fifo_wrap (f_max f) (u32 (f_end f + offset)); Some (f\<lparr>f_end := e\<rparr>) }"

definition enter :: "int \<Rightarrow> fifo_struct \<Rightarrow> fifo_struct" where
  "enter flag f = f\<lparr>execution := or (execution f) flag\<rparr>"

definition leave :: "int \<Rightarrow> fifo_struct \<Rightarrow> fifo_struct" where
  "leave flag f = f\<lparr>execution := u8 (and (execution f) (not flag))\<rparr>"

definition busy :: "int \<Rightarrow> fifo_struct \<Rightarrow> bool" where
  "busy flags f \<longleftrightarrow> and flags (execution f) \<noteq> 0"

definition fifo_clear :: "fifo_struct \<Rightarrow> (fifo_state_enum \<times> fifo_struct) option" where
  "fifo_clear f =
    do {
      let f = (enter FIFO_RESET f)\<lparr>f_head := 0, f_end := 0, f_size := f_max f\<rparr>;
      b \<leftarrow> put_block (buf f) 0 (replicate (nat (f_max f)) 0);
      Some (FIFO_SUCCESS, f\<lparr>buf := b, execution := FIFO_IDLE\<rparr>)
    }"

definition fifo_used :: "fifo_struct \<Rightarrow> int" where
  "fifo_used f = u32 (f_max f - f_size f)"

definition fifo_write_element :: "fifo_struct \<Rightarrow> int \<Rightarrow> (fifo_state_enum \<times> fifo_struct) option" where
  "fifo_write_element f dat =
    (if busy (or FIFO_RESET FIFO_WRITE) f then Some (FIFO_WRITE_UNDO, f)
     else
       do {
         let f = enter FIFO_WRITE f;
         (r, f) \<leftarrow>
           (if 1 \<le> f_size f then
              do {
                b \<leftarrow> wr (buf f) (f_head f) (to_type (data_type f) dat);
                f \<leftarrow> fifo_head_offset 1 (f\<lparr>buf := b\<rparr>);
                Some (FIFO_SUCCESS, f\<lparr>f_size := u32 (f_size f - 1)\<rparr>)
              }
            else Some (FIFO_SPACE_NO_ENOUGH, f));
         Some (r, leave FIFO_WRITE f)
       })"

text \<open>\<open>None\<close> for the data pointer is \<open>NULL\<close>.\<close>

definition fifo_store :: "int list \<Rightarrow> int \<Rightarrow> int \<Rightarrow> fifo_struct \<Rightarrow> fifo_struct option" where
  "fifo_store dat k n f =
    do {
      xs \<leftarrow> block dat k n;
      b \<leftarrow> put_block (buf f) (f_head f) xs;
      fifo_head_offset n (f\<lparr>buf := b\<rparr>)
    }"

definition fifo_write_buffer :: "fifo_struct \<Rightarrow> int list option \<Rightarrow> int \<Rightarrow> (fifo_state_enum \<times> fifo_struct) option" where
  "fifo_write_buffer f dat n =
    (case dat of
      None \<Rightarrow> Some (FIFO_BUFFER_NULL, f)
    | Some dat \<Rightarrow>
        if busy (or FIFO_RESET FIFO_WRITE) f then Some (FIFO_WRITE_UNDO, f)
        else
          do {
            let f = enter FIFO_WRITE f;
            (r, f) \<leftarrow>
              (if n \<le> f_size f then
                 do {
                   let temp_length = u32 (f_max f - f_head f);
                   f \<leftarrow> (if n > temp_length then
                           do { f \<leftarrow> fifo_store dat 0 temp_length f; fifo_store dat temp_length (u32 (n - temp_length)) f }
                         else fifo_store dat 0 n f);
                   Some (FIFO_SUCCESS, f\<lparr>f_size := u32 (f_size f - n)\<rparr>)
                 }
               else Some (FIFO_SPACE_NO_ENOUGH, f));
            Some (r, leave FIFO_WRITE f)
          })"

text \<open>The last part of the two sequential reads; the test for a busy FIFO compares for equality with all three flags.\<close>

definition fifo_drop :: "fifo_operation_enum \<Rightarrow> int \<Rightarrow> fifo_state_enum \<Rightarrow> fifo_struct \<Rightarrow> (fifo_state_enum \<times> fifo_struct) option" where
  "fifo_drop flag n r f =
    (if flag = FIFO_READ_AND_CLEAN then
       if or (or FIFO_RESET FIFO_CLEAR) FIFO_READ = execution f then Some (FIFO_CLEAR_UNDO, f)
       else
         do {
           f \<leftarrow> fifo_end_offset n (enter FIFO_CLEAR f);
           Some (r, leave FIFO_CLEAR (f\<lparr>f_size := u32 (f_size f + n)\<rparr>))
         }
     else Some (r, f))"

text \<open>
  The reads: \<open>dst\<close> tells whether the destination is not \<open>NULL\<close>.  A read of several elements also returns the
  length it leaves in \<open>*length\<close>.  With \<open>NULL\<close> nothing is copied, but \<open>fifo_drop\<close> is still reached.
\<close>

definition fifo_read_element :: "fifo_struct \<Rightarrow> bool \<Rightarrow> fifo_operation_enum \<Rightarrow> (fifo_state_enum \<times> int list \<times> fifo_struct) option" where
  "fifo_read_element f dst flag =
    (if \<not> dst then do { (r, f) \<leftarrow> fifo_drop flag 1 FIFO_BUFFER_NULL f; Some (r, [], f) }
     else if busy (or FIFO_RESET FIFO_CLEAR) f then Some (FIFO_READ_UNDO, [], f)
     else if 1 > fifo_used f then Some (FIFO_DATA_NO_ENOUGH, [], f)
     else
       do {
         let f = enter FIFO_READ f;
         v \<leftarrow> rd (buf f) (f_end f);
         (r, f) \<leftarrow> fifo_drop flag 1 FIFO_SUCCESS (leave FIFO_READ f);
         Some (r, [v], f)
       })"

text \<open>How much there is to read: \<open>Inl\<close> when there is nothing.\<close>

definition fifo_clip :: "fifo_struct \<Rightarrow> int \<Rightarrow> unit + fifo_state_enum \<times> int" where
  "fifo_clip f n =
    (if n > fifo_used f then (if fifo_used f = 0 then Inl () else Inr (FIFO_DATA_NO_ENOUGH, fifo_used f))
     else Inr (FIFO_SUCCESS, n))"

definition fifo_fetch :: "fifo_struct \<Rightarrow> int \<Rightarrow> int list option" where
  "fifo_fetch f n =
    (let temp_length = u32 (f_max f - f_end f)
     in if n \<le> temp_length then block (buf f) (f_end f) n
        else do { xs \<leftarrow> block (buf f) (f_end f) temp_length; ys \<leftarrow> block (buf f) 0 (u32 (n - temp_length)); Some (xs @ ys) })"

definition fifo_read_buffer ::
  "fifo_struct \<Rightarrow> bool \<Rightarrow> int \<Rightarrow> fifo_operation_enum \<Rightarrow> (fifo_state_enum \<times> int list \<times> int \<times> fifo_struct) option" where
  "fifo_read_buffer f dst n flag =
    (if \<not> dst then do { (r, f) \<leftarrow> fifo_drop flag n FIFO_BUFFER_NULL f; Some (r, [], n, f) }
     else if busy (or FIFO_RESET FIFO_CLEAR) f then Some (FIFO_READ_UNDO, [], 0, f)
     else
       (case fifo_clip f n of
         Inl _ \<Rightarrow> Some (FIFO_DATA_NO_ENOUGH, [], 0, leave FIFO_READ f)
       | Inr (r, n) \<Rightarrow>
           do {
             let f = enter FIFO_READ f;
             xs \<leftarrow> fifo_fetch f n;
             (r, f) \<leftarrow> fifo_drop flag n r (leave FIFO_READ f);
             Some (r, xs, n, f)
           }))"

text \<open>The newest elements; \<open>head - *length\<close> is unsigned.\<close>

definition fifo_fetch_tail :: "fifo_struct \<Rightarrow> int \<Rightarrow> int list option" where
  "fifo_fetch_tail f n =
    (if f_head f > f_end f \<or> f_head f \<ge> n then block (buf f) (u32 (f_head f - n)) n
     else
       do {
         let temp_length = u32 (n - f_head f);
         xs \<leftarrow> block (buf f) (u32 (f_max f - temp_length)) temp_length;
         ys \<leftarrow> block (buf f) (u32 (f_head f - n)) (u32 (n - temp_length));
         Some (xs @ ys)
       })"

definition fifo_clear_after :: "fifo_operation_enum \<Rightarrow> fifo_state_enum \<Rightarrow> fifo_struct \<Rightarrow> (fifo_state_enum \<times> fifo_struct) option" where
  "fifo_clear_after flag r f =
    (if flag = FIFO_READ_AND_CLEAN then
       if or (or FIFO_RESET FIFO_CLEAR) FIFO_READ = execution f then Some (FIFO_CLEAR_UNDO, f)
       else do { (_, f) \<leftarrow> fifo_clear f; Some (r, f) }
     else Some (r, f))"

definition fifo_read_tail_buffer ::
  "fifo_struct \<Rightarrow> bool \<Rightarrow> int \<Rightarrow> fifo_operation_enum \<Rightarrow> (fifo_state_enum \<times> int list \<times> int \<times> fifo_struct) option" where
  "fifo_read_tail_buffer f dst n flag =
    (if \<not> dst then do { (r, f) \<leftarrow> fifo_clear_after flag FIFO_BUFFER_NULL f; Some (r, [], n, f) }
     else if busy (or (or FIFO_RESET FIFO_CLEAR) FIFO_WRITE) f then Some (FIFO_READ_UNDO, [], 0, f)
     else
       (case fifo_clip f n of
         Inl _ \<Rightarrow> Some (FIFO_DATA_NO_ENOUGH, [], 0, leave FIFO_READ f)
       | Inr (r, n) \<Rightarrow>
           do {
             let f = enter FIFO_READ f;
             xs \<leftarrow> fifo_fetch_tail f n;
             (r, f) \<leftarrow> fifo_clear_after flag r (leave FIFO_READ f);
             Some (r, xs, n, f)
           }))"

definition fifo_init :: "fifo_data_type_enum \<Rightarrow> int list \<Rightarrow> int \<Rightarrow> fifo_struct" where
  "fifo_init ty buffer_addr sz =
    \<lparr>execution = FIFO_IDLE, data_type = ty, buf = buffer_addr, f_head = 0, f_end = 0, f_size = sz, f_max = sz\<rparr>"

section \<open>The debug port\<close>

text \<open>
  \<open>debug_init\<close> with the receive interrupt on; \<open>mails\<close> is what \<open>rt_mb_send(uart_mb, _)\<close> was called with.  A byte that does
  not fit in the ring is still sent to the mailbox.
\<close>

record debug_port =
  debug_uart_fifo :: fifo_struct
  zf_debug_init_flag :: bool
  mails :: "int list"

definition DEBUG_RING_BUFFER_LEN :: int where "DEBUG_RING_BUFFER_LEN = 64"

definition debug_init :: "int list \<Rightarrow> debug_port \<Rightarrow> debug_port" where
  "debug_init debug_uart_buffer p =
    p\<lparr>debug_uart_fifo := fifo_init FIFO_DATA_8BIT debug_uart_buffer DEBUG_RING_BUFFER_LEN, zf_debug_init_flag := True\<rparr>"

definition debug_interrupr_handler :: "int \<Rightarrow> debug_port \<Rightarrow> debug_port option" where
  "debug_interrupr_handler byte p =
    (if zf_debug_init_flag p then
       do {
         (_, f) \<leftarrow> fifo_write_buffer (debug_uart_fifo p) (Some [byte]) 1;
         Some (p\<lparr>debug_uart_fifo := f, mails := mails p @ [byte]\<rparr>)
       }
     else Some p)"

definition debug_read_ring_buffer :: "int \<Rightarrow> debug_port \<Rightarrow> (int list \<times> int \<times> debug_port) option" where
  "debug_read_ring_buffer len p =
    do {
      (_, xs, n, f) \<leftarrow> fifo_read_buffer (debug_uart_fifo p) True len FIFO_READ_AND_CLEAN;
      Some (xs, n, p\<lparr>debug_uart_fifo := f\<rparr>)
    }"

section \<open>Wrapping\<close>

lemma fifo_wrap_mod: "0 < mx \<Longrightarrow> 0 \<le> h \<Longrightarrow> h < 4294967296 \<Longrightarrow> fifo_wrap mx h = Some (h mod mx)"
proof (induction "nat h" arbitrary: h rule: less_induct)
  case less
  show ?case
  proof (cases "mx \<le> h")
    case True
    with less.prems have "fifo_wrap mx (h - mx) = Some ((h - mx) mod mx)" by (intro less.hyps) auto
    with True less.prems show ?thesis by (simp add: fifo_wrap.simps [of mx h] u32_id)
  qed (use less.prems in \<open>simp add: fifo_wrap.simps [of mx h]\<close>)
qed

section \<open>The ring\<close>

text \<open>
  Read from position \<open>s\<close> on, the ring is the buffer rotated by \<open>s\<close>: a block in one or two pieces is the first
  elements of it, and a block written there replaces them.
\<close>

lemma ring_block:
  assumes "s < length b" and "n \<le> length b"
  shows "n \<le> length b - s \<Longrightarrow> take n (drop s b) = take n (rotate s b)"
    and "\<not> n \<le> length b - s \<Longrightarrow> drop s b @ take (n - (length b - s)) b = take n (rotate s b)"
  using assms by (auto simp: rotate_drop_take min_def)

lemma ring_write:
  assumes "h < length b" and "h + length xs \<le> length b"
  shows "rotate h (take h b @ xs @ drop (h + length xs) b) = xs @ drop (length xs) (rotate h b)"
  using assms by (simp add: rotate_drop_take add.commute)

lemma ring_write_wrapped:
  assumes "h < length b" and "length b < h + length xs" and "length xs \<le> length b" and "k = length b - h"
  shows "rotate h (drop k xs @ drop (length xs - k) (take h b @ take k xs)) = xs @ drop (length xs) (rotate h b)"
  using assms by (simp add: rotate_drop_take)

lemma ring_append:
  assumes "length b' = length b" and "b \<noteq> []" and "h = (e + u) mod length b" and "u + length xs \<le> length b"
    and "rotate h b' = xs @ drop (length xs) (rotate h b)"
  shows "take (u + length xs) (rotate e b') = take u (rotate e b) @ xs"
proof -
  let ?E = "rotate e b" and ?E' = "rotate e b'"
  have r: "rotate h b = rotate u ?E" "rotate h b' = rotate u ?E'"
    using assms(1,3) rotate_conv_mod [of "e + u" b] rotate_conv_mod [of "e + u" b'] by (simp_all add: rotate_rotate add.commute)
  show ?thesis
  proof (cases "u < length b")
    case True
    with assms(1) have "rotate u ?E = drop u ?E @ take u ?E" "rotate u ?E' = drop u ?E' @ take u ?E'"
      by (simp_all add: rotate_drop_take)
    with assms(4,5) r have "drop u ?E' @ take u ?E' = (xs @ drop (length xs) (drop u ?E)) @ take u ?E" by simp
    moreover have "length (drop u ?E') = length (xs @ drop (length xs) (drop u ?E))" using assms(1,4) by simp
    ultimately have "drop u ?E' = xs @ drop (length xs) (drop u ?E)" "take u ?E' = take u ?E"
      using append_eq_append_conv by blast+
    moreover have "take (u + length xs) ?E' = take u ?E' @ take (length xs) (drop u ?E')" by (simp add: take_add)
    ultimately show ?thesis by simp
  next
    case False
    with assms(4) have "length xs = 0" by linarith
    with assms(5) r have "rotate u ?E' = rotate u ?E" "xs = []" by simp_all
    moreover have "u = length b" using False \<open>length xs = 0\<close> assms(4) by linarith
    ultimately show ?thesis using assms(1) by simp
  qed
qed

lemma ring_drop:
  assumes "k \<le> n" and "n \<le> length b" and "s' = (s + k) mod length b" and "b \<noteq> []"
  shows "drop k (take n (rotate s b)) = take (n - k) (rotate s' b)"
proof -
  have "rotate s' b = rotate k (rotate s b)" using assms(3) rotate_conv_mod [of "s + k" b] by (simp add: rotate_rotate add.commute)
  moreover have "rotate k (rotate s b) = drop k (rotate s b) @ take k (rotate s b)" if "k < length b"
    using that by (simp add: rotate_drop_take [of k "rotate s b"])
  ultimately show ?thesis using assms(1,2) by (cases "k < length b") (simp_all add: drop_take)
qed

section \<open>The queue a FIFO holds\<close>

text \<open>
  The invariant between operations, for rings of up to 2 to the 31 elements, and the elements held, oldest first.
\<close>

definition fifo_ok :: "fifo_struct \<Rightarrow> bool" where
  "fifo_ok f \<longleftrightarrow> execution f = FIFO_IDLE \<and> 0 < f_max f \<and> f_max f \<le> 2147483648 \<and> int (length (buf f)) = f_max f \<and>
     0 \<le> f_end f \<and> f_end f < f_max f \<and> 0 \<le> f_size f \<and> f_size f \<le> f_max f \<and>
     f_head f = (f_end f + (f_max f - f_size f)) mod f_max f"

definition queued :: "fifo_struct \<Rightarrow> int list" where
  "queued f = take (nat (f_max f - f_size f)) (rotate (nat (f_end f)) (buf f))"

lemma length_queued: "fifo_ok f \<Longrightarrow> int (length (queued f)) = f_max f - f_size f"
  by (auto simp: fifo_ok_def queued_def)

lemma fifo_used_ok: "fifo_ok f \<Longrightarrow> fifo_used f = f_max f - f_size f"
  by (auto simp: fifo_ok_def fifo_used_def u32_id)

lemma flags [simp]:
  "or FIFO_RESET FIFO_WRITE = 5" "or FIFO_RESET FIFO_CLEAR = 3" "or 3 FIFO_READ = 11" "or 3 FIFO_WRITE = 7"
  "or 0 FIFO_RESET = 1" "or 0 FIFO_WRITE = 4" "or 0 FIFO_READ = 8" "or 0 FIFO_CLEAR = 2" "u8 (and 4 (not FIFO_WRITE)) = 0"
  "u8 (and 8 (not FIFO_READ)) = 0" "u8 (and 2 (not FIFO_CLEAR)) = 0" "u8 (and 0 (not FIFO_READ)) = 0" "FIFO_IDLE = 0" "u8 0 = 0"
  by (simp_all add: run_simps u8_def)

lemma exec_idle [simp]: "execution g = 0 \<Longrightarrow> g\<lparr>execution := 0\<rparr> = g"
  by (cases g) simp

lemma idle: "fifo_ok f \<Longrightarrow> execution f = 0" "fifo_ok f \<Longrightarrow> \<not> busy flags f"
  by (simp_all add: fifo_ok_def busy_def)

lemma offset_ok:
  "fifo_ok f \<or> 0 < f_max f \<and> f_max f \<le> 2147483648 \<Longrightarrow> 0 \<le> h \<Longrightarrow> h \<le> 2 * f_max f - 1 \<Longrightarrow> fifo_wrap (f_max f) (u32 h) = Some (h mod f_max f)"
  by (auto simp: fifo_ok_def u32_id fifo_wrap_mod)

lemma store_ok:
  assumes "0 < f_max f" and "f_max f \<le> 2147483648" and "int (length (buf f)) = f_max f" and "0 \<le> f_head f" and "f_head f < f_max f"
    and "0 \<le> k" and "0 \<le> n" and "k + n \<le> int (length dat)" and "f_head f + n \<le> f_max f"
  shows "fifo_store dat k n f = Some (f\<lparr>buf := take (nat (f_head f)) (buf f) @ take (nat n) (drop (nat k) dat) @
      drop (nat (f_head f) + nat n) (buf f), f_head := (f_head f + n) mod f_max f\<rparr>)"
proof -
  have "length (take (nat n) (drop (nat k) dat)) = nat n" using assms by simp
  then show ?thesis
    using assms offset_ok [of f "f_head f + n"]
    by (simp add: fifo_store_def block_def put_block_def fifo_head_offset_def)
qed

lemma ok_bounds:
  assumes "fifo_ok f"
  shows "0 < f_max f" "f_max f \<le> 2147483648" "int (length (buf f)) = f_max f" "0 \<le> f_head f" "f_head f < f_max f"
    "0 \<le> f_end f" "f_end f < f_max f" "0 \<le> f_size f" "f_size f \<le> f_max f" "buf f \<noteq> []"
  using assms by (auto simp: fifo_ok_def)

lemma write_parts:
  assumes "fifo_ok f" and "0 \<le> n" and "n \<le> f_size f"
    and "(if n > f_max f - f_head f then
            do { g \<leftarrow> fifo_store dat 0 (f_max f - f_head f) (enter FIFO_WRITE f); fifo_store dat (f_max f - f_head f) (n - (f_max f - f_head f)) g }
          else fifo_store dat 0 n (enter FIFO_WRITE f)) = Some ((enter FIFO_WRITE f)\<lparr>buf := b, f_head := h\<rparr>)"
  shows "fifo_write_buffer f (Some dat) n = Some (FIFO_SUCCESS, f\<lparr>buf := b, f_head := h, f_size := f_size f - n\<rparr>)"
proof -
  note ok = ok_bounds [OF assms(1)]
  have u: "u32 (f_max f - f_head f) = f_max f - f_head f" "u32 (f_size f - n) = f_size f - n" using ok assms(2,3) by (simp_all add: u32_id)
  have w: "u32 (n - (f_max f - f_head f)) = n - (f_max f - f_head f)" if "n > f_max f - f_head f" using that ok assms(3) by (simp add: u32_id)
  show ?thesis
    using assms(3,4) u w idle [OF assms(1)]
    by (cases "n > f_max f - f_head f")
      (simp_all add: fifo_write_buffer_def Let_def bind_assoc [symmetric] del: bind_assoc, simp_all add: enter_def leave_def)
qed

text \<open>Writing puts the elements behind the queue, in one piece or in two.\<close>

lemma write_ring:
  assumes "fifo_ok f" and "0 \<le> n" and "n \<le> int (length dat)" and "n \<le> f_size f"
  shows "\<exists>b. fifo_write_buffer f (Some dat) n =
      Some (FIFO_SUCCESS, f\<lparr>buf := b, f_head := (f_head f + n) mod f_max f, f_size := f_size f - n\<rparr>) \<and>
    rotate (nat (f_head f)) b = take (nat n) dat @ drop (nat n) (rotate (nat (f_head f)) (buf f)) \<and> length b = length (buf f)"
proof -
  note b = ok_bounds [OF assms(1)]
  let ?h = "nat (f_head f)" and ?t = "f_max f - f_head f" and ?b = "buf f" and ?xs = "take (nat n) dat"
  have l: "length ?xs = nat n" using assms by simp
  let ?e = "enter FIFO_WRITE f"
  show ?thesis
  proof (cases "n > ?t")
    case False
    let ?b' = "take ?h ?b @ ?xs @ drop (?h + nat n) ?b"
    have s: "fifo_store dat 0 n ?e = Some (?e\<lparr>buf := ?b', f_head := (f_head f + n) mod f_max f\<rparr>)"
      using b assms False store_ok [of ?e 0 n dat] by (simp add: enter_def)
    have "rotate ?h ?b' = ?xs @ drop (nat n) (rotate ?h ?b)"
      using ring_write [of ?h ?b ?xs] b assms False l by simp
    moreover have "length ?b' = length ?b" using l b assms False by simp
    moreover have "fifo_write_buffer f (Some dat) n = Some (FIFO_SUCCESS, f\<lparr>buf := ?b', f_head := (f_head f + n) mod f_max f, f_size := f_size f - n\<rparr>)"
      by (rule write_parts [OF assms(1,2,4)]) (use s False in simp)
    ultimately show ?thesis by blast
  next
    case True
    let ?k = "nat ?t"
    define b1 where "b1 = take ?h ?b @ take (nat ?t) dat"
    let ?b2 = "drop ?k ?xs @ drop (nat n - ?k) b1"
    have tk: "take ?k ?xs = take ?k dat" "drop ?k ?xs = take (nat (n - ?t)) (drop ?k dat)"
      using True b by (simp_all add: min_def drop_take nat_diff_distrib)
    have "?h + ?k = length ?b" using b by simp
    then have s1: "fifo_store dat 0 ?t ?e = Some (?e\<lparr>buf := b1, f_head := 0\<rparr>)"
      using b(1-5,9) assms(2-4) True store_ok [of ?e 0 ?t dat] by (simp add: enter_def b1_def)
    have l1: "length b1 = length ?b" using b(1-5,9) assms(2-4) True by (simp add: b1_def)
    have s2: "fifo_store dat ?t (n - ?t) (?e\<lparr>buf := b1, f_head := 0\<rparr>) = Some (?e\<lparr>buf := ?b2, f_head := (f_head f + n) mod f_max f\<rparr>)"
    proof -
      have "(f_head f + n) mod f_max f = (n - ?t) mod f_max f"
        using b mod_add_self2 [of "n - ?t" "f_max f"] by (simp add: algebra_simps)
      moreover have "nat (n - ?t) = nat n - ?k" using b True by (simp add: nat_diff_distrib)
      moreover have "fifo_store dat ?t (n - ?t) (?e\<lparr>buf := b1, f_head := 0\<rparr>) = Some (?e\<lparr>buf := b1, f_head := 0\<rparr>
          \<lparr>buf := take (nat 0) b1 @ take (nat (n - ?t)) (drop ?k dat) @ drop (nat 0 + nat (n - ?t)) b1, f_head := (0 + (n - ?t)) mod f_max f\<rparr>)"
        using b assms(2-4) True l1 by (subst store_ok) (simp_all add: enter_def)
      ultimately show ?thesis by (simp add: tk(2))
    qed
    have w: "?h < length ?b" "length ?b < ?h + length ?xs" "length ?xs \<le> length ?b" "?k = length ?b - ?h"
      unfolding l using b assms(2,4) True by linarith+
    have "rotate ?h ?b2 = ?xs @ drop (nat n) (rotate ?h ?b)"
      using ring_write_wrapped [OF w] by (simp only: tk(1) l b1_def)
    moreover have "length ?b2 = length ?b"
      using arg_cong [OF calculation, of length] w(3) l by simp
    moreover have "fifo_write_buffer f (Some dat) n = Some (FIFO_SUCCESS, f\<lparr>buf := ?b2, f_head := (f_head f + n) mod f_max f, f_size := f_size f - n\<rparr>)"
      by (rule write_parts [OF assms(1,2,4)]) (use s1 s2 True in simp)
    ultimately show ?thesis by blast
  qed
qed

text \<open>Reading takes the oldest elements, in one piece or in two.\<close>

lemma fetch_ring:
  assumes "fifo_ok f" and "0 \<le> n" and "n \<le> f_max f - f_size f"
  shows "fifo_fetch (enter FIFO_READ f) n = Some (take (nat n) (queued f))"
proof -
  note b = ok_bounds [OF assms(1)]
  have n: "nat n \<le> length (buf f)" "nat (f_end f) < length (buf f)" using b assms by linarith+
  have q: "take (nat n) (queued f) = take (nat n) (rotate (nat (f_end f)) (buf f))"
    using assms by (simp add: queued_def min_def nat_le_eq_zle)
  have t: "u32 (f_max f - f_end f) = f_max f - f_end f" using b by (simp add: u32_id)
  show ?thesis
  proof (cases "n \<le> f_max f - f_end f")
    case True
    then have "nat n \<le> length (buf f) - nat (f_end f)" using b by linarith
    then show ?thesis
      using True b assms(2) ring_block(1) [OF n(2,1)] q by (simp add: fifo_fetch_def t block_def enter_def)
  next
    case False
    then have w: "\<not> nat n \<le> length (buf f) - nat (f_end f)" using b by linarith
    have k: "nat (n - (f_max f - f_end f)) = nat n - (length (buf f) - nat (f_end f))" using b False by linarith
    have u: "u32 (n - (f_max f - f_end f)) = n - (f_max f - f_end f)" using b False assms by (simp add: u32_id)
    have "block (buf f) (f_end f) (f_max f - f_end f) = Some (drop (nat (f_end f)) (buf f))" using b by (simp add: block_def)
    moreover have "block (buf f) 0 (n - (f_max f - f_end f)) = Some (take (nat (n - (f_max f - f_end f))) (buf f))"
      using b False assms(3) by (simp add: block_def)
    ultimately show ?thesis
      using False by (simp add: fifo_fetch_def t u enter_def q k flip: ring_block(2) [OF n(2,1) w])
  qed
qed

lemma drop_ok:
  assumes "fifo_ok f" and "0 \<le> n" and "n \<le> f_max f - f_size f"
  shows "fifo_drop FIFO_READ_AND_CLEAN n r f = Some (r, f\<lparr>f_end := (f_end f + n) mod f_max f, f_size := f_size f + n\<rparr>)"
proof -
  note b = ok_bounds [OF assms(1)]
  have "fifo_wrap (f_max f) (u32 (f_end f + n)) = Some ((f_end f + n) mod f_max f)"
    using b assms by (intro offset_ok) auto
  moreover have "u32 (f_size f + n) = f_size f + n" using b assms by (simp add: u32_id)
  ultimately show ?thesis
    using idle [OF assms(1)] by (simp add: fifo_drop_def fifo_end_offset_def enter_def leave_def)
qed

section \<open>Refinement\<close>

lemma wrapped_pos:
  assumes "fifo_ok f" and "0 \<le> n"
  shows "nat ((f_end f + n) mod f_max f) = (nat (f_end f) + nat n) mod length (buf f)"
proof -
  have "nat (f_max f) = length (buf f)" using ok_bounds(3) [OF assms(1)] by linarith
  then show ?thesis using ok_bounds [OF assms(1)] assms(2) by (simp add: nat_mod_distrib nat_add_distrib)
qed

lemma write_queued:
  assumes "fifo_ok f" and "0 \<le> n" and "n \<le> int (length dat)" and "n \<le> f_size f"
  shows "\<exists>f'. fifo_write_buffer f (Some dat) n = Some (FIFO_SUCCESS, f') \<and> fifo_ok f' \<and>
    queued f' = queued f @ take (nat n) dat \<and> f_max f' = f_max f \<and> data_type f' = data_type f"
proof -
  note b = ok_bounds [OF assms(1)]
  from write_ring [OF assms] obtain c where c: "fifo_write_buffer f (Some dat) n =
      Some (FIFO_SUCCESS, f\<lparr>buf := c, f_head := (f_head f + n) mod f_max f, f_size := f_size f - n\<rparr>)"
    "rotate (nat (f_head f)) c = take (nat n) dat @ drop (nat n) (rotate (nat (f_head f)) (buf f))" "length c = length (buf f)" by blast
  let ?f = "f\<lparr>buf := c, f_head := (f_head f + n) mod f_max f, f_size := f_size f - n\<rparr>"
  let ?u = "nat (f_max f - f_size f)"
  have l: "length (take (nat n) dat) = nat n" using assms by simp
  have h: "f_head f = (f_end f + (f_max f - f_size f)) mod f_max f" using assms(1) by (simp add: fifo_ok_def)
  then have "nat (f_head f) = (nat (f_end f) + ?u) mod length (buf f)"
    using wrapped_pos [OF assms(1), of "f_max f - f_size f"] b(9) by simp
  moreover have "?u + length (take (nat n) dat) \<le> length (buf f)" unfolding l using b assms by linarith
  moreover have "rotate (nat (f_head f)) c = take (nat n) dat @ drop (length (take (nat n) dat)) (rotate (nat (f_head f)) (buf f))"
    using c(2) by (simp only: l)
  ultimately have "take (?u + length (take (nat n) dat)) (rotate (nat (f_end f)) c) = take ?u (rotate (nat (f_end f)) (buf f)) @ take (nat n) dat"
    by (rule ring_append [OF c(3) b(10)])
  then have "take (?u + nat n) (rotate (nat (f_end f)) c) = take ?u (rotate (nat (f_end f)) (buf f)) @ take (nat n) dat" by (simp only: l)
  moreover have "nat (f_max f - (f_size f - n)) = ?u + nat n" using b assms by linarith
  ultimately have "queued ?f = queued f @ take (nat n) dat" by (simp add: queued_def)
  moreover have "fifo_ok ?f"
  proof -
    have "(f_head f + n) mod f_max f = (f_end f + (f_max f - (f_size f - n))) mod f_max f"
      unfolding h mod_add_left_eq by (simp add: algebra_simps)
    then show ?thesis using assms b c(3) by (simp add: fifo_ok_def)
  qed
  ultimately show ?thesis using c(1) by simp
qed

lemma write_full:
  "fifo_ok f \<Longrightarrow> f_size f < n \<Longrightarrow> fifo_write_buffer f (Some dat) n = Some (FIFO_SPACE_NO_ENOUGH, f)"
  using idle [of f] by (simp add: fifo_write_buffer_def enter_def leave_def)

lemma clip_ok:
  assumes "fifo_ok f" and "0 \<le> n"
  shows "fifo_clip f n = (if n \<le> f_max f - f_size f then Inr (FIFO_SUCCESS, n)
    else if f_size f = f_max f then Inl () else Inr (FIFO_DATA_NO_ENOUGH, f_max f - f_size f))"
  using fifo_used_ok [OF assms(1)] by (auto simp: fifo_clip_def)

text \<open>How many elements are read and the result code.\<close>

definition read_len :: "fifo_struct \<Rightarrow> int \<Rightarrow> int" where
  "read_len f n = min n (f_max f - f_size f)"

definition read_code :: "fifo_struct \<Rightarrow> int \<Rightarrow> fifo_state_enum" where
  "read_code f n = (if n \<le> f_max f - f_size f then FIFO_SUCCESS else FIFO_DATA_NO_ENOUGH)"

lemma read_left: "fifo_ok f \<Longrightarrow> leave FIFO_READ (enter FIFO_READ f) = f" "fifo_ok f \<Longrightarrow> leave FIFO_READ f = f"
  by (simp_all add: enter_def leave_def idle)

lemma take_read_len: "fifo_ok f \<Longrightarrow> 0 \<le> n \<Longrightarrow> take (nat (read_len f n)) (queued f) = take (nat n) (queued f)"
  using length_queued [of f] by (auto simp: read_len_def min_def)

lemma read_peek:
  assumes "fifo_ok f" and "0 \<le> n"
  shows "fifo_read_buffer f True n FIFO_READ_ONLY = Some (read_code f n, take (nat n) (queued f), read_len f n, f)"
proof (cases "f_size f = f_max f \<and> 0 < n")
  case True
  then have "queued f = []" by (simp add: queued_def)
  with True show ?thesis
    using clip_ok [OF assms] idle [OF assms(1)] read_left [OF assms(1)] by (simp add: fifo_read_buffer_def read_code_def read_len_def)
next
  case False
  then have c: "fifo_clip f n = Inr (read_code f n, read_len f n)" "0 \<le> read_len f n" "read_len f n \<le> f_max f - f_size f"
    using clip_ok [OF assms] ok_bounds [OF assms(1)] assms(2) by (auto simp: read_code_def read_len_def)
  then show ?thesis
    using fetch_ring [OF assms(1) c(2,3)] take_read_len [OF assms] idle [OF assms(1)] read_left [OF assms(1)]
    by (simp add: fifo_read_buffer_def fifo_drop_def)
qed

lemma queued_drop:
  assumes "fifo_ok f" and "0 \<le> n" and "n \<le> f_max f - f_size f"
  shows "queued (f\<lparr>f_end := (f_end f + n) mod f_max f, f_size := f_size f + n\<rparr>) = drop (nat n) (queued f)"
    and "fifo_ok (f\<lparr>f_end := (f_end f + n) mod f_max f, f_size := f_size f + n\<rparr>)"
proof -
  note b = ok_bounds [OF assms(1)]
  let ?u = "nat (f_max f - f_size f)"
  have p: "nat n \<le> ?u" "?u \<le> length (buf f)" "nat (f_max f - (f_size f + n)) = ?u - nat n" using b assms(2,3) by linarith+
  have "drop (nat n) (take ?u (rotate (nat (f_end f)) (buf f))) = take (?u - nat n) (rotate ((nat (f_end f) + nat n) mod length (buf f)) (buf f))"
    by (rule ring_drop [OF p(1,2) refl b(10)])
  then show "queued (f\<lparr>f_end := (f_end f + n) mod f_max f, f_size := f_size f + n\<rparr>) = drop (nat n) (queued f)"
    by (simp only: queued_def) (simp add: p(3) wrapped_pos [OF assms(1,2)])
  have "((f_end f + n) mod f_max f + (f_max f - (f_size f + n))) mod f_max f = (f_end f + (f_max f - f_size f)) mod f_max f"
    unfolding mod_add_left_eq by (simp add: algebra_simps)
  then show "fifo_ok (f\<lparr>f_end := (f_end f + n) mod f_max f, f_size := f_size f + n\<rparr>)"
    using assms b by (simp add: fifo_ok_def)
qed

lemma read_queued:
  assumes "fifo_ok f" and "0 \<le> n"
  shows "\<exists>f'. fifo_read_buffer f True n FIFO_READ_AND_CLEAN = Some (read_code f n, take (nat n) (queued f), read_len f n, f') \<and>
    fifo_ok f' \<and> queued f' = drop (nat n) (queued f) \<and> f_max f' = f_max f \<and> data_type f' = data_type f \<and>
    f_size f' = f_size f + read_len f n"
proof (cases "f_size f = f_max f \<and> 0 < n")
  case True
  then have "queued f = []" by (simp add: queued_def)
  with True show ?thesis
    using clip_ok [OF assms] idle [OF assms(1)] read_left [OF assms(1)] assms(1) by (simp add: fifo_read_buffer_def read_code_def read_len_def)
next
  case False
  then have c: "fifo_clip f n = Inr (read_code f n, read_len f n)" "0 \<le> read_len f n" "read_len f n \<le> f_max f - f_size f"
    using clip_ok [OF assms] ok_bounds [OF assms(1)] assms(2) by (auto simp: read_code_def read_len_def)
  have "drop (nat (read_len f n)) (queued f) = drop (nat n) (queued f)"
    using length_queued [OF assms(1)] by (auto simp: read_len_def min_def)
  then show ?thesis
    using fetch_ring [OF assms(1) c(2,3)] take_read_len [OF assms] idle [OF assms(1)] read_left [OF assms(1)] drop_ok [OF assms(1) c(2,3)]
      queued_drop [OF assms(1) c(2,3)] c(1)
    by (simp add: fifo_read_buffer_def)
qed

text \<open>A bounded queue as its users see it, and what a run of it answers.\<close>

datatype 'a queue_op = Put "'a list" | Get nat

fun queue_run :: "nat \<Rightarrow> 'a queue_op list \<Rightarrow> 'a list \<Rightarrow> 'a list list \<times> 'a list" where
  "queue_run cap [] q = ([], q)"
| "queue_run cap (Put xs # ops) q = queue_run cap ops (if length q + length xs \<le> cap then q @ xs else q)"
| "queue_run cap (Get n # ops) q = (let (outs, q') = queue_run cap ops (drop n q) in (take n q # outs, q'))"

fun buffer_run :: "('a list \<Rightarrow> 's \<Rightarrow> 's option) \<Rightarrow> (nat \<Rightarrow> 's \<Rightarrow> ('a list \<times> 's) option) \<Rightarrow> 'a queue_op list \<Rightarrow> 's \<Rightarrow> ('a list list \<times> 's) option" where
  "buffer_run put get [] s = Some ([], s)"
| "buffer_run put get (Put xs # ops) s = do { s \<leftarrow> put xs s; buffer_run put get ops s }"
| "buffer_run put get (Get n # ops) s = do { (out, s) \<leftarrow> get n s; (outs, s) \<leftarrow> buffer_run put get ops s; Some (out # outs, s) }"

locale bounded_queue =
  fixes put :: "'a list \<Rightarrow> 's \<Rightarrow> 's option"
    and get :: "nat \<Rightarrow> 's \<Rightarrow> ('a list \<times> 's) option"
    and contents :: "'s \<Rightarrow> 'a list"
    and room :: "'s \<Rightarrow> nat"
    and ok :: "'s \<Rightarrow> bool"
  assumes put_law: "ok s \<Longrightarrow> \<exists>s'. put xs s = Some s' \<and> ok s' \<and> room s' + length (contents s') = room s + length (contents s) \<and>
      contents s' = (if length xs \<le> room s then contents s @ xs else contents s)"
    and get_law: "ok s \<Longrightarrow> \<exists>s'. get n s = Some (take n (contents s), s') \<and> ok s' \<and> contents s' = drop n (contents s) \<and>
      room s' + length (contents s') = room s + length (contents s)"
begin

lemma run_refines:
  assumes "ok s" and "room s + length (contents s) = cap"
  shows "\<exists>s'. buffer_run put get ops s = Some (fst (queue_run cap ops (contents s)), s') \<and> ok s' \<and>
    contents s' = snd (queue_run cap ops (contents s)) \<and> room s' + length (contents s') = cap"
  using assms
proof (induction ops arbitrary: s)
  case (Cons x ops)
  show ?case
  proof (cases x)
    case (Put xs)
    obtain t where t: "put xs s = Some t" "ok t" "room t + length (contents t) = cap"
        "contents t = (if length xs \<le> room s then contents s @ xs else contents s)"
      using put_law [OF Cons.prems(1), of xs] Cons.prems(2) by auto
    have "length xs \<le> room s \<longleftrightarrow> length (contents s) + length xs \<le> cap" using Cons.prems(2) by auto
    with t(1,4) Cons.IH [OF t(2,3)] show ?thesis by (simp add: Put)
  next
    case (Get n)
    obtain t where t: "get n s = Some (take n (contents s), t)" "ok t" "contents t = drop n (contents s)" "room t + length (contents t) = cap"
      using get_law [OF Cons.prems(1), of n] Cons.prems(2) by auto
    with Cons.IH [OF t(2,4)] show ?thesis by (auto simp: Get split: prod.split)
  qed
qed simp

lemma write_then_read:
  assumes "ok s" and "contents s = []" and "sum_list (map length xss) \<le> room s"
  shows "\<exists>s'. buffer_run put get (map Put xss @ [Get (length (concat xss))]) s = Some ([concat xss], s')"
proof -
  have "queue_run cap (map Put xss @ [Get (length q + length (concat xss))]) q = ([q @ concat xss], [])"
    if "length q + sum_list (map length xss) \<le> cap" for cap and q :: "'a list"
    using that
  proof (induction xss arbitrary: q)
    case (Cons xs xss)
    from Cons.IH [of "q @ xs"] Cons.prems show ?case by (simp add: add.assoc)
  qed simp
  from this [of "[]" "room s"] run_refines [OF assms(1), of "room s" "map Put xss @ [Get (length (concat xss))]"] assms(2,3)
  show ?thesis by auto
qed

end

text \<open>The FIFO's sequential operations as such a queue: the code of a write is not looked at.\<close>

definition fifo_put :: "int list \<Rightarrow> fifo_struct \<Rightarrow> fifo_struct option" where
  "fifo_put xs f = map_option snd (fifo_write_buffer f (Some xs) (int (length xs)))"

definition fifo_get :: "nat \<Rightarrow> fifo_struct \<Rightarrow> (int list \<times> fifo_struct) option" where
  "fifo_get n f = map_option (\<lambda>(r, xs, k, f). (xs, f)) (fifo_read_buffer f True (int n) FIFO_READ_AND_CLEAN)"

definition free :: "fifo_struct \<Rightarrow> nat" where
  "free f = nat (f_size f)"

lemma free_queued: "fifo_ok f \<Longrightarrow> free f + length (queued f) = nat (f_max f)"
  using length_queued [of f] ok_bounds(8) [of f] by (simp add: free_def)

interpretation ring: bounded_queue fifo_put fifo_get queued free fifo_ok
proof unfold_locales
  fix f xs assume ok: "fifo_ok f"
  show "\<exists>f'. fifo_put xs f = Some f' \<and> fifo_ok f' \<and> free f' + length (queued f') = free f + length (queued f) \<and>
      queued f' = (if length xs \<le> free f then queued f @ xs else queued f)"
  proof (cases "length xs \<le> free f")
    case True
    then have "int (length xs) \<le> f_size f" using ok_bounds(8) [OF ok] by (simp add: free_def)
    from write_queued [OF ok _ _ this, of xs] obtain f' where w: "fifo_write_buffer f (Some xs) (int (length xs)) = Some (FIFO_SUCCESS, f')"
        "fifo_ok f'" "queued f' = queued f @ xs" "f_max f' = f_max f" by auto
    with True free_queued [OF ok] free_queued [OF w(2)] show ?thesis by (simp add: fifo_put_def)
  next
    case False
    then have "f_size f < int (length xs)" using ok_bounds(8) [OF ok] by (simp add: free_def)
    from write_full [OF ok this] False ok show ?thesis by (simp add: fifo_put_def)
  qed
next
  fix f n assume ok: "fifo_ok f"
  from read_queued [OF ok, of "int n"] obtain f' where r: "fifo_read_buffer f True (int n) FIFO_READ_AND_CLEAN =
      Some (read_code f (int n), take n (queued f), read_len f (int n), f')" "fifo_ok f'" "queued f' = drop n (queued f)" "f_max f' = f_max f"
    by auto
  with free_queued [OF ok] free_queued [OF r(2)]
  show "\<exists>f'. fifo_get n f = Some (take n (queued f), f') \<and> fifo_ok f' \<and> queued f' = drop n (queued f) \<and>
      free f' + length (queued f') = free f + length (queued f)"
    by (simp add: fifo_get_def)
qed

lemma init_ok:
  assumes "0 < n" and "n \<le> 2147483648" and "int (length b) = n"
  shows "fifo_ok (fifo_init ty b n)" "queued (fifo_init ty b n) = []" "free (fifo_init ty b n) = nat n" "f_max (fifo_init ty b n) = n"
  using assms by (simp_all add: fifo_ok_def fifo_init_def queued_def free_def)

section \<open>One element at a time\<close>

lemma element_write:
  assumes "fifo_ok f"
  shows "fifo_write_element f v = fifo_write_buffer f (Some [to_type (data_type f) v]) 1"
proof (cases "1 \<le> f_size f")
  case False
  then show ?thesis using idle [OF assms] write_full [OF assms, of 1] by (simp add: fifo_write_element_def enter_def leave_def)
next
  case True
  note b = ok_bounds [OF assms]
  let ?v = "to_type (data_type f) v"
  have w: "wr (buf f) (f_head f) ?v = Some (take (nat (f_head f)) (buf f) @ [?v] @ drop (nat (f_head f) + 1) (buf f))"
    using b(1-5) by (simp add: upd_conv_take_nth_drop nat_less_iff)
  have o: "fifo_wrap (f_max f) (u32 (f_head f + 1)) = Some ((f_head f + 1) mod f_max f)" using b(1-5) assms by (intro offset_ok) auto
  have u: "u32 (f_size f - 1) = f_size f - 1" using b True by (simp add: u32_id)
  have "fifo_write_element f v = Some (FIFO_SUCCESS, f\<lparr>buf := take (nat (f_head f)) (buf f) @ [?v] @ drop (nat (f_head f) + 1) (buf f),
      f_head := (f_head f + 1) mod f_max f, f_size := f_size f - 1\<rparr>)"
    using True idle [OF assms] w o u by (simp add: fifo_write_element_def fifo_head_offset_def enter_def leave_def del: wr_ok)
  also have "\<dots> = fifo_write_buffer f (Some [?v]) 1"
  proof (rule write_parts [OF assms _ True, symmetric])
    have "fifo_store [?v] 0 1 (enter FIFO_WRITE f) = Some ((enter FIFO_WRITE f)\<lparr>buf := take (nat (f_head f)) (buf f) @ [?v] @
        drop (nat (f_head f) + 1) (buf f), f_head := (f_head f + 1) mod f_max f\<rparr>)"
      using b(1-5) by (subst store_ok) (simp_all add: enter_def)
    then show "(if 1 > f_max f - f_head f then do { g \<leftarrow> fifo_store [?v] 0 (f_max f - f_head f) (enter FIFO_WRITE f);
          fifo_store [?v] (f_max f - f_head f) (1 - (f_max f - f_head f)) g } else fifo_store [?v] 0 1 (enter FIFO_WRITE f)) =
        Some ((enter FIFO_WRITE f)\<lparr>buf := take (nat (f_head f)) (buf f) @ [?v] @ drop (nat (f_head f) + 1) (buf f),
          f_head := (f_head f + 1) mod f_max f\<rparr>)"
      using b(5) by simp
  qed simp
  finally show ?thesis .
qed

lemma element_read:
  assumes "fifo_ok f"
  shows "fifo_read_element f True flag = map_option (\<lambda>(r, xs, k, g). (r, xs, g)) (fifo_read_buffer f True 1 flag)"
proof (cases "f_size f = f_max f")
  case True
  then show ?thesis
    using clip_ok [OF assms, of 1] idle [OF assms] fifo_used_ok [OF assms] read_left [OF assms]
    by (simp add: fifo_read_element_def fifo_read_buffer_def)
next
  case False
  note b = ok_bounds [OF assms]
  have one: "1 \<le> f_max f - f_size f" using False b by linarith
  have "fifo_fetch (enter FIFO_READ f) 1 = Some [buf f ! nat (f_end f)]"
    using b by (simp add: fifo_fetch_def u32_id block_def enter_def take_Suc_conv_app_nth hd_drop_conv_nth [symmetric] take_Suc)
  with one show ?thesis
    using clip_ok [OF assms, of 1] idle [OF assms] fifo_used_ok [OF assms] read_left [OF assms] b
    by (simp add: fifo_read_element_def fifo_read_buffer_def enter_def Let_def bind_map_option split: Option.bind_split prod.split)
qed

section \<open>The last elements\<close>

lemma fetch_tail:
  assumes "fifo_ok f" and "0 \<le> n" and "n \<le> f_max f - f_size f"
  shows "fifo_fetch_tail (enter FIFO_READ f) n =
    (if 0 < f_head f \<and> f_head f < n then None else Some (drop (length (queued f) - nat n) (queued f)))"
proof -
  note b = ok_bounds [OF assms(1)]
  let ?m = "length (buf f)" and ?u = "nat (f_max f - f_size f)" and ?s = "nat ((f_head f - n) mod f_max f)"
  have head: "f_head f = (f_end f + (f_max f - f_size f)) mod f_max f" using assms(1) by (simp add: fifo_ok_def)
  have le: "f_head f = f_end f + (f_max f - f_size f)" if "f_head f > f_end f"
  proof (cases "f_end f + (f_max f - f_size f) < f_max f")
    case False
    then have "(f_end f + (f_max f - f_size f)) mod f_max f = f_end f + (f_max f - f_size f) - f_max f"
      using b by (simp add: mod_pos_geq)
    with head that b show ?thesis by linarith
  qed (use head b in simp)
  have "drop (?u - nat n) (queued f) = take (nat n) (rotate ?s (buf f))"
  proof -
    have "?s = (nat (f_end f) + (?u - nat n)) mod ?m"
    proof -
      have "(f_head f - n) mod f_max f = (f_end f + (f_max f - f_size f - n)) mod f_max f"
        unfolding head mod_diff_left_eq by (simp add: algebra_simps)
      then show ?thesis using wrapped_pos [OF assms(1), of "f_max f - f_size f - n"] assms(2,3) by (simp add: nat_diff_distrib)
    qed
    moreover have "?u - nat n \<le> ?u" "?u \<le> ?m" "?u - (?u - nat n) = nat n" using b assms by linarith+
    ultimately show ?thesis using ring_drop [of "?u - nat n" ?u "buf f" _ "nat (f_end f)"] b(10) by (metis queued_def)
  qed
  then have tail: "drop (length (queued f) - nat n) (queued f) = take (nat n) (rotate ?s (buf f))"
    using length_queued [OF assms(1)] by (metis nat_int)
  show ?thesis
  proof (cases "n \<le> f_head f")
    case True
    then have s: "?s = nat (f_head f - n)" "u32 (f_head f - n) = f_head f - n" using b assms by (simp_all add: u32_id)
    have "take (nat n) (drop ?s (buf f)) = take (nat n) (rotate ?s (buf f))"
      using s True b assms by (intro ring_block(1)) linarith+
    moreover have "f_head f - n + n \<le> int ?m" using b by simp
    ultimately show ?thesis
      using True b(4) tail assms(2) s by (simp add: fifo_fetch_tail_def enter_def block_def)
  next
    case False
    then have w: "\<not> f_head f > f_end f" using le assms(3) b by linarith
    have t: "u32 (n - f_head f) = n - f_head f" "u32 (f_max f - (n - f_head f)) = f_max f - (n - f_head f)"
      using b assms False by (simp_all add: u32_id)
    have v: "u32 (f_head f - n) = 4294967296 + f_head f - n"
    proof -
      have "(f_head f - n) mod 4294967296 = (4294967296 + (f_head f - n)) mod 4294967296" by (simp only: mod_add_self1)
      also have "\<dots> = 4294967296 + (f_head f - n)" using b(1-5,8) assms(3) False by (intro mod_pos_pos_trivial) linarith+
      finally show ?thesis by (simp add: u32_def)
    qed
    show ?thesis
    proof (cases "f_head f = 0")
      case True
      have "(- n) mod f_max f = (f_max f + - n) mod f_max f" by (simp only: mod_add_self1)
      also have "\<dots> = f_max f + - n" using True b(1-5,8) assms(3) False by (intro mod_pos_pos_trivial) linarith+
      finally have s: "?s = nat (f_max f - n)" using True by simp
      have "take (nat n) (drop ?s (buf f)) = take (nat n) (rotate ?s (buf f))"
        using s True False b assms by (intro ring_block(1)) linarith+
      moreover have "block (buf f) (f_max f - n) n = Some (take (nat n) (drop ?s (buf f)))"
        unfolding s using b(1-5,8) assms(2,3) True False by (simp add: block_def)
      moreover have "block (buf f) (u32 (- n)) 0 = Some []" by (simp add: block_def)
      ultimately show ?thesis using True False w t tail by (simp add: fifo_fetch_tail_def enter_def u32_id)
    next
      case nz: False
      have "block (buf f) (4294967296 + f_head f - n) (u32 (n - (n - f_head f))) = None"
        using b assms False nz by (simp add: block_def u32_id)
      then show ?thesis
        using False nz w t v b by (simp add: fifo_fetch_tail_def enter_def split: Option.bind_split)
    qed
  qed
qed

section \<open>Types\<close>




lemma u_idem [simp]: "u8 (u8 x) = u8 x" "u16 (u16 x) = u16 x" "u32 (u32 x) = u32 x" "u32 0 = 0" "u32 1 = 1"
  by (simp_all add: u8_def u16_def u32_def)

lemma to_type_idem [simp]: "to_type ty (to_type ty v) = to_type ty v" "to_type ty 0 = 0"
  by (cases ty; simp add: u8_def u16_def u32_def)+


















lemma buf_frames [simp]: "buf (enter flag f) = buf f" "buf (leave flag f) = buf f"
  by (simp_all add: enter_def leave_def)





section \<open>Properties\<close>

text \<open>
  C13: The ring buffer is a bounded queue: any sequence of block writes and reads on a well-formed FIFO answers exactly what the
  same sequence answers on a list of the queued elements with the FIFO's capacity, where a block that does not fit
  is left out as a whole, and it ends well-formed with the list's final elements.
\<close>

theorem fifo_refines_queue:
  assumes "fifo_ok f"
  shows "\<exists>f'. buffer_run fifo_put fifo_get ops f = Some (fst (queue_run (nat (f_max f)) ops (queued f)), f') \<and> fifo_ok f' \<and>
    queued f' = snd (queue_run (nat (f_max f)) ops (queued f))"
  using ring.run_refines [OF assms free_queued [OF assms]] by blast

theorem fifo_refines_queue_witness:
  "\<exists>f'. buffer_run fifo_put fifo_get [Put [1, 2, 3], Get 2, Put [4, 5, 6], Get 9, Put [7, 8, 9, 10, 11], Get 1]
      (fifo_init FIFO_DATA_8BIT [0, 0, 0, 0] 4) = Some ([[1, 2], [3, 4, 5, 6], []], f') \<and> fifo_ok f' \<and> queued f' = []"
  using fifo_refines_queue [OF init_ok(1) [of 4 "[0, 0, 0, 0]" FIFO_DATA_8BIT],
      of "[Put [1, 2, 3], Get 2, Put [4, 5, 6], Get 9, Put [7, 8, 9, 10, 11], Get 1]"]
  by (simp add: init_ok)

text \<open>
  What is written is read back: after any number of block writes that fit together into an empty FIFO, one read of
  their total length returns all the elements in the order they were written.
\<close>

theorem fifo_write_then_read:
  assumes "fifo_ok f" and "queued f = []" and "int (sum_list (map length xss)) \<le> f_max f"
  shows "\<exists>f'. buffer_run fifo_put fifo_get (map Put xss @ [Get (length (concat xss))]) f = Some ([concat xss], f')"
proof -
  have "sum_list (map length xss) \<le> free f" using free_queued [OF assms(1)] assms(2,3) by simp
  then show ?thesis by (rule ring.write_then_read [OF assms(1,2)])
qed

theorem fifo_write_then_read_witness:
  "\<exists>f'. buffer_run fifo_put fifo_get (map Put [[10, 20], [], [30, 40, 50]] @ [Get (length (concat [[10, 20], [], [30, 40, 50 :: int]]))])
      (fifo_init FIFO_DATA_16BIT [0, 0, 0, 0, 0] 5) = Some (concat [[10, 20], [], [30, 40, 50]] # [], f')"
  by (rule fifo_write_then_read) (simp_all add: init_ok)



text \<open>
  The newest elements are not always reachable: reading the last n queued elements returns exactly those, unless they lie
  across the end of the buffer with some at its start; then the unsigned index head - n of the second copy is
  far outside the array, and the read is undefined.
\<close>

theorem fifo_tail_read:
  assumes "fifo_ok f" and "0 < n" and "n \<le> f_max f - f_size f"
  shows "fifo_read_tail_buffer f True n FIFO_READ_ONLY =
    (if 0 < f_head f \<and> f_head f < n then None else Some (FIFO_SUCCESS, drop (length (queued f) - nat n) (queued f), n, f))"
  using fetch_tail [OF assms(1) _ assms(3)] assms(2,3) clip_ok [OF assms(1), of n] idle [OF assms(1)] read_left [OF assms(1)]
  by (simp add: fifo_read_tail_buffer_def fifo_clear_after_def Let_def)

theorem fifo_tail_read_witness:
  "\<exists>f. fifo_ok f \<and> queued f = [3, 4, 5, 6] \<and> fifo_read_tail_buffer f True 1 FIFO_READ_ONLY = Some (FIFO_SUCCESS, [6], 1, f) \<and>
    fifo_read_tail_buffer f True 2 FIFO_READ_ONLY = None"
proof -
  let ?f = "\<lparr>execution = 0, data_type = FIFO_DATA_8BIT, buf = [6, 2, 3, 4, 5], f_head = 1, f_end = 2, f_size = 1, f_max = 5\<rparr>"
  have f: "fifo_ok ?f" "queued ?f = [3, 4, 5, 6]" by (simp_all add: fifo_ok_def queued_def numeral_nat)
  with fifo_tail_read [OF f(1), of 1] fifo_tail_read [OF f(1), of 2] show ?thesis by (intro exI [of _ ?f]) simp
qed

text \<open>
  One element at a time is the same as a block of one: on a well-formed FIFO the element write is the block write of the
  truncated value and the element read is the block read of length one, in result code, value and final state.
\<close>

theorem fifo_element_is_block:
  assumes "fifo_ok f"
  shows "fifo_write_element f v = fifo_write_buffer f (Some [to_type (data_type f) v]) 1 \<and>
    fifo_read_element f True flag = map_option (\<lambda>(r, xs, k, g). (r, xs, g)) (fifo_read_buffer f True 1 flag)"
  using element_write [OF assms] element_read [OF assms] by simp

theorem fifo_element_is_block_witness:
  "fifo_write_element (fifo_init FIFO_DATA_8BIT [0, 0] 2) 300 = fifo_write_buffer (fifo_init FIFO_DATA_8BIT [0, 0] 2) (Some [44]) 1 \<and>
   fifo_read_element (fifo_init FIFO_DATA_8BIT [0, 0] 2) True FIFO_READ_AND_CLEAN =
     map_option (\<lambda>(r, xs, k, g). (r, xs, g)) (fifo_read_buffer (fifo_init FIFO_DATA_8BIT [0, 0] 2) True 1 FIFO_READ_AND_CLEAN)"
  using fifo_element_is_block [OF init_ok(1) [of 2 "[0, 0]" FIFO_DATA_8BIT], of 300 FIFO_READ_AND_CLEAN]
  by (simp add: fifo_init_def u8_def)

text \<open>A read into \<open>NULL\<close> that also clears gives back room that was never used.\<close>

lemma null_read_corrupts:
  "map_option (\<lambda>(r, xs, g). (r, f_size g, f_max g, fifo_used g))
     (fifo_read_element (fifo_init FIFO_DATA_8BIT [0, 0, 0] 3) False FIFO_READ_AND_CLEAN) = Some (FIFO_BUFFER_NULL, 4, 3, 4294967295)"
  by code_simp

section \<open>The debug port\<close>

fun debug_receive :: "int list \<Rightarrow> debug_port \<Rightarrow> debug_port option" where
  "debug_receive [] p = Some p"
| "debug_receive (b # bs) p = do { p \<leftarrow> debug_interrupr_handler b p; debug_receive bs p }"

lemma debug_step:
  assumes "fifo_ok (debug_uart_fifo p)" and "zf_debug_init_flag p"
  shows "\<exists>p'. debug_interrupr_handler b p = Some p' \<and> fifo_ok (debug_uart_fifo p') \<and> zf_debug_init_flag p' \<and> mails p' = mails p @ [b] \<and>
    f_max (debug_uart_fifo p') = f_max (debug_uart_fifo p) \<and>
    queued (debug_uart_fifo p') = take (nat (f_max (debug_uart_fifo p))) (queued (debug_uart_fifo p) @ [b])"
proof (cases "1 \<le> f_size (debug_uart_fifo p)")
  case True
  from write_queued [OF assms(1) _ _ True, of "[b]"] obtain g where g: "fifo_write_buffer (debug_uart_fifo p) (Some [b]) 1 = Some (FIFO_SUCCESS, g)"
      "fifo_ok g" "queued g = queued (debug_uart_fifo p) @ [b]" "f_max g = f_max (debug_uart_fifo p)" by auto
  have "length (queued g) \<le> nat (f_max (debug_uart_fifo p))" using free_queued [OF g(2)] g(4) by linarith
  with g assms(2) show ?thesis by (simp add: debug_interrupr_handler_def)
next
  case False
  then have "length (queued (debug_uart_fifo p)) = nat (f_max (debug_uart_fifo p))"
    using free_queued [OF assms(1)] by (simp add: free_def)
  with False write_full [OF assms(1), of 1] assms show ?thesis by (simp add: debug_interrupr_handler_def)
qed

lemma debug_receive_ok:
  assumes "fifo_ok (debug_uart_fifo p)" and "zf_debug_init_flag p"
  shows "\<exists>p'. debug_receive bs p = Some p' \<and> fifo_ok (debug_uart_fifo p') \<and> mails p' = mails p @ bs \<and>
    queued (debug_uart_fifo p') = take (nat (f_max (debug_uart_fifo p))) (queued (debug_uart_fifo p) @ bs)"
  using assms
proof (induction bs arbitrary: p)
  case Nil
  then show ?case using free_queued [OF Nil(1)] by simp
next
  case (Cons b bs)
  from debug_step [OF Cons.prems, of b] obtain q where q: "debug_interrupr_handler b p = Some q" "fifo_ok (debug_uart_fifo q)" "zf_debug_init_flag q"
      "mails q = mails p @ [b]" "f_max (debug_uart_fifo q) = f_max (debug_uart_fifo p)"
      "queued (debug_uart_fifo q) = take (nat (f_max (debug_uart_fifo p))) (queued (debug_uart_fifo p) @ [b])" by blast
  have "take n (take n (xs @ [b]) @ bs) = take n (xs @ b # bs)" for n and xs :: "int list"
    by (cases "n \<le> length xs") simp_all
  with Cons.IH [OF q(2,3)] q show ?case by (simp del: take_append)
qed

text \<open>
  The debug port keeps the first 64 bytes: after the port is initialised and the bytes bs have come in by the receive
  interrupt, a read of len bytes returns the first len of the first 64 of them in order, with their number, and the shell's mailbox
  was sent every byte, the dropped ones too.
\<close>

theorem debug_port_reads_back:
  assumes "length buffer = 64"
  shows "\<exists>p' p''. debug_receive bs (debug_init buffer p) = Some p' \<and> mails p' = mails p @ bs \<and>
    debug_read_ring_buffer (int len) p' = Some (take len (take 64 bs), int (min len (min 64 (length bs))), p'')"
proof -
  have ok: "fifo_ok (debug_uart_fifo (debug_init buffer p))" "queued (debug_uart_fifo (debug_init buffer p)) = []"
    "f_max (debug_uart_fifo (debug_init buffer p)) = 64" "zf_debug_init_flag (debug_init buffer p)" "mails (debug_init buffer p) = mails p"
    using assms by (simp_all add: debug_init_def DEBUG_RING_BUFFER_LEN_def init_ok)
  from debug_receive_ok [OF ok(1,4), of bs] ok obtain q where q: "debug_receive bs (debug_init buffer p) = Some q" "fifo_ok (debug_uart_fifo q)"
      "mails q = mails p @ bs" "queued (debug_uart_fifo q) = take 64 bs" by auto
  have "read_len (debug_uart_fifo q) (int len) = int (min len (min 64 (length bs)))"
    using length_queued [OF q(2)] q(4) by (simp add: read_len_def min.commute)
  with read_queued [OF q(2), of "int len"] q show ?thesis by (auto simp: debug_read_ring_buffer_def)
qed

definition debug_port_zero :: debug_port where
  "debug_port_zero = \<lparr>debug_uart_fifo = fifo_init FIFO_DATA_8BIT [] 0, zf_debug_init_flag = False, mails = []\<rparr>"

theorem debug_port_reads_back_witness:
  "\<exists>p' p''. debug_receive [72, 105, 33] (debug_init (replicate 64 0) debug_port_zero) = Some p' \<and> mails p' = mails debug_port_zero @ [72, 105, 33] \<and>
    debug_read_ring_buffer (int 2) p' = Some (take 2 (take 64 [72, 105, 33]), int (min 2 (min 64 (length [72, 105, 33 :: int]))), p'')"
  by (rule debug_port_reads_back) simp

end
