(* ===== verification/DebugTool.thy ===== *)
theory DebugTool
  imports BoxTask
begin

text \<open>
  The serial shell's commands (\<open>code/src/debug_tool.c\<close>): change a parameter by name, list the parameters, print an array,
  show the road element and the segments, start, stop and move the car.  The shell itself is RT-Thread's; it calls a command
  with the words of the line.  Output is the list of \<open>rt_kprintf\<close> calls, format and values.
\<close>

section \<open>Numbers in text\<close>

definition is_space :: "char \<Rightarrow> bool" where
  "is_space c \<longleftrightarrow> c = CHR '' '' \<or> (9 \<le> (of_char c :: nat) \<and> (of_char c :: nat) \<le> 13)"

fun sign_of :: "string \<Rightarrow> int \<times> string" where
  "sign_of (c # s) = (if c = CHR ''-'' then (- 1, s) else if c = CHR ''+'' then (1, s) else (1, c # s))"
| "sign_of [] = (1, [])"

text \<open>\<open>atoi\<close> of the standard library: undefined when the value does not fit.\<close>

definition atoi :: "string \<Rightarrow> int option" where
  "atoi s = (let (sg, s) = sign_of (dropWhile is_space s) in chk32 (sg * digits (takeWhile is_digit s)))"

text \<open>
  \<open>atof\<close>: the nearest \<open>double\<close> of a decimal number with fraction and exponent; 0 when there are no digits.  The
  standard's hexadecimal numbers, infinities and NaNs are not modelled (\<open>None\<close>).
\<close>

definition exponent :: "string \<Rightarrow> int" where
  "exponent s =
    (case s of [] \<Rightarrow> 0
     | c # s \<Rightarrow> if c = CHR ''e'' \<or> c = CHR ''E'' then (let (sg, s) = sign_of s in sg * digits (takeWhile is_digit s)) else 0)"

definition fraction :: "string \<Rightarrow> string" where
  "fraction s = (case s of [] \<Rightarrow> [] | c # s \<Rightarrow> if c = CHR ''.'' then takeWhile is_digit s else [])"

definition after_fraction :: "string \<Rightarrow> string" where
  "after_fraction s = (case s of [] \<Rightarrow> [] | c # t \<Rightarrow> if c = CHR ''.'' then dropWhile is_digit t else s)"

definition special :: "string \<Rightarrow> bool" where
  "special s \<longleftrightarrow> (case s of [] \<Rightarrow> False
     | c # t \<Rightarrow> c \<in> set ''iInN'' \<or> c = CHR ''0'' \<and> (case t of [] \<Rightarrow> False | d # _ \<Rightarrow> d \<in> set ''xX''))"

definition atof :: "string \<Rightarrow> flt option" where
  "atof s =
    (let (sg, s) = sign_of (dropWhile is_space s)
     in if special s then None
        else
          let ip = takeWhile is_digit s; rest = dropWhile is_digit s; fp = fraction rest
          in if ip @ fp = [] then Some (Fin 0)
             else Some (f64 (of_int (sg * digits (ip @ fp)) * 10 powi (exponent (after_fraction rest) - int (length fp)))))"

section \<open>State\<close>

datatype kval = KStr string | KInt int | KFlt flt

type_synonym kprintf = "string \<times> kval list"

text \<open>
  The variables the commands reach besides those of the box task.  \<open>switch_pad\<close> is the three bytes behind the single byte
  \<open>Car_BootSwitch\<close>, which the linker leaves as padding (\<open>mdk/Listings/rt1064.map\<close>).
\<close>

record shell = box +
  speed_forward :: flt
  adaptivePara :: int
  exposure_time :: int
  cir_line :: "int list"
  switch_pad :: int
  arg_count :: int
  arr_count :: int
  console :: "kprintf list"

definition kprintf :: "string \<Rightarrow> kval list \<Rightarrow> shell \<Rightarrow> shell" where
  "kprintf fmt xs s = s\<lparr>console := console s @ [(fmt, xs)]\<rparr>"

definition DEBUG_FLOAT :: int where [run_simps]: "DEBUG_FLOAT = 0"
definition DEBUG_INT :: int where [run_simps]: "DEBUG_INT = 1"

text \<open>What the \<open>void *\<close> of a registered parameter or array points to.\<close>

datatype cell = Car_Yaw_Controller_Ref | Speed_forward | TraceLine_Vx_Con_Kp | TraceLine_Vx_Con_Ki
  | TraceLine_Yaw_Con_Kp | TraceLine_Yaw_Con_Ki | TraceLine_Yaw_Con_Kd | Car_Yaw_Controller_Kp | Car_Yaw_Controller_Kd
  | AdaptivePara | Boot_Switch | Exposure_time | Left_broder | Right_broder | Mid_table | Cir_line

record arg_change =
  arg_name :: "string option"
  conp :: int
  arg :: "cell option"

section \<open>Cells\<close>

definition on_yaw :: "(Pos_PID_t \<Rightarrow> Pos_PID_t) \<Rightarrow> shell \<Rightarrow> shell" where
  "on_yaw f s = s\<lparr>sight := (sight s)\<lparr>the_car := (the_car (sight s))\<lparr>Car_Yaw_Controller := f (Car_Yaw_Controller (the_car (sight s)))\<rparr>\<rparr>\<rparr>"

definition on_vx :: "(Pos_PID_t \<Rightarrow> Pos_PID_t) \<Rightarrow> shell \<Rightarrow> shell" where
  "on_vx f s = s\<lparr>trc := (trc s)\<lparr>TraceLine_Vx_Con := f (TraceLine_Vx_Con (trc s))\<rparr>\<rparr>"

definition on_turn :: "(Pos_PID_t \<Rightarrow> Pos_PID_t) \<Rightarrow> shell \<Rightarrow> shell" where
  "on_turn f s = s\<lparr>trc := (trc s)\<lparr>TraceLine_Yaw_Con := f (TraceLine_Yaw_Con (trc s))\<rparr>\<rparr>"

fun get_float :: "cell \<Rightarrow> shell \<Rightarrow> flt option" where
  "get_float Car_Yaw_Controller_Ref s = Some (Ref (Car_Yaw_Controller (the_car (sight s))))"
| "get_float Speed_forward s = Some (speed_forward s)"
| "get_float TraceLine_Vx_Con_Kp s = Some (Kp (TraceLine_Vx_Con (trc s)))"
| "get_float TraceLine_Vx_Con_Ki s = Some (Ki (TraceLine_Vx_Con (trc s)))"
| "get_float TraceLine_Yaw_Con_Kp s = Some (Kp (TraceLine_Yaw_Con (trc s)))"
| "get_float TraceLine_Yaw_Con_Ki s = Some (Ki (TraceLine_Yaw_Con (trc s)))"
| "get_float TraceLine_Yaw_Con_Kd s = Some (Kd (TraceLine_Yaw_Con (trc s)))"
| "get_float Car_Yaw_Controller_Kp s = Some (Kp (Car_Yaw_Controller (the_car (sight s))))"
| "get_float Car_Yaw_Controller_Kd s = Some (Kd (Car_Yaw_Controller (the_car (sight s))))"
| "get_float _ s = None"

fun put_float :: "cell \<Rightarrow> flt \<Rightarrow> shell \<Rightarrow> shell option" where
  "put_float Car_Yaw_Controller_Ref v s = Some (on_yaw (\<lambda>p. p\<lparr>Ref := v\<rparr>) s)"
| "put_float Speed_forward v s = Some (s\<lparr>speed_forward := v\<rparr>)"
| "put_float TraceLine_Vx_Con_Kp v s = Some (on_vx (\<lambda>p. p\<lparr>Kp := v\<rparr>) s)"
| "put_float TraceLine_Vx_Con_Ki v s = Some (on_vx (\<lambda>p. p\<lparr>Ki := v\<rparr>) s)"
| "put_float TraceLine_Yaw_Con_Kp v s = Some (on_turn (\<lambda>p. p\<lparr>Kp := v\<rparr>) s)"
| "put_float TraceLine_Yaw_Con_Ki v s = Some (on_turn (\<lambda>p. p\<lparr>Ki := v\<rparr>) s)"
| "put_float TraceLine_Yaw_Con_Kd v s = Some (on_turn (\<lambda>p. p\<lparr>Kd := v\<rparr>) s)"
| "put_float Car_Yaw_Controller_Kp v s = Some (on_yaw (\<lambda>p. p\<lparr>Kp := v\<rparr>) s)"
| "put_float Car_Yaw_Controller_Kd v s = Some (on_yaw (\<lambda>p. p\<lparr>Kd := v\<rparr>) s)"
| "put_float _ v s = None"

text \<open>An \<open>int\<close> at the address of the byte \<open>Car_BootSwitch\<close> is that byte and the three behind it, low byte first.\<close>

fun get_int :: "cell \<Rightarrow> shell \<Rightarrow> int option" where
  "get_int AdaptivePara s = Some (adaptivePara s)"
| "get_int Boot_Switch s = Some (s32 (Car_BootSwitch (the_car (sight s)) + 256 * switch_pad s))"
| "get_int Exposure_time s = Some (exposure_time s)"
| "get_int _ s = None"

fun put_int :: "cell \<Rightarrow> int \<Rightarrow> shell \<Rightarrow> shell option" where
  "put_int AdaptivePara v s = Some (s\<lparr>adaptivePara := v\<rparr>)"
| "put_int Boot_Switch v s =
     Some (s\<lparr>sight := (sight s)\<lparr>the_car := (the_car (sight s))\<lparr>Car_BootSwitch := u8 v\<rparr>\<rparr>, switch_pad := v div 256 mod 16777216\<rparr>)"
| "put_int Exposure_time v s = Some (s\<lparr>exposure_time := v\<rparr>)"
| "put_int _ v s = None"

text \<open>The array at a pointer, read as \<open>int16\<close>: \<open>cir_line\<close> is an array of \<open>int\<close>, so its halves appear, the low one first.\<close>

fun get_int16s :: "cell \<Rightarrow> shell \<Rightarrow> int list option" where
  "get_int16s Left_broder s = Some (leftBroder (borders (sight s)))"
| "get_int16s Right_broder s = Some (rightBroder (borders (sight s)))"
| "get_int16s Mid_table s = Some (MID_Table (borders (sight s)))"
| "get_int16s Cir_line s = Some (concat (map (\<lambda>v. [s16 v, s16 (v div 65536)]) (cir_line s)))"
| "get_int16s _ s = None"

section \<open>The registers\<close>

definition entry :: "string \<Rightarrow> int \<Rightarrow> cell \<Rightarrow> arg_change" where
  "entry n k c = \<lparr>arg_name = Some n, conp = k, arg = Some c\<rparr>"

definition no_entry :: arg_change where
  "no_entry = \<lparr>arg_name = None, conp = 0, arg = None\<rparr>"

definition arr_register :: "arg_change list" where
  "arr_register = [entry ''leftb'' imgRow Left_broder, entry ''rightb'' imgRow Right_broder, entry ''midl'' imgRow Mid_table,
     entry ''cir'' imgCol Cir_line, no_entry]"

definition arg_register :: "arg_change list" where
  "arg_register = [entry ''Yaw'' DEBUG_FLOAT Car_Yaw_Controller_Ref, entry ''Vy'' DEBUG_FLOAT Speed_forward,
     entry ''VxKp'' DEBUG_FLOAT TraceLine_Vx_Con_Kp, entry ''VxKi'' DEBUG_FLOAT TraceLine_Vx_Con_Ki,
     entry ''YawKp'' DEBUG_FLOAT TraceLine_Yaw_Con_Kp, entry ''YawKi'' DEBUG_FLOAT TraceLine_Yaw_Con_Ki,
     entry ''YawKd'' DEBUG_FLOAT TraceLine_Yaw_Con_Kd, entry ''AngleKp'' DEBUG_FLOAT Car_Yaw_Controller_Kp,
     entry ''AngleKd'' DEBUG_FLOAT Car_Yaw_Controller_Kd, entry ''adPara'' DEBUG_INT AdaptivePara,
     entry ''Car_Switch'' DEBUG_INT Boot_Switch, entry ''ex_time'' DEBUG_INT Exposure_time, no_entry]"

text \<open>\<open>while(p->arg != NULL)\<close> from the start of a register; running off its end is \<open>None\<close>.\<close>

fun count_args :: "arg_change list \<Rightarrow> int \<Rightarrow> int option" where
  "count_args [] n = None"
| "count_args (a # as) n = (if arg a \<noteq> None then count_args as (s32 (n + 1)) else Some n)"

definition debug_tool_init :: "shell \<Rightarrow> shell option" where
  "debug_tool_init s =
    do {
      n \<leftarrow> count_args arg_register (arg_count s);
      m \<leftarrow> count_args arr_register (arr_count s);
      Some (s\<lparr>arg_count := n, arr_count := m\<rparr>)
    }"

text \<open>\<open>Inl\<close> is the entry found, \<open>Inr\<close> that there is none; a name \<open>NULL\<close> must not be compared.\<close>

definition match_arg :: "string \<Rightarrow> arg_change list \<Rightarrow> int \<Rightarrow> (arg_change + unit) option" where
  "match_arg str register n =
    for_break (\<lambda>i _. do {
        a \<leftarrow> rd register i;
        nm \<leftarrow> arg_name a;
        Some (if nm = str then Inl a else Inr ())
      }) [0..n - 1] ()"

section \<open>Commands\<close>

definition ClassState :: "shell \<Rightarrow> (printed list \<times> shell) option" where
  "ClassState s = do { out \<leftarrow> Class_Debug (class_table (sight s)); Some (out, s) }"

definition MCXMode :: "string list \<Rightarrow> shell \<Rightarrow> shell" where
  "MCXMode argv s = s"

definition CarStart :: "shell \<Rightarrow> shell" where
  "CarStart s = s\<lparr>sight := (sight s)\<lparr>Start_Flag := 1\<rparr>\<rparr>"

definition CarStop :: "shell \<Rightarrow> (io list \<times> shell) option" where
  "CarStop s =
    do {
      (es, c) \<leftarrow> Car_Stop (the_car (sight s));
      Some (es, kprintf ''Car Stop'' [] (s\<lparr>sight := (sight s)\<lparr>the_car := c\<rparr>\<rparr>))
    }"

definition GetRS :: "shell \<Rightarrow> (shown list \<times> shell) option" where
  "GetRS s =
    (case Current_Road (sight s) of
      LoseRoads \<Rightarrow> Some ([], kprintf ''CurrentRod:LoseRoads'' [] s)
    | NormalRoads \<Rightarrow> Some ([], kprintf ''CurrentRod:NormalRoads'' [] s)
    | CrossRoads \<Rightarrow> Some ([], kprintf ''CurrentRod:CrossRoads'' [] s)
    | CirculeRoads \<Rightarrow> Some ([], kprintf ''CurrentRod:CirculeRoads'' [] s)
    | CornerRoads \<Rightarrow> Some ([], kprintf ''CurrentRod:CornerRoads'' [] s)
    | _ \<Rightarrow>
        do {
          e \<leftarrow> Vision_ErrorLogin (feat (sight s));
          b \<leftarrow> Vision_BroderPrint (borders (sight s));
          Some (e @ b, s)
        })"

definition print_arr :: "arg_change \<Rightarrow> shell \<Rightarrow> shell option" where
  "print_arr a s =
    do {
      c \<leftarrow> arg a;
      xs \<leftarrow> get_int16s c s;
      for_each (\<lambda>i s. do { v \<leftarrow> rd xs i; Some (kprintf ''%d'' [KInt v] s) }) [0..conp a - 1] s
    }"

definition arrprint_help :: "shell \<Rightarrow> shell" where
  "arrprint_help s = fold (\<lambda>l. kprintf l [])
    [''you can use like this:'', ''arrprint <_target_>  -----   printf target content in an array'',
     ''arrprint show        -----   show the array in the register'', ''arrprint help        -----   get help information''] s"

text \<open>Every path ends at the label \<open>help\<close>.\<close>

definition arrprint :: "string list \<Rightarrow> shell \<Rightarrow> shell option" where
  "arrprint argv s =
    do {
      s \<leftarrow>
        (if length argv = 2 then
           if argv ! 1 = ''show'' then
             for_each (\<lambda>i s. do { a \<leftarrow> rd arr_register i; nm \<leftarrow> arg_name a; Some (kprintf ''|%-16s|'' [KStr nm] s) })
               [0..arr_count s - 1] (kprintf ''|      name      |'' [] s)
           else
             do {
               p \<leftarrow> match_arg (argv ! 1) arr_register (arr_count s);
               (case p of Inl a \<Rightarrow> print_arr a s | Inr _ \<Rightarrow> Some s)
             }
         else Some s);
      Some (arrprint_help s)
    }"

definition setarg_help :: "shell \<Rightarrow> shell" where
  "setarg_help s = fold (\<lambda>l. kprintf l [])
    [''you can use like this:'', ''setarg show             ----- show the arg in the register '',
     ''setarg <target> <value> ----- change the value of the target'', ''setarg help             ----- get help information''] s"

definition show_arg :: "int \<Rightarrow> shell \<Rightarrow> shell option" where
  "show_arg i s =
    do {
      a \<leftarrow> rd arg_register i;
      nm \<leftarrow> arg_name a;
      c \<leftarrow> arg a;
      let s = kprintf ''|%-16s|'' [KStr nm] s;
      if conp a = DEBUG_FLOAT then do { v \<leftarrow> get_float c s; Some (kprintf ''%-16.6f|'' [KFlt v] s) }
      else if conp a = DEBUG_INT then do { v \<leftarrow> get_int c s; Some (kprintf ''%-16d|'' [KInt v] s) }
      else Some s
    }"

definition change_arg :: "arg_change \<Rightarrow> string \<Rightarrow> shell \<Rightarrow> shell option" where
  "change_arg a text s =
    do {
      nm \<leftarrow> arg_name a;
      c \<leftarrow> arg a;
      if conp a = DEBUG_FLOAT then
        do {
          d \<leftarrow> atof text;
          s \<leftarrow> put_float c (d2f d) s;
          v \<leftarrow> get_float c s;
          Some (kprintf ''setarg: arg %s have been changed to %f !'' [KStr nm, KFlt v] s)
        }
      else if conp a = DEBUG_INT then
        do {
          n \<leftarrow> atoi text;
          s \<leftarrow> put_int c n s;
          v \<leftarrow> get_int c s;
          Some (kprintf ''setarg: arg %s have been changed to %d !'' [KStr nm, KInt v] s)
        }
      else Some s
    }"

definition setarg :: "string list \<Rightarrow> shell \<Rightarrow> shell option" where
  "setarg argv s =
    (if length argv = 2 \<and> argv ! 1 = ''show'' then
       for_each show_arg [0..arg_count s - 1] (kprintf ''|      name      |      value     |'' [] s)
     else if length argv = 3 then
       do {
         p \<leftarrow> match_arg (argv ! 1) arg_register (arg_count s);
         (case p of Inl a \<Rightarrow> change_arg a (argv ! 2) s | Inr _ \<Rightarrow> Some s)
       }
     else Some (setarg_help s))"

text \<open>The help of \<open>CarMove\<close> follows every call.\<close>

definition CarMove :: "(car \<Rightarrow> car) \<Rightarrow> string list \<Rightarrow> shell \<Rightarrow> (io list \<times> shell) option" where
  "CarMove between argv s =
    do {
      (es, s) \<leftarrow>
        (if length argv = 4 then
           do {
             dx \<leftarrow> atof (argv ! 1);
             dy \<leftarrow> atof (argv ! 2);
             dt \<leftarrow> atof (argv ! 3);
             (es, c) \<leftarrow> Car_DistanceMotion between (d2f dx) (d2f dy) (d2f dt) (the_car (sight s));
             Some (es, s\<lparr>sight := (sight s)\<lparr>the_car := c\<rparr>\<rparr>)
           }
         else Some ([], s));
      Some (es, kprintf ''CarMove 100 0 1        ----- x move 100, y move 0 in 1s'' [] (kprintf ''you can use like this:'' [] s))
    }"

text \<open>\<open>F.my_segment_L->type\<close> is the type of the first segment for every \<open>i\<close>.\<close>

fun seg_format :: "bool \<Rightarrow> segment_type \<Rightarrow> string" where
  "seg_format left straight_segment = (if left then ''left_seg%d:Straight'' else ''right_seg%d:Straight'')"
| "seg_format left lose_segment = (if left then ''left_seg%d:Lose'' else ''right_seg%d:Lose'')"
| "seg_format left corner_segment = (if left then ''left_seg%d:Corner'' else ''right_seg%d:Corner'')"
| "seg_format left arc_segment = (if left then ''left_seg%d:Arc'' else ''right_seg%d:Arc'')"
| "seg_format left NULL_segment = (if left then ''left_seg%d:NULL'' else ''right_seg%d:NULL'')"

definition GetSeg_side :: "bool \<Rightarrow> shell \<Rightarrow> shell option" where
  "GetSeg_side left s =
    for_each (\<lambda>i s. do { g \<leftarrow> rd (my_segment (side_of left (sight s))) 0; Some (kprintf (seg_format left (seg_type g)) [KInt i] s) })
      (downto (segment_n (side_of left (sight s))) 1) s"

definition GetSeg :: "shell \<Rightarrow> shell option" where
  "GetSeg s = do { s \<leftarrow> GetSeg_side True s; GetSeg_side False s }"

section \<open>Numerals\<close>

lemma digit_not_other: "is_digit c \<Longrightarrow> \<not> is_space c" "is_digit c \<Longrightarrow> c \<noteq> CHR ''-''" "is_digit c \<Longrightarrow> c \<noteq> CHR ''+''"
    "is_digit c \<Longrightarrow> c \<notin> set ''iInN''" "is_digit c \<Longrightarrow> c \<notin> set ''xX''"
  by (auto simp: is_digit_def is_space_def)

lemma read_sign: "sign_of (dropWhile is_space (dec n)) = (if n < 0 then (- 1, dec_nat (nat (- n))) else (1, dec_nat (nat n)))"
proof -
  obtain c s where "dec_nat (nat n) = c # s" "is_digit c" by (rule dec_nat_cases)
  then show ?thesis using digit_not_other [of c] by (auto simp: dec_def is_space_def)
qed

lemma atoi_dec: "- 2147483648 \<le> n \<Longrightarrow> n \<le> 2147483647 \<Longrightarrow> atoi (dec n) = Some n"
  by (simp add: atoi_def read_sign takeWhile_digits dec_nat_digits)

lemma not_special: "\<not> special (dec_nat n)"
proof -
  obtain c s where s: "dec_nat n = c # s" "is_digit c" "list_all is_digit s" by (rule dec_nat_cases)
  then show ?thesis using digit_not_other [of c] digit_not_other [of "hd s"] by (cases s) (auto simp: special_def)
qed

lemma atof_dec: "atof (dec n) = Some (f64 (of_int n))"
  using not_special dec_nat_digits(3)
  by (simp add: atof_def read_sign takeWhile_digits dec_nat_digits(1) fraction_def after_fraction_def exponent_def)

section \<open>Changing a parameter\<close>

definition cell_value :: "cell \<Rightarrow> shell \<Rightarrow> kval option" where
  "cell_value c s = (case get_float c s of Some v \<Rightarrow> Some (KFlt v) | None \<Rightarrow> map_option KInt (get_int c s))"

text \<open>The arg_entries with a name, and the row the list shows for one.\<close>

definition arg_entries :: "(string \<times> int \<times> cell) list" where
  "arg_entries = [(''Yaw'', 0, Car_Yaw_Controller_Ref), (''Vy'', 0, Speed_forward), (''VxKp'', 0, TraceLine_Vx_Con_Kp),
     (''VxKi'', 0, TraceLine_Vx_Con_Ki), (''YawKp'', 0, TraceLine_Yaw_Con_Kp), (''YawKi'', 0, TraceLine_Yaw_Con_Ki),
     (''YawKd'', 0, TraceLine_Yaw_Con_Kd), (''AngleKp'', 0, Car_Yaw_Controller_Kp), (''AngleKd'', 0, Car_Yaw_Controller_Kd),
     (''adPara'', 1, AdaptivePara), (''Car_Switch'', 1, Boot_Switch), (''ex_time'', 1, Exposure_time)]"

definition row :: "shell \<Rightarrow> string \<times> int \<times> cell \<Rightarrow> kprintf list" where
  "row s e = (case e of (n, k, c) \<Rightarrow> [(''|%-16s|'', [KStr n]), (if k = 0 then ''%-16.6f|'' else ''%-16d|'', [the (cell_value c s)])])"

lemma match_entries: "(n, k, c) \<in> set arg_entries \<Longrightarrow> match_arg n arg_register 12 = Some (Inl (entry n k c))"
proof -
  have "list_all (\<lambda>(n, k, c). match_arg n arg_register 12 = Some (Inl (entry n k c))) arg_entries" by code_simp
  then show "(n, k, c) \<in> set arg_entries \<Longrightarrow> match_arg n arg_register 12 = Some (Inl (entry n k c))" by (auto simp: list_all_iff)
qed

lemma register_entries: "i < 12 \<Longrightarrow> rd arg_register (int i) = Some (case arg_entries ! i of (n, k, c) \<Rightarrow> entry n k c)"
  by (simp add: arg_register_def arg_entries_def less_Suc_eq numeral_nat DEBUG_FLOAT_def DEBUG_INT_def) auto

lemma cell_value_console [simp]: "cell_value c (s\<lparr>console := x\<rparr>) = cell_value c s"
  by (cases c) (simp_all add: cell_value_def)

lemma cell_value_kprintf [simp]: "cell_value c (kprintf fmt xs s) = cell_value c s"
  by (simp add: kprintf_def)

lemma arg_count_kprintf [simp]: "arg_count (kprintf fmt xs s) = arg_count s"
  by (simp add: kprintf_def)

lemma put_float_frame:
  assumes "put_float c v s = Some s'"
  shows "get_float c s' = Some v" "console s' = console s" "arg_count s' = arg_count s" "d \<noteq> c \<Longrightarrow> cell_value d s' = cell_value d s"
  subgoal using assms by (cases c) (auto simp: on_yaw_def on_vx_def on_turn_def)
  subgoal using assms by (cases c) (auto simp: on_yaw_def on_vx_def on_turn_def)
  subgoal using assms by (cases c) (auto simp: on_yaw_def on_vx_def on_turn_def)
  subgoal premises d
    using assms d by (cases c; simp; cases d; clarsimp simp: on_yaw_def on_vx_def on_turn_def cell_value_def)
  done

lemma low_bytes:
  assumes "- 2147483648 \<le> v" and "v \<le> 2147483647"
  shows "s32 (u8 v + 256 * (v div 256 mod 16777216)) = v"
proof -
  have "u8 v + 256 * (v div 256 mod 16777216) = v mod 4294967296"
    using zmod_zmult2_eq [of 16777216 v 256] by (simp add: u8_def)
  then have "s32 (u8 v + 256 * (v div 256 mod 16777216)) = (v + 2147483648) mod 4294967296 - 2147483648"
    by (simp only: s32_def mod_add_left_eq)
  also have "(v + 2147483648) mod 4294967296 = v + 2147483648" using assms by (intro mod_pos_pos_trivial) linarith+
  finally show ?thesis by simp
qed

lemma put_int_frame:
  assumes "put_int c v s = Some s'"
  shows "- 2147483648 \<le> v \<Longrightarrow> v \<le> 2147483647 \<Longrightarrow> get_int c s' = Some v" "get_float c s' = None"
    "console s' = console s" "arg_count s' = arg_count s" "d \<noteq> c \<Longrightarrow> cell_value d s' = cell_value d s"
  subgoal using assms by (cases c) (auto simp: low_bytes)
  subgoal using assms by (cases c) auto
  subgoal using assms by (cases c) auto
  subgoal using assms by (cases c) auto
  subgoal premises d
    using assms d by (cases c; simp; cases d; clarsimp simp: cell_value_def)
  done

text \<open>Which kind of cell an entry has.\<close>

lemma entry_kinds:
  assumes "(n, k, c) \<in> set arg_entries"
  shows "k = 0 \<and> (\<forall>s v. put_float c v s \<noteq> None) \<and> (\<forall>s. get_float c s \<noteq> None) \<or>
    k = 1 \<and> (\<forall>s v. put_int c v s \<noteq> None) \<and> (\<forall>s. get_float c s = None) \<and> (\<forall>s. get_int c s \<noteq> None)"
  using assms by (auto simp: arg_entries_def)

lemma show_row:
  assumes "i < 12"
  shows "show_arg (int i) s = Some (s\<lparr>console := console s @ row s (arg_entries ! i)\<rparr>)"
proof -
  obtain n k c where e: "arg_entries ! i = (n, k, c)" by (cases "arg_entries ! i")
  then have "(n, k, c) \<in> set arg_entries" using assms nth_mem [of i arg_entries] by (simp add: arg_entries_def)
  then have kinds: "k = 0 \<and> get_float c s \<noteq> None \<or> k = 1 \<and> get_float c s = None \<and> get_int c s \<noteq> None"
    using entry_kinds by blast
  have "get_float c (kprintf f xs s) = get_float c s" "get_int c (kprintf f xs s) = get_int c s" for f xs
    by (cases c; simp add: kprintf_def)+
  then show ?thesis
    using register_entries [OF assms] e kinds
    by (cases "get_float c s"; cases "get_int c s")
      (auto simp: show_arg_def entry_def row_def cell_value_def DEBUG_FLOAT_def DEBUG_INT_def, (simp_all add: kprintf_def)?)
qed

lemma show_args:
  assumes "arg_count s = 12"
  shows "\<exists>s'. setarg [cmd, ''show''] s = Some s' \<and> console s' = console s @ (''|      name      |      value     |'', []) # concat (map (row s) arg_entries)"
proof -
  have r: "row (s\<lparr>console := c\<rparr>) = row s" for s c
    by (simp add: row_def fun_eq_iff)
  have "for_each show_arg (map int [0..<n]) s = Some (s\<lparr>console := console s @ concat (map (row s) (take n arg_entries))\<rparr>)" if "n \<le> 12" for n s
    using that
  proof (induction n)
    case (Suc n)
    have "take (Suc n) arg_entries = take n arg_entries @ [arg_entries ! n]" using Suc.prems by (intro take_Suc_conv_app_nth) (simp add: arg_entries_def)
    with Suc show ?case by (simp add: for_each_append show_row r)
  qed simp
  from this [of 12 "kprintf ''|      name      |      value     |'' [] s"]
  have "for_each show_arg (map int [0..<12]) (kprintf ''|      name      |      value     |'' [] s) =
      Some (s\<lparr>console := console s @ (''|      name      |      value     |'', []) # concat (map (row s) arg_entries)\<rparr>)"
    by (simp add: kprintf_def r arg_entries_def)
  moreover have "map int [0..<12] = [0..11]" by code_simp
  ultimately show ?thesis using assms by (simp add: setarg_def)
qed

text \<open>
  C16: A parameter set from the shell is read back from the shell: once the registers are counted, for each of the twelve
  names and every integer n of up to 24 bits, setting the name to the numeral of n gives the parameter exactly that value and leaves every
  other parameter as it was, and the list printed next has one row per name, with n for this one.
\<close>

theorem setarg_round_trip:
  assumes "arg_count s = 12" and "(name, k, c) \<in> set arg_entries" and "\<bar>n\<bar> \<le> 16777216"
  shows "\<exists>s' s''. setarg [cmd, name, dec n] s = Some s' \<and> cell_value c s' = Some (if k = 0 then KFlt (Fin (of_int n)) else KInt n) \<and>
    (\<forall>d. d \<noteq> c \<longrightarrow> cell_value d s' = cell_value d s) \<and> setarg [cmd, ''show''] s' = Some s'' \<and>
    console s'' = console s' @ (''|      name      |      value     |'', []) # concat (map (row s') arg_entries)"
proof -
  have k: "k = 0 \<or> k = 1" using assms(2) by (auto simp: arg_entries_def)
  have "\<exists>s'. setarg [cmd, name, dec n] s = Some s' \<and> cell_value c s' = Some (if k = 0 then KFlt (Fin (of_int n)) else KInt n) \<and>
    (\<forall>d. d \<noteq> c \<longrightarrow> cell_value d s' = cell_value d s) \<and> arg_count s' = 12"
  proof (cases "k = 0")
    case True
    have d: "d2f (f64 (of_int n)) = Fin (of_int n)"
    proof -
      have "\<bar>of_int n :: rat\<bar> \<le> of_int 16777216" using assms(3) by (simp flip: of_int_abs add: of_int_le_numeral_iff)
      also have "\<dots> \<le> mx64" by (simp add: mx64_def)
      finally have "\<bar>of_int n :: rat\<bar> \<le> mx64" .
      then show ?thesis using assms(3) f32_of_int [of n] by (simp add: f64_Fin rnd64_of_int)
    qed
    obtain s' where s': "put_float c (Fin (of_int n)) s = Some s'" using entry_kinds [OF assms(2)] True by fastforce
    note s' = s' put_float_frame [OF s']
    then have "cell_value c s' = Some (KFlt (Fin (of_int n)))" by (simp add: cell_value_def)
    note s' = s' this
    show ?thesis
      using s' True assms(1) match_entries [OF assms(2)]
      by (simp add: setarg_def change_arg_def entry_def DEBUG_FLOAT_def atof_dec d)
  next
    case False
    then obtain s' where s': "put_int c n s = Some s'" using entry_kinds [OF assms(2)] by fastforce
    have "- 2147483648 \<le> n" "n \<le> 2147483647" using assms(3) by linarith+
    note s' = s' put_int_frame(1) [OF s' this] put_int_frame(2-5) [OF s'] this
    then have "cell_value c s' = Some (KInt n)" by (simp add: cell_value_def)
    note s' = s' this
    show ?thesis
      using s' False k assms(1) match_entries [OF assms(2)]
      by (simp add: setarg_def change_arg_def entry_def DEBUG_FLOAT_def DEBUG_INT_def atoi_dec)
  qed
  with show_args show ?thesis by blast
qed

definition shell_zero :: shell where
  "shell_zero = box.extend box_start \<lparr>speed_forward = Fin 0, adaptivePara = 6, exposure_time = 256, cir_line = replicate 188 0, switch_pad = 0,
     arg_count = 0, arr_count = 0, console = []\<rparr>"

lemma shell_zero_init: "debug_tool_init shell_zero = Some (shell_zero\<lparr>arg_count := 12, arr_count := 4\<rparr>)"
proof -
  have "count_args arg_register 0 = Some 12" "count_args arr_register 0 = Some 4" by code_simp+
  then show ?thesis by (simp add: debug_tool_init_def shell_zero_def box.extend_def)
qed

theorem setarg_round_trip_witness:
  "\<exists>s s' s''. debug_tool_init shell_zero = Some s \<and> setarg [''setarg'', ''adPara'', dec (- 42)] s = Some s' \<and>
    cell_value AdaptivePara s' = Some (KInt (- 42)) \<and> cell_value TraceLine_Vx_Con_Kp s' = cell_value TraceLine_Vx_Con_Kp s \<and>
    setarg [''setarg'', ''show''] s' = Some s'' \<and> (''%-16d|'', [KInt (- 42)]) \<in> set (console s'')"
proof -
  note i = shell_zero_init
  have e: "(''adPara'', 1, AdaptivePara) \<in> set arg_entries" by (simp add: arg_entries_def)
  have "(''%-16d|'', [KInt (- 42)]) \<in> set (concat (map (row s') arg_entries))" if "cell_value AdaptivePara s' = Some (KInt (- 42))" for s'
  proof -
    have "(''%-16d|'', [KInt (- 42)]) \<in> set (row s' (''adPara'', 1, AdaptivePara))" using that by (simp add: row_def)
    then show ?thesis using e by (simp only: set_concat set_map) blast
  qed
  then show ?thesis
    using setarg_round_trip [OF _ e, of "shell_zero\<lparr>arg_count := 12, arr_count := 4\<rparr>" "- 42" "''setarg''"] i by auto
qed

text \<open>The switch is one byte wide: set to 256 it is listed as 256 and is off.  A second initialisation doubles the counts.\<close>

lemma switch_low_byte:
  "Car_BootSwitch (the_car (sight (the (put_int Boot_Switch 256 s)))) = 0" "get_int Boot_Switch (the (put_int Boot_Switch 256 s)) = Some 256"
  by (simp_all add: u8_def s32_def)

lemma second_init_overruns:
  "\<exists>s. Option.bind (debug_tool_init shell_zero) debug_tool_init = Some s \<and> match_arg ''other'' arg_register (arg_count s) = None"
proof -
  have c: "count_args arg_register 0 = Some 12" "count_args arr_register 0 = Some 4" "count_args arg_register 12 = Some 24"
    "count_args arr_register 4 = Some 8" "match_arg ''other'' arg_register 24 = None" by code_simp+
  then show ?thesis by (simp add: debug_tool_init_def shell_zero_def box.extend_def)
qed

end
