(* ===== verification/System.thy ===== *)
theory System
  imports DebugTool
begin

text \<open>
  The program put together (\<open>user/src/main.c\<close>): initialisation of the parts, the loop of the main thread that waits for
  the start button, and the steps of all threads and interrupts on one state, in any order.
\<close>

section \<open>Start\<close>

text \<open>The blinking thread, one round.\<close>

definition led_pass :: "io list" where
  "led_pass = [Toggle B9, Delay 100]"





text \<open>One round of the main loop: the level of pin D16 (low: the start button is pressed) and the tick after the delay.\<close>

definition main_pass :: "bool \<Rightarrow> int \<Rightarrow> shell \<Rightarrow> io list \<times> shell" where
  "main_pass d16 now s =
    (if \<not> d16
     then ([Delay 2000, Delay 1],
           s\<lparr>sight := (sight s)\<lparr>the_car := Car_Start (the_car (sight s)), run_time := u32 now\<rparr>, speed_forward := i2f 300\<rparr>)
     else ([Delay 1], s))"

section \<open>Threads and interrupts\<close>

text \<open>A task of the box part on the whole state.\<close>

definition put_box :: "box \<Rightarrow> shell \<Rightarrow> shell" where
  "put_box b s = s\<lparr>sight := sight b, trc := trc b, mcx_link := mcx_link b, mt9v03x_finish_flag := mt9v03x_finish_flag b,
     art_link := art_link b, locate := locate b, push_img_bw := push_img_bw b\<rparr>"

definition box_task :: "flt \<times> int \<Rightarrow> outside list \<Rightarrow> shell \<Rightarrow> shell option" where
  "box_task junk rs s = map_option (\<lambda>b. put_box b s) (locate_box_pass junk rs (box.truncate s))"

text \<open>What the pass of the tracer takes from outside: the frame's garbage, image and ticks, its own ticks, and the rounds of the box task.\<close>

record trace_input =
  junk_of :: garbage
  waits :: "car \<Rightarrow> car"
  picture :: image
  frame_ticks :: "int \<times> int"
  pass_ticks :: "int \<times> int"
  box_junk :: "flt \<times> int"
  box_rounds :: "outside list"

datatype event =
    Motion imu_raw int counters
  | Shot
  | Trace trace_input
  | Button_loop bool int
  | Mcx_byte int
  | Art_byte int

text \<open>\<open>Inl\<close>: the tracer has finished the race and does not return.\<close>

fun step :: "event \<Rightarrow> shell \<Rightarrow> (io list \<times> (vision \<times> drawn list + shell)) option" where
  "step (Motion nxt tick q) s =
     do { (es, c) \<leftarrow> car_motion_pass nxt tick q (the_car (sight s)); Some (es, Inr (s\<lparr>sight := (sight s)\<lparr>the_car := c\<rparr>\<rparr>)) }"
| "step Shot s = Some ([], Inr (s\<lparr>mt9v03x_finish_flag := 1\<rparr>))"
| "step (Trace x) s =
     do {
       r \<leftarrow> trace_line_pass (Vision_Handle (junk_of x) (waits x) (fst (frame_ticks x)) (snd (frame_ticks x)) (picture x))
         (box_task (box_junk x) (box_rounds x)) (fst (pass_ticks x)) (snd (pass_ticks x)) (s\<lparr>sight := (sight s)\<lparr>events := []\<rparr>\<rparr>);
       Some (case r of Inl (v, ds) \<Rightarrow> (events v, Inl (v, ds)) | Inr s \<Rightarrow> (events (sight s), Inr s))
     }"
| "step (Button_loop d16 now) s = (case main_pass d16 now s of (es, s) \<Rightarrow> Some (es, Inr s))"
| "step (Mcx_byte b) s = do { m \<leftarrow> MCX_uart_callback True b (mcx_link s); Some ([], Inr (s\<lparr>mcx_link := m\<rparr>)) }"
| "step (Art_byte b) s = do { a \<leftarrow> Art_uart_callback True b (art_link s); Some ([], Inr (s\<lparr>art_link := a\<rparr>)) }"


section \<open>What a frame does to a car that is switched off\<close>

definition same_car :: "vision \<Rightarrow> vision \<Rightarrow> bool" where
  "same_car v v' \<longleftrightarrow> the_car v' = the_car v \<and> events v' = events v"

definition no_duty :: "io list \<Rightarrow> bool" where
  "no_duty es \<longleftrightarrow> (\<forall>p. duties p es = [])"

text \<open>The car stays off, its speed and its motors as they are, and no duty is set.\<close>

definition rests :: "vision \<Rightarrow> vision \<Rightarrow> bool" where
  "rests v v' \<longleftrightarrow> (Car_BootSwitch (the_car v) = 0 \<longrightarrow> Car_BootSwitch (the_car v') = 0 \<and> Car_Speed (the_car v') = Car_Speed (the_car v) \<and>
     mot (the_car v') = mot (the_car v)) \<and> (no_duty (events v) \<longrightarrow> no_duty (events v'))"


lemma same_ops [simp]:
  "same_car u (set_border l b v) = same_car u v" "same_car u (set_side l t v) = same_car u v" "same_car u (say xs v) = same_car u v"
  "same_car u (set_tick n v) = same_car u v" "same_car u (set_state n v) = same_car u v" "same_car u (set_angle v) = same_car u v"
  "same_car u (tick_to n m msg v) = same_car u v" "same_car u (v\<lparr>Current_Road := r\<rparr>) = same_car u v" "same_car u (v\<lparr>circ := c\<rparr>) = same_car u v"
  "same_car u (v\<lparr>borders := s\<rparr>) = same_car u v" "same_car u (v\<lparr>cross_state := n\<rparr>) = same_car u v" "same_car u (v\<lparr>cir_speed_flag := n\<rparr>) = same_car u v"
  by (simp_all add: same_car_def set_border_def set_side_def say_def set_tick_def set_state_def set_angle_def tick_to_def Let_def)




lemma bind_same:
  assumes "Option.bind m f = Some v'" and "\<And>x. m = Some x \<Longrightarrow> f x = Some v' \<Longrightarrow> same_car v v'"
  shows "same_car v v'"
  using assms by (cases m) auto






lemma rests_ops [simp]:
  "rests u (say xs v) = rests u v" "rests u (v\<lparr>Current_Road := r\<rparr>) = rests u v" "rests u (v\<lparr>circ := c\<rparr>) = rests u v"
  "rests u (v\<lparr>borders := s\<rparr>) = rests u v" "rests u (v\<lparr>cross_state := n\<rparr>) = rests u v" "rests u (v\<lparr>cir_speed_flag := n\<rparr>) = rests u v"
  "rests u (set_state n v) = rests u v" "rests u (set_tick n v) = rests u v" "rests u (set_angle v) = rests u v"
  "rests u (v\<lparr>L_or_R_Cross := n\<rparr>) = rests u v" "rests (v\<lparr>cir_speed_flag := n\<rparr>) w = rests v w"
  by (simp_all add: rests_def say_def set_state_def set_tick_def set_angle_def)









lemma flag_rests: "rests (v\<lparr>cir_speed_flag := n\<rparr>) w \<Longrightarrow> rests v w"
  by simp

















section \<open>The camera at the start\<close>

lemma camera_texts [simp]:
  "ips200_show_string 0 0 ''mt9v03x init.'' = Some (Chars 0 0 ''mt9v03x init.'')"
  "ips200_show_string 0 16 ''mt9v03x reinit.'' = Some (Chars 0 16 ''mt9v03x reinit.'')"
  "ips200_show_string 0 16 ''init success.'' = Some (Chars 0 16 ''init success.'')"
  by code_simp+



lemma duties_waits [simp]: "duties p (replicate n (Delay t)) = []"
  by (induction n) simp_all


section \<open>The car waits for the button\<close>



section \<open>A box starts the car\<close>

definition keeps_on :: "(car \<Rightarrow> car) \<Rightarrow> bool" where
  "keeps_on f \<longleftrightarrow> (\<forall>c. Car_BootSwitch c \<noteq> 0 \<longrightarrow> Car_BootSwitch (f c) \<noteq> 0)"

abbreviation switched :: "box \<Rightarrow> bool" where
  "switched b \<equiv> Car_BootSwitch (the_car (sight b)) \<noteq> 0"

lemma speed_switch [simp]: "Car_BootSwitch (Car_Change_Speed x y w c) = Car_BootSwitch c"
  by (simp add: Car_Change_Speed_def Let_def)

lemma drive_switch [simp]: "Car_BootSwitch (the_car (sight (drive x y w b))) = Car_BootSwitch (the_car (sight b))"
  by (simp add: drive_def on_car_def)

lemma use_switch [simp]: "sight (snd (use_long b)) = sight b" "sight (snd (use_dir b)) = sight b" "sight (snd (use_trans b)) = sight b"
  by (simp_all add: use_long_def use_dir_def use_trans_def split_beta)

lemma halt_switch [simp]: "keeps_on (meanwhile inp) \<Longrightarrow> switched b \<Longrightarrow> switched (halt inp b)"
  by (simp add: halt_def keeps_on_def on_car_def)

lemma rotate_switch [simp]: "Car_BootSwitch (Car_Rotate x c) = Car_BootSwitch c"
  by (simp add: Car_Rotate_def Car_Change_Yaw_def Let_def)

lemma distance_switch:
  assumes "Car_DistanceMotion f x y d c = Some (es, c')" and "keeps_on f" and "Car_BootSwitch c \<noteq> 0"
  shows "Car_BootSwitch c' \<noteq> 0"
proof -
  from assms(1) obtain e c1 where s: "Car_DistanceMotion_start x y d c = Some (e, c1)" "c' = snd (Car_DistanceMotion_end (f c1))"
    unfolding Car_DistanceMotion_def bind_eq_Some_conv Let_def by (auto simp: split_beta)
  then have "Car_BootSwitch c1 = Car_BootSwitch c"
    unfolding Car_DistanceMotion_start_def bind_eq_Some_conv Let_def by auto
  moreover have "Car_BootSwitch c' = Car_BootSwitch (f c1)" by (simp add: s(2) Car_DistanceMotion_end_def Let_def)
  ultimately show ?thesis using assms(2,3) by (simp add: keeps_on_def)
qed

lemma push_box_switch:
  assumes "push_box f ls side c = Some (es, c')" and "keeps_on f" and "Car_BootSwitch c \<noteq> 0"
  shows "Car_BootSwitch c' \<noteq> 0"
proof -
  from assms(1) obtain e c1 where d: "Car_DistanceMotion f (i2f 0) (i2f (- 30)) (d2f (dlit (7 / 10)))
      (f (Car_Change_Speed (i2f 0) (i2f 0) (i2f 0) (f (Car_Change_Speed (i2f 0) (i2f 300) (i2f 0) c)))) = Some (e, c1)"
    "Car_BootSwitch c' = Car_BootSwitch c1"
    by (auto simp: push_box_def Let_def split: Option.bind_splits prod.splits)
  show ?thesis unfolding d(2) by (rule distance_switch [OF d(1) assms(2)]) (use assms(2,3) in \<open>simp add: keeps_on_def\<close>)
qed

lemma approach_switch:
  assumes "approach inp (k, b) = Some (k', b')" and "keeps_on (meanwhile inp)" and "switched b"
  shows "switched b'"
proof -
  let ?b = "drive (i2f 0) (fst (use_long b)) (fst (use_dir (snd (use_long b)))) (snd (use_dir (snd (use_long b))))"
  from assms(1) have "sight b' = sight ?b \<or> (\<exists>tab. sight b' = (sight (halt inp ?b))\<lparr>class_table := tab\<rparr>)"
    by (auto simp: approach_def Let_def split_beta split: Option.bind_splits if_splits)
  then show ?thesis using assms(2,3) halt_switch [OF assms(2), of ?b] by auto
qed

lemma circle_switch: "keeps_on (meanwhile inp) \<Longrightarrow> switched b \<Longrightarrow> switched (snd (circle inp m (k, b)))"
  by (simp add: circle_def Let_def split_beta on_car_def)

lemma push_switch:
  assumes "push inp (k, b) = Some (k', b')" and "keeps_on (meanwhile inp)" and "switched b"
  shows "switched b'"
proof -
  let ?b = "drive (fst (use_trans b)) (fst (use_long (snd (use_trans b)))) (i2f 0) (snd (use_long (snd (use_trans b))))"
  from assms(1) have "sight b' = sight ?b \<or> (\<exists>es c. push_box (meanwhile inp) (levels inp) (l_or_r k) (the_car (sight ?b)) = Some (es, c) \<and>
      the_car (sight b') = (meanwhile inp c)\<lparr>Car_Speed_ConRight := Con_By_TraceLine\<rparr>)"
    by (auto simp: push_def Let_def split_beta on_car_def split: Option.bind_splits if_splits)
  then show ?thesis using push_box_switch [OF _ assms(2), of "levels inp" "l_or_r k" "the_car (sight ?b)"] assms(2,3)
    by (elim disjE exE conjE) (simp_all add: keeps_on_def)
qed

lemma search_switch: "switched b \<Longrightarrow> switched (snd (search (k, b)))"
  by (simp add: search_def Let_def split_beta)

lemma judge_switch: "judge_frame img b = Some (m, b') \<Longrightarrow> sight b' = sight b"
  by (auto simp: judge_frame_def split: Option.bind_splits if_splits prod.splits)

lemma interrupts_switch: "keeps_on (meanwhile inp) \<Longrightarrow> switched b \<Longrightarrow> switched (interrupts inp b)"
  by (simp add: interrupts_def Let_def on_car_def keeps_on_def split: option.split prod.split)

lemma correct_switch:
  assumes "correct_step inp (k, b) = Some (k', b')" and "keeps_on (meanwhile inp)" and "switched b"
  shows "switched b'"
proof -
  from assms(1) obtain m b1 where j: "judge_frame (sensor inp) b = Some (m, b1)" by (auto simp: correct_step_def split: Option.bind_splits)
  then have on: "switched b1" using judge_switch [OF j] assms(3) by simp
  have c: "switched b2" if "circle inp m (k, b1) = (k2, b2)" for k2 b2 using circle_switch [OF assms(2) on, of m k] that by simp
  have s: "switched b2" if "search (k, b1) = (k2, b2)" for k2 b2 using search_switch [OF on, of k] that by simp
  show ?thesis
  proof (cases "MCX_rx_flag (mcx_link b1) = 0")
    case True
    then show ?thesis using assms(1) j on by (simp add: correct_step_def)
  next
    case False
    then obtain k2 b2 where "(if angle_state k = Angle_Correct_State then approach inp (k, b1)
        else if angle_state k = Location_Correct_State then Some (circle inp m (k, b1))
        else if angle_state k = Push_Box_State then push inp (k, b1) else Some (search (k, b1))) = Some (k2, b2)" "sight b' = sight b2"
      using assms(1) j by (auto simp: correct_step_def simp del: split_paired_Ex split: Option.bind_splits)
    then show ?thesis using c s approach_switch [OF _ assms(2) on, of k k2 b2] push_switch [OF _ assms(2) on, of k k2 b2]
      by (simp split: if_splits)
  qed
qed

lemma loop_switch:
  "correct_loop rs (k, b) = Some (k', b') \<Longrightarrow> \<forall>r \<in> set rs. keeps_on (meanwhile r) \<Longrightarrow> switched b \<Longrightarrow> switched b'"
proof (induction rs arbitrary: k b)
  case Nil
  then show ?case by (simp add: correct_loop.simps [of "[]"] split: if_splits)
next
  case (Cons r rs)
  show ?case
  proof (cases "finish_flag k = 0")
    case True
    then obtain k1 b1 where s: "correct_step r (k, interrupts r b) = Some (k1, b1)" "correct_loop rs (k1, b1) = Some (k', b')"
      using Cons.prems(1) by (auto simp: correct_loop.simps [of "r # rs"] split: Option.bind_splits)
    have "switched b1" using correct_switch [OF s(1)] interrupts_switch Cons.prems(2,3) by simp
    then show ?thesis using Cons.IH [OF s(2)] Cons.prems(2) by simp
  next
    case False
    then show ?thesis using Cons.prems by (simp add: correct_loop.simps [of "r # rs"])
  qed
qed

lemma task_switch:
  assumes "locate_box_pass junk rs b = Some b'" and "locate_debug_flag (locate b) = 1" and "\<forall>r \<in> set rs. keeps_on (meanwhile r)"
  shows "switched b'"
proof -
  from assms(1,2) obtain k where "correct_loop rs (\<lparr>angle_state = 0, start_angle = fst junk, finish_flag = 0, l_or_r = snd junk\<rparr>,
      on_car (\<lambda>c. (Car_Start c)\<lparr>Car_Speed_ConRight := Con_By_TraceLine\<rparr>) b) = Some (k, b')"
    by (auto simp: locate_box_pass_def locate_box_debug_def direction_correction_test1_def Let_def)
  from loop_switch [OF this assms(3)] show ?thesis by (simp add: on_car_def Car_Start_def)
qed

text \<open>
  C9: A box starts the car: when the tracer finds the detection flag set, the box task is in its normal mode (\<open>locate_debug_flag\<close> is 1, as its
  initialisation sets it) and comes to its end (the other threads do not
  switch the car off meanwhile), the car is switched on afterwards, also if the start button has never been pressed.
\<close>

theorem box_starts_car:
  assumes "step (Trace x) s = Some (es, Inr s')" and "MCX_Detection_Flag (mcx_link s) \<noteq> 0" and "locate_debug_flag (locate s) = 1"
    and "\<forall>r \<in> set (box_rounds x). keeps_on (meanwhile r)"
  shows "Car_BootSwitch (the_car (sight s')) \<noteq> 0"
proof -
  from assms(1) obtain u where "trace_line_pass (Vision_Handle (junk_of x) (waits x) (fst (frame_ticks x)) (snd (frame_ticks x)) (picture x))
         (box_task (box_junk x) (box_rounds x)) (fst (pass_ticks x)) (snd (pass_ticks x)) (s\<lparr>sight := (sight s)\<lparr>events := []\<rparr>\<rparr>) = Some (Inr u)"
    "s' = u"
    by (auto split: Option.bind_splits sum.split_asm prod.splits)
  then obtain w where w: "frame_step (Vision_Handle (junk_of x) (waits x) (fst (frame_ticks x)) (snd (frame_ticks x)) (picture x))
        (s\<lparr>sight := (sight s)\<lparr>events := []\<rparr>\<rparr>) = Some (Inr w)"
    and h: "Option.bind (hand_over (box_task (box_junk x) (box_rounds x)) (fst (pass_ticks x)) (pause 1 w))
      (\<lambda>b. Some (Inr (rearm (snd (pass_ticks x)) b))) = Some (Inr s' :: vision \<times> drawn list + shell)"
    by (auto simp: trace_line_pass_def split: Option.bind_splits sum.split_asm)
  have "mcx_link w = mcx_link s" "locate w = locate s"
    using w by (auto simp: frame_step_def split: if_splits Option.bind_splits sum.split_asm prod.splits)
  then obtain c d where d: "locate_box_pass (box_junk x) (box_rounds x) c = Some d" "locate c = locate s"
    "the_car (sight s') = the_car (sight d)"
    using h assms(2) by (auto simp: hand_over_def box_task_def put_box_def rearm_def pause_def box.truncate_def Let_def split: Option.bind_splits if_splits)
  show ?thesis using task_switch [OF d(1) _ assms(4)] assms(3) by (simp add: d(2,3))
qed

section \<open>The two situations are possible\<close>

definition no_junk :: garbage where
  "no_junk = \<lparr>mono_junk = \<lambda>_ _. 0, aver_junk = \<lambda>_. (0, 0)\<rparr>"

definition quiet_pass_input :: trace_input where
  "quiet_pass_input = \<lparr>junk_of = no_junk, waits = id, picture = [], frame_ticks = (0, 0), pass_ticks = (7, 8), box_junk = (Fin 0, 7), box_rounds = []\<rparr>"




definition in_sight :: outside where "in_sight = nothing_seen\<lparr>seen := Some (150, 60)\<rparr>"
definition in_reach :: outside where "in_reach = nothing_seen\<lparr>seen := Some (165, 110), arrivals := box_code\<rparr>"
definition at_side :: outside where
  "at_side = nothing_seen\<lparr>seen := Some (100, 130), framed := True, sensor := replicate 120 (replicate 188 200)\<rparr>"
definition pushed :: outside where
  "pushed = nothing_seen\<lparr>seen := Some (160, 119), levels := replicate 11 False @ replicate 11 True\<rparr>"

definition scene :: "outside list" where
  "scene = [in_sight, in_reach, at_side, pushed]"

lemma scene_ends:
  assumes "links b = (classes_zero, art_zero, sent, 0)" and "MCX_rx_flag (mcx_link b) = 0"
  shows "\<exists>k b'. direction_correction_test1 junk scene b = Some (k, b') \<and> mt9v03x_finish_flag b' = 0"
proof -
  have "\<exists>k b'. direction_correction_test1 junk ([] @ in_sight # [] @ in_reach # [] @ at_side # [] @ [pushed]) b = Some (k, b') \<and> l_or_r k = 1 \<and>
      links b' = (the (class_store Class_Num 2 classes_zero), art_zero, sent @ [82], 0) \<and> Car_Speed_ConRight (the_car (sight b')) = Con_By_TraceLine"
    by (rule task_ends [OF _ assms, where d = 3 and ?p3.0 = "(100, 130)" and bw = "replicate 120 (replicate 188 255)" and ?x1.0 = 150 and ?y1.0 = 60
          and ?x2.0 = 165 and ?y2.0 = 110 and ?x4.0 = 160 and ?y4.0 = 119 and p = "[]" and q = "[]" and r = "[]"])
      (simp_all add: in_sight_def in_reach_def at_side_def pushed_def nothing_seen_def box_code_vote bw_image_uniform direction_uniform)
  then show ?thesis by (auto simp: scene_def links_def)
qed

text \<open>The box task of the program, in the scene, is a service as the tracer needs it.\<close>

definition task_ready :: "shell \<Rightarrow> bool" where
  "task_ready s \<longleftrightarrow> class_table (sight s) = classes_zero \<and> art_link s = art_zero \<and> MCX_rx_flag (mcx_link s) = 0 \<and>
     mt9v03x_finish_flag s = 0 \<and> locate_debug_flag (locate s) = 1"

lemma scene_task:
  assumes "task_ready s"
  shows "\<exists>s'. box_task junk scene s = Some s' \<and> mt9v03x_finish_flag s' = 0"
proof -
  obtain k b' where "direction_correction_test1 junk scene (box.truncate s) = Some (k, b')" "mt9v03x_finish_flag b' = 0"
    using scene_ends [of "box.truncate s" "MCX_sent (mcx_link s)" junk] assms by (auto simp: task_ready_def links_def box.truncate_def)
  then show ?thesis using assms by (simp add: task_ready_def box_task_def locate_box_pass_def locate_box_debug_def box.truncate_def put_box_def)
qed

interpretation boxes: box_service "box_task junk scene" task_ready
  by unfold_locales (use scene_task in blast, simp_all add: task_ready_def pause_def)

definition box_seen :: shell where
  "box_seen = shell_zero\<lparr>sight := (sight shell_zero)\<lparr>the_car := car_zero\<lparr>Car_BootSwitch := 0\<rparr>\<rparr>, mcx_link := (mcx_link shell_zero)\<lparr>MCX_Detection_Flag := 1\<rparr>,
     locate := (locate shell_zero)\<lparr>locate_debug_flag := 1\<rparr>\<rparr>"

definition box_input :: trace_input where
  "box_input = quiet_pass_input\<lparr>box_rounds := scene\<rparr>"

theorem box_starts_car_witness:
  "\<exists>es s'. step (Trace box_input) box_seen = Some (es, Inr s') \<and> Car_BootSwitch (the_car (sight box_seen)) = 0 \<and>
     Car_BootSwitch (the_car (sight s')) \<noteq> 0"
proof -
  let ?s = "box_seen\<lparr>sight := (sight box_seen)\<lparr>events := []\<rparr>\<rparr>"
  have "task_ready ?s" "mt9v03x_finish_flag ?s = 0"
    by (simp_all add: task_ready_def box_seen_def shell_zero_def box.extend_def box_start_def picture_zero_def mcx_zero_def)
  then have "\<exists>es s'. step (Trace box_input) box_seen = Some (es, Inr s')"
    using boxes.pass_returns [of ?s "Vision_Handle no_junk id 0 0 []" "(Fin 0, 7)" 7 8] by (auto simp: box_input_def quiet_pass_input_def)
  then obtain es s' where r: "step (Trace box_input) box_seen = Some (es, Inr s')" by blast
  have "Car_BootSwitch (the_car (sight s')) \<noteq> 0"
    by (rule box_starts_car [OF r])
      (simp_all add: box_seen_def shell_zero_def box.extend_def box_start_def box_input_def quiet_pass_input_def keeps_on_def
        scene_def in_sight_def in_reach_def at_side_def pushed_def nothing_seen_def)
  moreover have "Car_BootSwitch (the_car (sight box_seen)) = 0"
    by (simp add: box_seen_def shell_zero_def box.extend_def box_start_def picture_zero_def car_zero_def)
  ultimately show ?thesis using r by blast
qed

end
