(* ===== verification/Spec2Isabelle.thy ===== *)
theory Spec2Isabelle
  imports Motor Pwm Session Attitude Imu Car StepMotor Uart Button Screen Classify UserMath Camera Circule Frame TraceLine BoxTask Fifo DebugTool System
begin

text \<open>
  Verification of the control program of a line-following car (RT1064, RT-Thread).  The program is \<open>project/code\<close>,
  \<open>project/user\<close> and \<open>project/mdk/camera.c\<close>; paths in the texts of the theories are relative to \<open>project\<close>, or to the
  repository where they begin with \<open>libraries\<close>.

  \<^bold>\<open>The program.\<close>  A camera looks at the track.  Each finished picture is binarized and searched for the two borders of
  the track; the borders are cut into straight, lost, corner and arc segments, from which the road element
  is recognised (crossing, roundabout, corner, zebra crossing); the element's handler redraws the borders; the weighted offset of the
  middle line is the input of two PID controllers, which command a body speed.  A motion thread integrates the yaw from a
  gyro, turns the body speed into three wheel speeds and closes the speed loop of each motor through an encoder.  A second camera (MCX) reports boxes beside the track: the tracer then stops and hands the car to the box task, which drives
  up to the box, lets a third camera (Art) classify it, drives round it, pushes it away and gives the car back.  Classes are collected in
  a table that is shown after the finish.  A serial shell changes parameters and shows state.

  \<^bold>\<open>Theories.\<close>  Each holds one part: its state, its operations in the order of the source, then the lemmas and the properties with their
  concrete instances.

  \<^item> \<open>Prelude\<close>: integer conversions of C, array accesses that may fail, counted loops with and without break; \<open>Floats\<close>: binary32 and
    binary64 as rationals with rounding (locale \<open>float_format\<close>, interpreted for both formats), bounds of expressions.
  \<^item> \<open>PID\<close>: \<open>code/src/PID.c\<close> (locale \<open>limited_controller\<close>: a controller whose output stays between its limits, interpreted for the
    position PID).  \<open>Board\<close>: pins and the list of outputs.  \<open>Motor\<close>: \<open>encoder.c\<close> and \<open>motor.c\<close>.  \<open>Attitude\<close>: \<open>Attitude_algorithm.c\<close>.
    \<open>Car\<close>: \<open>car.c\<close>.  \<open>StepMotor\<close>: \<open>step_motor.c\<close>.
  \<^item> Under them, two drivers: \<open>Pwm\<close>, what \<open>libraries/zf_driver/zf_driver_pwm.c\<close> and the functions of \<open>fsl_pwm.c\<close> it calls make of the duties, on
    the registers of the timers; \<open>Imu\<close>, the sensor \<open>libraries/zf_device/zf_device_icm20602.c\<close> whose readings \<open>Attitude\<close> takes as its samples.
    \<open>Session\<close>: the motion part and the PWM driver together over a whole drive.
  \<^item> \<open>Uart\<close>: \<open>MCXvision.c\<close> and \<open>art.c\<close> (locale \<open>framed_receiver\<close>: after any noise a receiver is ready again within one frame,
    interpreted for both links).  \<open>Button\<close>: \<open>button.c\<close>.  \<open>NumText\<close>: numbers as text
    (\<open>libraries/zf_common/zf_common_function.c\<close> and the number fields of the display driver).  \<open>Screen\<close>: points, lines and grey images of the display driver (\<open>libraries/zf_device/zf_device_ips200.c\<close>) as the pixels they
    write.  \<open>Classify\<close>: \<open>classify.c\<close> with the characters and texts of the driver.  \<open>UserMath\<close>: \<open>user/src/user_math.c\<close>.
  \<^item> \<open>Camera\<close>: \<open>mdk/camera.c\<close>.  \<open>Segment\<close>, \<open>Lines\<close>, \<open>Road\<close>, \<open>Circule\<close>: \<open>my_vision.c\<close>, in this order segmentation and feature points,
    drawing and tests, recognition with crossing and corner, roundabout with zebra crossing, dispatch and the frame \<open>Vision_Handle\<close>.  \<open>Frame\<close>: the
    frame of a straight road.
  \<^item> \<open>TraceLine\<close>: \<open>trace_line.c\<close> (locale \<open>box_service\<close>: what the tracer needs of a box task; interpreted in \<open>System\<close> for the task of the program).  \<open>LocateBox\<close>, \<open>BoxTask\<close>: \<open>locate_box.c\<close>, its operations and its runs.
  \<^item> \<open>Fifo\<close>: the ring buffer \<open>libraries/zf_common/zf_common_fifo.c\<close> and the debug port on it (locale \<open>bounded_queue\<close>: buffers that
    refine a queue of bounded length, interpreted for the ring).  \<open>DebugTool\<close>: the shell commands of \<open>debug_tool.c\<close>.
  \<^item> \<open>System\<close>: \<open>user/src/main.c\<close> with the start of the camera (\<open>Camera_and_Screen_Init\<close>); all threads and interrupts as steps on one state.

  \<^bold>\<open>How the state corresponds.\<close>  The globals and function-local statics of a source file are the fields of one record with the names of
  the source; where parts share globals, the record of the user contains that of the used one: \<open>car\<close> has the motors and the
  attitude, \<open>vision\<close> the car and the class table, \<open>robot\<close> the vision and the tracer, \<open>box\<close> and \<open>shell\<close> extend \<open>robot\<close>.  A handler returns its outputs (duties,
  levels, waits; printed or drawn things) as lists in program order.  \<open>None\<close> is what C leaves undefined: an array access out of
  range, a conversion that does not fit, a missing return value that is used, an assertion of a driver that stops the program, or a loop whose input ends.
  Reads of uninitialised locals are arguments named \<open>junk\<close>.  Where another thread runs during a wait, what it does is an argument
  (\<open>between\<close>, \<open>meanwhile\<close>); ticks, pins, sensor values and received bytes are arguments too.  Integers are kept exact and converted at each store
  (\<open>u8\<close> to \<open>s32\<close>), signed overflow is \<open>None\<close> where it can happen (\<open>chk32\<close>).

  \<^bold>\<open>Loops.\<close>  Counted loops are folds over their index lists.  The unbounded loops: \<open>servo_slow_ctrl\<close> has fuel, and the number
  of steps of a move is shown to be enough; \<open>fifo_wrap\<close> is a partial function, shown to end for a buffer that is not empty; the loops that wait for the Art
  camera, for pin C6 and for the rounds of the box task consume lists of what arrives, and are \<open>None\<close> when the list ends first; the theorems give
  arrivals with which they end.  The start of the camera consumes the list of the sensor's answers and ends with the first good one; the two loops of the
  inertial sensor count to 255 and always end.  The endless loop of the unused \<open>Vision_CirculeOut_Handle\<close> has fuel.  Endless threads are modelled by one pass, and \<open>System\<close> runs lists of passes.

  \<^bold>\<open>What is shown.\<close>
  \<^item> Safety of the drive: every duty of any session of speed commands and control passes is accepted by the driver and within its limit, the slew
    reaches its target, the registers of the PWM driver show on each pin the pulse of its last duty, wheel speeds are limited above, a stopped car and a car that waits for its button set no duty; a box starts it.
  \<^item> Vision: on a clean image the borders found are those of the track; on any image without an edge in the first columns no access leaves an array; the
    segmentation is that of the runs of lost and seen rows; feature points, sharpest corner, zebra test and drawn lines.
  \<^item> Road elements: the roundabout handler keeps its state machine well formed, and on an ideal sequence of pictures passes through all its states and
    gives the car back.
  \<^item> Tracing: on a straight road the car goes straight on; the commands stay within the limits in every reachable state, with the car switched on or
    off; the car steers towards the line when the offset keeps its sign and the gyro does not report the turn as going on; a box is handled once.  The box task comes to its end; the voted class is entered.
  \<^item> Links, arm, buttons, table: frames are received after any noise (the MCX link decodes them in the detection and the location mode only), moves and scripts complete, presses are debounced and reported once; the table, its listing and its
    screen, on which a number field shows the decimal numeral of the number; a line drawn on it stays within a pixel of the ideal line.  The set-up of the
    inertial sensor ends and reports its outcome; the samples are the numbers the sensor sends.
  \<^item> Serial side: the ring buffer refines a bounded queue and keeps its element type; what \<open>setarg\<close> writes is what it lists.

  \<^bold>\<open>Not modelled.\<close>  The interrupt vectors of \<open>user/src/isr.c\<close> (they only clear hardware flags; what interrupts bring are steps of \<open>System\<close>),
  \<open>system_perform.c\<close> and \<open>final.c\<close> (empty), the RT-Thread kernel, the SDK and the board drivers; of the latter only what inputs and results pass through: the
  PWM driver, the inertial sensor, the drawing calls of the display, the serial ring buffer.  The serial buses and the frequency of the clock
  are hardware: the bytes a chip answers and the frequency are arguments.  Threads take turns at the granularity of passes and of the waits inside a pass;
  preemption inside a computation is not modelled.  The sign of a floating zero is not kept (see \<open>Floats\<close>).
\<close>

end
